(* ===== verification/Prelude.thy ===== *)
theory Prelude
  imports Main "HOL-Library.AList" "HOL-Library.Word" "HOL-Library.Char_ord"
    "HOL-Library.Multiset"
    "HOL-Library.List_Lexorder" "HOL-Library.Monad_Syntax"
begin

text \<open>
  What the component theories share: the names of the machine types, the standard library
  operations the Rust sources use (hash maps, hash sets, UTF-8 validation, little-endian bytes,
  string splitting), loops over lists that may fail, and the interface of the two crates outside
  the repository that the buffer code calls (\<open>bytes\<close> and \<open>uuid\<close>).
\<close>

section \<open>Types and collections of lemmas\<close>

type_synonym byte = "8 word"
type_synonym u16 = "16 word"
type_synonym u32 = "32 word"
type_synonym u64 = "64 word"
type_synonym uuid = "128 word"

named_theorems hm_simps \<open>lookups after the hash map operations\<close>
named_theorems codec_simps \<open>reading back what a writer operation wrote\<close>
named_theorems step_inv \<open>operations keep a component's invariant\<close>

section \<open>Results\<close>

text \<open>A Rust \<open>Result\<close> is a sum, its error on the left; \<open>?\<close> is \<open>ebind\<close>.\<close>

definition ebind :: "'e + 'a \<Rightarrow> ('a \<Rightarrow> 'e + 'b) \<Rightarrow> 'e + 'b" where
  "ebind m f = (case m of Inl e \<Rightarrow> Inl e | Inr x \<Rightarrow> f x)"

lemma ebind_simps [simp]: "ebind (Inl e) f = Inl e" "ebind (Inr x) f = f x"
  by (simp_all add: ebind_def)

lemma ebind_eq_Inr: "ebind m f = Inr y \<longleftrightarrow> (\<exists>x. m = Inr x \<and> f x = Inr y)"
  by (cases m) auto

lemma ebind_cong [fundef_cong]:
  "m = m' \<Longrightarrow> (\<And>x. m' = Inr x \<Longrightarrow> f x = g x) \<Longrightarrow> ebind m f = ebind m' g"
  by (cases m') auto

section \<open>Loops that may stop\<close>

text \<open>A \<open>for\<close> loop over a list whose body may panic (\<open>None\<close>), threading a state.\<close>

fun foldM :: "('a \<Rightarrow> 's \<Rightarrow> 's option) \<Rightarrow> 'a list \<Rightarrow> 's \<Rightarrow> 's option" where
  "foldM f [] s = Some s"
| "foldM f (x # xs) s = Option.bind (f x s) (foldM f xs)"

lemma foldM_cong [fundef_cong]:
  "xs = ys \<Longrightarrow> s = t \<Longrightarrow> (\<And>x s. x \<in> set ys \<Longrightarrow> f x s = g x s) \<Longrightarrow> foldM f xs s = foldM g ys t"
proof (induction xs arbitrary: ys s t)
  case (Cons x xs)
  then show ?case by (cases "g x t") auto
qed simp

lemma foldM_append: "foldM f (xs @ ys) s = Option.bind (foldM f xs s) (foldM f ys)"
proof (induction xs arbitrary: s)
  case (Cons x xs)
  then show ?case by (cases "f x s") auto
qed simp

text \<open>\<open>for _ in 0..n\<close> collecting what a reader returns.\<close>

fun read_n :: "nat \<Rightarrow> ('s \<Rightarrow> ('a \<times> 's) option) \<Rightarrow> 's \<Rightarrow> ('a list \<times> 's) option" where
  "read_n 0 f s = Some ([], s)"
| "read_n (Suc n) f s =
     do { (x, s) \<leftarrow> f s; (xs, s) \<leftarrow> read_n n f s; Some (x # xs, s) }"

lemma read_n_length: "read_n n f s = Some (xs, s') \<Longrightarrow> length xs = n"
  by (induction n arbitrary: s xs) (auto split: Option.bind_splits)

text \<open>\<open>for _ in 0..n\<close> (or \<open>try_for_each\<close>) over a fallible step.\<close>

fun iterE :: "nat \<Rightarrow> ('s \<Rightarrow> 'e + 's) \<Rightarrow> 's \<Rightarrow> 'e + 's" where
  "iterE 0 f s = Inr s"
| "iterE (Suc n) f s = ebind (f s) (iterE n f)"

section \<open>Hash maps and hash sets\<close>

text \<open>
  A \<open>HashMap\<close> is a list of entries with distinct keys, in the order one of its iterations
  visits them. That order is arbitrary in Rust, so the theorems speak of a map only through its
  lookups (\<open>map_of\<close>) or for every order of its entries. A \<open>HashSet\<close> is a list of distinct
  elements.
\<close>

type_synonym ('k, 'v) hash_map = "('k \<times> 'v) list"
type_synonym 'k hash_set = "'k list"

abbreviation hm_get :: "('k, 'v) hash_map \<Rightarrow> 'k \<Rightarrow> 'v option" where
  "hm_get m k \<equiv> map_of m k"

abbreviation hm_keys :: "('k, 'v) hash_map \<Rightarrow> 'k list" where
  "hm_keys m \<equiv> map fst m"

abbreviation hm_ok :: "('k, 'v) hash_map \<Rightarrow> bool" where
  "hm_ok m \<equiv> distinct (map fst m)"

definition hm_contains :: "('k, 'v) hash_map \<Rightarrow> 'k \<Rightarrow> bool" where
  "hm_contains m k \<longleftrightarrow> k \<in> set (map fst m)"

definition hm_insert :: "'k \<Rightarrow> 'v \<Rightarrow> ('k, 'v) hash_map \<Rightarrow> ('k, 'v) hash_map" where
  "hm_insert k v m = AList.update k v m"

definition hm_remove :: "'k \<Rightarrow> ('k, 'v) hash_map \<Rightarrow> ('k, 'v) hash_map" where
  "hm_remove k m = AList.delete k m"

definition hm_extend :: "('k, 'v) hash_map \<Rightarrow> ('k, 'v) hash_map \<Rightarrow> ('k, 'v) hash_map" where
  "hm_extend m new = fold (\<lambda>(k, v). hm_insert k v) new m"

text \<open>\<open>collect\<close> into a \<open>HashMap\<close>: of two entries with one key, the later stands.\<close>

definition hm_collect :: "('k \<times> 'v) list \<Rightarrow> ('k, 'v) hash_map" where
  "hm_collect entries = hm_extend [] entries"

definition hs_insert :: "'k \<Rightarrow> 'k hash_set \<Rightarrow> 'k hash_set" where
  "hs_insert k s = List.insert k s"

definition hs_remove :: "'k \<Rightarrow> 'k hash_set \<Rightarrow> 'k hash_set" where
  "hs_remove k s = removeAll k s"

definition hs_collect :: "'k list \<Rightarrow> 'k hash_set" where
  "hs_collect ks = fold hs_insert ks []"

definition hs_extend :: "'k hash_set \<Rightarrow> 'k list \<Rightarrow> 'k hash_set" where
  "hs_extend s ks = fold hs_insert ks s"

lemma hm_get_insert [simp, hm_simps]: "map_of (hm_insert k v m) = (map_of m)(k \<mapsto> v)"
  by (simp add: hm_insert_def update_conv')

lemma hm_get_remove [simp, hm_simps]: "map_of (hm_remove k m) = (map_of m)(k := None)"
  by (simp add: hm_remove_def delete_conv')

lemma hm_ok_insert [simp, intro]: "hm_ok m \<Longrightarrow> hm_ok (hm_insert k v m)"
  by (simp add: hm_insert_def distinct_update)

lemma hm_ok_remove [simp, intro]: "hm_ok m \<Longrightarrow> hm_ok (hm_remove k m)"
  by (simp add: hm_remove_def distinct_delete)

lemma hm_contains_iff: "hm_contains m k \<longleftrightarrow> map_of m k \<noteq> None"
  by (simp add: hm_contains_def map_of_eq_None_iff)

lemma hm_insert_Nil [simp]: "hm_insert k v [] = [(k, v)]"
  by (simp add: hm_insert_def)

lemma hm_get_extend [simp, hm_simps]: "map_of (hm_extend m new) = map_of m ++ map_of (rev new)"
  unfolding hm_extend_def
  by (induction new arbitrary: m) (auto simp: map_add_def fun_eq_iff split: option.splits)

lemma hm_ok_extend [simp, intro]: "hm_ok m \<Longrightarrow> hm_ok (hm_extend m new)"
  unfolding hm_extend_def by (induction new arbitrary: m) auto

lemma map_of_rev_distinct: "distinct (map fst xs) \<Longrightarrow> map_of (rev xs) = map_of xs"
  by (intro map_of_inject_set [THEN iffD2]) (auto simp: rev_map [symmetric])

lemma hm_get_collect [simp, hm_simps]: "map_of (hm_collect es) = map_of (rev es)"
  by (simp add: hm_collect_def)

lemma hm_ok_collect [simp, intro]: "hm_ok (hm_collect es)"
  unfolding hm_collect_def by (rule hm_ok_extend) simp

lemma hm_insert_new: "k \<notin> set (map fst m) \<Longrightarrow> hm_insert k v m = m @ [(k, v)]"
  unfolding hm_insert_def by (induction m) auto

lemma hm_extend_new:
  "distinct (map fst (m @ new)) \<Longrightarrow> hm_extend m new = m @ new"
  unfolding hm_extend_def
proof (induction new arbitrary: m)
  case (Cons e new)
  obtain k v where e: "e = (k, v)" by (cases e)
  with Cons.prems have "hm_insert k v m = m @ [(k, v)]" by (intro hm_insert_new) auto
  with Cons.IH [of "m @ [(k, v)]"] Cons.prems e show ?case by auto
qed simp

lemma hm_collect_distinct: "distinct (map fst es) \<Longrightarrow> hm_collect es = es"
  unfolding hm_collect_def by (subst hm_extend_new) auto

lemma hs_set [simp, hm_simps]:
  "set (hs_insert k s) = insert k (set s)"
  "set (hs_remove k s) = set s - {k}"
  by (auto simp: hs_insert_def hs_remove_def)

lemma hs_distinct [simp, intro]:
  "distinct s \<Longrightarrow> distinct (hs_insert k s)"
  "distinct s \<Longrightarrow> distinct (hs_remove k s)"
  by (auto simp: hs_insert_def hs_remove_def distinct_removeAll)

lemma hs_extend_set [simp, hm_simps]: "set (hs_extend s ks) = set s \<union> set ks"
  unfolding hs_extend_def by (induction ks arbitrary: s) auto

lemma hs_extend_distinct [simp, intro]: "distinct s \<Longrightarrow> distinct (hs_extend s ks)"
  unfolding hs_extend_def by (induction ks arbitrary: s) auto

lemma hs_collect_set [simp, hm_simps]: "set (hs_collect ks) = set ks"
  using hs_extend_set [of "[]" ks] by (simp add: hs_extend_def hs_collect_def)

lemma hs_collect_distinct [simp, intro]: "distinct (hs_collect ks)"
  using hs_extend_distinct [of "[]" ks] by (simp add: hs_extend_def hs_collect_def)

lemma map_of_filter_key:
  "map_of (filter (\<lambda>(k, v). P k) m) k = (if P k then map_of m k else None)"
  by (induction m) auto

lemma hm_ok_filter [simp, intro]: "hm_ok m \<Longrightarrow> hm_ok (filter P m)"
  by (simp add: distinct_map_filter)

lemma sort_key_fst_map_of:
  fixes xs ys :: "('k::linorder \<times> 'v) list"
  assumes "distinct (map fst xs)" "distinct (map fst ys)"
  shows "sort_key fst xs = sort_key fst ys \<longleftrightarrow> map_of xs = map_of ys"
proof
  assume "sort_key fst xs = sort_key fst ys"
  then have "set xs = set ys" by (metis set_sort)
  with assms show "map_of xs = map_of ys" by (simp add: map_of_inject_set)
next
  assume "map_of xs = map_of ys"
  with assms have s: "set xs = set ys" by (simp add: map_of_inject_set)
  from assms have "mset xs = mset ys"
    by (metis distinct_map s set_eq_iff_mset_eq_distinct)
  then show "sort_key fst xs = sort_key fst ys"
    using assms by (intro sort_key_inj_key_eq) (auto simp: distinct_map)
qed

lemma map_of_map_keys: "map_of (map (\<lambda>(k, v). (k, f v)) xs) k = map_option f (map_of xs k)"
  by (induction xs) auto

section \<open>Strings\<close>

text \<open>
  A Rust \<open>str\<close> is its UTF-8 bytes, one HOL character per byte; the order on strings is the
  bytewise lexicographic one. \<open>split\<close>, \<open>join\<close> and \<open>strip_prefix\<close> are those of the standard
  library.
\<close>

definition starts_with :: "string \<Rightarrow> string \<Rightarrow> bool" where
  "starts_with s p \<longleftrightarrow> take (length p) s = p"

definition strip_prefix :: "string \<Rightarrow> string \<Rightarrow> string option" where
  "strip_prefix s p = (if starts_with s p then Some (drop (length p) s) else None)"

fun split_at_char :: "char \<Rightarrow> string \<Rightarrow> string list" where
  "split_at_char c [] = [[]]"
| "split_at_char c (x # xs) =
     (if x = c then [] # split_at_char c xs
      else (case split_at_char c xs of [] \<Rightarrow> [[x]] | p # ps \<Rightarrow> (x # p) # ps))"

fun join :: "string \<Rightarrow> string list \<Rightarrow> string" where
  "join sep [] = []"
| "join sep [x] = x"
| "join sep (x # y # ys) = x @ sep @ join sep (y # ys)"

lemma starts_with_iff: "starts_with s p \<longleftrightarrow> (\<exists>r. s = p @ r)"
  unfolding starts_with_def by (metis append_eq_conv_conj append_take_drop_id)

lemma strip_prefix_iff: "strip_prefix s p = Some r \<longleftrightarrow> s = p @ r"
  unfolding strip_prefix_def by (auto simp: starts_with_iff starts_with_def)

lemma strip_prefix_append [simp]: "strip_prefix (p @ r) p = Some r"
  by (simp add: strip_prefix_iff)

lemma split_at_char_not_Nil [simp]: "split_at_char c s \<noteq> []"
  by (induction s) (auto split: list.splits)

lemma split_at_char_free: "c \<notin> set s \<Longrightarrow> split_at_char c s = [s]"
  by (induction s) auto

lemma split_at_char_append:
  "split_at_char c (s @ c # t) = split_at_char c s @ split_at_char c t"
  by (induction s) (auto split: list.splits)

lemma split_at_char_join:
  "ps \<noteq> [] \<Longrightarrow> (\<And>p. p \<in> set ps \<Longrightarrow> c \<notin> set p) \<Longrightarrow> split_at_char c (join [c] ps) = ps"
proof (induction "[c]" ps rule: join.induct)
  case (3 x y ys)
  then have "split_at_char c (join [c] (y # ys)) = y # ys" by simp
  with 3(3) show ?case by (simp add: split_at_char_append split_at_char_free)
qed (auto simp: split_at_char_free)

lemma join_split_at_char: "join [c] (split_at_char c s) = s"
proof (induction s)
  case (Cons x xs)
  obtain p ps where p: "split_at_char c xs = p # ps"
    by (cases "split_at_char c xs") auto
  with Cons show ?case by (cases ps) auto
qed simp

text \<open>
  \<open>std::str::from_utf8\<close> accepts exactly the well-formed byte sequences of the Unicode
  standard: no overlong form, no surrogate, nothing past U+10FFFF.
\<close>

definition cont_byte :: "nat \<Rightarrow> bool" where
  "cont_byte b \<longleftrightarrow> 128 \<le> b \<and> b \<le> 191"

fun utf8_nats :: "nat list \<Rightarrow> bool" where
  "utf8_nats [] = True"
| "utf8_nats (a # xs) =
     (if a \<le> 127 then utf8_nats xs
      else if 194 \<le> a \<and> a \<le> 223 then
        (case xs of b # ys \<Rightarrow> cont_byte b \<and> utf8_nats ys | _ \<Rightarrow> False)
      else if 224 \<le> a \<and> a \<le> 239 then
        (case xs of b # c # ys \<Rightarrow>
           cont_byte b \<and> (a = 224 \<longrightarrow> 160 \<le> b) \<and> (a = 237 \<longrightarrow> b \<le> 159) \<and> cont_byte c
             \<and> utf8_nats ys
         | _ \<Rightarrow> False)
      else if 240 \<le> a \<and> a \<le> 244 then
        (case xs of b # c # d # ys \<Rightarrow>
           cont_byte b \<and> (a = 240 \<longrightarrow> 144 \<le> b) \<and> (a = 244 \<longrightarrow> b \<le> 143) \<and> cont_byte c
             \<and> cont_byte d \<and> utf8_nats ys
         | _ \<Rightarrow> False)
      else False)"

definition str_bytes :: "string \<Rightarrow> byte list" where
  "str_bytes s = map (\<lambda>c. word_of_nat (of_char c)) s"

definition bytes_str :: "byte list \<Rightarrow> string" where
  "bytes_str bs = map (\<lambda>b. char_of (unat b)) bs"

definition from_utf8 :: "byte list \<Rightarrow> string option" where
  "from_utf8 bs = (if utf8_nats (map unat bs) then Some (bytes_str bs) else None)"

definition utf8_string :: "string \<Rightarrow> bool" where
  "utf8_string s \<longleftrightarrow> utf8_nats (map of_char s)"

lemma unat_of_char [simp]: "unat (word_of_nat (of_char c) :: byte) = of_char c"
proof -
  have "(of_char c :: nat) mod 256 < 256" by simp
  then have "(of_char c :: nat) < 2 ^ LENGTH(8)" by simp
  then show ?thesis by (simp add: unat_of_nat take_bit_nat_eq_self)
qed

lemma str_bytes_length [simp]: "length (str_bytes s) = length s"
  by (simp add: str_bytes_def)

lemma bytes_str_str_bytes [simp]: "bytes_str (str_bytes s) = s"
  by (induction s) (simp_all add: bytes_str_def str_bytes_def)

lemma from_utf8_str_bytes [simp]: "utf8_string s \<Longrightarrow> from_utf8 (str_bytes s) = Some s"
  by (simp add: from_utf8_def utf8_string_def str_bytes_def comp_def
      bytes_str_str_bytes [unfolded str_bytes_def])

section \<open>Little-endian bytes\<close>

definition le_bytes :: "nat \<Rightarrow> 'a::len word \<Rightarrow> byte list" where
  "le_bytes n w = map (\<lambda>i. ucast (drop_bit (8 * i) w)) [0..<n]"

definition le_word :: "byte list \<Rightarrow> 'a::len word" where
  "le_word bs = word_of_int (horner_sum uint 256 bs)"

lemma le_bytes_length [simp]: "length (le_bytes n w) = n"
  by (simp add: le_bytes_def)

lemma bit_le_word:
  "bit (le_word bs :: 'a::len word) n \<longleftrightarrow>
     n < LENGTH('a) \<and> n div 8 < length bs \<and> bit (bs ! (n div 8)) (n mod 8)"
  using bit_horner_sum_uint_exp_iff [of bs n]
  by (auto simp: le_word_def bit_word_of_int_iff)

lemma le_word_le_bytes [simp]:
  fixes w :: "'a::len word"
  assumes "LENGTH('a) \<le> 8 * n"
  shows "le_word (le_bytes n w) = w"
proof (rule bit_word_eqI)
  fix i assume i: "i < LENGTH('a)"
  with assms have "i div 8 < n" by auto
  with i show "bit (le_word (le_bytes n w) :: 'a word) i = bit w i"
    by (simp add: bit_le_word le_bytes_def bit_ucast_iff bit_drop_bit_eq)
qed

end
