(* ===== verification/Values.thy ===== *)
theory Values
  imports Prelude
begin

text \<open>
  The runtime values of Arora (\<open>crates/arora-types/src/value.rs\<close> and \<open>keyvalue.rs\<close>): the
  \<open>Value\<close> enum, its \<open>Type\<close>, its derived equality, the packing of elements into an array
  value and back, and the key-value records.

  A float is the bit pattern of its IEEE-754 representation; a signed integer its two's
  complement bits. Error messages are not modelled: an error is a value of a datatype that names
  the branch that raised it.
\<close>

section \<open>The value types\<close>

datatype Type =
    TUnit | TBoolean | TU8 | TU16 | TU32 | TU64 | TI8 | TI16 | TI32 | TI64 | TF32 | TF64
  | TString | TOption | TStructure | TEnumeration
  | TArrayBoolean | TArrayU8 | TArrayU16 | TArrayU32 | TArrayU64
  | TArrayI8 | TArrayI16 | TArrayI32 | TArrayI64 | TArrayF32 | TArrayF64
  | TArrayString | TArrayValue | TArrayStructure | TArrayEnumeration | TKeyValue | TUuid

datatype 'v StructureField = StructureField (sf_id: uuid) (sf_value: 'v)

datatype 'v Structure = MkStructure (st_id: uuid) (st_fields: "'v StructureField list")

datatype 'v StructureWithoutId = StructureWithoutId (sw_fields: "'v StructureField list")

datatype 'v Enumeration = MkEnumeration (en_id: uuid) (en_variant_id: uuid) (en_value: 'v)

datatype 'v EnumerationWithoutId = EnumerationWithoutId (ew_variant_id: uuid) (ew_value: 'v)

datatype 'v KeyValueField =
  KeyValueField (kf_id: uuid) (kf_name: string) (kf_value: "'v option")

datatype 'v KeyValue =
  MkKeyValue (kv_id: uuid) (kv_fields: "(string, 'v KeyValueField) hash_map")

datatype Value =
    Unit
  | Boolean bool
  | U8 byte
  | U16 u16
  | U32 u32
  | U64 u64
  | I8 byte
  | I16 u16
  | I32 u32
  | I64 u64
  | F32 u32
  | F64 u64
  | VString string
  | VOption "Value option"
  | Structure "Value Structure"
  | Enumeration "Value Enumeration"
  | ArrayBoolean "bool list"
  | ArrayU8 "byte list"
  | ArrayU16 "u16 list"
  | ArrayU32 "u32 list"
  | ArrayU64 "u64 list"
  | ArrayI8 "byte list"
  | ArrayI16 "u16 list"
  | ArrayI32 "u32 list"
  | ArrayI64 "u64 list"
  | ArrayF32 "u32 list"
  | ArrayF64 "u64 list"
  | ArrayString "string list"
  | ArrayValue "Value list"
  | ArrayStructure uuid "Value StructureWithoutId list"
  | ArrayEnumeration uuid "Value EnumerationWithoutId list"
  | KeyValue "Value KeyValue"
  | VUuid uuid

text \<open>A value inside a structure, an enumeration or a key-value record is smaller than it.\<close>

lemma size_sf_value [termination_simp]:
  "f \<in> set fs \<Longrightarrow> size (sf_value f) < Suc (size_list (size_StructureField size) fs)"
  by (induction fs; cases f) auto

lemma size_st_fields [termination_simp]:
  "f \<in> set (st_fields s) \<Longrightarrow> size (sf_value f) < Suc (size_Structure size s)"
  using size_sf_value [of f "st_fields s"] by (cases s) auto

lemma size_sw_fields [termination_simp]:
  "e \<in> set es \<Longrightarrow> f \<in> set (sw_fields e) \<Longrightarrow>
     size (sf_value f) < Suc (size_list (size_StructureWithoutId size) es)"
proof (induction es)
  case (Cons a es)
  then show ?case using size_sf_value [of f "sw_fields e"] by (cases a) auto
qed simp

lemma size_en_value [termination_simp]: "size (en_value e) < Suc (size_Enumeration size e)"
  by (cases e) auto

lemma size_ew_value [termination_simp]:
  "e \<in> set es \<Longrightarrow> size (ew_value e) < Suc (size_list (size_EnumerationWithoutId size) es)"
  by (induction es; cases e) auto

lemma size_kf_value [termination_simp]:
  "(k, f) \<in> set (kv_fields kv) \<Longrightarrow> kf_value f = Some v \<Longrightarrow> size v < Suc (size_KeyValue size kv)"
proof (cases kv)
  case (MkKeyValue i fs)
  assume "(k, f) \<in> set (kv_fields kv)" "kf_value f = Some v"
  then have "size v < Suc (size_list (size_prod (\<lambda>_. 0) (size_KeyValueField size)) fs)"
    unfolding MkKeyValue KeyValue.sel
    by (induction fs; cases f) auto
  then show ?thesis by (simp add: MkKeyValue)
qed

section \<open>The shape of a value\<close>

fun kind :: "Value \<Rightarrow> Type" where
  "kind Unit = TUnit"
| "kind (Boolean _) = TBoolean"
| "kind (U8 _) = TU8"
| "kind (U16 _) = TU16"
| "kind (U32 _) = TU32"
| "kind (U64 _) = TU64"
| "kind (I8 _) = TI8"
| "kind (I16 _) = TI16"
| "kind (I32 _) = TI32"
| "kind (I64 _) = TI64"
| "kind (F32 _) = TF32"
| "kind (F64 _) = TF64"
| "kind (VString _) = TString"
| "kind (VOption _) = TOption"
| "kind (Structure _) = TStructure"
| "kind (Enumeration _) = TEnumeration"
| "kind (ArrayBoolean _) = TArrayBoolean"
| "kind (ArrayU8 _) = TArrayU8"
| "kind (ArrayU16 _) = TArrayU16"
| "kind (ArrayU32 _) = TArrayU32"
| "kind (ArrayU64 _) = TArrayU64"
| "kind (ArrayI8 _) = TArrayI8"
| "kind (ArrayI16 _) = TArrayI16"
| "kind (ArrayI32 _) = TArrayI32"
| "kind (ArrayI64 _) = TArrayI64"
| "kind (ArrayF32 _) = TArrayF32"
| "kind (ArrayF64 _) = TArrayF64"
| "kind (ArrayString _) = TArrayString"
| "kind (ArrayValue _) = TArrayValue"
| "kind (ArrayStructure _ _) = TArrayStructure"
| "kind (ArrayEnumeration _ _) = TArrayEnumeration"
| "kind (KeyValue _) = TKeyValue"
| "kind (VUuid _) = TUuid"

definition conforms_to :: "Value \<Rightarrow> Type \<Rightarrow> bool" where
  "conforms_to v ty \<longleftrightarrow> kind v = ty"

text \<open>The well-known type ids (\<open>ty/mod.rs\<close>), each the number its uuid spells.\<close>

definition UNIT_ID :: uuid where "UNIT_ID = 0"
definition BOOLEAN_ID :: uuid where "BOOLEAN_ID = 1"
definition I8_ID :: uuid where "I8_ID = 2"
definition I16_ID :: uuid where "I16_ID = 3"
definition I32_ID :: uuid where "I32_ID = 4"
definition I64_ID :: uuid where "I64_ID = 5"
definition U8_ID :: uuid where "U8_ID = 6"
definition U16_ID :: uuid where "U16_ID = 7"
definition U32_ID :: uuid where "U32_ID = 8"
definition U64_ID :: uuid where "U64_ID = 9"
definition F32_ID :: uuid where "F32_ID = 10"
definition F64_ID :: uuid where "F64_ID = 11"
definition STRING_ID :: uuid where "STRING_ID = 12"
definition OPTION_ID :: uuid where "OPTION_ID = 13"
definition ARRAY_BOOLEAN_ID :: uuid where "ARRAY_BOOLEAN_ID = 14"
definition ARRAY_U8_ID :: uuid where "ARRAY_U8_ID = 15"
definition ARRAY_U16_ID :: uuid where "ARRAY_U16_ID = 16"
definition ARRAY_U32_ID :: uuid where "ARRAY_U32_ID = 17"
definition ARRAY_U64_ID :: uuid where "ARRAY_U64_ID = 18"
definition ARRAY_I8_ID :: uuid where "ARRAY_I8_ID = 19"
definition ARRAY_I16_ID :: uuid where "ARRAY_I16_ID = 20"
definition ARRAY_I32_ID :: uuid where "ARRAY_I32_ID = 21"
definition ARRAY_I64_ID :: uuid where "ARRAY_I64_ID = 22"
definition ARRAY_F32_ID :: uuid where "ARRAY_F32_ID = 23"
definition ARRAY_F64_ID :: uuid where "ARRAY_F64_ID = 24"
definition ARRAY_STRING_ID :: uuid where "ARRAY_STRING_ID = 25"
definition ARRAY_VALUE_ID :: uuid where "ARRAY_VALUE_ID = 26"
definition KEY_VALUE_ID :: uuid where "KEY_VALUE_ID = 27"
definition UUID_ID :: uuid where "UUID_ID = 28"

lemmas type_id_defs = UNIT_ID_def BOOLEAN_ID_def I8_ID_def I16_ID_def I32_ID_def I64_ID_def
  U8_ID_def U16_ID_def U32_ID_def U64_ID_def F32_ID_def F64_ID_def STRING_ID_def OPTION_ID_def
  ARRAY_BOOLEAN_ID_def ARRAY_U8_ID_def ARRAY_U16_ID_def ARRAY_U32_ID_def ARRAY_U64_ID_def
  ARRAY_I8_ID_def ARRAY_I16_ID_def ARRAY_I32_ID_def ARRAY_I64_ID_def ARRAY_F32_ID_def
  ARRAY_F64_ID_def ARRAY_STRING_ID_def ARRAY_VALUE_ID_def KEY_VALUE_ID_def UUID_ID_def

definition PRIMITIVE_IDS :: "uuid list" where
  "PRIMITIVE_IDS = [UNIT_ID, BOOLEAN_ID, I8_ID, I16_ID, I32_ID, I64_ID, U8_ID, U16_ID, U32_ID,
     U64_ID, F32_ID, F64_ID, STRING_ID]"

definition WELL_KNOWN_IDS :: "uuid list" where
  "WELL_KNOWN_IDS = PRIMITIVE_IDS @ [OPTION_ID, ARRAY_BOOLEAN_ID, ARRAY_U8_ID, ARRAY_U16_ID,
     ARRAY_U32_ID, ARRAY_U64_ID, ARRAY_I8_ID, ARRAY_I16_ID, ARRAY_I32_ID, ARRAY_I64_ID,
     ARRAY_F32_ID, ARRAY_F64_ID, ARRAY_STRING_ID, ARRAY_VALUE_ID, KEY_VALUE_ID, UUID_ID]"

fun type_uuid :: "Value \<Rightarrow> uuid" where
  "type_uuid Unit = UNIT_ID"
| "type_uuid (Boolean _) = BOOLEAN_ID"
| "type_uuid (I8 _) = I8_ID"
| "type_uuid (I16 _) = I16_ID"
| "type_uuid (I32 _) = I32_ID"
| "type_uuid (I64 _) = I64_ID"
| "type_uuid (U8 _) = U8_ID"
| "type_uuid (U16 _) = U16_ID"
| "type_uuid (U32 _) = U32_ID"
| "type_uuid (U64 _) = U64_ID"
| "type_uuid (F32 _) = F32_ID"
| "type_uuid (F64 _) = F64_ID"
| "type_uuid (VString _) = STRING_ID"
| "type_uuid (VOption _) = OPTION_ID"
| "type_uuid (Structure s) = st_id s"
| "type_uuid (Enumeration e) = en_id e"
| "type_uuid (ArrayBoolean _) = ARRAY_BOOLEAN_ID"
| "type_uuid (ArrayU8 _) = ARRAY_U8_ID"
| "type_uuid (ArrayU16 _) = ARRAY_U16_ID"
| "type_uuid (ArrayU32 _) = ARRAY_U32_ID"
| "type_uuid (ArrayU64 _) = ARRAY_U64_ID"
| "type_uuid (ArrayI8 _) = ARRAY_I8_ID"
| "type_uuid (ArrayI16 _) = ARRAY_I16_ID"
| "type_uuid (ArrayI32 _) = ARRAY_I32_ID"
| "type_uuid (ArrayI64 _) = ARRAY_I64_ID"
| "type_uuid (ArrayF32 _) = ARRAY_F32_ID"
| "type_uuid (ArrayF64 _) = ARRAY_F64_ID"
| "type_uuid (ArrayString _) = ARRAY_STRING_ID"
| "type_uuid (ArrayValue _) = ARRAY_VALUE_ID"
| "type_uuid (ArrayStructure i _) = i"
| "type_uuid (ArrayEnumeration i _) = i"
| "type_uuid (KeyValue _) = KEY_VALUE_ID"
| "type_uuid (VUuid _) = UUID_ID"

section \<open>Packing elements into an array value\<close>

definition empty_array :: "uuid \<Rightarrow> bool \<Rightarrow> Value" where
  "empty_array element_id enumeration =
     (if element_id = BOOLEAN_ID then ArrayBoolean []
      else if element_id = U8_ID then ArrayU8 []
      else if element_id = U16_ID then ArrayU16 []
      else if element_id = U32_ID then ArrayU32 []
      else if element_id = U64_ID then ArrayU64 []
      else if element_id = I8_ID then ArrayI8 []
      else if element_id = I16_ID then ArrayI16 []
      else if element_id = I32_ID then ArrayI32 []
      else if element_id = I64_ID then ArrayI64 []
      else if element_id = F32_ID then ArrayF32 []
      else if element_id = F64_ID then ArrayF64 []
      else if element_id = STRING_ID then ArrayString []
      else if element_id = UUID_ID \<or> element_id = KEY_VALUE_ID then ArrayValue []
      else if enumeration then ArrayEnumeration element_id []
      else ArrayStructure element_id [])"

text \<open>
  The \<open>typed!\<close> macro of \<open>array_of\<close>: the payloads when every element is of the variant,
  \<open>None\<close> otherwise (the macro falls through to the next variant).
\<close>

definition typed :: "(Value \<Rightarrow> 'a option) \<Rightarrow> Value list \<Rightarrow> 'a list option" where
  "typed project elements =
     (if list_all (\<lambda>v. project v \<noteq> None) elements
      then Some (map (\<lambda>v. the (project v)) elements) else None)"

definition first_some :: "Value option list \<Rightarrow> Value \<Rightarrow> Value" where
  "first_some attempts otherwise =
     (case filter (\<lambda>a. a \<noteq> None) attempts of [] \<Rightarrow> otherwise | a # _ \<Rightarrow> the a)"

definition array_of :: "uuid \<Rightarrow> Value list \<Rightarrow> Value" where
  "array_of element_id elements =
     (if elements = [] then empty_array element_id False else first_some
       [map_option ArrayBoolean (typed (\<lambda>v. case v of Boolean x \<Rightarrow> Some x | _ \<Rightarrow> None) elements),
        map_option ArrayU8 (typed (\<lambda>v. case v of U8 x \<Rightarrow> Some x | _ \<Rightarrow> None) elements),
        map_option ArrayU16 (typed (\<lambda>v. case v of U16 x \<Rightarrow> Some x | _ \<Rightarrow> None) elements),
        map_option ArrayU32 (typed (\<lambda>v. case v of U32 x \<Rightarrow> Some x | _ \<Rightarrow> None) elements),
        map_option ArrayU64 (typed (\<lambda>v. case v of U64 x \<Rightarrow> Some x | _ \<Rightarrow> None) elements),
        map_option ArrayI8 (typed (\<lambda>v. case v of I8 x \<Rightarrow> Some x | _ \<Rightarrow> None) elements),
        map_option ArrayI16 (typed (\<lambda>v. case v of I16 x \<Rightarrow> Some x | _ \<Rightarrow> None) elements),
        map_option ArrayI32 (typed (\<lambda>v. case v of I32 x \<Rightarrow> Some x | _ \<Rightarrow> None) elements),
        map_option ArrayI64 (typed (\<lambda>v. case v of I64 x \<Rightarrow> Some x | _ \<Rightarrow> None) elements),
        map_option ArrayF32 (typed (\<lambda>v. case v of F32 x \<Rightarrow> Some x | _ \<Rightarrow> None) elements),
        map_option ArrayF64 (typed (\<lambda>v. case v of F64 x \<Rightarrow> Some x | _ \<Rightarrow> None) elements),
        map_option ArrayString (typed (\<lambda>v. case v of VString x \<Rightarrow> Some x | _ \<Rightarrow> None) elements),
        map_option (ArrayStructure element_id)
          (typed (\<lambda>v. case v of Structure s \<Rightarrow> Some (StructureWithoutId (st_fields s)) | _ \<Rightarrow> None)
             elements),
        map_option (ArrayEnumeration element_id)
          (typed (\<lambda>v. case v of
               Enumeration e \<Rightarrow> Some (EnumerationWithoutId (en_variant_id e) (en_value e))
             | _ \<Rightarrow> None) elements)]
       (ArrayValue elements))"

text \<open>
  The two facts \<open>array_of_type\<close> asks of its type parameter are arguments: the id, and whether
  the type is an enumeration.
\<close>

definition array_of_type :: "uuid \<Rightarrow> bool \<Rightarrow> Value list \<Rightarrow> Value" where
  "array_of_type arora_type_id is_enumeration elements =
     (if elements = [] then empty_array arora_type_id is_enumeration
      else array_of arora_type_id elements)"

datatype elements_error = ExpectedAnArray Value

fun into_elements :: "Value \<Rightarrow> elements_error + Value list" where
  "into_elements (ArrayBoolean v) = Inr (map Boolean v)"
| "into_elements (ArrayU8 v) = Inr (map U8 v)"
| "into_elements (ArrayU16 v) = Inr (map U16 v)"
| "into_elements (ArrayU32 v) = Inr (map U32 v)"
| "into_elements (ArrayU64 v) = Inr (map U64 v)"
| "into_elements (ArrayI8 v) = Inr (map I8 v)"
| "into_elements (ArrayI16 v) = Inr (map I16 v)"
| "into_elements (ArrayI32 v) = Inr (map I32 v)"
| "into_elements (ArrayI64 v) = Inr (map I64 v)"
| "into_elements (ArrayF32 v) = Inr (map F32 v)"
| "into_elements (ArrayF64 v) = Inr (map F64 v)"
| "into_elements (ArrayString v) = Inr (map VString v)"
| "into_elements (ArrayValue v) = Inr v"
| "into_elements (ArrayStructure i elements) =
     Inr (map (\<lambda>e. Structure (MkStructure i (sw_fields e))) elements)"
| "into_elements (ArrayEnumeration i elements) =
     Inr (map (\<lambda>e. Enumeration (MkEnumeration i (ew_variant_id e) (ew_value e))) elements)"
| "into_elements other = Inl (ExpectedAnArray other)"

section \<open>Equality\<close>

text \<open>
  The derived \<open>PartialEq\<close>: structural, but a NaN equals nothing, the two zeros are equal, and
  the fields of a key-value record are compared as a map. It is computed on canonical forms: two
  values are equal when they hold no NaN and their canonical forms coincide.
\<close>

definition nan32 :: "u32 \<Rightarrow> bool" where
  "nan32 w \<longleftrightarrow> 0x7F800000 < take_bit 31 w"

definition nan64 :: "u64 \<Rightarrow> bool" where
  "nan64 w \<longleftrightarrow> 0x7FF0000000000000 < take_bit 63 w"

definition canon32 :: "u32 \<Rightarrow> u32" where
  "canon32 w = (if take_bit 31 w = 0 then 0 else w)"

definition canon64 :: "u64 \<Rightarrow> u64" where
  "canon64 w = (if take_bit 63 w = 0 then 0 else w)"

fun nan_free :: "Value \<Rightarrow> bool" where
  "nan_free (F32 w) \<longleftrightarrow> \<not> nan32 w"
| "nan_free (F64 w) \<longleftrightarrow> \<not> nan64 w"
| "nan_free (ArrayF32 ws) \<longleftrightarrow> list_all (\<lambda>w. \<not> nan32 w) ws"
| "nan_free (ArrayF64 ws) \<longleftrightarrow> list_all (\<lambda>w. \<not> nan64 w) ws"
| "nan_free (VOption None) \<longleftrightarrow> True"
| "nan_free (VOption (Some v)) \<longleftrightarrow> nan_free v"
| "nan_free (Structure s) \<longleftrightarrow> list_all (\<lambda>f. nan_free (sf_value f)) (st_fields s)"
| "nan_free (Enumeration e) \<longleftrightarrow> nan_free (en_value e)"
| "nan_free (ArrayValue vs) \<longleftrightarrow> list_all nan_free vs"
| "nan_free (ArrayStructure i es) \<longleftrightarrow>
     list_all (\<lambda>e. list_all (\<lambda>f. nan_free (sf_value f)) (sw_fields e)) es"
| "nan_free (ArrayEnumeration i es) \<longleftrightarrow> list_all (\<lambda>e. nan_free (ew_value e)) es"
| "nan_free (KeyValue kv) \<longleftrightarrow>
     list_all (\<lambda>(k, f). case kf_value f of None \<Rightarrow> True | Some v \<Rightarrow> nan_free v) (kv_fields kv)"
| "nan_free _ \<longleftrightarrow> True"

fun canon :: "Value \<Rightarrow> Value" where
  "canon (F32 w) = F32 (canon32 w)"
| "canon (F64 w) = F64 (canon64 w)"
| "canon (ArrayF32 ws) = ArrayF32 (map canon32 ws)"
| "canon (ArrayF64 ws) = ArrayF64 (map canon64 ws)"
| "canon (VOption None) = VOption None"
| "canon (VOption (Some v)) = VOption (Some (canon v))"
| "canon (Structure s) = Structure (MkStructure (st_id s)
     (map (\<lambda>f. StructureField (sf_id f) (canon (sf_value f))) (st_fields s)))"
| "canon (Enumeration e) =
     Enumeration (MkEnumeration (en_id e) (en_variant_id e) (canon (en_value e)))"
| "canon (ArrayValue vs) = ArrayValue (map canon vs)"
| "canon (ArrayStructure i es) = ArrayStructure i (map (\<lambda>e. StructureWithoutId
     (map (\<lambda>f. StructureField (sf_id f) (canon (sf_value f))) (sw_fields e))) es)"
| "canon (ArrayEnumeration i es) = ArrayEnumeration i
     (map (\<lambda>e. EnumerationWithoutId (ew_variant_id e) (canon (ew_value e))) es)"
| "canon (KeyValue kv) = KeyValue (MkKeyValue (kv_id kv) (sort_key fst (map (\<lambda>(k, f).
     (k, KeyValueField (kf_id f) (kf_name f)
       (case kf_value f of None \<Rightarrow> None | Some v \<Rightarrow> Some (canon v)))) (kv_fields kv))))"
| "canon v = v"

definition value_eq :: "Value \<Rightarrow> Value \<Rightarrow> bool" where
  "value_eq v w \<longleftrightarrow> nan_free v \<and> nan_free w \<and> canon v = canon w"

text \<open>\<open>PartialEq\<close> of \<open>Option<Value>\<close>.\<close>

fun value_opt_eq :: "Value option \<Rightarrow> Value option \<Rightarrow> bool" where
  "value_opt_eq None None \<longleftrightarrow> True"
| "value_opt_eq (Some v) (Some w) \<longleftrightarrow> value_eq v w"
| "value_opt_eq _ _ \<longleftrightarrow> False"

section \<open>Key-value records\<close>

text \<open>
  \<open>gen_bb_uuid\<close> draws a fresh random id; here the id it returned is an argument, \<open>fresh\<close>.
\<close>

definition KeyValue_new_with_id :: "uuid \<Rightarrow> Value KeyValue" where
  "KeyValue_new_with_id i = MkKeyValue i []"

definition set_field :: "Value KeyValue \<Rightarrow> Value KeyValueField \<Rightarrow> Value KeyValue" where
  "set_field self field = MkKeyValue (kv_id self) (hm_insert (kf_name field) field (kv_fields self))"

definition KeyValueField_new_with_id_and_option ::
  "string \<Rightarrow> uuid \<Rightarrow> Value option \<Rightarrow> Value KeyValueField" where
  "KeyValueField_new_with_id_and_option name i v = KeyValueField i name v"

definition KeyValueField_new_with_id :: "string \<Rightarrow> uuid \<Rightarrow> Value \<Rightarrow> Value KeyValueField" where
  "KeyValueField_new_with_id name i v = KeyValueField i name (Some v)"

definition KeyValueField_new :: "uuid \<Rightarrow> string \<Rightarrow> Value \<Rightarrow> Value KeyValueField" where
  "KeyValueField_new fresh name v = KeyValueField_new_with_id_and_option name fresh (Some v)"

definition set_field_value :: "uuid \<Rightarrow> Value KeyValue \<Rightarrow> string \<Rightarrow> Value \<Rightarrow> Value KeyValue" where
  "set_field_value fresh self key v =
     (case hm_get (kv_fields self) key of
        Some existing \<Rightarrow> MkKeyValue (kv_id self)
          (hm_insert key (KeyValueField (kf_id existing) (kf_name existing) (Some v))
             (kv_fields self))
      | None \<Rightarrow> MkKeyValue (kv_id self)
          (hm_insert key (KeyValueField_new fresh key v) (kv_fields self)))"

definition get_field_keys :: "Value KeyValue \<Rightarrow> string list" where
  "get_field_keys self = hm_keys (kv_fields self)"

definition get_field :: "Value KeyValue \<Rightarrow> string \<Rightarrow> Value KeyValueField option" where
  "get_field self key = hm_get (kv_fields self) key"

text \<open>\<open>KeyValueItems\<close>: a vector of fields, one per name.\<close>

type_synonym KeyValueItems = "Value KeyValueField list"

fun items_position :: "string \<Rightarrow> KeyValueItems \<Rightarrow> nat option" where
  "items_position name [] = None"
| "items_position name (f # fs) =
     (if kf_name f = name then Some 0 else map_option Suc (items_position name fs))"

definition items_set ::
  "KeyValueItems \<Rightarrow> Value KeyValueField \<Rightarrow> KeyValueItems \<times> Value KeyValueField option" where
  "items_set self field =
     (case items_position (kf_name field) self of
        Some idx \<Rightarrow> (self[idx := field], Some (self ! idx))
      | None \<Rightarrow> (self @ [field], None))"

definition items_get :: "KeyValueItems \<Rightarrow> string \<Rightarrow> Value KeyValueField option" where
  "items_get self name = find (\<lambda>f. kf_name f = name) self"

definition items_from :: "Value KeyValueField list \<Rightarrow> KeyValueItems" where
  "items_from v = fold (\<lambda>f kvis. fst (items_set kvis f)) v []"

definition items_from_hash :: "(string \<times> Value KeyValueField) list \<Rightarrow> KeyValueItems" where
  "items_from_hash pairs = map snd (hm_collect pairs)"

definition key_value_from :: "uuid \<Rightarrow> Value KeyValueField list \<Rightarrow> Value KeyValue" where
  "key_value_from i fields =
     MkKeyValue i (fold (\<lambda>f m. hm_insert (kf_name f) f m) fields [])"

definition key_value_from_map ::
  "uuid \<Rightarrow> (string, Value KeyValueField) hash_map \<Rightarrow> Value KeyValue" where
  "key_value_from_map i m = MkKeyValue i m"

definition new_nested_kv_with_both_ids ::
  "string \<Rightarrow> uuid \<Rightarrow> uuid \<Rightarrow> Value KeyValueField list \<Rightarrow> Value KeyValueField" where
  "new_nested_kv_with_both_ids kv_name field_id i fields =
     KeyValueField_new_with_id kv_name field_id (KeyValue (key_value_from i fields))"

section \<open>Properties\<close>

subsection \<open>Arrays\<close>

text \<open>What an element must carry to be packed under an id: a structure or an enumeration of it.\<close>

fun carries :: "uuid \<Rightarrow> Value \<Rightarrow> bool" where
  "carries i (Structure s) \<longleftrightarrow> st_id s = i"
| "carries i (Enumeration e) \<longleftrightarrow> en_id e = i"
| "carries i _ \<longleftrightarrow> True"

lemma typed_elements:
  assumes "typed p es = Some xs" "\<And>e x. e \<in> set es \<Longrightarrow> p e = Some x \<Longrightarrow> c x = e"
  shows "map c xs = es"
  using assms by (auto simp: typed_def list_all_iff split: if_splits intro!: map_idI)

lemma first_some_cases:
  assumes "\<And>a. Some a \<in> set attempts \<Longrightarrow> P a" "P otherwise"
  shows "P (first_some attempts otherwise)"
proof (cases "filter (\<lambda>a. a \<noteq> None) attempts")
  case Nil
  then show ?thesis using assms by (simp add: first_some_def)
next
  case (Cons a as)
  then have "a \<in> set (filter (\<lambda>a. a \<noteq> None) attempts)" by simp
  then obtain b where "a = Some b" "Some b \<in> set attempts" by auto
  with Cons assms(1) show ?thesis by (simp add: first_some_def)
qed

lemma into_elements_empty_array: "into_elements (empty_array i b) = Inr []"
  by (simp add: empty_array_def)

lemma variant_payload:
  "(case v of Boolean x \<Rightarrow> Some x | _ \<Rightarrow> None) = Some x0 \<longleftrightarrow> v = Boolean x0"
  "(case v of U8 x \<Rightarrow> Some x | _ \<Rightarrow> None) = Some x1 \<longleftrightarrow> v = U8 x1"
  "(case v of U16 x \<Rightarrow> Some x | _ \<Rightarrow> None) = Some x2 \<longleftrightarrow> v = U16 x2"
  "(case v of U32 x \<Rightarrow> Some x | _ \<Rightarrow> None) = Some x3 \<longleftrightarrow> v = U32 x3"
  "(case v of U64 x \<Rightarrow> Some x | _ \<Rightarrow> None) = Some x4 \<longleftrightarrow> v = U64 x4"
  "(case v of I8 x \<Rightarrow> Some x | _ \<Rightarrow> None) = Some x5 \<longleftrightarrow> v = I8 x5"
  "(case v of I16 x \<Rightarrow> Some x | _ \<Rightarrow> None) = Some x6 \<longleftrightarrow> v = I16 x6"
  "(case v of I32 x \<Rightarrow> Some x | _ \<Rightarrow> None) = Some x7 \<longleftrightarrow> v = I32 x7"
  "(case v of I64 x \<Rightarrow> Some x | _ \<Rightarrow> None) = Some x8 \<longleftrightarrow> v = I64 x8"
  "(case v of F32 x \<Rightarrow> Some x | _ \<Rightarrow> None) = Some x9 \<longleftrightarrow> v = F32 x9"
  "(case v of F64 x \<Rightarrow> Some x | _ \<Rightarrow> None) = Some x10 \<longleftrightarrow> v = F64 x10"
  "(case v of VString x \<Rightarrow> Some x | _ \<Rightarrow> None) = Some x11 \<longleftrightarrow> v = VString x11"
  by (cases v; auto)+

lemma carried_payload:
  "(case v of Structure s \<Rightarrow> Some (StructureWithoutId (st_fields s)) | _ \<Rightarrow> None) = Some x \<Longrightarrow>
     carries i v \<Longrightarrow> Structure (MkStructure i (sw_fields x)) = v"
  "(case v of Enumeration e \<Rightarrow> Some (EnumerationWithoutId (en_variant_id e) (en_value e)) | _ \<Rightarrow> None)
     = Some y \<Longrightarrow> carries i v \<Longrightarrow> Enumeration (MkEnumeration i (ew_variant_id y) (ew_value y)) = v"
  by (cases v; auto)+

text \<open>
  \<open>into_elements\<close> is the inverse of \<open>array_of\<close>: packing elements under an id and taking the
  array apart gives the same elements in the same order, whichever of the array forms the packing
  chose, provided every structure and enumeration among them is of that id (a typed array keeps
  one id for all its elements).
\<close>

theorem into_elements_array_of:
  assumes "\<forall>e\<in>set es. carries i e"
  shows "into_elements (array_of i es) = Inr es"
proof (cases "es = []")
  case True
  then show ?thesis by (simp add: array_of_def into_elements_empty_array)
next
  case False
  have "into_elements (first_some attempts (ArrayValue es)) = Inr es"
    if "\<And>a. Some a \<in> set attempts \<Longrightarrow> into_elements a = Inr es" for attempts
    by (rule first_some_cases [where P = "\<lambda>a. into_elements a = Inr es"]) (simp_all add: that)
  note * = this
  show ?thesis
    unfolding array_of_def if_not_P [OF False]
    using assms
    by (intro *) (auto elim!: typed_elements
        simp: variant_payload comp_def eq_commute [of "Some _" "map_option _ _"],
      (rule carried_payload, assumption, blast)+)
qed

theorem into_elements_array_of_witness:
  "into_elements (array_of 77 [Structure (MkStructure 77 [StructureField 1 (U8 5)]),
       Structure (MkStructure 77 [])]) =
     Inr [Structure (MkStructure 77 [StructureField 1 (U8 5)]), Structure (MkStructure 77 [])]"
  by (rule into_elements_array_of) simp


subsection \<open>Equality of key-value records\<close>

definition field_eq :: "Value KeyValueField \<Rightarrow> Value KeyValueField \<Rightarrow> bool" where
  "field_eq f g \<longleftrightarrow>
     kf_id f = kf_id g \<and> kf_name f = kf_name g \<and> value_opt_eq (kf_value f) (kf_value g)"

lemma value_opt_eq_iff:
  "value_opt_eq a b \<longleftrightarrow>
     (case a of None \<Rightarrow> True | Some v \<Rightarrow> nan_free v) \<and>
     (case b of None \<Rightarrow> True | Some v \<Rightarrow> nan_free v) \<and> map_option canon a = map_option canon b"
  by (cases a; cases b) (auto simp: value_eq_def)

definition canon_field :: "Value KeyValueField \<Rightarrow> Value KeyValueField" where
  "canon_field f = KeyValueField (kf_id f) (kf_name f) (map_option canon (kf_value f))"

definition nan_free_field :: "Value KeyValueField \<Rightarrow> bool" where
  "nan_free_field f \<longleftrightarrow> (case kf_value f of None \<Rightarrow> True | Some v \<Rightarrow> nan_free v)"

lemma field_eq_iff:
  "field_eq f g \<longleftrightarrow> nan_free_field f \<and> nan_free_field g \<and> canon_field f = canon_field g"
  by (auto simp: field_eq_def nan_free_field_def canon_field_def value_opt_eq_iff)

lemma rel_option_field_eq:
  "rel_option field_eq x y \<longleftrightarrow>
     (\<forall>f. x = Some f \<longrightarrow> nan_free_field f) \<and> (\<forall>f. y = Some f \<longrightarrow> nan_free_field f) \<and>
     map_option canon_field x = map_option canon_field y"
  by (cases x; cases y) (auto simp: field_eq_iff)

lemma canon_KeyValue:
  "canon (KeyValue kv) =
     KeyValue (MkKeyValue (kv_id kv) (sort_key fst (map (\<lambda>(k, f). (k, canon_field f)) (kv_fields kv))))"
  by (simp add: canon_field_def case_prod_unfold map_option_case)

lemma nan_free_KeyValue:
  "hm_ok (kv_fields kv) \<Longrightarrow>
     nan_free (KeyValue kv) \<longleftrightarrow> (\<forall>k f. map_of (kv_fields kv) k = Some f \<longrightarrow> nan_free_field f)"
  by (auto simp: list_all_iff nan_free_field_def)

text \<open>
  The equality of two key-value records is the equality of two maps: same id, and the same
  names bound to equal fields, whatever the order the fields are stored in.
\<close>

theorem value_eq_KeyValue:
  assumes "hm_ok (kv_fields a)" "hm_ok (kv_fields b)"
  shows "value_eq (KeyValue a) (KeyValue b) \<longleftrightarrow>
     kv_id a = kv_id b \<and> (\<forall>k. rel_option field_eq (get_field a k) (get_field b k))"
proof -
  have ok: "hm_ok (map (\<lambda>(k, f). (k, canon_field f)) m)" if "hm_ok m"
    for m :: "(string, Value KeyValueField) hash_map"
    using that by (simp add: comp_def case_prod_unfold)
  have sort: "sort_key fst (map (\<lambda>(k, f). (k, canon_field f)) (kv_fields a)) =
      sort_key fst (map (\<lambda>(k, f). (k, canon_field f)) (kv_fields b)) \<longleftrightarrow>
     (\<forall>k. map_option canon_field (map_of (kv_fields a) k) =
        map_option canon_field (map_of (kv_fields b) k))"
    by (subst sort_key_fst_map_of) (use ok assms in \<open>auto simp: fun_eq_iff map_of_map_keys\<close>)
  have "value_eq (KeyValue a) (KeyValue b) \<longleftrightarrow> kv_id a = kv_id b \<and>
     (\<forall>k f. map_of (kv_fields a) k = Some f \<longrightarrow> nan_free_field f) \<and>
     (\<forall>k f. map_of (kv_fields b) k = Some f \<longrightarrow> nan_free_field f) \<and>
     (\<forall>k. map_option canon_field (map_of (kv_fields a) k) =
        map_option canon_field (map_of (kv_fields b) k))"
    using assms
    by (auto simp: value_eq_def canon_KeyValue nan_free_KeyValue sort
        simp del: canon.simps nan_free.simps)
  also have "\<dots> \<longleftrightarrow> kv_id a = kv_id b \<and>
     (\<forall>k. rel_option field_eq (map_of (kv_fields a) k) (map_of (kv_fields b) k))"
    unfolding rel_option_field_eq by blast
  finally show ?thesis by (simp add: get_field_def)
qed

theorem value_eq_KeyValue_witness:
  "value_eq
     (KeyValue (MkKeyValue 7 [(''a'', KeyValueField 1 ''a'' (Some (F32 0))),
                              (''b'', KeyValueField 2 ''b'' None)]))
     (KeyValue (MkKeyValue 7 [(''b'', KeyValueField 2 ''b'' None),
                              (''a'', KeyValueField 1 ''a'' (Some (F32 0x80000000)))]))"
  by (subst value_eq_KeyValue)
    (auto simp: get_field_def field_eq_def value_eq_def nan32_def canon32_def)

subsection \<open>Key-value items\<close>

lemma items_position_None: "items_position n fs = None \<longleftrightarrow> n \<notin> kf_name ` set fs"
  by (induction fs) auto

lemma items_position_Some:
  "items_position n fs = Some i \<Longrightarrow>
     i < length fs \<and> kf_name (fs ! i) = n \<and> items_get fs n = Some (fs ! i)"
  by (induction fs arbitrary: i) (auto simp: items_get_def split: if_splits)

lemma items_get_None: "items_get fs n = None \<longleftrightarrow> n \<notin> kf_name ` set fs"
  by (auto simp: items_get_def find_None_iff)

lemma items_set_names:
  "map kf_name (fst (items_set fs f)) =
     (if kf_name f \<in> kf_name ` set fs then map kf_name fs else map kf_name fs @ [kf_name f])"
  by (auto simp: items_set_def map_update items_position_None [symmetric] list_update_same_conv
      dest!: items_position_Some split: option.splits)

lemma items_get_update:
  "items_position (kf_name f) fs = Some i \<Longrightarrow>
     items_get (fs[i := f]) n = (if n = kf_name f then Some f else items_get fs n)"
  by (induction fs arbitrary: i) (auto simp: items_get_def split: if_splits)

lemma items_get_snoc:
  "items_get (fs @ [f]) n =
     (case items_get fs n of Some g \<Rightarrow> Some g | None \<Rightarrow> if n = kf_name f then Some f else None)"
  by (induction fs) (auto simp: items_get_def)

lemma items_get_set:
  "items_get (fst (items_set fs f)) n = (if n = kf_name f then Some f else items_get fs n)"
proof (cases "items_position (kf_name f) fs")
  case None
  then have "items_get fs (kf_name f) = None" by (simp add: items_get_None items_position_None)
  with None show ?thesis by (auto simp: items_set_def items_get_snoc split: option.splits)
qed (simp add: items_set_def items_get_update)

lemma items_set_replaced: "snd (items_set fs f) = items_get fs (kf_name f)"
proof (cases "items_position (kf_name f) fs")
  case None
  then have "items_get fs (kf_name f) = None" by (simp add: items_get_None items_position_None)
  with None show ?thesis by (simp add: items_set_def)
qed (simp add: items_set_def items_position_Some)

lemma items_from_snoc: "items_from (fs @ [f]) = fst (items_set (items_from fs) f)"
  by (simp add: items_from_def)

lemma items_from_distinct: "distinct (map kf_name (items_from fs))"
  by (induction fs rule: rev_induct) (auto simp: items_from_snoc items_set_names items_from_def)

lemma key_value_from_snoc:
  "get_field (key_value_from i (fs @ [f])) = (get_field (key_value_from i fs))(kf_name f \<mapsto> f)"
  by (simp add: key_value_from_def get_field_def fun_eq_iff)

lemma items_from_get: "items_get (items_from fs) n = get_field (key_value_from i fs) n"
proof (induction fs rule: rev_induct)
  case (snoc f fs)
  then show ?case by (simp add: items_from_snoc items_get_set key_value_from_snoc)
qed (simp add: items_from_def items_get_def key_value_from_def get_field_def)

lemma key_value_from_distinct:
  "distinct (map kf_name fs) \<Longrightarrow> get_field (key_value_from i fs) n = items_get fs n"
proof (induction fs rule: rev_induct)
  case (snoc f fs)
  then show ?case using items_get_None [of fs "kf_name f"]
    by (auto simp: key_value_from_snoc items_get_snoc split: option.splits)
qed (simp add: items_get_def key_value_from_def get_field_def)

text \<open>
  \<open>KeyValueItems\<close> is the ordered form of the key-value map: built from any list of fields it
  holds each name once, its lookup is the lookup of the map built from the same list (the last
  field of a name wins), and the map built from the items is that same map.
\<close>

theorem key_value_items_refine_map:
  "distinct (map kf_name (items_from fs)) \<and>
   items_get (items_from fs) = get_field (key_value_from i fs) \<and>
   get_field (key_value_from i (items_from fs)) = get_field (key_value_from i fs)"
  by (auto simp: key_value_from_distinct items_from_distinct items_from_get [of fs _ i])

end
