(* ===== verification/Buffers.thy ===== *)
theory Buffers
  imports Values
begin

text \<open>
  The Arora Buffer: the wire format (\<open>crates/arora-buffers/src/format.rs\<close>), its writer
  (\<open>writer.rs\<close>) and its reader (\<open>reader.rs\<close>).

  The primitive byte operations are those of the \<open>bytes\<close> crate and the conversions of ids those
  of the \<open>uuid\<close> crate: a record of functions, \<open>E\<close>, that every operation takes. What they do is
  the locale \<open>buffer_crates\<close>: a \<open>put\<close> appends the little-endian bytes, a \<open>get\<close> takes them off
  the front and panics when there are too few, an id is sixteen bytes. A panic is \<open>None\<close>.
\<close>

section \<open>The crates\<close>

record crates =
  put_u8 :: "byte list \<Rightarrow> byte \<Rightarrow> byte list"
  put_u16_le :: "byte list \<Rightarrow> u16 \<Rightarrow> byte list"
  put_u32_le :: "byte list \<Rightarrow> u32 \<Rightarrow> byte list"
  put_u64_le :: "byte list \<Rightarrow> u64 \<Rightarrow> byte list"
  put_i8 :: "byte list \<Rightarrow> byte \<Rightarrow> byte list"
  put_i16_le :: "byte list \<Rightarrow> u16 \<Rightarrow> byte list"
  put_i32_le :: "byte list \<Rightarrow> u32 \<Rightarrow> byte list"
  put_i64_le :: "byte list \<Rightarrow> u64 \<Rightarrow> byte list"
  put_f32_le :: "byte list \<Rightarrow> u32 \<Rightarrow> byte list"
  put_f64_le :: "byte list \<Rightarrow> u64 \<Rightarrow> byte list"
  put_slice :: "byte list \<Rightarrow> byte list \<Rightarrow> byte list"
  get_u8 :: "byte list \<Rightarrow> (byte \<times> byte list) option"
  get_u16_le :: "byte list \<Rightarrow> (u16 \<times> byte list) option"
  get_u32_le :: "byte list \<Rightarrow> (u32 \<times> byte list) option"
  get_u64_le :: "byte list \<Rightarrow> (u64 \<times> byte list) option"
  get_i8 :: "byte list \<Rightarrow> (byte \<times> byte list) option"
  get_i16_le :: "byte list \<Rightarrow> (u16 \<times> byte list) option"
  get_i32_le :: "byte list \<Rightarrow> (u32 \<times> byte list) option"
  get_i64_le :: "byte list \<Rightarrow> (u64 \<times> byte list) option"
  get_f32_le :: "byte list \<Rightarrow> (u32 \<times> byte list) option"
  get_f64_le :: "byte list \<Rightarrow> (u64 \<times> byte list) option"
  advance :: "byte list \<Rightarrow> nat \<Rightarrow> byte list option"
  as_bytes :: "uuid \<Rightarrow> byte list"
  from_slice :: "byte list \<Rightarrow> uuid option"

text \<open>Taking a little-endian word of \<open>n\<close> bytes off the front.\<close>

definition take_le :: "nat \<Rightarrow> byte list \<Rightarrow> ('a::len word \<times> byte list) option" where
  "take_le n bs = (if n \<le> length bs then Some (le_word (take n bs), drop n bs) else None)"

locale buffer_crates =
  fixes E :: crates
  assumes puts:
    "put_u8 E bs u8_v = bs @ le_bytes 1 u8_v"
    "put_u16_le E bs u16_v = bs @ le_bytes 2 u16_v"
    "put_u32_le E bs u32_v = bs @ le_bytes 4 u32_v"
    "put_u64_le E bs u64_v = bs @ le_bytes 8 u64_v"
    "put_i8 E bs i8_v = bs @ le_bytes 1 i8_v"
    "put_i16_le E bs i16_v = bs @ le_bytes 2 i16_v"
    "put_i32_le E bs i32_v = bs @ le_bytes 4 i32_v"
    "put_i64_le E bs i64_v = bs @ le_bytes 8 i64_v"
    "put_f32_le E bs f32_v = bs @ le_bytes 4 f32_v"
    "put_f64_le E bs f64_v = bs @ le_bytes 8 f64_v"
    "put_slice E bs s = bs @ s"
    and gets:
    "get_u8 E bs = take_le 1 bs"
    "get_u16_le E bs = take_le 2 bs"
    "get_u32_le E bs = take_le 4 bs"
    "get_u64_le E bs = take_le 8 bs"
    "get_i8 E bs = take_le 1 bs"
    "get_i16_le E bs = take_le 2 bs"
    "get_i32_le E bs = take_le 4 bs"
    "get_i64_le E bs = take_le 8 bs"
    "get_f32_le E bs = take_le 4 bs"
    "get_f64_le E bs = take_le 8 bs"
    and advances: "advance E bs n = (if n \<le> length bs then Some (drop n bs) else None)"
    and as_bytes_length: "length (as_bytes E u) = 16"
    and from_as_bytes: "from_slice E (as_bytes E u) = Some u"
    and from_slice_total: "length bs = 16 \<Longrightarrow> from_slice E bs \<noteq> None"

section \<open>Format\<close>

definition TYPE_UNIT :: byte where "TYPE_UNIT = 0"
definition TYPE_BOOLEAN :: byte where "TYPE_BOOLEAN = 1"
definition TYPE_U8 :: byte where "TYPE_U8 = 2"
definition TYPE_U16 :: byte where "TYPE_U16 = 3"
definition TYPE_U32 :: byte where "TYPE_U32 = 4"
definition TYPE_U64 :: byte where "TYPE_U64 = 5"
definition TYPE_I8 :: byte where "TYPE_I8 = 6"
definition TYPE_I16 :: byte where "TYPE_I16 = 7"
definition TYPE_I32 :: byte where "TYPE_I32 = 8"
definition TYPE_I64 :: byte where "TYPE_I64 = 9"
definition TYPE_F32 :: byte where "TYPE_F32 = 10"
definition TYPE_F64 :: byte where "TYPE_F64 = 11"
definition TYPE_STRING :: byte where "TYPE_STRING = 12"
definition TYPE_STRUCTURE :: byte where "TYPE_STRUCTURE = 13"
definition TYPE_ENUMERATION :: byte where "TYPE_ENUMERATION = 14"
definition TYPE_ARRAY :: byte where "TYPE_ARRAY = 15"
definition TYPE_MAP :: byte where "TYPE_MAP = 16"
definition TYPE_OPTION :: byte where "TYPE_OPTION = 17"
definition TYPE_UUID :: byte where "TYPE_UUID = 18"
definition TYPE_VALUE :: byte where "TYPE_VALUE = 19"
definition TYPE_ERROR :: byte where "TYPE_ERROR = 20"
definition ALIGNMENT :: nat where "ALIGNMENT = 8"
definition BUFFER_SIZE_SIZE :: nat where "BUFFER_SIZE_SIZE = 4"

lemmas tag_defs = TYPE_UNIT_def TYPE_BOOLEAN_def TYPE_U8_def TYPE_U16_def TYPE_U32_def
  TYPE_U64_def TYPE_I8_def TYPE_I16_def TYPE_I32_def TYPE_I64_def
  TYPE_F32_def TYPE_F64_def TYPE_STRING_def TYPE_STRUCTURE_def TYPE_ENUMERATION_def
  TYPE_ARRAY_def TYPE_MAP_def TYPE_OPTION_def TYPE_UUID_def TYPE_VALUE_def
  TYPE_ERROR_def

section \<open>Writer\<close>

text \<open>A writer is its backing vector. The asserts on the length of an id are panics.\<close>

type_synonym BufferWriter = "byte list"

definition BufferWriter_new :: "crates \<Rightarrow> BufferWriter" where
  "BufferWriter_new E = put_u32_le E [] 0"

definition writer_align :: "crates \<Rightarrow> BufferWriter \<Rightarrow> BufferWriter" where
  "writer_align E w = ((\<lambda>b. put_u8 E b 0) ^^ (ALIGNMENT - length w mod ALIGNMENT)) w"

definition put_id :: "crates \<Rightarrow> byte list \<Rightarrow> BufferWriter \<Rightarrow> BufferWriter option" where
  "put_id E i w = (if length i = 16 then Some (put_slice E w i) else None)"

definition begin_structure_raw :: "crates \<Rightarrow> u32 \<Rightarrow> BufferWriter \<Rightarrow> BufferWriter option" where
  "begin_structure_raw E field_count w = Some (put_u32_le E w field_count)"

definition begin_structure :: "crates \<Rightarrow> byte list \<Rightarrow> u32 \<Rightarrow> BufferWriter \<Rightarrow> BufferWriter option" where
  "begin_structure E i field_count w =
     do { w \<leftarrow> put_id E i (put_u8 E w TYPE_STRUCTURE); begin_structure_raw E field_count w }"

definition add_enumeration_value_raw :: "crates \<Rightarrow> byte list \<Rightarrow> BufferWriter \<Rightarrow> BufferWriter option" where
  "add_enumeration_value_raw E value_id w = put_id E value_id w"

definition add_enumeration_value ::
  "crates \<Rightarrow> byte list \<Rightarrow> byte list \<Rightarrow> BufferWriter \<Rightarrow> BufferWriter option" where
  "add_enumeration_value E i value_id w =
     do { w \<leftarrow> put_id E i (put_u8 E w TYPE_ENUMERATION); add_enumeration_value_raw E value_id w }"

definition add_structure_field :: "crates \<Rightarrow> byte list \<Rightarrow> BufferWriter \<Rightarrow> BufferWriter option" where
  "add_structure_field E i w = put_id E i w"

definition add_unit :: "crates \<Rightarrow> BufferWriter \<Rightarrow> BufferWriter option" where
  "add_unit E w = Some (put_u8 E w TYPE_UNIT)"

definition add_boolean_raw :: "crates \<Rightarrow> bool \<Rightarrow> BufferWriter \<Rightarrow> BufferWriter option" where
  "add_boolean_raw E v w = Some (put_u8 E w (if v then 1 else 0))"

definition add_boolean :: "crates \<Rightarrow> bool \<Rightarrow> BufferWriter \<Rightarrow> BufferWriter option" where
  "add_boolean E v w = add_boolean_raw E v (put_u8 E w TYPE_BOOLEAN)"

definition add_boolean_raw_bulk :: "crates \<Rightarrow> bool list \<Rightarrow> BufferWriter \<Rightarrow> BufferWriter option" where
  "add_boolean_raw_bulk E vs w = foldM (add_boolean_raw E) vs (writer_align E w)"

definition add_u8_raw :: "crates \<Rightarrow> byte \<Rightarrow> BufferWriter \<Rightarrow> BufferWriter option" where
  "add_u8_raw E v w = Some (put_u8 E w v)"

definition add_u8 :: "crates \<Rightarrow> byte \<Rightarrow> BufferWriter \<Rightarrow> BufferWriter option" where
  "add_u8 E v w = add_u8_raw E v (put_u8 E w TYPE_U8)"

definition add_u8_raw_bulk :: "crates \<Rightarrow> byte list \<Rightarrow> BufferWriter \<Rightarrow> BufferWriter option" where
  "add_u8_raw_bulk E vs w = foldM (add_u8_raw E) vs (writer_align E w)"

definition add_u16_raw :: "crates \<Rightarrow> u16 \<Rightarrow> BufferWriter \<Rightarrow> BufferWriter option" where
  "add_u16_raw E v w = Some (put_u16_le E w v)"

definition add_u16 :: "crates \<Rightarrow> u16 \<Rightarrow> BufferWriter \<Rightarrow> BufferWriter option" where
  "add_u16 E v w = add_u16_raw E v (put_u8 E w TYPE_U16)"

definition add_u16_raw_bulk :: "crates \<Rightarrow> u16 list \<Rightarrow> BufferWriter \<Rightarrow> BufferWriter option" where
  "add_u16_raw_bulk E vs w = foldM (add_u16_raw E) vs (writer_align E w)"

definition add_u32_raw :: "crates \<Rightarrow> u32 \<Rightarrow> BufferWriter \<Rightarrow> BufferWriter option" where
  "add_u32_raw E v w = Some (put_u32_le E w v)"

definition add_u32 :: "crates \<Rightarrow> u32 \<Rightarrow> BufferWriter \<Rightarrow> BufferWriter option" where
  "add_u32 E v w = add_u32_raw E v (put_u8 E w TYPE_U32)"

definition add_u32_raw_bulk :: "crates \<Rightarrow> u32 list \<Rightarrow> BufferWriter \<Rightarrow> BufferWriter option" where
  "add_u32_raw_bulk E vs w = foldM (add_u32_raw E) vs (writer_align E w)"

definition add_u64_raw :: "crates \<Rightarrow> u64 \<Rightarrow> BufferWriter \<Rightarrow> BufferWriter option" where
  "add_u64_raw E v w = Some (put_u64_le E w v)"

definition add_u64 :: "crates \<Rightarrow> u64 \<Rightarrow> BufferWriter \<Rightarrow> BufferWriter option" where
  "add_u64 E v w = add_u64_raw E v (put_u8 E w TYPE_U64)"

definition add_u64_raw_bulk :: "crates \<Rightarrow> u64 list \<Rightarrow> BufferWriter \<Rightarrow> BufferWriter option" where
  "add_u64_raw_bulk E vs w = foldM (add_u64_raw E) vs (writer_align E w)"

definition add_i8_raw :: "crates \<Rightarrow> byte \<Rightarrow> BufferWriter \<Rightarrow> BufferWriter option" where
  "add_i8_raw E v w = Some (put_i8 E w v)"

definition add_i8 :: "crates \<Rightarrow> byte \<Rightarrow> BufferWriter \<Rightarrow> BufferWriter option" where
  "add_i8 E v w = add_i8_raw E v (put_u8 E w TYPE_I8)"

definition add_i8_raw_bulk :: "crates \<Rightarrow> byte list \<Rightarrow> BufferWriter \<Rightarrow> BufferWriter option" where
  "add_i8_raw_bulk E vs w = foldM (add_i8_raw E) vs (writer_align E w)"

definition add_i16_raw :: "crates \<Rightarrow> u16 \<Rightarrow> BufferWriter \<Rightarrow> BufferWriter option" where
  "add_i16_raw E v w = Some (put_i16_le E w v)"

definition add_i16 :: "crates \<Rightarrow> u16 \<Rightarrow> BufferWriter \<Rightarrow> BufferWriter option" where
  "add_i16 E v w = add_i16_raw E v (put_u8 E w TYPE_I16)"

definition add_i16_raw_bulk :: "crates \<Rightarrow> u16 list \<Rightarrow> BufferWriter \<Rightarrow> BufferWriter option" where
  "add_i16_raw_bulk E vs w = foldM (add_i16_raw E) vs (writer_align E w)"

definition add_i32_raw :: "crates \<Rightarrow> u32 \<Rightarrow> BufferWriter \<Rightarrow> BufferWriter option" where
  "add_i32_raw E v w = Some (put_i32_le E w v)"

definition add_i32 :: "crates \<Rightarrow> u32 \<Rightarrow> BufferWriter \<Rightarrow> BufferWriter option" where
  "add_i32 E v w = add_i32_raw E v (put_u8 E w TYPE_I32)"

definition add_i32_raw_bulk :: "crates \<Rightarrow> u32 list \<Rightarrow> BufferWriter \<Rightarrow> BufferWriter option" where
  "add_i32_raw_bulk E vs w = foldM (add_i32_raw E) vs (writer_align E w)"

definition add_i64_raw :: "crates \<Rightarrow> u64 \<Rightarrow> BufferWriter \<Rightarrow> BufferWriter option" where
  "add_i64_raw E v w = Some (put_i64_le E w v)"

definition add_i64 :: "crates \<Rightarrow> u64 \<Rightarrow> BufferWriter \<Rightarrow> BufferWriter option" where
  "add_i64 E v w = add_i64_raw E v (put_u8 E w TYPE_I64)"

definition add_i64_raw_bulk :: "crates \<Rightarrow> u64 list \<Rightarrow> BufferWriter \<Rightarrow> BufferWriter option" where
  "add_i64_raw_bulk E vs w = foldM (add_i64_raw E) vs (writer_align E w)"

definition add_f32_raw :: "crates \<Rightarrow> u32 \<Rightarrow> BufferWriter \<Rightarrow> BufferWriter option" where
  "add_f32_raw E v w = Some (put_f32_le E w v)"

definition add_f32 :: "crates \<Rightarrow> u32 \<Rightarrow> BufferWriter \<Rightarrow> BufferWriter option" where
  "add_f32 E v w = add_f32_raw E v (put_u8 E w TYPE_F32)"

definition add_f32_raw_bulk :: "crates \<Rightarrow> u32 list \<Rightarrow> BufferWriter \<Rightarrow> BufferWriter option" where
  "add_f32_raw_bulk E vs w = foldM (add_f32_raw E) vs (writer_align E w)"

definition add_f64_raw :: "crates \<Rightarrow> u64 \<Rightarrow> BufferWriter \<Rightarrow> BufferWriter option" where
  "add_f64_raw E v w = Some (put_f64_le E w v)"

definition add_f64 :: "crates \<Rightarrow> u64 \<Rightarrow> BufferWriter \<Rightarrow> BufferWriter option" where
  "add_f64 E v w = add_f64_raw E v (put_u8 E w TYPE_F64)"

definition add_f64_raw_bulk :: "crates \<Rightarrow> u64 list \<Rightarrow> BufferWriter \<Rightarrow> BufferWriter option" where
  "add_f64_raw_bulk E vs w = foldM (add_f64_raw E) vs (writer_align E w)"

definition add_string_raw :: "crates \<Rightarrow> string \<Rightarrow> BufferWriter \<Rightarrow> BufferWriter option" where
  "add_string_raw E v w =
     Some (put_slice E (put_u32_le E w (word_of_nat (length v))) (str_bytes v))"

definition add_string :: "crates \<Rightarrow> string \<Rightarrow> BufferWriter \<Rightarrow> BufferWriter option" where
  "add_string E v w = add_string_raw E v (put_u8 E w TYPE_STRING)"

definition add_string_raw_bulk :: "crates \<Rightarrow> string list \<Rightarrow> BufferWriter \<Rightarrow> BufferWriter option" where
  "add_string_raw_bulk E vs w = foldM (add_string_raw E) vs (writer_align E w)"

definition add_array_primitive :: "crates \<Rightarrow> byte \<Rightarrow> u32 \<Rightarrow> BufferWriter \<Rightarrow> BufferWriter option" where
  "add_array_primitive E ty element_count w =
     Some (put_u32_le E (put_u8 E (put_u8 E w TYPE_ARRAY) ty) element_count)"

definition add_array_structure :: "crates \<Rightarrow> byte list \<Rightarrow> u32 \<Rightarrow> BufferWriter \<Rightarrow> BufferWriter option" where
  "add_array_structure E ty_id element_count w =
     put_id E ty_id (put_u32_le E (put_u8 E (put_u8 E w TYPE_ARRAY) TYPE_STRUCTURE) element_count)"

definition add_array_enumeration ::
  "crates \<Rightarrow> byte list \<Rightarrow> u32 \<Rightarrow> BufferWriter \<Rightarrow> BufferWriter option" where
  "add_array_enumeration E ty_id element_count w =
     put_id E ty_id (put_u32_le E (put_u8 E (put_u8 E w TYPE_ARRAY) TYPE_ENUMERATION) element_count)"

definition add_option_some :: "crates \<Rightarrow> BufferWriter \<Rightarrow> BufferWriter option" where
  "add_option_some E w = Some (put_u8 E (put_u8 E w TYPE_OPTION) 1)"

definition add_option_none :: "crates \<Rightarrow> BufferWriter \<Rightarrow> BufferWriter option" where
  "add_option_none E w = Some (put_u8 E (put_u8 E w TYPE_OPTION) 0)"

definition add_uuid_raw :: "crates \<Rightarrow> byte list \<Rightarrow> BufferWriter \<Rightarrow> BufferWriter option" where
  "add_uuid_raw E i w = put_id E i w"

definition add_uuid :: "crates \<Rightarrow> byte list \<Rightarrow> BufferWriter \<Rightarrow> BufferWriter option" where
  "add_uuid E i w = add_uuid_raw E i (put_u8 E w TYPE_UUID)"

definition begin_map :: "crates \<Rightarrow> byte list \<Rightarrow> u32 \<Rightarrow> BufferWriter \<Rightarrow> BufferWriter option" where
  "begin_map E i field_count w =
     do { w \<leftarrow> put_id E i (put_u8 E w TYPE_MAP); Some (put_u32_le E w field_count) }"

definition add_map_field_key :: "crates \<Rightarrow> string \<Rightarrow> BufferWriter \<Rightarrow> BufferWriter option" where
  "add_map_field_key E key w =
     Some (put_slice E (put_u32_le E w (word_of_nat (length key))) (str_bytes key))"

definition add_error :: "crates \<Rightarrow> string \<Rightarrow> BufferWriter \<Rightarrow> BufferWriter option" where
  "add_error E message w = add_string_raw E message (put_u8 E w TYPE_ERROR)"

text \<open>\<open>finalize\<close> overwrites the first four bytes with the total length, modulo \<open>2 ^ 32\<close>.\<close>

definition finalize :: "BufferWriter \<Rightarrow> byte list option" where
  "finalize w =
     (if 4 \<le> length w then Some (le_bytes 4 (word_of_nat (length w) :: u32) @ drop 4 w) else None)"

section \<open>Reader\<close>

record BufferReader =
  r_backing :: "byte list"
  r_buffer_len :: nat

definition BufferReader_new :: "byte list \<Rightarrow> BufferReader option" where
  "BufferReader_new buffer =
     (if 4 \<le> length buffer then Some \<lparr>r_backing = drop 4 buffer, r_buffer_len = length buffer\<rparr>
      else None)"

definition reader_align :: "BufferReader \<Rightarrow> BufferReader option" where
  "reader_align r =
     (let absolute_offset = r_buffer_len r - length (r_backing r);
          pad = ALIGNMENT - absolute_offset mod ALIGNMENT
      in if pad \<le> length (r_backing r) then Some (r\<lparr>r_backing := drop pad (r_backing r)\<rparr>) else None)"

definition peek_type :: "BufferReader \<Rightarrow> byte option" where
  "peek_type r = (case r_backing r of [] \<Rightarrow> None | b # _ \<Rightarrow> Some b)"

text \<open>A \<open>get\<close> of the crate on the reader's slice.\<close>

definition on_backing ::
  "(byte list \<Rightarrow> ('a \<times> byte list) option) \<Rightarrow> BufferReader \<Rightarrow> ('a \<times> BufferReader) option" where
  "on_backing get r = do { (x, bs) \<leftarrow> get (r_backing r); Some (x, r\<lparr>r_backing := bs\<rparr>) }"

definition next_type :: "crates \<Rightarrow> BufferReader \<Rightarrow> (byte \<times> BufferReader) option" where
  "next_type E r = (if r_backing r = [] then None else on_backing (get_u8 E) r)"

text \<open>\<open>&self.backing[0..len]\<close>, then \<open>advance(len)\<close>.\<close>

definition take_bytes :: "crates \<Rightarrow> nat \<Rightarrow> BufferReader \<Rightarrow> (byte list \<times> BufferReader) option" where
  "take_bytes E len r =
     (if len \<le> length (r_backing r)
      then do { bs \<leftarrow> advance E (r_backing r) len;
                Some (take len (r_backing r), r\<lparr>r_backing := bs\<rparr>) }
      else None)"

definition take_aligned_bytes :: "nat \<Rightarrow> BufferReader \<Rightarrow> (byte list \<times> BufferReader) option" where
  "take_aligned_bytes n r =
     do { r \<leftarrow> reader_align r;
          if n \<le> length (r_backing r)
          then Some (take n (r_backing r), r\<lparr>r_backing := drop n (r_backing r)\<rparr>) else None }"

definition get_boolean :: "crates \<Rightarrow> BufferReader \<Rightarrow> (bool \<times> BufferReader) option" where
  "get_boolean E r = do { (b, r) \<leftarrow> on_backing (get_u8 E) r; Some (b \<noteq> 0, r) }"

definition get_u8_bulk :: "nat \<Rightarrow> BufferReader \<Rightarrow> (byte list \<times> BufferReader) option" where
  "get_u8_bulk n r = take_aligned_bytes n r"

definition reader_u8 :: "crates \<Rightarrow> BufferReader \<Rightarrow> (byte \<times> BufferReader) option" where
  "reader_u8 E r = on_backing (get_u8 E) r"

definition reader_u16 :: "crates \<Rightarrow> BufferReader \<Rightarrow> (u16 \<times> BufferReader) option" where
  "reader_u16 E r = on_backing (get_u16_le E) r"

definition reader_u32 :: "crates \<Rightarrow> BufferReader \<Rightarrow> (u32 \<times> BufferReader) option" where
  "reader_u32 E r = on_backing (get_u32_le E) r"

definition reader_u64 :: "crates \<Rightarrow> BufferReader \<Rightarrow> (u64 \<times> BufferReader) option" where
  "reader_u64 E r = on_backing (get_u64_le E) r"

definition reader_i8 :: "crates \<Rightarrow> BufferReader \<Rightarrow> (byte \<times> BufferReader) option" where
  "reader_i8 E r = on_backing (get_i8 E) r"

definition reader_i16 :: "crates \<Rightarrow> BufferReader \<Rightarrow> (u16 \<times> BufferReader) option" where
  "reader_i16 E r = on_backing (get_i16_le E) r"

definition reader_i32 :: "crates \<Rightarrow> BufferReader \<Rightarrow> (u32 \<times> BufferReader) option" where
  "reader_i32 E r = on_backing (get_i32_le E) r"

definition reader_i64 :: "crates \<Rightarrow> BufferReader \<Rightarrow> (u64 \<times> BufferReader) option" where
  "reader_i64 E r = on_backing (get_i64_le E) r"

definition reader_f32 :: "crates \<Rightarrow> BufferReader \<Rightarrow> (u32 \<times> BufferReader) option" where
  "reader_f32 E r = on_backing (get_f32_le E) r"

definition reader_f64 :: "crates \<Rightarrow> BufferReader \<Rightarrow> (u64 \<times> BufferReader) option" where
  "reader_f64 E r = on_backing (get_f64_le E) r"

definition get_string :: "crates \<Rightarrow> BufferReader \<Rightarrow> (string \<times> BufferReader) option" where
  "get_string E r =
     do { (len, r) \<leftarrow> on_backing (get_u32_le E) r;
          (bs, r) \<leftarrow> take_bytes E (unat len) r;
          s \<leftarrow> from_utf8 bs;
          Some (s, r) }"

definition get_structure_raw :: "crates \<Rightarrow> BufferReader \<Rightarrow> (u32 \<times> BufferReader) option" where
  "get_structure_raw E r = on_backing (get_u32_le E) r"

definition get_structure :: "crates \<Rightarrow> BufferReader \<Rightarrow> ((byte list \<times> u32) \<times> BufferReader) option" where
  "get_structure E r =
     do { (i, r) \<leftarrow> take_bytes E 16 r; (field_count, r) \<leftarrow> get_structure_raw E r;
          Some ((i, field_count), r) }"

definition get_structure_field :: "crates \<Rightarrow> BufferReader \<Rightarrow> (byte list \<times> BufferReader) option" where
  "get_structure_field E r = take_bytes E 16 r"

definition get_enumeration_value ::
  "crates \<Rightarrow> BufferReader \<Rightarrow> ((byte list \<times> byte list) \<times> BufferReader) option" where
  "get_enumeration_value E r =
     do { (i, r) \<leftarrow> take_bytes E 16 r; (value_id, r) \<leftarrow> take_bytes E 16 r; Some ((i, value_id), r) }"

definition get_enumeration_value_raw :: "crates \<Rightarrow> BufferReader \<Rightarrow> (byte list \<times> BufferReader) option" where
  "get_enumeration_value_raw E r = take_bytes E 16 r"

definition get_option_presence :: "crates \<Rightarrow> BufferReader \<Rightarrow> (bool \<times> BufferReader) option" where
  "get_option_presence E r = do { (b, r) \<leftarrow> on_backing (get_u8 E) r; Some (b \<noteq> 0, r) }"

definition get_uuid :: "crates \<Rightarrow> BufferReader \<Rightarrow> (byte list \<times> BufferReader) option" where
  "get_uuid E r = take_bytes E 16 r"

definition get_map :: "crates \<Rightarrow> BufferReader \<Rightarrow> ((byte list \<times> u32) \<times> BufferReader) option" where
  "get_map E r =
     do { (i, r) \<leftarrow> take_bytes E 16 r; (field_count, r) \<leftarrow> on_backing (get_u32_le E) r;
          Some ((i, field_count), r) }"

definition get_map_field_key :: "crates \<Rightarrow> BufferReader \<Rightarrow> (string \<times> BufferReader) option" where
  "get_map_field_key E r =
     do { (len, r) \<leftarrow> on_backing (get_u32_le E) r;
          (bs, r) \<leftarrow> take_bytes E (unat len) r;
          s \<leftarrow> from_utf8 bs;
          Some (s, r) }"

definition get_array :: "crates \<Rightarrow> BufferReader \<Rightarrow> ((byte \<times> u32) \<times> BufferReader) option" where
  "get_array E r =
     do { (ty, r) \<leftarrow> on_backing (get_u8 E) r; (cnt, r) \<leftarrow> on_backing (get_u32_le E) r;
          Some ((ty, cnt), r) }"

section \<open>An instance of the crates\<close>

definition std_crates :: crates where
  "std_crates = \<lparr>put_u8 = (\<lambda>bs v. bs @ le_bytes 1 v), put_u16_le = (\<lambda>bs v. bs @ le_bytes 2 v), put_u32_le = (\<lambda>bs v. bs @ le_bytes 4 v)
    , put_u64_le = (\<lambda>bs v. bs @ le_bytes 8 v), put_i8 = (\<lambda>bs v. bs @ le_bytes 1 v), put_i16_le = (\<lambda>bs v. bs @ le_bytes 2 v)
    , put_i32_le = (\<lambda>bs v. bs @ le_bytes 4 v), put_i64_le = (\<lambda>bs v. bs @ le_bytes 8 v), put_f32_le = (\<lambda>bs v. bs @ le_bytes 4 v)
    , put_f64_le = (\<lambda>bs v. bs @ le_bytes 8 v), put_slice = (@),
    get_u8 = take_le 1, get_u16_le = take_le 2, get_u32_le = take_le 4, get_u64_le = take_le 8
    , get_i8 = take_le 1, get_i16_le = take_le 2, get_i32_le = take_le 4, get_i64_le = take_le 8
    , get_f32_le = take_le 4, get_f64_le = take_le 8,
    advance = (\<lambda>bs n. if n \<le> length bs then Some (drop n bs) else None),
    as_bytes = (\<lambda>u. rev (le_bytes 16 u)),
    from_slice = (\<lambda>bs. if length bs = 16 then Some (le_word (rev bs)) else None)\<rparr>"

interpretation std: buffer_crates std_crates
  by unfold_locales (simp_all add: std_crates_def)

section \<open>Reading back what was written\<close>

text \<open>
  A reader that has \<open>rest\<close> left of a buffer whose first bytes are \<open>w\<close>; a write and a read
  correspond when the read, started where the write started, returns the written thing and stops
  where the write stopped, whatever follows.
\<close>

definition reader_at :: "byte list \<Rightarrow> byte list \<Rightarrow> BufferReader" where
  "reader_at w rest = \<lparr>r_backing = rest, r_buffer_len = length w + length rest\<rparr>"

definition codec ::
  "(BufferWriter \<Rightarrow> BufferWriter option) \<Rightarrow> (BufferReader \<Rightarrow> ('a \<times> BufferReader) option) \<Rightarrow> 'a \<Rightarrow> bool" where
  "codec wr rd x \<longleftrightarrow>
     (\<forall>w. \<exists>bs. wr w = Some (w @ bs) \<and>
        (\<forall>rest. rd (reader_at w (bs @ rest)) = Some (x, reader_at (w @ bs) rest)))"

lemma codecE:
  assumes "codec wr rd x"
  obtains bs where "wr w = Some (w @ bs)"
    "\<And>rest. rd (reader_at w (bs @ rest)) = Some (x, reader_at (w @ bs) rest)"
  using assms unfolding codec_def by blast

lemma reader_at_backing [simp]: "r_backing (reader_at w rest) = rest"
  by (simp add: reader_at_def)

lemma reader_at_advance [simp]: "(reader_at w (bs @ rest))\<lparr>r_backing := rest\<rparr> = reader_at (w @ bs) rest"
  by (simp add: reader_at_def)

lemma codec_return [codec_simps]: "codec Some (\<lambda>r. Some (x, r)) x"
  by (auto simp: codec_def intro: exI [of _ "[]"])

lemma codec_bind:
  assumes "codec wa ra x" "codec wb (rb x) y"
  shows "codec (\<lambda>w. Option.bind (wa w) wb) (\<lambda>r. Option.bind (ra r) (\<lambda>(a, r). rb a r)) y"
  unfolding codec_def
proof
  fix w :: "byte list"
  obtain bs1 where 1: "wa w = Some (w @ bs1)"
    "\<And>rest. ra (reader_at w (bs1 @ rest)) = Some (x, reader_at (w @ bs1) rest)"
    using codecE [OF assms(1), of w] by blast
  obtain bs2 where 2: "wb (w @ bs1) = Some ((w @ bs1) @ bs2)"
    "\<And>rest. rb x (reader_at (w @ bs1) (bs2 @ rest)) = Some (y, reader_at ((w @ bs1) @ bs2) rest)"
    using codecE [OF assms(2), of "w @ bs1"] by blast
  show "\<exists>bs. Option.bind (wa w) wb = Some (w @ bs) \<and>
     (\<forall>rest. Option.bind (ra (reader_at w (bs @ rest))) (\<lambda>(a, r). rb a r) =
       Some (y, reader_at (w @ bs) rest))"
    using 1 2 by (intro exI [of _ "bs1 @ bs2"]) simp
qed

text \<open>The same for a first write that cannot panic.\<close>

lemma codec_after:
  assumes "codec (\<lambda>w. Some (p w)) ra x" "codec wb (rb x) y"
  shows "codec (\<lambda>w. wb (p w)) (\<lambda>r. Option.bind (ra r) (\<lambda>(a, r). rb a r)) y"
  using codec_bind [of "\<lambda>w. Some (p w)" ra x wb rb y] assms by simp

lemma codec_map:
  assumes "codec wa ra x"
  shows "codec wa (\<lambda>r. Option.bind (ra r) (\<lambda>(a, r). Some (f a, r))) (f x)"
  using codec_bind [of wa ra x Some "\<lambda>a r. Some (f a, r)" "f x", OF assms codec_return] by simp

lemma codec_loop:
  assumes "\<And>x. x \<in> set xs \<Longrightarrow> codec (wr x) rd (g x)"
  shows "codec (foldM wr xs) (read_n (length xs) rd) (map g xs)"
  using assms
proof (induction xs)
  case Nil
  then show ?case by (auto simp: codec_def intro: exI [of _ "[]"])
next
  case (Cons x xs)
  have tail: "codec (foldM wr xs)
     (\<lambda>r. Option.bind (read_n (length xs) rd r) (\<lambda>(as, r). Some (g x # as, r))) (g x # map g xs)"
    using codec_map [of "foldM wr xs" "read_n (length xs) rd" "map g xs" "(#) (g x)"] Cons by simp
  show ?case
    using codec_bind [of "wr x" rd "g x" "foldM wr xs" "\<lambda>a r. Option.bind (read_n (length xs) rd r)
        (\<lambda>(as, r). Some (a # as, r))", OF _ tail] Cons.prems by simp
qed

lemma le_bytes_Nil [simp]: "le_bytes n w = [] \<longleftrightarrow> n = 0"
  by (simp add: le_bytes_def)

context buffer_crates
begin

lemma on_backing_le:
  fixes v :: "'a::len word"
  assumes "get = (take_le n :: byte list \<Rightarrow> ('a word \<times> byte list) option)" "LENGTH('a) \<le> 8 * n"
  shows "on_backing get (reader_at w (le_bytes n v @ rest)) = Some (v, reader_at (w @ le_bytes n v) rest)"
  using assms by (simp add: on_backing_def take_le_def)

lemma gets_take_le:
  "get_u8 E = take_le 1"
  "get_u16_le E = take_le 2"
  "get_u32_le E = take_le 4"
  "get_u64_le E = take_le 8"
  "get_i8 E = take_le 1"
  "get_i16_le E = take_le 2"
  "get_i32_le E = take_le 4"
  "get_i64_le E = take_le 8"
  "get_f32_le E = take_le 4"
  "get_f64_le E = take_le 8"
  by (rule ext, rule gets)+

lemma codec_le:
  fixes v :: "'a::len word"
  assumes "get = (take_le n :: byte list \<Rightarrow> ('a word \<times> byte list) option)" "LENGTH('a) \<le> 8 * n"
  shows "codec (\<lambda>w. Some (w @ le_bytes n v)) (on_backing get) v"
  using on_backing_le [OF assms] by (auto simp: codec_def)

lemma codec_u8 [codec_simps]: "codec (add_u8_raw E v) (reader_u8 E) v"
  unfolding add_u8_raw_def reader_u8_def puts
  by (rule codec_le [unfolded gets_take_le]) (simp_all add: gets_take_le)

lemma codec_u16 [codec_simps]: "codec (add_u16_raw E v) (reader_u16 E) v"
  unfolding add_u16_raw_def reader_u16_def puts
  by (rule codec_le [unfolded gets_take_le]) (simp_all add: gets_take_le)

lemma codec_u32 [codec_simps]: "codec (add_u32_raw E v) (reader_u32 E) v"
  unfolding add_u32_raw_def reader_u32_def puts
  by (rule codec_le [unfolded gets_take_le]) (simp_all add: gets_take_le)

lemma codec_u64 [codec_simps]: "codec (add_u64_raw E v) (reader_u64 E) v"
  unfolding add_u64_raw_def reader_u64_def puts
  by (rule codec_le [unfolded gets_take_le]) (simp_all add: gets_take_le)

lemma codec_i8 [codec_simps]: "codec (add_i8_raw E v) (reader_i8 E) v"
  unfolding add_i8_raw_def reader_i8_def puts
  by (rule codec_le [unfolded gets_take_le]) (simp_all add: gets_take_le)

lemma codec_i16 [codec_simps]: "codec (add_i16_raw E v) (reader_i16 E) v"
  unfolding add_i16_raw_def reader_i16_def puts
  by (rule codec_le [unfolded gets_take_le]) (simp_all add: gets_take_le)

lemma codec_i32 [codec_simps]: "codec (add_i32_raw E v) (reader_i32 E) v"
  unfolding add_i32_raw_def reader_i32_def puts
  by (rule codec_le [unfolded gets_take_le]) (simp_all add: gets_take_le)

lemma codec_i64 [codec_simps]: "codec (add_i64_raw E v) (reader_i64 E) v"
  unfolding add_i64_raw_def reader_i64_def puts
  by (rule codec_le [unfolded gets_take_le]) (simp_all add: gets_take_le)

lemma codec_f32 [codec_simps]: "codec (add_f32_raw E v) (reader_f32 E) v"
  unfolding add_f32_raw_def reader_f32_def puts
  by (rule codec_le [unfolded gets_take_le]) (simp_all add: gets_take_le)

lemma codec_f64 [codec_simps]: "codec (add_f64_raw E v) (reader_f64 E) v"
  unfolding add_f64_raw_def reader_f64_def puts
  by (rule codec_le [unfolded gets_take_le]) (simp_all add: gets_take_le)

lemma codec_put_u8 [codec_simps]: "codec (\<lambda>w. Some (put_u8 E w v)) (on_backing (get_u8 E)) v"
  using codec_u8 [of v] by (simp add: add_u8_raw_def [abs_def] reader_u8_def [abs_def])

lemma codec_put_u32 [codec_simps]: "codec (\<lambda>w. Some (put_u32_le E w v)) (on_backing (get_u32_le E)) v"
  using codec_u32 [of v] by (simp add: add_u32_raw_def [abs_def] reader_u32_def [abs_def])

lemma codec_boolean [codec_simps]: "codec (add_boolean_raw E v) (get_boolean E) v"
proof -
  have "codec (add_boolean_raw E v) (get_boolean E) ((if v then 1 else 0 :: byte) \<noteq> 0)"
    unfolding add_boolean_raw_def [abs_def] get_boolean_def [abs_def]
    by (rule codec_map [OF codec_put_u8])
  then show ?thesis by (cases v) simp_all
qed

lemma codec_next_type:
  "codec (\<lambda>w. Some (put_u8 E w t)) (next_type E) t"
  using codec_put_u8 [of t] by (auto simp: codec_def next_type_def puts)

lemma codec_id [codec_simps]: "codec (put_id E (as_bytes E u)) (take_bytes E 16) (as_bytes E u)"
  using reader_at_advance
  by (auto simp: codec_def put_id_def take_bytes_def as_bytes_length puts advances)

lemma codec_str:
  assumes "utf8_string s" "length s < 2 ^ 32"
  shows "codec (add_string_raw E s) (get_string E) s"
proof -
  have len: "unat (word_of_nat (length s) :: u32) = length s"
    using assms(2) by (simp add: unat_of_nat take_bit_nat_eq_self)
  have bytes: "codec (\<lambda>w. Some (put_slice E w (str_bytes s)))
     (\<lambda>r. Option.bind (take_bytes E (length s) r) (\<lambda>(bs, r). Option.bind (from_utf8 bs) (\<lambda>s. Some (s, r)))) s"
    using assms(1) by (auto simp: codec_def take_bytes_def puts advances)
  have "codec (\<lambda>w. Some (put_slice E (put_u32_le E w (word_of_nat (length s))) (str_bytes s)))
     (\<lambda>r. Option.bind (on_backing (get_u32_le E) r) (\<lambda>(len, r).
        Option.bind (take_bytes E (unat len) r) (\<lambda>(bs, r). Option.bind (from_utf8 bs) (\<lambda>s. Some (s, r))))) s"
    using codec_after [OF codec_put_u32 [of "word_of_nat (length s)"],
        where rb = "\<lambda>len r. Option.bind (take_bytes E (unat len) r)
          (\<lambda>(bs, r). Option.bind (from_utf8 bs) (\<lambda>s. Some (s, r)))"]
      bytes by (simp add: len)
  then show ?thesis by (simp add: add_string_raw_def [abs_def] get_string_def [abs_def])
qed

lemma get_map_field_key_string: "get_map_field_key E = get_string E"
  by (simp add: fun_eq_iff get_map_field_key_def get_string_def)

lemma add_map_field_key_string: "add_map_field_key E s = add_string_raw E s"
  by (simp add: fun_eq_iff add_map_field_key_def add_string_raw_def)

lemma writer_align_pad: "writer_align E w = w @ replicate (ALIGNMENT - length w mod ALIGNMENT) 0"
proof -
  have "le_bytes 1 (0 :: byte) = [0]" by (simp add: le_bytes_def)
  then have "((\<lambda>b. put_u8 E b 0) ^^ n) w = w @ replicate n 0" for n
    by (induction n) (simp_all add: puts replicate_append_same)
  then show ?thesis by (simp add: writer_align_def)
qed

lemma codec_aligned:
  assumes "codec wr rd x"
  shows "codec (\<lambda>w. wr (writer_align E w)) (\<lambda>r. Option.bind (reader_align r) rd) x"
  unfolding codec_def
proof
  fix w :: "byte list"
  let ?pad = "replicate (ALIGNMENT - length w mod ALIGNMENT) (0 :: byte)"
  have align: "reader_align (reader_at w (?pad @ rest)) = Some (reader_at (w @ ?pad) rest)" for rest
    by (simp add: reader_align_def reader_at_def Let_def)
  obtain bs where "wr (w @ ?pad) = Some ((w @ ?pad) @ bs)"
    "\<And>rest. rd (reader_at (w @ ?pad) (bs @ rest)) = Some (x, reader_at ((w @ ?pad) @ bs) rest)"
    using codecE [OF assms, of "w @ ?pad"] by blast
  then show "\<exists>bs. wr (writer_align E w) = Some (w @ bs) \<and>
     (\<forall>rest. Option.bind (reader_align (reader_at w (bs @ rest))) rd = Some (x, reader_at (w @ bs) rest))"
    using align by (intro exI [of _ "?pad @ bs"]) (simp add: writer_align_pad)
qed

end

end
