(* ===== verification/Froto_Value.thy ===== *)
theory Froto_Value
  imports Buffers
begin

text \<open>
  The codec of values (\<open>crates/arora-buffers/src/froto_value.rs\<close>): \<open>serialize\<close> writes a value
  into a buffer, \<open>deserialize\<close> reads one back and panics (\<open>None\<close>) on bytes that are not one.

  The reader recurses on the buffer, so the definition carries a bound on the depth of the
  recursion. Every level of recursion consumes a byte, so a bound of one more than the bytes left
  is enough: past it the result does not depend on the bound.
\<close>

section \<open>Writing a value\<close>

fun serialize_to_writer :: "crates \<Rightarrow> Value \<Rightarrow> BufferWriter \<Rightarrow> BufferWriter option" where
  "serialize_to_writer E Unit w = add_unit E w"
| "serialize_to_writer E (Boolean b) w = add_boolean E b w"
| "serialize_to_writer E (U8 v) w = add_u8 E v w"
| "serialize_to_writer E (U16 v) w = add_u16 E v w"
| "serialize_to_writer E (U32 v) w = add_u32 E v w"
| "serialize_to_writer E (U64 v) w = add_u64 E v w"
| "serialize_to_writer E (I8 v) w = add_i8 E v w"
| "serialize_to_writer E (I16 v) w = add_i16 E v w"
| "serialize_to_writer E (I32 v) w = add_i32 E v w"
| "serialize_to_writer E (I64 v) w = add_i64 E v w"
| "serialize_to_writer E (F32 v) w = add_f32 E v w"
| "serialize_to_writer E (F64 v) w = add_f64 E v w"
| "serialize_to_writer E (VString v) w = add_string E v w"
| "serialize_to_writer E (Structure s) w =
     do { w \<leftarrow> begin_structure E (as_bytes E (st_id s)) (word_of_nat (length (st_fields s))) w;
          foldM (\<lambda>field w. do {
              w \<leftarrow> add_structure_field E (as_bytes E (sf_id field)) w;
              serialize_to_writer E (sf_value field) w }) (st_fields s) w }"
| "serialize_to_writer E (Enumeration e) w =
     do { w \<leftarrow> add_enumeration_value E (as_bytes E (en_id e)) (as_bytes E (en_variant_id e)) w;
          serialize_to_writer E (en_value e) w }"
| "serialize_to_writer E (ArrayBoolean v) w =
     do { w \<leftarrow> add_array_primitive E TYPE_BOOLEAN (word_of_nat (length v)) w;
          add_boolean_raw_bulk E v w }"
| "serialize_to_writer E (ArrayU8 v) w =
     do { w \<leftarrow> add_array_primitive E TYPE_U8 (word_of_nat (length v)) w;
          add_u8_raw_bulk E v w }"
| "serialize_to_writer E (ArrayU16 v) w =
     do { w \<leftarrow> add_array_primitive E TYPE_U16 (word_of_nat (length v)) w;
          add_u16_raw_bulk E v w }"
| "serialize_to_writer E (ArrayU32 v) w =
     do { w \<leftarrow> add_array_primitive E TYPE_U32 (word_of_nat (length v)) w;
          add_u32_raw_bulk E v w }"
| "serialize_to_writer E (ArrayU64 v) w =
     do { w \<leftarrow> add_array_primitive E TYPE_U64 (word_of_nat (length v)) w;
          add_u64_raw_bulk E v w }"
| "serialize_to_writer E (ArrayI8 v) w =
     do { w \<leftarrow> add_array_primitive E TYPE_I8 (word_of_nat (length v)) w;
          add_i8_raw_bulk E v w }"
| "serialize_to_writer E (ArrayI16 v) w =
     do { w \<leftarrow> add_array_primitive E TYPE_I16 (word_of_nat (length v)) w;
          add_i16_raw_bulk E v w }"
| "serialize_to_writer E (ArrayI32 v) w =
     do { w \<leftarrow> add_array_primitive E TYPE_I32 (word_of_nat (length v)) w;
          add_i32_raw_bulk E v w }"
| "serialize_to_writer E (ArrayI64 v) w =
     do { w \<leftarrow> add_array_primitive E TYPE_I64 (word_of_nat (length v)) w;
          add_i64_raw_bulk E v w }"
| "serialize_to_writer E (ArrayF32 v) w =
     do { w \<leftarrow> add_array_primitive E TYPE_F32 (word_of_nat (length v)) w;
          add_f32_raw_bulk E v w }"
| "serialize_to_writer E (ArrayF64 v) w =
     do { w \<leftarrow> add_array_primitive E TYPE_F64 (word_of_nat (length v)) w;
          add_f64_raw_bulk E v w }"
| "serialize_to_writer E (ArrayString v) w =
     do { w \<leftarrow> add_array_primitive E TYPE_STRING (word_of_nat (length v)) w;
          foldM (add_string_raw E) v w }"
| "serialize_to_writer E (ArrayStructure i elements) w =
     do { w \<leftarrow> add_array_structure E (as_bytes E i) (word_of_nat (length elements)) w;
          foldM (\<lambda>s w. do {
              w \<leftarrow> begin_structure_raw E (word_of_nat (length (sw_fields s))) w;
              foldM (\<lambda>field w. do {
                  w \<leftarrow> add_structure_field E (as_bytes E (sf_id field)) w;
                  serialize_to_writer E (sf_value field) w }) (sw_fields s) w }) elements w }"
| "serialize_to_writer E (ArrayEnumeration i elements) w =
     do { w \<leftarrow> add_array_enumeration E (as_bytes E i) (word_of_nat (length elements)) w;
          foldM (\<lambda>e w. do {
              w \<leftarrow> add_enumeration_value_raw E (as_bytes E (ew_variant_id e)) w;
              serialize_to_writer E (ew_value e) w }) elements w }"
| "serialize_to_writer E (ArrayValue vs) w =
     do { w \<leftarrow> add_array_primitive E TYPE_VALUE (word_of_nat (length vs)) w;
          foldM (serialize_to_writer E) vs w }"
| "serialize_to_writer E (VOption None) w = add_option_none E w"
| "serialize_to_writer E (VOption (Some v)) w =
     do { w \<leftarrow> add_option_some E w; serialize_to_writer E v w }"
| "serialize_to_writer E (KeyValue kv) w =
     do { w \<leftarrow> begin_map E (as_bytes E (kv_id kv)) (word_of_nat (length (kv_fields kv))) w;
          foldM (\<lambda>(key, field) w. do {
              w \<leftarrow> add_map_field_key E key w;
              w \<leftarrow> add_uuid_raw E (as_bytes E (kf_id field)) w;
              (case kf_value field of
                 Some v \<Rightarrow> serialize_to_writer E v w
               | None \<Rightarrow> add_unit E w) }) (sort_key fst (kv_fields kv)) w }"
| "serialize_to_writer E (VUuid u) w = add_uuid E (as_bytes E u) w"

definition serialize :: "crates \<Rightarrow> Value \<Rightarrow> byte list option" where
  "serialize E v = do { w \<leftarrow> serialize_to_writer E v (BufferWriter_new E); finalize w }"

section \<open>Reading a value\<close>

text \<open>
  The body of \<open>deserialize_from_reader\<close> by the tag it read, with its recursive call as the
  argument \<open>rec\<close>; the fields of a structure, the elements of an array and the entries of a map
  are its loops.
\<close>

type_synonym value_reader = "BufferReader \<Rightarrow> (Value \<times> BufferReader) option"

definition deserialize_field :: "crates \<Rightarrow> value_reader \<Rightarrow> BufferReader \<Rightarrow> (Value StructureField \<times> BufferReader) option" where
  "deserialize_field E rec r =
     do { (field_id, r) \<leftarrow> get_structure_field E r;
          i \<leftarrow> from_slice E field_id;
          (v, r) \<leftarrow> rec r;
          Some (StructureField i v, r) }"

definition deserialize_enumerator ::
  "crates \<Rightarrow> value_reader \<Rightarrow> BufferReader \<Rightarrow> (Value EnumerationWithoutId \<times> BufferReader) option" where
  "deserialize_enumerator E rec r =
     do { (variant_id, r) \<leftarrow> get_enumeration_value_raw E r;
          i \<leftarrow> from_slice E variant_id;
          (v, r) \<leftarrow> rec r;
          Some (EnumerationWithoutId i v, r) }"

definition deserialize_structure ::
  "crates \<Rightarrow> value_reader \<Rightarrow> BufferReader \<Rightarrow> (Value StructureWithoutId \<times> BufferReader) option" where
  "deserialize_structure E rec r =
     do { (field_count, r) \<leftarrow> get_structure_raw E r;
          (fields, r) \<leftarrow> read_n (unat field_count) (deserialize_field E rec) r;
          Some (StructureWithoutId fields, r) }"

definition deserialize_entry ::
  "crates \<Rightarrow> value_reader \<Rightarrow> BufferReader \<Rightarrow> (Value KeyValueField \<times> BufferReader) option" where
  "deserialize_entry E rec r =
     do { (key, r) \<leftarrow> get_map_field_key E r;
          (field_id_bytes, r) \<leftarrow> get_uuid E r;
          field_id \<leftarrow> from_slice E field_id_bytes;
          (v, r) \<leftarrow> rec r;
          Some (KeyValueField_new_with_id_and_option key field_id
                  (case v of Unit \<Rightarrow> None | other \<Rightarrow> Some other), r) }"

text \<open>The elements of an array, by their tag.\<close>

definition deserialize_elements :: "crates \<Rightarrow> value_reader \<Rightarrow> byte \<Rightarrow> nat \<Rightarrow> value_reader" where
  "deserialize_elements E rec ty cnt r =
     do { r \<leftarrow> (if ty \<in> {TYPE_BOOLEAN, TYPE_U8, TYPE_U16, TYPE_U32, TYPE_U64, TYPE_I8, TYPE_I16,
                        TYPE_I32, TYPE_I64, TYPE_F32, TYPE_F64}
               then reader_align r else Some r);
          (if ty = TYPE_BOOLEAN then do { (xs, r) \<leftarrow> read_n cnt (get_boolean E) r; Some (ArrayBoolean xs, r) }
           else if ty = TYPE_U8 then do { (xs, r) \<leftarrow> read_n cnt (reader_u8 E) r; Some (ArrayU8 xs, r) }
           else if ty = TYPE_U16 then do { (xs, r) \<leftarrow> read_n cnt (reader_u16 E) r; Some (ArrayU16 xs, r) }
           else if ty = TYPE_U32 then do { (xs, r) \<leftarrow> read_n cnt (reader_u32 E) r; Some (ArrayU32 xs, r) }
           else if ty = TYPE_U64 then do { (xs, r) \<leftarrow> read_n cnt (reader_u64 E) r; Some (ArrayU64 xs, r) }
           else if ty = TYPE_I8 then do { (xs, r) \<leftarrow> read_n cnt (reader_i8 E) r; Some (ArrayI8 xs, r) }
           else if ty = TYPE_I16 then do { (xs, r) \<leftarrow> read_n cnt (reader_i16 E) r; Some (ArrayI16 xs, r) }
           else if ty = TYPE_I32 then do { (xs, r) \<leftarrow> read_n cnt (reader_i32 E) r; Some (ArrayI32 xs, r) }
           else if ty = TYPE_I64 then do { (xs, r) \<leftarrow> read_n cnt (reader_i64 E) r; Some (ArrayI64 xs, r) }
           else if ty = TYPE_F32 then do { (xs, r) \<leftarrow> read_n cnt (reader_f32 E) r; Some (ArrayF32 xs, r) }
           else if ty = TYPE_F64 then do { (xs, r) \<leftarrow> read_n cnt (reader_f64 E) r; Some (ArrayF64 xs, r) }
           else if ty = TYPE_STRING then do { (xs, r) \<leftarrow> read_n cnt (get_string E) r; Some (ArrayString xs, r) }
           else if ty = TYPE_STRUCTURE then do {
             (structure_id, r) \<leftarrow> get_structure_field E r;
             (structures, r) \<leftarrow> read_n cnt (deserialize_structure E rec) r;
             i \<leftarrow> from_slice E structure_id;
             Some (ArrayStructure i structures, r) }
           else if ty = TYPE_ENUMERATION then do {
             (enumeration_id, r) \<leftarrow> get_structure_field E r;
             (enumerations, r) \<leftarrow> read_n cnt (deserialize_enumerator E rec) r;
             i \<leftarrow> from_slice E enumeration_id;
             Some (ArrayEnumeration i enumerations, r) }
           else if ty = TYPE_VALUE then do {
             (vs, r) \<leftarrow> read_n cnt rec r; Some (ArrayValue vs, r) }
           else None) }"

definition deserialize_tag :: "crates \<Rightarrow> value_reader \<Rightarrow> byte \<Rightarrow> value_reader" where
  "deserialize_tag E rec t r =
     (if t = TYPE_UNIT then Some (Unit, r)
      else if t = TYPE_BOOLEAN then do { (v, r) \<leftarrow> get_boolean E r; Some (Boolean v, r) }
      else if t = TYPE_U8 then do { (v, r) \<leftarrow> reader_u8 E r; Some (U8 v, r) }
      else if t = TYPE_U16 then do { (v, r) \<leftarrow> reader_u16 E r; Some (U16 v, r) }
      else if t = TYPE_U32 then do { (v, r) \<leftarrow> reader_u32 E r; Some (U32 v, r) }
      else if t = TYPE_U64 then do { (v, r) \<leftarrow> reader_u64 E r; Some (U64 v, r) }
      else if t = TYPE_I8 then do { (v, r) \<leftarrow> reader_i8 E r; Some (I8 v, r) }
      else if t = TYPE_I16 then do { (v, r) \<leftarrow> reader_i16 E r; Some (I16 v, r) }
      else if t = TYPE_I32 then do { (v, r) \<leftarrow> reader_i32 E r; Some (I32 v, r) }
      else if t = TYPE_I64 then do { (v, r) \<leftarrow> reader_i64 E r; Some (I64 v, r) }
      else if t = TYPE_F32 then do { (v, r) \<leftarrow> reader_f32 E r; Some (F32 v, r) }
      else if t = TYPE_F64 then do { (v, r) \<leftarrow> reader_f64 E r; Some (F64 v, r) }
      else if t = TYPE_STRING then do { (v, r) \<leftarrow> get_string E r; Some (VString v, r) }
      else if t = TYPE_STRUCTURE then do {
        ((i, field_count), r) \<leftarrow> get_structure E r;
        (fields, r) \<leftarrow> read_n (unat field_count) (deserialize_field E rec) r;
        i \<leftarrow> from_slice E i;
        Some (Structure (MkStructure i fields), r) }
      else if t = TYPE_ENUMERATION then do {
        (enum_type_id, r) \<leftarrow> get_structure_field E r;
        (enum_variant_id, r) \<leftarrow> get_enumeration_value_raw E r;
        i \<leftarrow> from_slice E enum_type_id;
        variant_id \<leftarrow> from_slice E enum_variant_id;
        (v, r) \<leftarrow> rec r;
        Some (Enumeration (MkEnumeration i variant_id v), r) }
      else if t = TYPE_ARRAY then do {
        ((ty, cnt), r) \<leftarrow> get_array E r;
        deserialize_elements E rec ty (unat cnt) r }
      else if t = TYPE_OPTION then do {
        (present, r) \<leftarrow> get_option_presence E r;
        if present then do { (v, r) \<leftarrow> rec r; Some (VOption (Some v), r) }
        else Some (VOption None, r) }
      else if t = TYPE_UUID then do {
        (uuid_bytes, r) \<leftarrow> get_uuid E r;
        u \<leftarrow> from_slice E uuid_bytes;
        Some (VUuid u, r) }
      else if t = TYPE_MAP then do {
        ((id_bytes, field_count), r) \<leftarrow> get_map E r;
        i \<leftarrow> from_slice E id_bytes;
        (fields, r) \<leftarrow> read_n (unat field_count) (deserialize_entry E rec) r;
        Some (KeyValue (fold (\<lambda>field kv. set_field kv field) fields (KeyValue_new_with_id i)), r) }
      else None)"

fun deserialize_from_reader :: "crates \<Rightarrow> nat \<Rightarrow> value_reader" where
  "deserialize_from_reader E 0 r = None"
| "deserialize_from_reader E (Suc n) r =
     do { (t, r) \<leftarrow> next_type E r; deserialize_tag E (deserialize_from_reader E n) t r }"

definition deserialize :: "crates \<Rightarrow> byte list \<Rightarrow> Value option" where
  "deserialize E data =
     do { r \<leftarrow> BufferReader_new data;
          (v, _) \<leftarrow> deserialize_from_reader E (Suc (length data)) r;
          Some v }"

section \<open>What survives the trip\<close>

text \<open>
  What the format can carry: counts and lengths of 32 bits, UTF-8 strings. What a value becomes:
  the entries of a key-value record come back under their keys, in the order of the keys, and an
  entry that held unit comes back empty.
\<close>

fun encodable :: "Value \<Rightarrow> bool" where
  "encodable (VString s) \<longleftrightarrow> utf8_string s \<and> length s < 2 ^ 32"
| "encodable (Structure s) \<longleftrightarrow>
     length (st_fields s) < 2 ^ 32 \<and> list_all (\<lambda>f. encodable (sf_value f)) (st_fields s)"
| "encodable (Enumeration e) \<longleftrightarrow> encodable (en_value e)"
| "encodable (ArrayBoolean xs) \<longleftrightarrow> length xs < 2 ^ 32"
| "encodable (ArrayU8 xs) \<longleftrightarrow> length xs < 2 ^ 32"
| "encodable (ArrayU16 xs) \<longleftrightarrow> length xs < 2 ^ 32"
| "encodable (ArrayU32 xs) \<longleftrightarrow> length xs < 2 ^ 32"
| "encodable (ArrayU64 xs) \<longleftrightarrow> length xs < 2 ^ 32"
| "encodable (ArrayI8 xs) \<longleftrightarrow> length xs < 2 ^ 32"
| "encodable (ArrayI16 xs) \<longleftrightarrow> length xs < 2 ^ 32"
| "encodable (ArrayI32 xs) \<longleftrightarrow> length xs < 2 ^ 32"
| "encodable (ArrayI64 xs) \<longleftrightarrow> length xs < 2 ^ 32"
| "encodable (ArrayF32 xs) \<longleftrightarrow> length xs < 2 ^ 32"
| "encodable (ArrayF64 xs) \<longleftrightarrow> length xs < 2 ^ 32"
| "encodable (ArrayString ss) \<longleftrightarrow>
     length ss < 2 ^ 32 \<and> list_all (\<lambda>s. utf8_string s \<and> length s < 2 ^ 32) ss"
| "encodable (ArrayStructure i es) \<longleftrightarrow>
     length es < 2 ^ 32 \<and> list_all (\<lambda>e. length (sw_fields e) < 2 ^ 32 \<and>
       list_all (\<lambda>f. encodable (sf_value f)) (sw_fields e)) es"
| "encodable (ArrayEnumeration i es) \<longleftrightarrow>
     length es < 2 ^ 32 \<and> list_all (\<lambda>e. encodable (ew_value e)) es"
| "encodable (ArrayValue vs) \<longleftrightarrow> length vs < 2 ^ 32 \<and> list_all encodable vs"
| "encodable (VOption None) \<longleftrightarrow> True"
| "encodable (VOption (Some v)) \<longleftrightarrow> encodable v"
| "encodable (KeyValue kv) \<longleftrightarrow>
     hm_ok (kv_fields kv) \<and> length (kv_fields kv) < 2 ^ 32 \<and>
     list_all (\<lambda>(k, f). utf8_string k \<and> length k < 2 ^ 32 \<and>
       (case kf_value f of None \<Rightarrow> True | Some v \<Rightarrow> encodable v)) (kv_fields kv)"
| "encodable _ \<longleftrightarrow> True"

definition unit_to_none :: "Value \<Rightarrow> Value option" where
  "unit_to_none v = (if v = Unit then None else Some v)"

fun normal :: "Value \<Rightarrow> Value" where
  "normal (Structure s) = Structure (MkStructure (st_id s)
     (map (\<lambda>f. StructureField (sf_id f) (normal (sf_value f))) (st_fields s)))"
| "normal (Enumeration e) =
     Enumeration (MkEnumeration (en_id e) (en_variant_id e) (normal (en_value e)))"
| "normal (ArrayStructure i es) = ArrayStructure i (map (\<lambda>e. StructureWithoutId
     (map (\<lambda>f. StructureField (sf_id f) (normal (sf_value f))) (sw_fields e))) es)"
| "normal (ArrayEnumeration i es) = ArrayEnumeration i
     (map (\<lambda>e. EnumerationWithoutId (ew_variant_id e) (normal (ew_value e))) es)"
| "normal (ArrayValue vs) = ArrayValue (map normal vs)"
| "normal (VOption None) = VOption None"
| "normal (VOption (Some v)) = VOption (Some (normal v))"
| "normal (KeyValue kv) = KeyValue (MkKeyValue (kv_id kv) (map (\<lambda>(k, f).
     (k, KeyValueField (kf_id f) k
        (case kf_value f of None \<Rightarrow> None | Some v \<Rightarrow> unit_to_none (normal v))))
     (sort_key fst (kv_fields kv))))"
| "normal v = v"

text \<open>How deep the values nest.\<close>

definition max_of :: "nat list \<Rightarrow> nat" where
  "max_of xs = foldr max xs 0"

fun depth :: "Value \<Rightarrow> nat" where
  "depth (Structure s) = Suc (max_of (map (\<lambda>f. depth (sf_value f)) (st_fields s)))"
| "depth (Enumeration e) = Suc (depth (en_value e))"
| "depth (ArrayStructure i es) =
     Suc (max_of (map (\<lambda>e. max_of (map (\<lambda>f. depth (sf_value f)) (sw_fields e))) es))"
| "depth (ArrayEnumeration i es) = Suc (max_of (map (\<lambda>e. depth (ew_value e)) es))"
| "depth (ArrayValue vs) = Suc (max_of (map depth vs))"
| "depth (VOption None) = 1"
| "depth (VOption (Some v)) = Suc (depth v)"
| "depth (KeyValue kv) = Suc (max_of (map (\<lambda>(k, f).
     case kf_value f of None \<Rightarrow> 1 | Some v \<Rightarrow> depth v) (kv_fields kv)))"
| "depth _ = 1"

lemma max_of_le: "max_of xs \<le> n \<longleftrightarrow> (\<forall>x\<in>set xs. x \<le> n)"
  by (induction xs) (auto simp: max_of_def)

lemma normal_Unit [simp]: "normal v = Unit \<longleftrightarrow> v = Unit"
  by (cases v rule: normal.cases) auto

section \<open>Writing and reading correspond\<close>

lemma unit_case: "(case v of Unit \<Rightarrow> None | other \<Rightarrow> Some other) = unit_to_none v"
  by (cases v) (simp_all add: unit_to_none_def)

lemma unat_count: "n < 2 ^ 32 \<Longrightarrow> unat (word_of_nat n :: u32) = n"
  by (simp add: unat_of_nat take_bit_nat_eq_self)

lemma bind_case_prod: "Option.bind (case p of (a, b) \<Rightarrow> f a b) k = (case p of (a, b) \<Rightarrow> Option.bind (f a b) k)"
  by (cases p) simp

text \<open>What the reader does at each tag.\<close>

lemma tag_payload:
  "deserialize_tag E rec TYPE_UNIT = (\<lambda>r. Some (Unit, r))"
  "deserialize_tag E rec TYPE_BOOLEAN = (\<lambda>r. do { (v, r) \<leftarrow> get_boolean E r; Some (Boolean v, r) })"
  "deserialize_tag E rec TYPE_U8 = (\<lambda>r. do { (v, r) \<leftarrow> reader_u8 E r; Some (U8 v, r) })"
  "deserialize_tag E rec TYPE_U16 = (\<lambda>r. do { (v, r) \<leftarrow> reader_u16 E r; Some (U16 v, r) })"
  "deserialize_tag E rec TYPE_U32 = (\<lambda>r. do { (v, r) \<leftarrow> reader_u32 E r; Some (U32 v, r) })"
  "deserialize_tag E rec TYPE_U64 = (\<lambda>r. do { (v, r) \<leftarrow> reader_u64 E r; Some (U64 v, r) })"
  "deserialize_tag E rec TYPE_I8 = (\<lambda>r. do { (v, r) \<leftarrow> reader_i8 E r; Some (I8 v, r) })"
  "deserialize_tag E rec TYPE_I16 = (\<lambda>r. do { (v, r) \<leftarrow> reader_i16 E r; Some (I16 v, r) })"
  "deserialize_tag E rec TYPE_I32 = (\<lambda>r. do { (v, r) \<leftarrow> reader_i32 E r; Some (I32 v, r) })"
  "deserialize_tag E rec TYPE_I64 = (\<lambda>r. do { (v, r) \<leftarrow> reader_i64 E r; Some (I64 v, r) })"
  "deserialize_tag E rec TYPE_F32 = (\<lambda>r. do { (v, r) \<leftarrow> reader_f32 E r; Some (F32 v, r) })"
  "deserialize_tag E rec TYPE_F64 = (\<lambda>r. do { (v, r) \<leftarrow> reader_f64 E r; Some (F64 v, r) })"
  "deserialize_tag E rec TYPE_STRING = (\<lambda>r. do { (v, r) \<leftarrow> get_string E r; Some (VString v, r) })"
  "deserialize_tag E rec TYPE_STRUCTURE = (\<lambda>r. do {
     (i, r) \<leftarrow> take_bytes E 16 r;
     (cnt, r) \<leftarrow> on_backing (get_u32_le E) r;
     (fields, r) \<leftarrow> read_n (unat cnt) (deserialize_field E rec) r;
     i \<leftarrow> from_slice E i;
     Some (Structure (MkStructure i fields), r) })"
  "deserialize_tag E rec TYPE_ENUMERATION = (\<lambda>r. do {
     (i, r) \<leftarrow> take_bytes E 16 r;
     (j, r) \<leftarrow> take_bytes E 16 r;
     i \<leftarrow> from_slice E i;
     j \<leftarrow> from_slice E j;
     (v, r) \<leftarrow> rec r;
     Some (Enumeration (MkEnumeration i j v), r) })"
  "deserialize_tag E rec TYPE_ARRAY = (\<lambda>r. do {
     (ty, r) \<leftarrow> on_backing (get_u8 E) r;
     (cnt, r) \<leftarrow> on_backing (get_u32_le E) r;
     deserialize_elements E rec ty (unat cnt) r })"
  "deserialize_tag E rec TYPE_OPTION = (\<lambda>r. do {
     (present, r) \<leftarrow> get_boolean E r;
     if present then do { (v, r) \<leftarrow> rec r; Some (VOption (Some v), r) } else Some (VOption None, r) })"
  "deserialize_tag E rec TYPE_UUID = (\<lambda>r. do {
     (u, r) \<leftarrow> take_bytes E 16 r; u \<leftarrow> from_slice E u; Some (VUuid u, r) })"
  "deserialize_tag E rec TYPE_MAP = (\<lambda>r. do {
     (i, r) \<leftarrow> take_bytes E 16 r;
     (cnt, r) \<leftarrow> on_backing (get_u32_le E) r;
     i \<leftarrow> from_slice E i;
     (fields, r) \<leftarrow> read_n (unat cnt) (deserialize_entry E rec) r;
     Some (KeyValue (fold (\<lambda>field kv. set_field kv field) fields (KeyValue_new_with_id i)), r) })"
  by (simp_all add: fun_eq_iff deserialize_tag_def tag_defs get_structure_def get_structure_raw_def
      get_structure_field_def get_enumeration_value_raw_def get_array_def get_option_presence_def
      get_boolean_def get_uuid_def get_map_def bind_case_prod)

lemma element_payload:
  "deserialize_elements E rec TYPE_BOOLEAN n =
     (\<lambda>r. do { r \<leftarrow> reader_align r; (xs, r) \<leftarrow> read_n n (get_boolean E) r; Some (ArrayBoolean xs, r) })"
  "deserialize_elements E rec TYPE_U8 n =
     (\<lambda>r. do { r \<leftarrow> reader_align r; (xs, r) \<leftarrow> read_n n (reader_u8 E) r; Some (ArrayU8 xs, r) })"
  "deserialize_elements E rec TYPE_U16 n =
     (\<lambda>r. do { r \<leftarrow> reader_align r; (xs, r) \<leftarrow> read_n n (reader_u16 E) r; Some (ArrayU16 xs, r) })"
  "deserialize_elements E rec TYPE_U32 n =
     (\<lambda>r. do { r \<leftarrow> reader_align r; (xs, r) \<leftarrow> read_n n (reader_u32 E) r; Some (ArrayU32 xs, r) })"
  "deserialize_elements E rec TYPE_U64 n =
     (\<lambda>r. do { r \<leftarrow> reader_align r; (xs, r) \<leftarrow> read_n n (reader_u64 E) r; Some (ArrayU64 xs, r) })"
  "deserialize_elements E rec TYPE_I8 n =
     (\<lambda>r. do { r \<leftarrow> reader_align r; (xs, r) \<leftarrow> read_n n (reader_i8 E) r; Some (ArrayI8 xs, r) })"
  "deserialize_elements E rec TYPE_I16 n =
     (\<lambda>r. do { r \<leftarrow> reader_align r; (xs, r) \<leftarrow> read_n n (reader_i16 E) r; Some (ArrayI16 xs, r) })"
  "deserialize_elements E rec TYPE_I32 n =
     (\<lambda>r. do { r \<leftarrow> reader_align r; (xs, r) \<leftarrow> read_n n (reader_i32 E) r; Some (ArrayI32 xs, r) })"
  "deserialize_elements E rec TYPE_I64 n =
     (\<lambda>r. do { r \<leftarrow> reader_align r; (xs, r) \<leftarrow> read_n n (reader_i64 E) r; Some (ArrayI64 xs, r) })"
  "deserialize_elements E rec TYPE_F32 n =
     (\<lambda>r. do { r \<leftarrow> reader_align r; (xs, r) \<leftarrow> read_n n (reader_f32 E) r; Some (ArrayF32 xs, r) })"
  "deserialize_elements E rec TYPE_F64 n =
     (\<lambda>r. do { r \<leftarrow> reader_align r; (xs, r) \<leftarrow> read_n n (reader_f64 E) r; Some (ArrayF64 xs, r) })"
  "deserialize_elements E rec TYPE_STRING n =
     (\<lambda>r. do { (xs, r) \<leftarrow> read_n n (get_string E) r; Some (ArrayString xs, r) })"
  "deserialize_elements E rec TYPE_STRUCTURE n = (\<lambda>r. do {
     (i, r) \<leftarrow> take_bytes E 16 r;
     (es, r) \<leftarrow> read_n n (deserialize_structure E rec) r;
     i \<leftarrow> from_slice E i;
     Some (ArrayStructure i es, r) })"
  "deserialize_elements E rec TYPE_ENUMERATION n = (\<lambda>r. do {
     (i, r) \<leftarrow> take_bytes E 16 r;
     (es, r) \<leftarrow> read_n n (deserialize_enumerator E rec) r;
     i \<leftarrow> from_slice E i;
     Some (ArrayEnumeration i es, r) })"
  "deserialize_elements E rec TYPE_VALUE n =
     (\<lambda>r. do { (vs, r) \<leftarrow> read_n n rec r; Some (ArrayValue vs, r) })"
  by (simp_all add: fun_eq_iff deserialize_elements_def tag_defs get_structure_field_def)

lemma set_fields_distinct:
  "distinct (map kf_name fs) \<Longrightarrow>
     fold (\<lambda>field kv. set_field kv field) fs (KeyValue_new_with_id i) =
       MkKeyValue i (map (\<lambda>f. (kf_name f, f)) fs)"
proof -
  have "fold (\<lambda>field kv. set_field kv field) fs (MkKeyValue i m) =
      MkKeyValue i (hm_extend m (map (\<lambda>f. (kf_name f, f)) fs))" for m
    by (induction fs arbitrary: m) (simp_all add: set_field_def hm_extend_def)
  then show "distinct (map kf_name fs) \<Longrightarrow> ?thesis"
    by (simp add: KeyValue_new_with_id_def hm_extend_new comp_def)
qed

definition normal_entry :: "(Value \<Rightarrow> Value) \<Rightarrow> string \<times> Value KeyValueField \<Rightarrow> Value KeyValueField" where
  "normal_entry g = (\<lambda>(k, f). KeyValueField (kf_id f) k
     (case kf_value f of None \<Rightarrow> None | Some v \<Rightarrow> unit_to_none (g v)))"

lemma normal_KeyValue:
  "normal (KeyValue kv) = KeyValue (MkKeyValue (kv_id kv)
     (map (\<lambda>f. (kf_name f, f)) (map (normal_entry normal) (sort_key fst (kv_fields kv)))))"
  by (simp add: normal_entry_def comp_def case_prod_unfold)

context buffer_crates
begin

lemma codec_value_reader:
  assumes "codec wb (deserialize_tag E (deserialize_from_reader E n) t) v"
  shows "codec (\<lambda>w. wb (put_u8 E w t)) (deserialize_from_reader E (Suc n)) v"
  using codec_after [OF codec_next_type, of wb "deserialize_tag E (deserialize_from_reader E n)", OF assms]
  by (simp add: deserialize_from_reader.simps [abs_def])

lemma codec_elements:
  assumes "codec wb (deserialize_elements E rec ty (unat cnt)) v"
  shows "codec (\<lambda>w. wb (put_u32_le E (put_u8 E w ty) cnt)) (deserialize_tag E rec TYPE_ARRAY) v"
  unfolding tag_payload
  by (rule codec_after [OF codec_put_u8], rule codec_after [OF codec_put_u32]) (rule assms)

lemma codec_field:
  assumes "codec wr rec v"
  shows "codec (\<lambda>w. do { w \<leftarrow> add_structure_field E (as_bytes E i) w; wr w })
     (deserialize_field E rec) (StructureField i v)"
  unfolding add_structure_field_def deserialize_field_def [abs_def] get_structure_field_def
  by (rule codec_bind [OF codec_id]) (simp add: from_as_bytes codec_map [OF assms])

lemma codec_enumerator:
  assumes "codec wr rec v"
  shows "codec (\<lambda>w. do { w \<leftarrow> add_enumeration_value_raw E (as_bytes E i) w; wr w })
     (deserialize_enumerator E rec) (EnumerationWithoutId i v)"
  unfolding add_enumeration_value_raw_def deserialize_enumerator_def [abs_def] get_enumeration_value_raw_def
  by (rule codec_bind [OF codec_id]) (simp add: from_as_bytes codec_map [OF assms])

lemma codec_fields:
  assumes "\<And>f. f \<in> set fs \<Longrightarrow> codec (wr (sf_value f)) rec (g (sf_value f))" "length fs < 2 ^ 32"
  shows "codec (foldM (\<lambda>field w. do { w \<leftarrow> add_structure_field E (as_bytes E (sf_id field)) w;
       wr (sf_value field) w }) fs)
     (read_n (unat (word_of_nat (length fs) :: u32)) (deserialize_field E rec))
     (map (\<lambda>f. StructureField (sf_id f) (g (sf_value f))) fs)"
  unfolding unat_count [OF assms(2)] by (rule codec_loop) (rule codec_field, rule assms(1))

lemma codec_structure:
  assumes "\<And>f. f \<in> set fs \<Longrightarrow> codec (wr (sf_value f)) rec (g (sf_value f))" "length fs < 2 ^ 32"
  shows "codec (\<lambda>w. do { w \<leftarrow> begin_structure_raw E (word_of_nat (length fs)) w;
       foldM (\<lambda>field w. do { w \<leftarrow> add_structure_field E (as_bytes E (sf_id field)) w;
         wr (sf_value field) w }) fs w })
     (deserialize_structure E rec) (StructureWithoutId (map (\<lambda>f. StructureField (sf_id f) (g (sf_value f))) fs))"
  unfolding begin_structure_raw_def deserialize_structure_def [abs_def] get_structure_raw_def bind.bind_lunit
  by (rule codec_after [OF codec_put_u32]) (rule codec_map [OF codec_fields [of fs wr rec g, OF assms]])

lemma codec_entry:
  assumes "codec wr rec v" "utf8_string k" "length k < 2 ^ 32"
  shows "codec (\<lambda>w. do { w \<leftarrow> add_map_field_key E k w; w \<leftarrow> add_uuid_raw E (as_bytes E i) w; wr w })
     (deserialize_entry E rec) (KeyValueField i k (unit_to_none v))"
proof -
  have "codec (\<lambda>w. do { w \<leftarrow> add_uuid_raw E (as_bytes E i) w; wr w })
     (\<lambda>r. do { (fid, r) \<leftarrow> take_bytes E 16 r; i \<leftarrow> from_slice E fid; (v, r) \<leftarrow> rec r;
        Some (KeyValueField i k (unit_to_none v), r) }) (KeyValueField i k (unit_to_none v))"
    unfolding add_uuid_raw_def
    by (rule codec_bind [OF codec_id]) (simp add: from_as_bytes
        codec_map [OF assms(1), of "\<lambda>v. KeyValueField i k (unit_to_none v)"])
  then show ?thesis
    unfolding deserialize_entry_def [abs_def] unit_case get_map_field_key_string
      add_map_field_key_string get_uuid_def KeyValueField_new_with_id_and_option_def
    by (intro codec_bind [OF codec_str [OF assms(2,3)]])
qed

text \<open>What the writer does with each value, its tag first.\<close>

lemma written_payload:
  "serialize_to_writer E Unit = (\<lambda>w. Some (put_u8 E w TYPE_UNIT))"
  "serialize_to_writer E (Boolean b) = (\<lambda>w. add_boolean_raw E b (put_u8 E w TYPE_BOOLEAN))"
  "serialize_to_writer E (U8 u8) = (\<lambda>w. add_u8_raw E u8 (put_u8 E w TYPE_U8))"
  "serialize_to_writer E (U16 u16) = (\<lambda>w. add_u16_raw E u16 (put_u8 E w TYPE_U16))"
  "serialize_to_writer E (U32 u32) = (\<lambda>w. add_u32_raw E u32 (put_u8 E w TYPE_U32))"
  "serialize_to_writer E (U64 u64) = (\<lambda>w. add_u64_raw E u64 (put_u8 E w TYPE_U64))"
  "serialize_to_writer E (I8 i8) = (\<lambda>w. add_i8_raw E i8 (put_u8 E w TYPE_I8))"
  "serialize_to_writer E (I16 i16) = (\<lambda>w. add_i16_raw E i16 (put_u8 E w TYPE_I16))"
  "serialize_to_writer E (I32 i32) = (\<lambda>w. add_i32_raw E i32 (put_u8 E w TYPE_I32))"
  "serialize_to_writer E (I64 i64) = (\<lambda>w. add_i64_raw E i64 (put_u8 E w TYPE_I64))"
  "serialize_to_writer E (F32 f32) = (\<lambda>w. add_f32_raw E f32 (put_u8 E w TYPE_F32))"
  "serialize_to_writer E (F64 f64) = (\<lambda>w. add_f64_raw E f64 (put_u8 E w TYPE_F64))"
  "serialize_to_writer E (VString s) = (\<lambda>w. add_string_raw E s (put_u8 E w TYPE_STRING))"
  "serialize_to_writer E (VUuid u) = (\<lambda>w. put_id E (as_bytes E u) (put_u8 E w TYPE_UUID))"
  "serialize_to_writer E (VOption None) = (\<lambda>w. add_boolean_raw E False (put_u8 E w TYPE_OPTION))"
  "serialize_to_writer E (VOption (Some v)) =
     (\<lambda>w. do { w \<leftarrow> add_boolean_raw E True (put_u8 E w TYPE_OPTION); serialize_to_writer E v w })"
  "serialize_to_writer E (Structure st) = (\<lambda>w. do {
     w \<leftarrow> put_id E (as_bytes E (st_id st)) (put_u8 E w TYPE_STRUCTURE);
     foldM (\<lambda>field w. do { w \<leftarrow> add_structure_field E (as_bytes E (sf_id field)) w;
       serialize_to_writer E (sf_value field) w }) (st_fields st)
       (put_u32_le E w (word_of_nat (length (st_fields st)))) })"
  "serialize_to_writer E (Enumeration e) = (\<lambda>w. do {
     w \<leftarrow> put_id E (as_bytes E (en_id e)) (put_u8 E w TYPE_ENUMERATION);
     w \<leftarrow> put_id E (as_bytes E (en_variant_id e)) w;
     serialize_to_writer E (en_value e) w })"
  "serialize_to_writer E (KeyValue kv) = (\<lambda>w. do {
     w \<leftarrow> put_id E (as_bytes E (kv_id kv)) (put_u8 E w TYPE_MAP);
     foldM (\<lambda>(key, field) w. do {
         w \<leftarrow> add_map_field_key E key w;
         w \<leftarrow> add_uuid_raw E (as_bytes E (kf_id field)) w;
         (case kf_value field of Some v \<Rightarrow> serialize_to_writer E v w | None \<Rightarrow> add_unit E w) })
       (sort_key fst (kv_fields kv)) (put_u32_le E w (word_of_nat (length (kv_fields kv)))) })"
  by (simp_all add: fun_eq_iff add_unit_def add_boolean_def add_uuid_def add_uuid_raw_def add_string_def
      add_option_none_def add_option_some_def add_boolean_raw_def begin_structure_def
      begin_structure_raw_def add_enumeration_value_def add_enumeration_value_raw_def begin_map_def
      add_u8_def add_u16_def add_u32_def add_u64_def add_i8_def add_i16_def add_i32_def add_i64_def add_f32_def add_f64_def)

lemma written_elements:
  "serialize_to_writer E (ArrayBoolean bs) = (\<lambda>w. (\<lambda>w. foldM (add_boolean_raw E) bs (writer_align E w))
     (put_u32_le E (put_u8 E (put_u8 E w TYPE_ARRAY) TYPE_BOOLEAN) (word_of_nat (length bs))))"
  "serialize_to_writer E (ArrayU8 u8s) = (\<lambda>w. (\<lambda>w. foldM (add_u8_raw E) u8s (writer_align E w))
     (put_u32_le E (put_u8 E (put_u8 E w TYPE_ARRAY) TYPE_U8) (word_of_nat (length u8s))))"
  "serialize_to_writer E (ArrayU16 u16s) = (\<lambda>w. (\<lambda>w. foldM (add_u16_raw E) u16s (writer_align E w))
     (put_u32_le E (put_u8 E (put_u8 E w TYPE_ARRAY) TYPE_U16) (word_of_nat (length u16s))))"
  "serialize_to_writer E (ArrayU32 u32s) = (\<lambda>w. (\<lambda>w. foldM (add_u32_raw E) u32s (writer_align E w))
     (put_u32_le E (put_u8 E (put_u8 E w TYPE_ARRAY) TYPE_U32) (word_of_nat (length u32s))))"
  "serialize_to_writer E (ArrayU64 u64s) = (\<lambda>w. (\<lambda>w. foldM (add_u64_raw E) u64s (writer_align E w))
     (put_u32_le E (put_u8 E (put_u8 E w TYPE_ARRAY) TYPE_U64) (word_of_nat (length u64s))))"
  "serialize_to_writer E (ArrayI8 i8s) = (\<lambda>w. (\<lambda>w. foldM (add_i8_raw E) i8s (writer_align E w))
     (put_u32_le E (put_u8 E (put_u8 E w TYPE_ARRAY) TYPE_I8) (word_of_nat (length i8s))))"
  "serialize_to_writer E (ArrayI16 i16s) = (\<lambda>w. (\<lambda>w. foldM (add_i16_raw E) i16s (writer_align E w))
     (put_u32_le E (put_u8 E (put_u8 E w TYPE_ARRAY) TYPE_I16) (word_of_nat (length i16s))))"
  "serialize_to_writer E (ArrayI32 i32s) = (\<lambda>w. (\<lambda>w. foldM (add_i32_raw E) i32s (writer_align E w))
     (put_u32_le E (put_u8 E (put_u8 E w TYPE_ARRAY) TYPE_I32) (word_of_nat (length i32s))))"
  "serialize_to_writer E (ArrayI64 i64s) = (\<lambda>w. (\<lambda>w. foldM (add_i64_raw E) i64s (writer_align E w))
     (put_u32_le E (put_u8 E (put_u8 E w TYPE_ARRAY) TYPE_I64) (word_of_nat (length i64s))))"
  "serialize_to_writer E (ArrayF32 f32s) = (\<lambda>w. (\<lambda>w. foldM (add_f32_raw E) f32s (writer_align E w))
     (put_u32_le E (put_u8 E (put_u8 E w TYPE_ARRAY) TYPE_F32) (word_of_nat (length f32s))))"
  "serialize_to_writer E (ArrayF64 f64s) = (\<lambda>w. (\<lambda>w. foldM (add_f64_raw E) f64s (writer_align E w))
     (put_u32_le E (put_u8 E (put_u8 E w TYPE_ARRAY) TYPE_F64) (word_of_nat (length f64s))))"
  "serialize_to_writer E (ArrayString ss) = (\<lambda>w. foldM (add_string_raw E) ss
     (put_u32_le E (put_u8 E (put_u8 E w TYPE_ARRAY) TYPE_STRING) (word_of_nat (length ss))))"
  "serialize_to_writer E (ArrayValue vs) = (\<lambda>w. foldM (serialize_to_writer E) vs
     (put_u32_le E (put_u8 E (put_u8 E w TYPE_ARRAY) TYPE_VALUE) (word_of_nat (length vs))))"
  "serialize_to_writer E (ArrayStructure i es) = (\<lambda>w. (\<lambda>w. do {
       w \<leftarrow> put_id E (as_bytes E i) w;
       foldM (\<lambda>s w. do {
         w \<leftarrow> begin_structure_raw E (word_of_nat (length (sw_fields s))) w;
         foldM (\<lambda>field w. do { w \<leftarrow> add_structure_field E (as_bytes E (sf_id field)) w;
           serialize_to_writer E (sf_value field) w }) (sw_fields s) w }) es w })
     (put_u32_le E (put_u8 E (put_u8 E w TYPE_ARRAY) TYPE_STRUCTURE) (word_of_nat (length es))))"
  "serialize_to_writer E (ArrayEnumeration j ees) = (\<lambda>w. (\<lambda>w. do {
       w \<leftarrow> put_id E (as_bytes E j) w;
       foldM (\<lambda>e w. do { w \<leftarrow> add_enumeration_value_raw E (as_bytes E (ew_variant_id e)) w;
         serialize_to_writer E (ew_value e) w }) ees w })
     (put_u32_le E (put_u8 E (put_u8 E w TYPE_ARRAY) TYPE_ENUMERATION) (word_of_nat (length ees))))"
  by (simp_all add: fun_eq_iff add_array_primitive_def add_array_structure_def
      add_array_enumeration_def add_boolean_raw_bulk_def
      add_u8_raw_bulk_def add_u16_raw_bulk_def add_u32_raw_bulk_def add_u64_raw_bulk_def add_i8_raw_bulk_def add_i16_raw_bulk_def add_i32_raw_bulk_def add_i64_raw_bulk_def add_f32_raw_bulk_def add_f64_raw_bulk_def)

lemma codec_same_loop:
  "(\<And>x. x \<in> set xs \<Longrightarrow> codec (wr x) rd x) \<Longrightarrow> codec (foldM wr xs) (read_n (length xs) rd) xs"
  using codec_loop [of xs wr rd "\<lambda>x. x"] by simp

lemma codec_bulk:
  assumes "\<And>x. codec (wr x) rd x" "length xs < 2 ^ 32"
  shows "codec (\<lambda>w. foldM wr xs (writer_align E w))
     (\<lambda>r. do { r \<leftarrow> reader_align r; (xs, r) \<leftarrow> read_n (unat (word_of_nat (length xs) :: u32)) rd r;
       Some (C xs, r) }) (C xs)"
  unfolding unat_count [OF assms(2)]
  by (rule codec_aligned [of "foldM wr xs"]) (rule codec_map [OF codec_same_loop], rule assms(1))

lemma codec_primitives:
  "codec (serialize_to_writer E Unit) (deserialize_from_reader E (Suc n)) Unit"
  "codec (serialize_to_writer E (Boolean b)) (deserialize_from_reader E (Suc n)) (Boolean b)"
  "codec (serialize_to_writer E (U8 u8)) (deserialize_from_reader E (Suc n)) (U8 u8)"
  "codec (serialize_to_writer E (U16 u16)) (deserialize_from_reader E (Suc n)) (U16 u16)"
  "codec (serialize_to_writer E (U32 u32)) (deserialize_from_reader E (Suc n)) (U32 u32)"
  "codec (serialize_to_writer E (U64 u64)) (deserialize_from_reader E (Suc n)) (U64 u64)"
  "codec (serialize_to_writer E (I8 i8)) (deserialize_from_reader E (Suc n)) (I8 i8)"
  "codec (serialize_to_writer E (I16 i16)) (deserialize_from_reader E (Suc n)) (I16 i16)"
  "codec (serialize_to_writer E (I32 i32)) (deserialize_from_reader E (Suc n)) (I32 i32)"
  "codec (serialize_to_writer E (I64 i64)) (deserialize_from_reader E (Suc n)) (I64 i64)"
  "codec (serialize_to_writer E (F32 f32)) (deserialize_from_reader E (Suc n)) (F32 f32)"
  "codec (serialize_to_writer E (F64 f64)) (deserialize_from_reader E (Suc n)) (F64 f64)"
  unfolding written_payload
  by (rule codec_value_reader, unfold tag_payload, (rule codec_return | rule codec_map),
      (rule codec_boolean codec_u8 codec_u16 codec_u32 codec_u64 codec_i8 codec_i16 codec_i32 codec_i64 codec_f32 codec_f64)?)+

lemma codec_bulks:
  "length bs < 2 ^ 32 \<Longrightarrow>
     codec (serialize_to_writer E (ArrayBoolean bs)) (deserialize_from_reader E (Suc n)) (ArrayBoolean bs)"
  "length u8s < 2 ^ 32 \<Longrightarrow>
     codec (serialize_to_writer E (ArrayU8 u8s)) (deserialize_from_reader E (Suc n)) (ArrayU8 u8s)"
  "length u16s < 2 ^ 32 \<Longrightarrow>
     codec (serialize_to_writer E (ArrayU16 u16s)) (deserialize_from_reader E (Suc n)) (ArrayU16 u16s)"
  "length u32s < 2 ^ 32 \<Longrightarrow>
     codec (serialize_to_writer E (ArrayU32 u32s)) (deserialize_from_reader E (Suc n)) (ArrayU32 u32s)"
  "length u64s < 2 ^ 32 \<Longrightarrow>
     codec (serialize_to_writer E (ArrayU64 u64s)) (deserialize_from_reader E (Suc n)) (ArrayU64 u64s)"
  "length i8s < 2 ^ 32 \<Longrightarrow>
     codec (serialize_to_writer E (ArrayI8 i8s)) (deserialize_from_reader E (Suc n)) (ArrayI8 i8s)"
  "length i16s < 2 ^ 32 \<Longrightarrow>
     codec (serialize_to_writer E (ArrayI16 i16s)) (deserialize_from_reader E (Suc n)) (ArrayI16 i16s)"
  "length i32s < 2 ^ 32 \<Longrightarrow>
     codec (serialize_to_writer E (ArrayI32 i32s)) (deserialize_from_reader E (Suc n)) (ArrayI32 i32s)"
  "length i64s < 2 ^ 32 \<Longrightarrow>
     codec (serialize_to_writer E (ArrayI64 i64s)) (deserialize_from_reader E (Suc n)) (ArrayI64 i64s)"
  "length f32s < 2 ^ 32 \<Longrightarrow>
     codec (serialize_to_writer E (ArrayF32 f32s)) (deserialize_from_reader E (Suc n)) (ArrayF32 f32s)"
  "length f64s < 2 ^ 32 \<Longrightarrow>
     codec (serialize_to_writer E (ArrayF64 f64s)) (deserialize_from_reader E (Suc n)) (ArrayF64 f64s)"
  unfolding written_elements
  by (rule codec_value_reader, rule codec_elements, unfold element_payload, rule codec_bulk,
      rule codec_boolean codec_u8 codec_u16 codec_u32 codec_u64 codec_i8 codec_i16 codec_i32 codec_i64 codec_f32 codec_f64, assumption)+

lemma codec_strings:
  assumes "\<And>s. s \<in> set ss \<Longrightarrow> utf8_string s \<and> length s < 2 ^ 32" "length ss < 2 ^ 32"
  shows "codec (serialize_to_writer E (ArrayString ss)) (deserialize_from_reader E (Suc n)) (ArrayString ss)"
  unfolding written_elements
  by (rule codec_value_reader, rule codec_elements, unfold element_payload unat_count [OF assms(2)],
      rule codec_map, rule codec_same_loop, rule codec_str) (use assms(1) in auto)

lemma codec_values:
  assumes "\<And>v. v \<in> set vs \<Longrightarrow> codec (serialize_to_writer E v) (deserialize_from_reader E n) (g v)"
    "length vs < 2 ^ 32"
  shows "codec (serialize_to_writer E (ArrayValue vs)) (deserialize_from_reader E (Suc n))
     (ArrayValue (map g vs))"
  unfolding written_elements
  by (rule codec_value_reader, rule codec_elements, unfold element_payload unat_count [OF assms(2)],
      rule codec_map, rule codec_loop, rule assms(1))

lemma codec_array_structure:
  assumes "\<And>e f. e \<in> set es \<Longrightarrow> f \<in> set (sw_fields e) \<Longrightarrow>
      codec (serialize_to_writer E (sf_value f)) (deserialize_from_reader E n) (g (sf_value f))"
    "\<And>e. e \<in> set es \<Longrightarrow> length (sw_fields e) < 2 ^ 32" "length es < 2 ^ 32"
  shows "codec (serialize_to_writer E (ArrayStructure i es)) (deserialize_from_reader E (Suc n))
     (ArrayStructure i (map (\<lambda>e. StructureWithoutId
        (map (\<lambda>f. StructureField (sf_id f) (g (sf_value f))) (sw_fields e))) es))"
proof -
  have loop: "codec (foldM (\<lambda>s w. do {
         w \<leftarrow> begin_structure_raw E (word_of_nat (length (sw_fields s))) w;
         foldM (\<lambda>field w. do { w \<leftarrow> add_structure_field E (as_bytes E (sf_id field)) w;
           serialize_to_writer E (sf_value field) w }) (sw_fields s) w }) es)
     (read_n (length es) (deserialize_structure E (deserialize_from_reader E n)))
     (map (\<lambda>e. StructureWithoutId (map (\<lambda>f. StructureField (sf_id f) (g (sf_value f))) (sw_fields e))) es)"
    by (rule codec_loop) (rule codec_structure [where g = g], use assms in auto)
  have "codec (\<lambda>w. do { w \<leftarrow> put_id E (as_bytes E i) w; foldM (\<lambda>s w. do {
         w \<leftarrow> begin_structure_raw E (word_of_nat (length (sw_fields s))) w;
         foldM (\<lambda>field w. do { w \<leftarrow> add_structure_field E (as_bytes E (sf_id field)) w;
           serialize_to_writer E (sf_value field) w }) (sw_fields s) w }) es w })
     (\<lambda>r. do { (i, r) \<leftarrow> take_bytes E 16 r;
        (es, r) \<leftarrow> read_n (length es) (deserialize_structure E (deserialize_from_reader E n)) r;
        i \<leftarrow> from_slice E i; Some (ArrayStructure i es, r) })
     (ArrayStructure i (map (\<lambda>e. StructureWithoutId
        (map (\<lambda>f. StructureField (sf_id f) (g (sf_value f))) (sw_fields e))) es))"
    by (rule codec_bind [OF codec_id]) (simp add: from_as_bytes codec_map [OF loop])
  then show ?thesis
    unfolding written_elements
    by (intro codec_value_reader codec_elements) (simp add: element_payload unat_count [OF assms(3)])
qed

lemma codec_array_enumeration:
  assumes "\<And>e. e \<in> set es \<Longrightarrow>
      codec (serialize_to_writer E (ew_value e)) (deserialize_from_reader E n) (g (ew_value e))"
    "length es < 2 ^ 32"
  shows "codec (serialize_to_writer E (ArrayEnumeration i es)) (deserialize_from_reader E (Suc n))
     (ArrayEnumeration i (map (\<lambda>e. EnumerationWithoutId (ew_variant_id e) (g (ew_value e))) es))"
proof -
  have loop: "codec (foldM (\<lambda>e w. do { w \<leftarrow> add_enumeration_value_raw E (as_bytes E (ew_variant_id e)) w;
         serialize_to_writer E (ew_value e) w }) es)
     (read_n (length es) (deserialize_enumerator E (deserialize_from_reader E n)))
     (map (\<lambda>e. EnumerationWithoutId (ew_variant_id e) (g (ew_value e))) es)"
    by (rule codec_loop) (rule codec_enumerator, rule assms(1))
  have "codec (\<lambda>w. do { w \<leftarrow> put_id E (as_bytes E i) w;
       foldM (\<lambda>e w. do { w \<leftarrow> add_enumeration_value_raw E (as_bytes E (ew_variant_id e)) w;
         serialize_to_writer E (ew_value e) w }) es w })
     (\<lambda>r. do { (i, r) \<leftarrow> take_bytes E 16 r;
        (es, r) \<leftarrow> read_n (length es) (deserialize_enumerator E (deserialize_from_reader E n)) r;
        i \<leftarrow> from_slice E i; Some (ArrayEnumeration i es, r) })
     (ArrayEnumeration i (map (\<lambda>e. EnumerationWithoutId (ew_variant_id e) (g (ew_value e))) es))"
    by (rule codec_bind [OF codec_id]) (simp add: from_as_bytes codec_map [OF loop])
  then show ?thesis
    unfolding written_elements
    by (intro codec_value_reader codec_elements) (simp add: element_payload unat_count [OF assms(2)])
qed

lemma codec_structure_value:
  assumes "\<And>f. f \<in> set (st_fields st) \<Longrightarrow>
      codec (serialize_to_writer E (sf_value f)) (deserialize_from_reader E n) (g (sf_value f))"
    "length (st_fields st) < 2 ^ 32"
  shows "codec (serialize_to_writer E (Structure st)) (deserialize_from_reader E (Suc n))
     (Structure (MkStructure (st_id st) (map (\<lambda>f. StructureField (sf_id f) (g (sf_value f))) (st_fields st))))"
proof -
  note fields = codec_fields [of "st_fields st" "serialize_to_writer E" "deserialize_from_reader E n" g,
      OF assms]
  have "codec (\<lambda>w. foldM (\<lambda>field w. do { w \<leftarrow> add_structure_field E (as_bytes E (sf_id field)) w;
         serialize_to_writer E (sf_value field) w }) (st_fields st)
       (put_u32_le E w (word_of_nat (length (st_fields st)))))
     (\<lambda>r. do { (cnt, r) \<leftarrow> on_backing (get_u32_le E) r;
        (fields, r) \<leftarrow> read_n (unat cnt) (deserialize_field E (deserialize_from_reader E n)) r;
        Some (Structure (MkStructure (st_id st) fields), r) })
     (Structure (MkStructure (st_id st) (map (\<lambda>f. StructureField (sf_id f) (g (sf_value f))) (st_fields st))))"
    by (rule codec_after [OF codec_put_u32]) (rule codec_map [OF fields])
  then show ?thesis
    unfolding written_payload
    by (intro codec_value_reader, unfold tag_payload, intro codec_bind [OF codec_id])
      (simp add: from_as_bytes)
qed

lemma codec_enumeration_value:
  assumes "codec (serialize_to_writer E (en_value e)) (deserialize_from_reader E n) v"
  shows "codec (serialize_to_writer E (Enumeration e)) (deserialize_from_reader E (Suc n))
     (Enumeration (MkEnumeration (en_id e) (en_variant_id e) v))"
  unfolding written_payload
  by (rule codec_value_reader, unfold tag_payload, rule codec_bind [OF codec_id],
      rule codec_bind [OF codec_id])
    (simp add: from_as_bytes
      codec_map [OF assms, of "\<lambda>v. Enumeration (MkEnumeration (en_id e) (en_variant_id e) v)"])

lemma codec_last:
  assumes "codec wa ra x" "rb x = (\<lambda>r. Some (y, r))"
  shows "codec wa (\<lambda>r. Option.bind (ra r) (\<lambda>(a, r). rb a r)) y"
  using codec_bind [of wa ra x Some rb y] assms codec_return [of y] by simp

lemma codec_option_value:
  "codec (serialize_to_writer E (VOption None)) (deserialize_from_reader E (Suc n)) (VOption None)"
  "codec (serialize_to_writer E v) (deserialize_from_reader E n) v' \<Longrightarrow>
     codec (serialize_to_writer E (VOption (Some v))) (deserialize_from_reader E (Suc n)) (VOption (Some v'))"
proof -
  have "codec (add_boolean_raw E False) (\<lambda>r. do { (present, r) \<leftarrow> get_boolean E r;
      if present then do { (v, r) \<leftarrow> deserialize_from_reader E n r; Some (VOption (Some v), r) }
      else Some (VOption None, r) }) (VOption None)"
    by (rule codec_last [OF codec_boolean]) simp
  then show "codec (serialize_to_writer E (VOption None)) (deserialize_from_reader E (Suc n)) (VOption None)"
    unfolding written_payload by (intro codec_value_reader) (simp add: tag_payload)
  show "codec (serialize_to_writer E (VOption (Some v))) (deserialize_from_reader E (Suc n)) (VOption (Some v'))"
    if "codec (serialize_to_writer E v) (deserialize_from_reader E n) v'"
    unfolding written_payload
    by (rule codec_value_reader, unfold tag_payload, rule codec_bind [OF codec_boolean])
      (simp add: codec_map [OF that, of "\<lambda>v. VOption (Some v)"])
qed

lemma codec_uuid_value:
  "codec (serialize_to_writer E (VUuid u)) (deserialize_from_reader E (Suc n)) (VUuid u)"
proof -
  have "codec (put_id E (as_bytes E u)) (\<lambda>r. do { (u, r) \<leftarrow> take_bytes E 16 r; u \<leftarrow> from_slice E u;
      Some (VUuid u, r) }) (VUuid u)"
    by (rule codec_last [OF codec_id]) (simp add: from_as_bytes)
  then show ?thesis
    unfolding written_payload by (intro codec_value_reader) (simp add: tag_payload)
qed

lemma codec_map_value:
  assumes "\<And>k f v. (k, f) \<in> set (kv_fields kv) \<Longrightarrow> kf_value f = Some v \<Longrightarrow>
      codec (serialize_to_writer E v) (deserialize_from_reader E n) (g v)"
    "\<And>k f. (k, f) \<in> set (kv_fields kv) \<Longrightarrow> utf8_string k \<and> length k < 2 ^ 32"
    "\<And>k f. (k, f) \<in> set (kv_fields kv) \<Longrightarrow> kf_value f = None \<Longrightarrow> 0 < n"
    "hm_ok (kv_fields kv)" "length (kv_fields kv) < 2 ^ 32"
  shows "codec (serialize_to_writer E (KeyValue kv)) (deserialize_from_reader E (Suc n))
     (KeyValue (MkKeyValue (kv_id kv)
        (map (\<lambda>f. (kf_name f, f)) (map (normal_entry g) (sort_key fst (kv_fields kv))))))"
proof -
  let ?fs = "sort_key fst (kv_fields kv)"
  let ?put_entry = "\<lambda>(key, field) w. do {
         w \<leftarrow> add_map_field_key E key w;
         w \<leftarrow> add_uuid_raw E (as_bytes E (kf_id field)) w;
         (case kf_value field of Some v \<Rightarrow> serialize_to_writer E v w | None \<Rightarrow> add_unit E w) }"
  have entry: "codec (?put_entry (k, f)) (deserialize_entry E (deserialize_from_reader E n)) (normal_entry g (k, f))"
    if kf: "(k, f) \<in> set (kv_fields kv)" for k f
  proof (cases "kf_value f")
    case None
    then obtain m where "n = Suc m" using assms(3) [OF kf] by (cases n) auto
    then have "codec (add_unit E) (deserialize_from_reader E n) Unit"
      using codec_primitives(1) [of m] by (simp add: add_unit_def [abs_def] written_payload)
    from codec_entry [OF this, of k "kf_id f"] None assms(2) [OF kf] show ?thesis
      by (simp add: normal_entry_def unit_to_none_def)
  next
    case (Some v)
    from codec_entry [OF assms(1) [OF kf Some], of k "kf_id f"] Some assms(2) [OF kf] show ?thesis
      by (simp add: normal_entry_def)
  qed
  have loop: "codec (foldM ?put_entry ?fs)
     (read_n (length ?fs) (deserialize_entry E (deserialize_from_reader E n))) (map (normal_entry g) ?fs)"
  proof (rule codec_loop)
    fix x assume x: "x \<in> set ?fs"
    obtain k f where kf: "x = (k, f)" by (cases x)
    from x have "(k, f) \<in> set (kv_fields kv)" unfolding kf set_sort .
    from entry [OF this]
    show "codec (?put_entry x) (deserialize_entry E (deserialize_from_reader E n)) (normal_entry g x)"
      unfolding kf .
  qed
  have "distinct (map kf_name (map (normal_entry g) ?fs))"
    using assms(4) by (simp add: normal_entry_def comp_def case_prod_unfold distinct_map inj_on_def)
  then have kv: "fold (\<lambda>field kv. set_field kv field) (map (normal_entry g) ?fs) (KeyValue_new_with_id (kv_id kv)) =
      MkKeyValue (kv_id kv) (map (\<lambda>f. (kf_name f, f)) (map (normal_entry g) ?fs))"
    by (rule set_fields_distinct)
  have "codec (\<lambda>w. foldM ?put_entry ?fs (put_u32_le E w (word_of_nat (length (kv_fields kv)))))
     (\<lambda>r. do { (cnt, r) \<leftarrow> on_backing (get_u32_le E) r;
        (fields, r) \<leftarrow> read_n (unat cnt) (deserialize_entry E (deserialize_from_reader E n)) r;
        Some (KeyValue (fold (\<lambda>field kv. set_field kv field) fields (KeyValue_new_with_id (kv_id kv))), r) })
     (KeyValue (MkKeyValue (kv_id kv) (map (\<lambda>f. (kf_name f, f)) (map (normal_entry g) ?fs))))"
    using codec_after [OF codec_put_u32 [of "word_of_nat (length (kv_fields kv))"],
        where rb = "\<lambda>cnt r. do {
          (fields, r) \<leftarrow> read_n (unat cnt) (deserialize_entry E (deserialize_from_reader E n)) r;
          Some (KeyValue (fold (\<lambda>field kv. set_field kv field) fields (KeyValue_new_with_id (kv_id kv))), r) }"]
      codec_map [OF loop, of "\<lambda>fields. KeyValue (fold (\<lambda>field kv. set_field kv field) fields
          (KeyValue_new_with_id (kv_id kv)))"]
    by (simp add: unat_count [OF assms(5)] kv)
  then show ?thesis
    unfolding written_payload
    by (intro codec_value_reader, unfold tag_payload, intro codec_bind [OF codec_id])
      (simp add: from_as_bytes)
qed

text \<open>Writing an encodable value and reading it with a bound of at least its depth.\<close>

lemma codec_value:
  "encodable v \<Longrightarrow> depth v \<le> n \<Longrightarrow>
     codec (serialize_to_writer E v) (deserialize_from_reader E n) (normal v)"
proof (induction v arbitrary: n rule: measure_induct_rule [of size])
  case (less v)
  have "0 < depth v" by (cases v rule: depth.cases) auto
  with less.prems(2) obtain m where n: "n = Suc m" by (cases n) auto
  note IH = less.IH and enc = less.prems(1) and dep = less.prems(2) [unfolded n]
  show ?case unfolding n
  proof (cases v)
    case (Structure st)
    with enc dep have "f \<in> set (st_fields st) \<Longrightarrow> encodable (sf_value f) \<and> depth (sf_value f) \<le> m" for f
      by (auto simp: list_all_iff max_of_le)
    with Structure enc show "codec (serialize_to_writer E v) (deserialize_from_reader E (Suc m)) (normal v)"
      by (auto intro!: codec_structure_value IH simp: size_st_fields)
  next
    case (Enumeration e)
    with enc dep show "codec (serialize_to_writer E v) (deserialize_from_reader E (Suc m)) (normal v)"
      by (auto intro!: codec_enumeration_value IH simp: size_en_value)
  next
    case (VOption ov)
    with enc dep show "codec (serialize_to_writer E v) (deserialize_from_reader E (Suc m)) (normal v)"
      by (cases ov) (auto intro!: codec_option_value IH)
  next
    case (VString s)
    have "codec (serialize_to_writer E (VString s)) (deserialize_from_reader E (Suc m)) (VString s)"
      unfolding written_payload
      by (rule codec_value_reader, unfold tag_payload, rule codec_map, rule codec_str)
        (use enc VString in auto)
    with VString show "codec (serialize_to_writer E v) (deserialize_from_reader E (Suc m)) (normal v)"
      by simp
  next
    case (ArrayString ss)
    with enc show "codec (serialize_to_writer E v) (deserialize_from_reader E (Suc m)) (normal v)"
      by (auto intro!: codec_strings simp: list_all_iff)
  next
    case (ArrayValue vs)
    with enc dep have "x \<in> set vs \<Longrightarrow> encodable x \<and> depth x \<le> m \<and> size x < size v" for x
      by (auto simp: list_all_iff max_of_le size_list_estimation less_Suc_eq_le intro!: size_list_estimation')
    with ArrayValue enc show "codec (serialize_to_writer E v) (deserialize_from_reader E (Suc m)) (normal v)"
      by (auto intro!: codec_values IH)
  next
    case (ArrayStructure i es)
    with enc dep have "e \<in> set es \<Longrightarrow> f \<in> set (sw_fields e) \<Longrightarrow>
        encodable (sf_value f) \<and> depth (sf_value f) \<le> m" for e f
      by (auto simp: list_all_iff max_of_le)
    with ArrayStructure enc show "codec (serialize_to_writer E v) (deserialize_from_reader E (Suc m)) (normal v)"
      by (auto intro!: codec_array_structure IH simp: size_sw_fields list_all_iff)
  next
    case (ArrayEnumeration i es)
    with enc dep have "e \<in> set es \<Longrightarrow> encodable (ew_value e) \<and> depth (ew_value e) \<le> m" for e
      by (auto simp: list_all_iff max_of_le)
    with ArrayEnumeration enc show "codec (serialize_to_writer E v) (deserialize_from_reader E (Suc m)) (normal v)"
      by (auto intro!: codec_array_enumeration IH simp: size_ew_value)
  next
    case (KeyValue kv)
    with enc dep have kf: "(k, f) \<in> set (kv_fields kv) \<Longrightarrow> utf8_string k \<and> length k < 2 ^ 32 \<and>
        (case kf_value f of None \<Rightarrow> 0 < m | Some x \<Rightarrow> encodable x \<and> depth x \<le> m)" for k f
      by (fastforce simp: list_all_iff max_of_le split: option.splits)
    have "codec (serialize_to_writer E x) (deserialize_from_reader E m) (normal x)"
      if "(k, f) \<in> set (kv_fields kv)" "kf_value f = Some x" for k f x
      using kf [OF that(1)] that by (intro IH) (auto simp: KeyValue size_kf_value)
    then show "codec (serialize_to_writer E v) (deserialize_from_reader E (Suc m)) (normal v)"
      unfolding KeyValue normal_KeyValue
      using kf enc KeyValue by (intro codec_map_value) (auto dest: kf)
  qed (use enc in \<open>auto intro: codec_primitives codec_bulks codec_uuid_value
      simp del: serialize_to_writer.simps deserialize_from_reader.simps\<close>)
qed

end

section \<open>The bound on the recursion is enough\<close>

text \<open>
  A reader shrinks when it never leaves more bytes than it found; two readers agree up to a length
  when they return the same on every input of at most that many bytes.
\<close>

definition shrinks :: "(BufferReader \<Rightarrow> ('a \<times> BufferReader) option) \<Rightarrow> bool" where
  "shrinks rd \<longleftrightarrow> (\<forall>r x r'. rd r = Some (x, r') \<longrightarrow> length (r_backing r') \<le> length (r_backing r))"

definition agree :: "nat \<Rightarrow> (BufferReader \<Rightarrow> 'a) \<Rightarrow> (BufferReader \<Rightarrow> 'a) \<Rightarrow> bool" where
  "agree l f g \<longleftrightarrow> (\<forall>r. length (r_backing r) \<le> l \<longrightarrow> f r = g r)"

lemma shrinks_bind:
  "shrinks ra \<Longrightarrow> (\<And>a. shrinks (rb a)) \<Longrightarrow> shrinks (\<lambda>r. Option.bind (ra r) (\<lambda>(a, r). rb a r))"
  unfolding shrinks_def by (fastforce split: Option.bind_splits intro: order_trans)

lemma shrinks_option: "(\<And>a. shrinks (rb a)) \<Longrightarrow> shrinks (\<lambda>r. Option.bind x (\<lambda>a. rb a r))"
  by (cases x) (simp_all add: shrinks_def)

lemma shrinks_return: "shrinks (\<lambda>r. Some (x, r))"
  by (simp add: shrinks_def)

lemma shrinks_if: "shrinks ra \<Longrightarrow> shrinks rb \<Longrightarrow> shrinks (\<lambda>r. if c then ra r else rb r)"
  by (simp add: shrinks_def)

lemma shrinks_None: "shrinks (\<lambda>r. None)"
  by (simp add: shrinks_def)

lemma shrinks_read_n: "shrinks rd \<Longrightarrow> shrinks (read_n n rd)"
proof (induction n)
  case (Suc n)
  then show ?case
    unfolding read_n.simps by (intro shrinks_bind shrinks_return) auto
qed (simp add: shrinks_def)

lemma shrinks_align: "shrinks rd \<Longrightarrow> shrinks (\<lambda>r. Option.bind (reader_align r) rd)"
  unfolding shrinks_def reader_align_def
  by (auto simp: Let_def split: Option.bind_splits if_splits) (metis (no_types) diff_le_self length_drop order_trans
      select_convs(1) update_convs(1) surjective)

lemma agree_refl: "agree l f f"
  by (simp add: agree_def)

lemma agree_bind:
  assumes "agree l ra ra'" "shrinks ra" "\<And>a. agree l (rb a) (rb' a)"
  shows "agree l (\<lambda>r. Option.bind (ra r) (\<lambda>(a, r). rb a r)) (\<lambda>r. Option.bind (ra' r) (\<lambda>(a, r). rb' a r))"
  unfolding agree_def
proof (intro allI impI)
  fix r :: BufferReader assume r: "length (r_backing r) \<le> l"
  with assms(1) have eq: "ra' r = ra r" by (simp add: agree_def)
  show "Option.bind (ra r) (\<lambda>(a, r). rb a r) = Option.bind (ra' r) (\<lambda>(a, r). rb' a r)"
  proof (cases "ra r")
    case (Some p)
    then obtain a r' where p: "ra r = Some (a, r')" by (cases p) auto
    with assms(2) r have "length (r_backing r') \<le> l" unfolding shrinks_def by (meson order_trans)
    with assms(3) [of a] p eq show ?thesis by (simp add: agree_def)
  qed (simp add: eq)
qed

lemma agree_option:
  "(\<And>a. agree l (rb a) (rb' a)) \<Longrightarrow> agree l (\<lambda>r. Option.bind x (\<lambda>a. rb a r)) (\<lambda>r. Option.bind x (\<lambda>a. rb' a r))"
  by (cases x) (simp_all add: agree_def)

lemma agree_if:
  "agree l ra ra' \<Longrightarrow> agree l rb rb' \<Longrightarrow> agree l (\<lambda>r. if c then ra r else rb r) (\<lambda>r. if c then ra' r else rb' r)"
  by (simp add: agree_def)

lemma agree_read_n: "agree l rd rd' \<Longrightarrow> shrinks rd \<Longrightarrow> agree l (read_n n rd) (read_n n rd')"
proof (induction n)
  case (Suc n)
  then show ?case
    unfolding read_n.simps by (intro agree_bind agree_refl shrinks_read_n) auto
qed (simp add: agree_def)

text \<open>One reader is below another when it returns what the other returns, or panics.\<close>

definition below :: "(BufferReader \<Rightarrow> 'a option) \<Rightarrow> (BufferReader \<Rightarrow> 'a option) \<Rightarrow> bool" where
  "below f g \<longleftrightarrow> (\<forall>r x. f r = Some x \<longrightarrow> g r = Some x)"

lemma below_refl: "below f f"
  by (simp add: below_def)

lemma below_bind:
  "below ra ra' \<Longrightarrow> (\<And>a. below (rb a) (rb' a)) \<Longrightarrow>
     below (\<lambda>r. Option.bind (ra r) (\<lambda>(a, r). rb a r)) (\<lambda>r. Option.bind (ra' r) (\<lambda>(a, r). rb' a r))"
  by (fastforce simp: below_def bind_eq_Some_conv)

lemma below_option:
  "(\<And>a. below (rb a) (rb' a)) \<Longrightarrow> below (\<lambda>r. Option.bind x (\<lambda>a. rb a r)) (\<lambda>r. Option.bind x (\<lambda>a. rb' a r))"
  by (cases x) (simp_all add: below_def)

lemma below_align:
  "below rd rd' \<Longrightarrow> below (\<lambda>r. Option.bind (reader_align r) rd) (\<lambda>r. Option.bind (reader_align r) rd')"
  by (auto simp: below_def bind_eq_Some_conv)

lemma below_if:
  "below ra ra' \<Longrightarrow> below rb rb' \<Longrightarrow> below (\<lambda>r. if c then ra r else rb r) (\<lambda>r. if c then ra' r else rb' r)"
  by (simp add: below_def)

lemma below_read_n: "below rd rd' \<Longrightarrow> below (read_n n rd) (read_n n rd')"
proof (induction n)
  case (Suc n)
  then show ?case unfolding read_n.simps by (intro below_bind below_refl) auto
qed (simp add: below_def)

lemmas below_intros = below_bind below_option below_align below_if below_read_n below_refl

lemma below_tag:
  assumes "below rec rec'"
  shows "below (deserialize_tag E rec t) (deserialize_tag E rec' t)"
proof -
  have field: "below (deserialize_field E rec) (deserialize_field E rec')"
    unfolding deserialize_field_def [abs_def] by (intro below_intros assms)
  have parts: "below (deserialize_enumerator E rec) (deserialize_enumerator E rec')"
    "below (deserialize_structure E rec) (deserialize_structure E rec')"
    "below (deserialize_entry E rec) (deserialize_entry E rec')"
    unfolding deserialize_enumerator_def [abs_def] deserialize_structure_def [abs_def]
      deserialize_entry_def [abs_def] by (intro below_intros assms field)+
  have split: "below (\<lambda>r. Option.bind (if c then reader_align r else Some r) rd)
      (\<lambda>r. Option.bind (if c then reader_align r else Some r) rd')"
    if "below rd rd'" for c and rd rd' :: value_reader
    using that below_align [OF that] by (cases c) simp_all
  have elements: "below (deserialize_elements E rec ty n) (deserialize_elements E rec' ty n)" for ty n
    unfolding deserialize_elements_def [abs_def] by (intro split below_intros parts assms)
  show ?thesis
    unfolding deserialize_tag_def [abs_def] get_structure_def get_map_def get_array_def bind_assoc
      bind_case_prod bind.bind_lunit prod.case
    by (intro below_intros field parts elements assms)
qed

lemma below_value: "below (deserialize_from_reader E n) (deserialize_from_reader E (Suc n))"
proof (induction n)
  case (Suc n)
  have "below (\<lambda>r. Option.bind (next_type E r) (\<lambda>(t, r). deserialize_tag E (deserialize_from_reader E n) t r))
     (\<lambda>r. Option.bind (next_type E r) (\<lambda>(t, r). deserialize_tag E (deserialize_from_reader E (Suc n)) t r))"
    by (intro below_bind below_refl below_tag Suc)
  then show ?case by (simp add: below_def)
qed (simp add: below_def)

lemma deserialize_more:
  assumes "deserialize_from_reader E m r = Some x" "m \<le> n"
  shows "deserialize_from_reader E n r = Some x"
  using assms(2,1)
proof (induction n rule: dec_induct)
  case (step n)
  then show ?case using below_value [of E n] unfolding below_def by blast
qed simp

lemma reader_align_shrinks: "reader_align r = Some r' \<Longrightarrow> length (r_backing r') \<le> length (r_backing r)"
  by (auto simp: reader_align_def Let_def split: if_splits)

lemma agree_align:
  "agree l rd rd' \<Longrightarrow> agree l (\<lambda>r. Option.bind (reader_align r) rd) (\<lambda>r. Option.bind (reader_align r) rd')"
  unfolding agree_def
  by (auto split: Option.bind_splits dest: reader_align_shrinks)

context buffer_crates
begin

lemma on_backing_shrinks: "get = take_le n \<Longrightarrow> shrinks (on_backing get)"
  by (auto simp: shrinks_def on_backing_def take_le_def split: Option.bind_splits if_splits)

lemma shrinks_take_bytes: "shrinks (take_bytes E n)"
  by (auto simp: shrinks_def take_bytes_def advances split: Option.bind_splits if_splits)

lemma shrinks_gets:
  "shrinks (on_backing (get_u8 E))" "shrinks (on_backing (get_u32_le E))"
  "shrinks (reader_u8 E)"
  "shrinks (reader_u16 E)"
  "shrinks (reader_u32 E)"
  "shrinks (reader_u64 E)"
  "shrinks (reader_i8 E)"
  "shrinks (reader_i16 E)"
  "shrinks (reader_i32 E)"
  "shrinks (reader_i64 E)"
  "shrinks (reader_f32 E)"
  "shrinks (reader_f64 E)"
  by (rule on_backing_shrinks gets_take_le | (unfold reader_u8_def [abs_def] reader_u16_def [abs_def] reader_u32_def [abs_def] reader_u64_def [abs_def] reader_i8_def [abs_def] reader_i16_def [abs_def] reader_i32_def [abs_def] reader_i64_def [abs_def] reader_f32_def [abs_def] reader_f64_def [abs_def])[1])+

lemma shrinks_boolean: "shrinks (get_boolean E)"
  unfolding get_boolean_def [abs_def] by (intro shrinks_bind shrinks_gets shrinks_return)

lemma shrinks_string: "shrinks (get_string E)"
  unfolding get_string_def [abs_def]
  by (intro shrinks_bind shrinks_gets shrinks_take_bytes shrinks_option shrinks_return)

lemmas shrinks_intros = shrinks_bind shrinks_option shrinks_return shrinks_if shrinks_None shrinks_read_n
  shrinks_take_bytes shrinks_gets shrinks_boolean shrinks_string shrinks_align

lemma shrinks_parts:
  assumes "shrinks rec"
  shows "shrinks (deserialize_field E rec)" "shrinks (deserialize_enumerator E rec)"
    "shrinks (deserialize_structure E rec)" "shrinks (deserialize_entry E rec)"
  unfolding deserialize_field_def [abs_def] deserialize_enumerator_def [abs_def]
    deserialize_structure_def [abs_def] deserialize_entry_def [abs_def] get_structure_field_def
    get_enumeration_value_raw_def get_structure_raw_def get_map_field_key_string get_uuid_def
  by (intro shrinks_intros assms)+

lemma shrinks_elements:
  assumes "shrinks rec"
  shows "shrinks (deserialize_elements E rec ty n)"
proof -
  have split: "shrinks (\<lambda>r. Option.bind (if c then reader_align r else Some r) rd)" if "shrinks rd"
    for c and rd :: value_reader
    using that shrinks_align [OF that] by (cases c) simp_all
  show ?thesis
    unfolding deserialize_elements_def [abs_def] get_structure_field_def
    by (intro split shrinks_intros shrinks_parts assms)
qed

lemma shrinks_tag:
  assumes "shrinks rec"
  shows "shrinks (deserialize_tag E rec t)"
  unfolding deserialize_tag_def [abs_def] get_structure_field_def get_enumeration_value_raw_def
    get_uuid_def get_option_presence_def get_structure_def get_structure_raw_def get_map_def
    get_array_def bind_assoc bind_case_prod bind.bind_lunit prod.case
  by (intro shrinks_intros shrinks_parts shrinks_elements assms)

lemmas agree_intros = agree_bind agree_option agree_if agree_read_n agree_align agree_refl

lemma agree_parts:
  assumes "agree l rec rec'" "shrinks rec"
  shows "agree l (deserialize_field E rec) (deserialize_field E rec')"
    "agree l (deserialize_enumerator E rec) (deserialize_enumerator E rec')"
    "agree l (deserialize_structure E rec) (deserialize_structure E rec')"
    "agree l (deserialize_entry E rec) (deserialize_entry E rec')"
proof -
  show field: "agree l (deserialize_field E rec) (deserialize_field E rec')"
    unfolding deserialize_field_def [abs_def] get_structure_field_def
    by (intro agree_intros shrinks_intros assms)
  show "agree l (deserialize_enumerator E rec) (deserialize_enumerator E rec')"
    unfolding deserialize_enumerator_def [abs_def] get_enumeration_value_raw_def
    by (intro agree_intros shrinks_intros assms)
  show "agree l (deserialize_structure E rec) (deserialize_structure E rec')"
    unfolding deserialize_structure_def [abs_def] get_structure_raw_def
    by (intro agree_intros shrinks_intros shrinks_parts field assms)
  show "agree l (deserialize_entry E rec) (deserialize_entry E rec')"
    unfolding deserialize_entry_def [abs_def] get_map_field_key_string get_uuid_def
    by (intro agree_intros shrinks_intros assms)
qed

lemma agree_elements:
  assumes "agree l rec rec'" "shrinks rec"
  shows "agree l (deserialize_elements E rec ty n) (deserialize_elements E rec' ty n)"
proof -
  have split: "agree l (\<lambda>r. Option.bind (if c then reader_align r else Some r) rd)
      (\<lambda>r. Option.bind (if c then reader_align r else Some r) rd')"
    if "agree l rd rd'" for c and rd rd' :: value_reader
    using that agree_align [OF that] by (cases c) simp_all
  show ?thesis
    unfolding deserialize_elements_def [abs_def] get_structure_field_def
    by (intro split agree_intros shrinks_intros shrinks_parts agree_parts assms)
qed

lemma agree_tag:
  assumes "agree l rec rec'" "shrinks rec"
  shows "agree l (deserialize_tag E rec t) (deserialize_tag E rec' t)"
  unfolding deserialize_tag_def [abs_def] get_structure_field_def get_enumeration_value_raw_def
    get_uuid_def get_option_presence_def get_structure_def get_structure_raw_def get_map_def
    get_array_def bind_assoc bind_case_prod bind.bind_lunit prod.case
  by (intro agree_intros shrinks_intros shrinks_parts agree_parts agree_elements assms)

lemma shrinks_value: "shrinks (deserialize_from_reader E n)"
proof (induction n)
  case (Suc n)
  have "shrinks (next_type E)"
    unfolding next_type_def [abs_def] shrinks_def
    using shrinks_gets(1) unfolding shrinks_def by auto
  with Suc show ?case
    unfolding deserialize_from_reader.simps [abs_def] by (intro shrinks_bind shrinks_tag)
qed (simp add: shrinks_def)

lemma next_type_shrinks: "next_type E r = Some (t, r') \<Longrightarrow> length (r_backing r') < length (r_backing r)"
  by (auto simp: next_type_def on_backing_def take_le_def gets split: Option.bind_splits if_splits)

lemma depth_bound_agree: "l < n \<Longrightarrow> l < m \<Longrightarrow> agree l (deserialize_from_reader E n) (deserialize_from_reader E m)"
proof (induction n arbitrary: l m)
  case (Suc n)
  then obtain m' where m: "m = Suc m'" by (cases m) auto
  show ?case unfolding agree_def m
  proof (intro allI impI)
    fix r :: BufferReader assume r: "length (r_backing r) \<le> l"
    show "deserialize_from_reader E (Suc n) r = deserialize_from_reader E (Suc m') r"
    proof (cases "next_type E r")
      case (Some p)
      then obtain t r' where p: "next_type E r = Some (t, r')" by (cases p) auto
      from next_type_shrinks [OF p] r have l: "length (r_backing r') \<le> l - 1" "0 < l" by auto
      then have "agree (l - 1) (deserialize_from_reader E n) (deserialize_from_reader E m')"
        using Suc m by (intro Suc.IH) auto
      from agree_tag [OF this shrinks_value, of t] l p show ?thesis by (simp add: agree_def)
    qed simp
  qed
qed simp

lemma written_buffer:
  assumes "encodable v"
  shows "\<exists>bs. serialize_to_writer E v (BufferWriter_new E) = Some (le_bytes 4 (0 :: u32) @ bs) \<and>
     (\<forall>n rest. depth v \<le> n \<longrightarrow>
        deserialize_from_reader E n (reader_at (le_bytes 4 (0 :: u32)) (bs @ rest)) =
          Some (normal v, reader_at (le_bytes 4 (0 :: u32) @ bs) rest))"
proof -
  let ?w = "le_bytes 4 (0 :: u32)"
  obtain bs where bs: "serialize_to_writer E v ?w = Some (?w @ bs)"
    using codecE [OF codec_value [OF assms order_refl], of ?w] by blast
  have "deserialize_from_reader E n (reader_at ?w (bs @ rest)) = Some (normal v, reader_at (?w @ bs) rest)"
    if "depth v \<le> n" for n rest
    using codecE [OF codec_value [OF assms that], of ?w] bs by (metis option.inject same_append_eq)
  with bs show ?thesis by (auto simp: BufferWriter_new_def puts)
qed

lemma deserialize_bytes:
  assumes "length b4 = 4" "length w = 4"
    "deserialize_from_reader E n (reader_at w bs) = Some (v, r)" "length bs < n"
  shows "deserialize E (b4 @ bs) = Some v"
proof -
  have "deserialize_from_reader E (Suc (length (b4 @ bs))) (reader_at w bs) =
      deserialize_from_reader E n (reader_at w bs)"
    using depth_bound_agree [of "length bs" "Suc (length (b4 @ bs))" n] assms(4) by (simp add: agree_def)
  with assms show ?thesis by (simp add: deserialize_def BufferReader_new_def reader_at_def)
qed

lemma serialize_bytes:
  assumes "encodable v"
  shows "\<exists>bs. serialize E v = Some (le_bytes 4 (word_of_nat (4 + length bs) :: u32) @ bs) \<and>
     deserialize E (le_bytes 4 (word_of_nat (4 + length bs) :: u32) @ bs) = Some (normal v) \<and>
     (\<forall>n. depth v \<le> n \<longrightarrow> deserialize_from_reader E n (reader_at (le_bytes 4 (0 :: u32)) bs) =
        Some (normal v, reader_at (le_bytes 4 (0 :: u32) @ bs) []))"
proof -
  obtain bs where ser: "serialize_to_writer E v (BufferWriter_new E) = Some (le_bytes 4 (0 :: u32) @ bs)"
    and de: "\<And>n rest. depth v \<le> n \<Longrightarrow> deserialize_from_reader E n (reader_at (le_bytes 4 (0 :: u32)) (bs @ rest)) =
       Some (normal v, reader_at (le_bytes 4 (0 :: u32) @ bs) rest)"
    using written_buffer [OF assms] by blast
  from ser have "serialize E v = Some (le_bytes 4 (word_of_nat (4 + length bs) :: u32) @ bs)"
    by (simp add: serialize_def finalize_def)
  moreover have "deserialize E (le_bytes 4 (word_of_nat (4 + length bs) :: u32) @ bs) = Some (normal v)"
    using de [of "max (depth v) (Suc (length bs))" "[]"]
    by (intro deserialize_bytes [where w = "le_bytes 4 (0 :: u32)" and n = "max (depth v) (Suc (length bs))"]) auto
  moreover have "\<forall>n. depth v \<le> n \<longrightarrow> deserialize_from_reader E n (reader_at (le_bytes 4 (0 :: u32)) bs) =
        Some (normal v, reader_at (le_bytes 4 (0 :: u32) @ bs) [])"
    using de [of _ "[]"] by simp
  ultimately show ?thesis by blast
qed

end

text \<open>
  Reading a value stops: the depth bound \<open>deserialize\<close> uses is never what ends it. Any larger
  bound gives the same result, on every input, panics included.
\<close>

theorem deserialize_bound_irrelevant:
  assumes "buffer_crates E" "length (r_backing r) < n" "length (r_backing r) < m"
  shows "deserialize_from_reader E n r = deserialize_from_reader E m r"
  using buffer_crates.depth_bound_agree [OF assms] by (simp add: agree_def)

theorem deserialize_bound_irrelevant_witness:
  "deserialize_from_reader std_crates 5 \<lparr>r_backing = [17, 1, 2, 9], r_buffer_len = 8\<rparr> =
     deserialize_from_reader std_crates 500 \<lparr>r_backing = [17, 1, 2, 9], r_buffer_len = 8\<rparr>"
  by (rule deserialize_bound_irrelevant [OF std.buffer_crates_axioms]) simp_all

text \<open>
  C2. Serialization and deserialization: every value the format can carry is written without a
  panic, and reading the buffer back gives the value in its normal form.
\<close>

theorem serialize_round_trip:
  assumes "buffer_crates E" "encodable v"
  shows "\<exists>b. serialize E v = Some b \<and> deserialize E b = Some (normal v)"
  using buffer_crates.serialize_bytes [OF assms] by blast

theorem serialize_round_trip_witness:
  "\<exists>b. serialize std_crates (VOption (Some (ArrayU16 [1, 2]))) = Some b \<and>
     deserialize std_crates b = Some (VOption (Some (ArrayU16 [1, 2])))"
  using serialize_round_trip [OF std.buffer_crates_axioms, of "VOption (Some (ArrayU16 [1, 2]))"] by simp

section \<open>The normal form is the value\<close>

text \<open>
  A tidy value files each entry of a key-value record under the entry's own name and stores no
  unit in an entry.
\<close>

fun tidy :: "Value \<Rightarrow> bool" where
  "tidy (Structure s) \<longleftrightarrow> list_all (\<lambda>f. tidy (sf_value f)) (st_fields s)"
| "tidy (Enumeration e) \<longleftrightarrow> tidy (en_value e)"
| "tidy (ArrayStructure i es) \<longleftrightarrow> list_all (\<lambda>e. list_all (\<lambda>f. tidy (sf_value f)) (sw_fields e)) es"
| "tidy (ArrayEnumeration i es) \<longleftrightarrow> list_all (\<lambda>e. tidy (ew_value e)) es"
| "tidy (ArrayValue vs) \<longleftrightarrow> list_all tidy vs"
| "tidy (VOption None) \<longleftrightarrow> True"
| "tidy (VOption (Some v)) \<longleftrightarrow> tidy v"
| "tidy (KeyValue kv) \<longleftrightarrow> hm_ok (kv_fields kv) \<and> list_all (\<lambda>(k, f). kf_name f = k \<and>
     (case kf_value f of None \<Rightarrow> True | Some v \<Rightarrow> v \<noteq> Unit \<and> tidy v)) (kv_fields kv)"
| "tidy _ \<longleftrightarrow> True"

lemma sort_key_map_sorted:
  fixes fs :: "('k::linorder \<times> 'v) list"
  assumes "hm_ok fs" "\<And>k f. (k, f) \<in> set fs \<Longrightarrow> g (k, f) = h (k, f)" "\<And>e. fst (g e) = fst e"
  shows "sort_key fst (map g (sort_key fst fs)) = sort_key fst (map h fs)"
proof -
  have "mset (map g (sort_key fst fs)) = mset (map h fs)"
    using assms(2) by (auto intro!: image_mset_cong)
  moreover have "inj_on fst (set (map g (sort_key fst fs)))"
  proof (rule inj_onI)
    fix x y assume xy: "x \<in> set (map g (sort_key fst fs))" "y \<in> set (map g (sort_key fst fs))" "fst x = fst y"
    then obtain a b where ab: "a \<in> set fs" "b \<in> set fs" "x = g a" "y = g b" by auto
    with xy(3) assms(3) have "fst a = fst b" by simp
    with ab assms(1) have "a = b" by (auto simp: distinct_map inj_on_def)
    with ab show "x = y" by simp
  qed
  ultimately show ?thesis
    by (intro sort_key_inj_key_eq) auto
qed

lemma canon_normal: "tidy v \<Longrightarrow> canon (normal v) = canon v \<and> nan_free (normal v) = nan_free v"
proof (induction v rule: normal.induct)
  case (8 kv)
  let ?g = "\<lambda>(k, f). (k, canon_field (KeyValueField (kf_id f) k
        (case kf_value f of None \<Rightarrow> None | Some v \<Rightarrow> unit_to_none (normal v))))"
  let ?h = "\<lambda>(k, f). (k, canon_field f)"
  have same: "?g (k, f) = ?h (k, f) \<and> nan_free_field (KeyValueField (kf_id f) k
        (case kf_value f of None \<Rightarrow> None | Some v \<Rightarrow> unit_to_none (normal v))) = nan_free_field f"
    if "(k, f) \<in> set (kv_fields kv)" for k f
    using 8 that
    by (cases "kf_value f")
      (force simp: canon_field_def nan_free_field_def unit_to_none_def list_all_iff split: option.splits)+
  have "sort_key fst (map ?g (sort_key fst (kv_fields kv))) = sort_key fst (map ?h (kv_fields kv))"
    by (rule sort_key_map_sorted) (use 8(2) same in auto)
  then have "canon (normal (KeyValue kv)) = canon (KeyValue kv)"
    by (simp add: canon_field_def comp_def case_prod_unfold map_option_case)
  moreover have "nan_free (normal (KeyValue kv)) = nan_free (KeyValue kv)"
    using same by (force simp: list_all_iff nan_free_field_def split: option.splits)
  ultimately show ?case ..
qed (auto simp: list_all_iff)

text \<open>
  A tidy value that holds no NaN comes back equal to itself, as Rust compares values.
\<close>

theorem serialize_round_trip_equal:
  assumes "buffer_crates E" "encodable v" "tidy v" "nan_free v"
  shows "\<exists>b w. serialize E v = Some b \<and> deserialize E b = Some w \<and> value_eq w v"
  using buffer_crates.serialize_bytes [OF assms(1,2)] canon_normal [OF assms(3)] assms(4)
  by (auto simp: value_eq_def)

theorem serialize_round_trip_equal_witness:
  "\<exists>b w. serialize std_crates (KeyValue (MkKeyValue 5 [(''b'', KeyValueField 1 ''b'' (Some (U8 1))),
       (''a'', KeyValueField 2 ''a'' None)])) = Some b \<and> deserialize std_crates b = Some w \<and>
     value_eq w (KeyValue (MkKeyValue 5 [(''b'', KeyValueField 1 ''b'' (Some (U8 1))),
       (''a'', KeyValueField 2 ''a'' None)]))"
  by (rule serialize_round_trip_equal [OF std.buffer_crates_axioms])
    (simp_all add: utf8_string_def)

text \<open>
  The bytes of a key-value record do not depend on the order its hash map is visited in.
\<close>

theorem serialize_deterministic:
  assumes "hm_ok fs" "hm_ok fs'" "map_of fs = map_of fs'"
  shows "serialize_to_writer E (KeyValue (MkKeyValue i fs)) w =
     serialize_to_writer E (KeyValue (MkKeyValue i fs')) w"
proof -
  have sorted: "sort_key fst fs = sort_key fst fs'"
    using assms by (simp add: sort_key_fst_map_of)
  then have "length fs = length fs'" by (metis length_sort)
  with sorted show ?thesis by simp
qed

theorem serialize_deterministic_witness:
  "serialize_to_writer std_crates (KeyValue (MkKeyValue 5 [(''a'', KeyValueField 1 ''a'' None),
       (''b'', KeyValueField 2 ''b'' None)])) [] =
   serialize_to_writer std_crates (KeyValue (MkKeyValue 5 [(''b'', KeyValueField 2 ''b'' None),
       (''a'', KeyValueField 1 ''a'' None)])) []"
  by (rule serialize_deterministic) (auto simp: fun_eq_iff)

end
