(* ===== verification/Well_Formed.thy ===== *)
theory Well_Formed
  imports Froto_Value
begin

text \<open>
  The check of a buffer before it is decoded (\<open>crates/arora-buffers/src/well_formed.rs\<close>): a walk
  over the bytes that decodes nothing. A walk is a byte offset into a buffer; a step returns the
  offset after it, or why not. Offsets are natural numbers: a \<open>checked_add\<close> that overflows is an
  end past the buffer, and so is the sum it would have been.
\<close>

section \<open>The walk\<close>

datatype wf_error =
    ShorterThanPrefix
  | BadSizePrefix nat
  | RunsPastEnd nat
  | NotUtf8 nat
  | TooDeep
  | NotAValue byte nat
  | ArrayTooLong
  | NotAnArrayOf byte

definition MAX_DEPTH :: nat where
  "MAX_DEPTH = 128"

definition walk_take :: "byte list \<Rightarrow> nat \<Rightarrow> nat \<Rightarrow> wf_error + byte list \<times> nat" where
  "walk_take buffer len at =
     (if at + len \<le> length buffer then Inr (take len (drop at buffer), at + len)
      else Inl (RunsPastEnd at))"

definition walk_skip :: "byte list \<Rightarrow> nat \<Rightarrow> nat \<Rightarrow> wf_error + nat" where
  "walk_skip buffer len at = ebind (walk_take buffer len at) (\<lambda>(_, at). Inr at)"

definition walk_u8 :: "byte list \<Rightarrow> nat \<Rightarrow> wf_error + byte \<times> nat" where
  "walk_u8 buffer at = ebind (walk_take buffer 1 at) (\<lambda>(bs, at). Inr (bs ! 0, at))"

definition walk_u32 :: "byte list \<Rightarrow> nat \<Rightarrow> wf_error + nat \<times> nat" where
  "walk_u32 buffer at = ebind (walk_take buffer 4 at) (\<lambda>(bs, at). Inr (unat (le_word bs :: u32), at))"

definition walk_align :: "byte list \<Rightarrow> nat \<Rightarrow> wf_error + nat" where
  "walk_align buffer at = walk_skip buffer (ALIGNMENT - at mod ALIGNMENT) at"

definition walk_string :: "byte list \<Rightarrow> nat \<Rightarrow> wf_error + nat" where
  "walk_string buffer at =
     ebind (walk_u32 buffer at) (\<lambda>(len, at).
     ebind (walk_take buffer len at) (\<lambda>(bs, after).
       if from_utf8 bs \<noteq> None then Inr after else Inl (NotUtf8 at)))"

text \<open>\<open>fields\<close>, \<open>array\<close> and the body of \<open>value\<close>, with the recursive call as an argument.\<close>

definition walk_fields :: "byte list \<Rightarrow> (nat \<Rightarrow> wf_error + nat) \<Rightarrow> nat \<Rightarrow> wf_error + nat" where
  "walk_fields buffer rec at =
     ebind (walk_u32 buffer at) (\<lambda>(n, at).
       iterE n (\<lambda>at. ebind (walk_skip buffer 16 at) rec) at)"

definition primitive_size :: "byte \<Rightarrow> nat option" where
  "primitive_size ty =
     (if ty \<in> {TYPE_BOOLEAN, TYPE_U8, TYPE_I8} then Some 1
      else if ty \<in> {TYPE_U16, TYPE_I16} then Some 2
      else if ty \<in> {TYPE_U32, TYPE_I32, TYPE_F32} then Some 4
      else if ty \<in> {TYPE_U64, TYPE_I64, TYPE_F64} then Some 8
      else None)"

definition walk_elements ::
  "byte list \<Rightarrow> (nat \<Rightarrow> wf_error + nat) \<Rightarrow> byte \<Rightarrow> nat \<Rightarrow> nat \<Rightarrow> wf_error + nat" where
  "walk_elements buffer rec ty cnt at =
     (case primitive_size ty of
        Some sz \<Rightarrow>
          ebind (walk_align buffer at) (\<lambda>at.
            if cnt * sz < 2 ^ 64 then walk_skip buffer (cnt * sz) at else Inl ArrayTooLong)
      | None \<Rightarrow>
          if ty = TYPE_STRING then iterE cnt (walk_string buffer) at
          else if ty = TYPE_STRUCTURE then
            ebind (walk_skip buffer 16 at) (iterE cnt (walk_fields buffer rec))
          else if ty = TYPE_ENUMERATION then
            ebind (walk_skip buffer 16 at) (iterE cnt (\<lambda>at. ebind (walk_skip buffer 16 at) rec))
          else if ty = TYPE_VALUE then iterE cnt rec at
          else Inl (NotAnArrayOf ty))"

definition walk_array :: "byte list \<Rightarrow> (nat \<Rightarrow> wf_error + nat) \<Rightarrow> nat \<Rightarrow> wf_error + nat" where
  "walk_array buffer rec at =
     ebind (walk_u8 buffer at) (\<lambda>(ty, at).
     ebind (walk_u32 buffer at) (\<lambda>(cnt, at). walk_elements buffer rec ty cnt at))"

definition walk_tag ::
  "byte list \<Rightarrow> (nat \<Rightarrow> wf_error + nat) \<Rightarrow> nat \<Rightarrow> byte \<Rightarrow> nat \<Rightarrow> wf_error + nat" where
  "walk_tag buffer rec tag_at tag at =
     (if tag = TYPE_UNIT then Inr at
      else if tag \<in> {TYPE_BOOLEAN, TYPE_U8, TYPE_I8} then walk_skip buffer 1 at
      else if tag \<in> {TYPE_U16, TYPE_I16} then walk_skip buffer 2 at
      else if tag \<in> {TYPE_U32, TYPE_I32, TYPE_F32} then walk_skip buffer 4 at
      else if tag \<in> {TYPE_U64, TYPE_I64, TYPE_F64} then walk_skip buffer 8 at
      else if tag = TYPE_STRING then walk_string buffer at
      else if tag = TYPE_UUID then walk_skip buffer 16 at
      else if tag = TYPE_STRUCTURE then ebind (walk_skip buffer 16 at) (walk_fields buffer rec)
      else if tag = TYPE_ENUMERATION then ebind (walk_skip buffer 32 at) rec
      else if tag = TYPE_OPTION then
        ebind (walk_u8 buffer at) (\<lambda>(b, at). if b = 0 then Inr at else rec at)
      else if tag = TYPE_MAP then
        ebind (walk_skip buffer 16 at) (\<lambda>at.
        ebind (walk_u32 buffer at) (\<lambda>(n, at).
          iterE n (\<lambda>at. ebind (walk_string buffer at) (\<lambda>at. ebind (walk_skip buffer 16 at) rec)) at))
      else if tag = TYPE_ARRAY then walk_array buffer rec at
      else Inl (NotAValue tag tag_at))"

text \<open>
  \<open>value(depth)\<close>, by the depth that is left: \<open>MAX_DEPTH - depth\<close>.
\<close>

fun walk_value :: "byte list \<Rightarrow> nat \<Rightarrow> nat \<Rightarrow> wf_error + nat" where
  "walk_value buffer 0 at = Inl TooDeep"
| "walk_value buffer (Suc left) at =
     ebind (walk_u8 buffer at) (\<lambda>(tag, after). walk_tag buffer (walk_value buffer left) at tag after)"

definition well_formed :: "byte list \<Rightarrow> wf_error + unit" where
  "well_formed buffer =
     (if length buffer < BUFFER_SIZE_SIZE then Inl ShorterThanPrefix
      else let sz = unat (le_word (take BUFFER_SIZE_SIZE buffer) :: u32) in
           if \<not> (BUFFER_SIZE_SIZE \<le> sz \<and> sz \<le> length buffer) then Inl (BadSizePrefix sz)
           else ebind (walk_value (take sz buffer) MAX_DEPTH BUFFER_SIZE_SIZE) (\<lambda>_. Inr ()))"

definition value_end :: "byte list \<Rightarrow> nat \<Rightarrow> wf_error + nat" where
  "value_end buffer at = walk_value buffer MAX_DEPTH at"

section \<open>The walk follows the reader\<close>

text \<open>
  The reader of a whole buffer at an offset. A walk over the first \<open>sz\<close> bytes follows a reader of
  the whole buffer when each of its steps is one of the reader's, ending at the same offset; and,
  when it walks all the bytes, when each of the reader's steps is one of its own. \<open>Q\<close> is what is
  known of the thing read.
\<close>

definition reader_of :: "byte list \<Rightarrow> nat \<Rightarrow> BufferReader" where
  "reader_of full at = \<lparr>r_backing = drop at full, r_buffer_len = length full\<rparr>"

definition follows ::
  "byte list \<Rightarrow> nat \<Rightarrow> ('a \<Rightarrow> bool) \<Rightarrow> (nat \<Rightarrow> wf_error + nat) \<Rightarrow>
   (BufferReader \<Rightarrow> ('a \<times> BufferReader) option) \<Rightarrow> bool" where
  "follows full sz Q wk rd \<longleftrightarrow>
     (\<forall>at at'. at \<le> sz \<longrightarrow> wk at = Inr at' \<longrightarrow>
        at' \<le> sz \<and> (\<exists>x. Q x \<and> rd (reader_of full at) = Some (x, reader_of full at'))) \<and>
     (sz = length full \<longrightarrow> (\<forall>at x r'. at \<le> sz \<longrightarrow> rd (reader_of full at) = Some (x, r') \<longrightarrow>
        Q x \<and> (\<exists>at'\<le> sz. r' = reader_of full at' \<and> wk at = Inr at')))"

text \<open>The same for a step that returns something, \<open>f\<close> of what the reader returns.\<close>

definition follows_value ::
  "byte list \<Rightarrow> nat \<Rightarrow> ('a \<Rightarrow> bool) \<Rightarrow> ('a \<Rightarrow> 'b) \<Rightarrow> (nat \<Rightarrow> wf_error + 'b \<times> nat) \<Rightarrow>
   (BufferReader \<Rightarrow> ('a \<times> BufferReader) option) \<Rightarrow> bool" where
  "follows_value full sz Q f wk rd \<longleftrightarrow>
     (\<forall>at y at'. at \<le> sz \<longrightarrow> wk at = Inr (y, at') \<longrightarrow>
        at' \<le> sz \<and> (\<exists>x. Q x \<and> y = f x \<and> rd (reader_of full at) = Some (x, reader_of full at'))) \<and>
     (sz = length full \<longrightarrow> (\<forall>at x r'. at \<le> sz \<longrightarrow> rd (reader_of full at) = Some (x, r') \<longrightarrow>
        Q x \<and> (\<exists>at'\<le> sz. r' = reader_of full at' \<and> wk at = Inr (f x, at'))))"

abbreviation anything :: "'a \<Rightarrow> bool" where
  "anything \<equiv> \<lambda>_. True"

lemma follows_bind:
  assumes "follows full sz Q wk rd" "\<And>x. Q x \<Longrightarrow> follows full sz Q' wk' (rd' x)"
  shows "follows full sz Q' (\<lambda>at. ebind (wk at) wk') (\<lambda>r. Option.bind (rd r) (\<lambda>(x, r). rd' x r))"
  unfolding follows_def
proof (intro conjI impI allI)
  fix at at' assume at: "at \<le> sz" "ebind (wk at) wk' = Inr at'"
  then obtain m where m: "wk at = Inr m" "wk' m = Inr at'" by (auto simp: ebind_eq_Inr)
  with assms(1) at obtain x where x: "m \<le> sz" "Q x" "rd (reader_of full at) = Some (x, reader_of full m)"
    unfolding follows_def by blast
  with assms(2) [OF x(2)] m show "at' \<le> sz"
    "\<exists>y. Q' y \<and> Option.bind (rd (reader_of full at)) (\<lambda>(x, r). rd' x r) = Some (y, reader_of full at')"
    unfolding follows_def by (auto simp: x(3))
next
  fix at y r' assume full: "sz = length full" and at: "at \<le> sz"
    and y: "Option.bind (rd (reader_of full at)) (\<lambda>(x, r). rd' x r) = Some (y, r')"
  then obtain x r where x: "rd (reader_of full at) = Some (x, r)" "rd' x r = Some (y, r')"
    by (auto simp: bind_eq_Some_conv)
  with assms(1) full at obtain m where m: "Q x" "m \<le> sz" "r = reader_of full m" "wk at = Inr m"
    unfolding follows_def by blast
  with assms(2) [OF m(1)] full x(2)
  have "Q' y \<and> (\<exists>at'\<le> sz. r' = reader_of full at' \<and> wk' m = Inr at')"
    unfolding follows_def by blast
  with m(4) show "Q' y" "\<exists>at'\<le> sz. r' = reader_of full at' \<and> ebind (wk at) wk' = Inr at'" by auto
qed

lemma follows_value_bind:
  assumes "follows_value full sz Q f wk rd" "\<And>x. Q x \<Longrightarrow> follows full sz Q' (wk' (f x)) (rd' x)"
  shows "follows full sz Q' (\<lambda>at. ebind (wk at) (\<lambda>(y, at). wk' y at))
     (\<lambda>r. Option.bind (rd r) (\<lambda>(x, r). rd' x r))"
  unfolding follows_def
proof (intro conjI impI allI)
  fix at at' assume at: "at \<le> sz" "ebind (wk at) (\<lambda>(y, at). wk' y at) = Inr at'"
  then obtain y m where m: "wk at = Inr (y, m)" "wk' y m = Inr at'" by (auto simp: ebind_eq_Inr)
  with assms(1) at obtain x where x: "m \<le> sz" "Q x" "y = f x"
    "rd (reader_of full at) = Some (x, reader_of full m)"
    unfolding follows_value_def by blast
  with assms(2) [OF x(2)] m show "at' \<le> sz"
    "\<exists>y. Q' y \<and> Option.bind (rd (reader_of full at)) (\<lambda>(x, r). rd' x r) = Some (y, reader_of full at')"
    unfolding follows_def by (auto simp: x(4))
next
  fix at y r' assume full: "sz = length full" and at: "at \<le> sz"
    and y: "Option.bind (rd (reader_of full at)) (\<lambda>(x, r). rd' x r) = Some (y, r')"
  then obtain x r where x: "rd (reader_of full at) = Some (x, r)" "rd' x r = Some (y, r')"
    by (auto simp: bind_eq_Some_conv)
  with assms(1) full at obtain m where m: "Q x" "m \<le> sz" "r = reader_of full m" "wk at = Inr (f x, m)"
    unfolding follows_value_def by blast
  with assms(2) [OF m(1)] full x(2)
  have "Q' y \<and> (\<exists>at'\<le> sz. r' = reader_of full at' \<and> wk' (f x) m = Inr at')"
    unfolding follows_def by blast
  with m(4) show "Q' y" "\<exists>at'\<le> sz. r' = reader_of full at' \<and> ebind (wk at) (\<lambda>(y, at). wk' y at) = Inr at'"
    by auto
qed

lemma follows_return: "Q x \<Longrightarrow> follows full sz Q Inr (\<lambda>r. Some (x, r))"
  by (auto simp: follows_def)

lemma follows_map:
  assumes "follows full sz Q wk rd"
  shows "follows full sz anything wk (\<lambda>r. Option.bind (rd r) (\<lambda>(x, r). Some (g x, r)))"
proof -
  have "ebind m Inr = m" for m :: "wf_error + nat" by (cases m) simp_all
  with follows_bind [OF assms, of anything Inr "\<lambda>x r. Some (g x, r)"] show ?thesis
    by (simp add: follows_return)
qed

lemma follows_some:
  "x = Some y \<Longrightarrow> follows full sz Q wk (rd y) \<Longrightarrow> follows full sz Q wk (\<lambda>r. Option.bind x (\<lambda>y. rd y r))"
  by simp

lemma follows_loop:
  assumes "follows full sz Q wk rd"
  shows "follows full sz anything (iterE n wk) (read_n n rd)"
proof (induction n)
  case 0
  then show ?case using follows_return [of anything] by (simp add: follows_def)
next
  case (Suc n)
  show ?case unfolding iterE.simps read_n.simps
    by (rule follows_bind [OF assms]) (rule follows_map [OF Suc])
qed

text \<open>A walk that takes the same steps follows the same reader, whatever its errors.\<close>

lemma follows_cong:
  assumes "\<And>at at'. at \<le> sz \<Longrightarrow> wk at = Inr at' \<longleftrightarrow> wk' at = Inr at'"
  shows "follows full sz Q wk rd \<longleftrightarrow> follows full sz Q wk' rd"
  using assms by (auto simp: follows_def)

lemma follows_refuses: "(\<And>at. \<exists>e. wk at = Inl e) \<Longrightarrow> follows full sz Q wk (\<lambda>r. None)"
  by (auto simp: follows_def) (metis Inl_Inr_False)

lemma walk_skip_Inr [simp]:
  "walk_skip buf n at = Inr at' \<longleftrightarrow> at' = at + n \<and> at + n \<le> length buf"
  by (auto simp: walk_skip_def walk_take_def)

lemma walk_skip_twice:
  "ebind (walk_skip buf a at) (\<lambda>at. walk_skip buf b at) = Inr at' \<longleftrightarrow> walk_skip buf (a + b) at = Inr at'"
  by (auto simp: ebind_eq_Inr)

lemma walk_skip_times:
  "at \<le> length buf \<Longrightarrow> iterE n (walk_skip buf k) at = Inr at' \<longleftrightarrow> walk_skip buf (n * k) at = Inr at'"
proof (induction n arbitrary: at)
  case (Suc n)
  have "iterE (Suc n) (walk_skip buf k) at = Inr at' \<longleftrightarrow>
      at + k \<le> length buf \<and> iterE n (walk_skip buf k) (at + k) = Inr at'"
    by (auto simp: ebind_eq_Inr)
  with Suc.IH [of "at + k"] show ?case by auto
qed auto

context buffer_crates
begin

lemma follows_take:
  assumes "sz \<le> length full"
  shows "follows_value full sz (\<lambda>bs. length bs = n) (\<lambda>bs. bs) (walk_take (take sz full) n) (take_bytes E n)"
  using assms
  by (auto simp: follows_value_def walk_take_def take_bytes_def reader_of_def advances take_drop min_def
      add.commute split: if_splits)

lemma follows_skip:
  assumes "sz \<le> length full"
  shows "follows full sz (\<lambda>bs. length bs = n) (walk_skip (take sz full) n) (take_bytes E n)"
  using assms
  by (auto simp: follows_def take_bytes_def reader_of_def advances add.commute split: if_splits)

lemma follows_le:
  assumes "sz \<le> length full" "get = take_le n"
  shows "follows full sz anything (walk_skip (take sz full) n) (on_backing get)"
  using assms
  by (auto simp: follows_def on_backing_def take_le_def reader_of_def add.commute split: if_splits)

lemma follows_u8:
  assumes "sz \<le> length full"
  shows "follows_value full sz anything (\<lambda>b. b) (walk_u8 (take sz full)) (on_backing (get_u8 E))"
proof -
  have byte: "le_word bs = bs ! 0" if "length bs = 1" for bs :: "byte list"
    using that by (cases bs) (simp_all add: le_word_def)
  show ?thesis
    using assms
    by (auto simp: follows_value_def walk_u8_def walk_take_def ebind_eq_Inr on_backing_def take_le_def gets
        reader_of_def byte take_drop min_def split: if_splits)
qed

lemma follows_u32:
  assumes "sz \<le> length full"
  shows "follows_value full sz anything unat (walk_u32 (take sz full)) (on_backing (get_u32_le E))"
  using assms
  by (auto simp: follows_value_def walk_u32_def walk_take_def ebind_eq_Inr on_backing_def take_le_def gets
      reader_of_def take_drop min_def add.commute split: if_splits)

lemma follows_align:
  assumes "sz \<le> length full" "follows full sz Q wk rd"
  shows "follows full sz Q (\<lambda>at. ebind (walk_align (take sz full) at) wk)
     (\<lambda>r. Option.bind (reader_align r) rd)"
proof -
  have "follows full sz anything (walk_align (take sz full)) (\<lambda>r. map_option (\<lambda>r. ((), r)) (reader_align r))"
    using assms(1)
    by (auto simp: follows_def walk_align_def reader_align_def reader_of_def Let_def add.commute
        split: if_splits)
  from follows_bind [OF this, of Q wk "\<lambda>_. rd"] assms(2)
  have "follows full sz Q (\<lambda>at. ebind (walk_align (take sz full) at) wk)
      (\<lambda>r. Option.bind (map_option (\<lambda>r. ((), r)) (reader_align r)) (\<lambda>(x, r). rd r))" by simp
  moreover have "(\<lambda>r. Option.bind (map_option (\<lambda>r. ((), r)) (reader_align r)) (\<lambda>(x, r). rd r)) =
      (\<lambda>r. Option.bind (reader_align r) rd)"
    by (rule ext) (simp split: Option.bind_splits option.splits)
  ultimately show ?thesis by simp
qed

lemma follows_string:
  assumes "sz \<le> length full"
  shows "follows full sz anything (walk_string (take sz full)) (get_string E)"
proof -
  have utf8: "follows_value full sz (\<lambda>bs. length bs = n) (\<lambda>bs. bs) (walk_take (take sz full) n) (take_bytes E n)"
    for n by (rule follows_take [OF assms])
  have check: "follows full sz anything (\<lambda>after. if from_utf8 bs \<noteq> None then Inr after else Inl (NotUtf8 at))
     (\<lambda>r. Option.bind (from_utf8 bs) (\<lambda>s. Some (s, r)))" for bs at
    by (cases "from_utf8 bs") (auto simp: follows_def)
  have after: "follows full sz anything
     (\<lambda>at. ebind (walk_take (take sz full) n at) (\<lambda>(bs, after). if from_utf8 bs \<noteq> None then Inr after else Inl (NotUtf8 at)))
     (\<lambda>r. Option.bind (take_bytes E n r) (\<lambda>(bs, r). Option.bind (from_utf8 bs) (\<lambda>s. Some (s, r))))" for n
  proof -
    have "follows full sz anything
     (\<lambda>at. ebind (walk_take (take sz full) n at) (\<lambda>(bs, after). if from_utf8 bs \<noteq> None then Inr after else Inl (NotUtf8 0)))
     (\<lambda>r. Option.bind (take_bytes E n r) (\<lambda>(bs, r). Option.bind (from_utf8 bs) (\<lambda>s. Some (s, r))))"
      by (rule follows_value_bind [OF utf8]) (rule check)
    then show ?thesis
      by (rule iffD1 [OF follows_cong, rotated]) (auto simp: ebind_eq_Inr split: if_splits)
  qed
  show ?thesis
    unfolding walk_string_def [abs_def] get_string_def [abs_def]
    by (rule follows_value_bind [OF follows_u32 [OF assms]]) (rule after)
qed

lemma from_slice_id: "length bs = 16 \<Longrightarrow> \<exists>u. from_slice E bs = Some u"
  using from_slice_total by auto

lemma follows_from_slice:
  assumes "length bs = 16" "\<And>u. follows full sz Q wk (rd u)"
  shows "follows full sz Q wk (\<lambda>r. Option.bind (from_slice E bs) (\<lambda>u. rd u r))"
  using from_slice_id [OF assms(1)] assms(2) by auto

lemma follows_tail:
  assumes "follows full sz Q wk rd" "\<And>x. Q x \<Longrightarrow> \<exists>y. rd' x = (\<lambda>r. Some (y, r))"
  shows "follows full sz anything wk (\<lambda>r. Option.bind (rd r) (\<lambda>(x, r). rd' x r))"
proof -
  have "ebind m Inr = m" for m :: "wf_error + nat" by (cases m) simp_all
  moreover have "follows full sz anything Inr (rd' x)" if "Q x" for x
    using assms(2) [OF that] follows_return [of anything] by (auto simp: follows_def)
  ultimately show ?thesis using follows_bind [OF assms(1), of anything Inr rd'] by simp
qed

lemma follows_field:
  assumes "sz \<le> length full" "follows full sz anything wk rec"
  shows "follows full sz anything (\<lambda>at. ebind (walk_skip (take sz full) 16 at) wk) (deserialize_field E rec)"
  unfolding deserialize_field_def [abs_def] get_structure_field_def
  by (rule follows_bind [OF follows_skip [OF assms(1)]])
    (rule follows_from_slice, assumption, rule follows_map [OF assms(2)])

lemma follows_enumerator:
  assumes "sz \<le> length full" "follows full sz anything wk rec"
  shows "follows full sz anything (\<lambda>at. ebind (walk_skip (take sz full) 16 at) wk) (deserialize_enumerator E rec)"
  unfolding deserialize_enumerator_def [abs_def] get_enumeration_value_raw_def
  by (rule follows_bind [OF follows_skip [OF assms(1)]])
    (rule follows_from_slice, assumption, rule follows_map [OF assms(2)])

lemma follows_structure:
  assumes "sz \<le> length full" "follows full sz anything wk rec"
  shows "follows full sz anything (walk_fields (take sz full) wk) (deserialize_structure E rec)"
  unfolding deserialize_structure_def [abs_def] get_structure_raw_def walk_fields_def [abs_def]
  by (rule follows_value_bind [OF follows_u32 [OF assms(1)]])
    (rule follows_map [OF follows_loop [OF follows_field [OF assms]]])

lemma follows_entry:
  assumes "sz \<le> length full" "follows full sz anything wk rec"
  shows "follows full sz anything
     (\<lambda>at. ebind (walk_string (take sz full) at) (\<lambda>at. ebind (walk_skip (take sz full) 16 at) wk))
     (deserialize_entry E rec)"
  unfolding deserialize_entry_def [abs_def] get_map_field_key_string get_uuid_def
  by (rule follows_bind [OF follows_string [OF assms(1)]], rule follows_bind [OF follows_skip [OF assms(1)]])
    (rule follows_from_slice, assumption, rule follows_map [OF assms(2)])

text \<open>A bulk of elements of one size, skipped at once.\<close>

lemma follows_bulk:
  assumes "sz \<le> length full" "follows full sz anything (walk_skip (take sz full) k) rd" "n * k < 2 ^ 64"
  shows "follows full sz anything
     (\<lambda>at. ebind (walk_align (take sz full) at) (\<lambda>at.
        if n * k < 2 ^ 64 then walk_skip (take sz full) (n * k) at else Inl ArrayTooLong))
     (\<lambda>r. Option.bind (reader_align r) (\<lambda>r. Option.bind (read_n n rd r) (\<lambda>(xs, r). Some (C xs, r))))"
proof -
  have "follows full sz anything (walk_skip (take sz full) (n * k)) (read_n n rd)"
    by (rule iffD1 [OF follows_cong follows_loop [OF assms(2), of n]])
      (rule walk_skip_times, use assms(1) in simp)
  then show ?thesis
    using assms(3) by (intro follows_align [OF assms(1)]) (simp add: follows_map)
qed

lemma follows_gets:
  assumes "sz \<le> length full"
  shows "follows full sz anything (walk_skip (take sz full) 1) (get_boolean E)"
    "follows full sz anything (walk_skip (take sz full) 1) (reader_u8 E)"
    "follows full sz anything (walk_skip (take sz full) 2) (reader_u16 E)"
    "follows full sz anything (walk_skip (take sz full) 4) (reader_u32 E)"
    "follows full sz anything (walk_skip (take sz full) 8) (reader_u64 E)"
    "follows full sz anything (walk_skip (take sz full) 1) (reader_i8 E)"
    "follows full sz anything (walk_skip (take sz full) 2) (reader_i16 E)"
    "follows full sz anything (walk_skip (take sz full) 4) (reader_i32 E)"
    "follows full sz anything (walk_skip (take sz full) 8) (reader_i64 E)"
    "follows full sz anything (walk_skip (take sz full) 4) (reader_f32 E)"
    "follows full sz anything (walk_skip (take sz full) 8) (reader_f64 E)"
proof -
  show "follows full sz anything (walk_skip (take sz full) 1) (get_boolean E)"
    unfolding get_boolean_def [abs_def] by (rule follows_map) (rule follows_le [OF assms], rule gets_take_le)
qed (unfold reader_u8_def [abs_def] reader_u16_def [abs_def] reader_u32_def [abs_def]
    reader_u64_def [abs_def] reader_i8_def [abs_def] reader_i16_def [abs_def]
    reader_i32_def [abs_def] reader_i64_def [abs_def] reader_f32_def [abs_def]
    reader_f64_def [abs_def],
  (rule follows_le [OF assms], rule gets_take_le)+)

lemma primitive_sizes:
  "primitive_size TYPE_BOOLEAN = Some 1"
  "primitive_size TYPE_U8 = Some 1"
  "primitive_size TYPE_U16 = Some 2"
  "primitive_size TYPE_U32 = Some 4"
  "primitive_size TYPE_U64 = Some 8"
  "primitive_size TYPE_I8 = Some 1"
  "primitive_size TYPE_I16 = Some 2"
  "primitive_size TYPE_I32 = Some 4"
  "primitive_size TYPE_I64 = Some 8"
  "primitive_size TYPE_F32 = Some 4"
  "primitive_size TYPE_F64 = Some 8"
  by (simp_all add: primitive_size_def tag_defs)

lemma follows_prim_elements:
  assumes "sz \<le> length full" "follows full sz anything (walk_skip (take sz full) k) rd"
    "primitive_size ty = Some k" "k \<le> 8" "n < 2 ^ 32"
  shows "follows full sz anything (walk_elements (take sz full) wk ty n)
     (\<lambda>r. do { r \<leftarrow> reader_align r; (xs, r) \<leftarrow> read_n n rd r; Some (C xs, r) })"
proof -
  have "n * k \<le> 2 ^ 32 * 8" using assms(4,5) by (intro mult_le_mono) auto
  then have "n * k < 2 ^ 64" by simp
  from follows_bulk [OF assms(1,2) this, of C] show ?thesis
    by (simp add: walk_elements_def [abs_def] assms(3))
qed

lemma follows_elements:
  assumes "sz \<le> length full" "follows full sz anything wk rec" "n < 2 ^ 32"
  shows "follows full sz anything (walk_elements (take sz full) wk ty n) (deserialize_elements E rec ty n)"
proof -
  consider "ty = TYPE_BOOLEAN" | "ty = TYPE_U8" | "ty = TYPE_U16" | "ty = TYPE_U32" | "ty = TYPE_U64" | "ty = TYPE_I8" | "ty = TYPE_I16" | "ty = TYPE_I32" | "ty = TYPE_I64" | "ty = TYPE_F32" | "ty = TYPE_F64"
    | "ty = TYPE_STRING" | "ty = TYPE_STRUCTURE" | "ty = TYPE_ENUMERATION" | "ty = TYPE_VALUE"
    | "ty \<notin> {TYPE_BOOLEAN, TYPE_U8, TYPE_U16, TYPE_U32, TYPE_U64, TYPE_I8, TYPE_I16, TYPE_I32, TYPE_I64, TYPE_F32, TYPE_F64, TYPE_STRING,
        TYPE_STRUCTURE, TYPE_ENUMERATION, TYPE_VALUE}"
    by blast
  then show ?thesis
  proof cases
    case 12
    have "walk_elements (take sz full) wk TYPE_STRING n = iterE n (walk_string (take sz full))"
      by (simp add: fun_eq_iff walk_elements_def primitive_size_def tag_defs)
    with 12 show ?thesis
      by (simp add: element_payload) (rule follows_map [OF follows_loop [OF follows_string [OF assms(1)]]])
  next
    case 13
    have walk: "walk_elements (take sz full) wk TYPE_STRUCTURE n =
        (\<lambda>at. ebind (walk_skip (take sz full) 16 at) (iterE n (walk_fields (take sz full) wk)))"
      by (simp add: fun_eq_iff walk_elements_def primitive_size_def tag_defs)
    have "follows full sz anything (iterE n (walk_fields (take sz full) wk))
        (\<lambda>r. Option.bind (read_n n (deserialize_structure E rec) r)
           (\<lambda>(es, r). Option.bind (from_slice E bs) (\<lambda>i. Some (ArrayStructure i es, r))))"
      if "length bs = 16" for bs
      by (rule follows_tail [OF follows_loop [OF follows_structure [OF assms(1,2)]]])
        (use from_slice_id [OF that] in auto)
    from follows_bind [OF follows_skip [OF assms(1)] this] 13 show ?thesis
      by (simp only: walk element_payload)
  next
    case 14
    have walk: "walk_elements (take sz full) wk TYPE_ENUMERATION n =
        (\<lambda>at. ebind (walk_skip (take sz full) 16 at) (iterE n (\<lambda>at. ebind (walk_skip (take sz full) 16 at) wk)))"
      by (simp add: fun_eq_iff walk_elements_def primitive_size_def tag_defs)
    have "follows full sz anything (iterE n (\<lambda>at. ebind (walk_skip (take sz full) 16 at) wk))
        (\<lambda>r. Option.bind (read_n n (deserialize_enumerator E rec) r)
           (\<lambda>(es, r). Option.bind (from_slice E bs) (\<lambda>i. Some (ArrayEnumeration i es, r))))"
      if "length bs = 16" for bs
      by (rule follows_tail [OF follows_loop [OF follows_enumerator [OF assms(1,2)]]])
        (use from_slice_id [OF that] in auto)
    from follows_bind [OF follows_skip [OF assms(1)] this] 14 show ?thesis
      by (simp only: walk element_payload)
  next
    case 15
    have "walk_elements (take sz full) wk TYPE_VALUE n = iterE n wk"
      by (simp add: fun_eq_iff walk_elements_def primitive_size_def tag_defs)
    with 15 show ?thesis by (simp add: element_payload) (rule follows_map [OF follows_loop [OF assms(2)]])
  next
    case 16
    then have "deserialize_elements E rec ty n = (\<lambda>r. None)"
      by (simp add: fun_eq_iff deserialize_elements_def)
    moreover from 16 have "walk_elements (take sz full) wk ty n at = Inl (NotAnArrayOf ty)" for at
      by (simp add: walk_elements_def primitive_size_def)
    ultimately show ?thesis by (auto intro!: follows_refuses)
  qed (use assms(3) in \<open>auto intro!: follows_prim_elements [OF assms(1) follows_gets(1) [OF assms(1)]]
        follows_prim_elements [OF assms(1) follows_gets(2) [OF assms(1)]]
        follows_prim_elements [OF assms(1) follows_gets(3) [OF assms(1)]]
        follows_prim_elements [OF assms(1) follows_gets(4) [OF assms(1)]]
        follows_prim_elements [OF assms(1) follows_gets(5) [OF assms(1)]]
        follows_prim_elements [OF assms(1) follows_gets(6) [OF assms(1)]]
        follows_prim_elements [OF assms(1) follows_gets(7) [OF assms(1)]]
        follows_prim_elements [OF assms(1) follows_gets(8) [OF assms(1)]]
        follows_prim_elements [OF assms(1) follows_gets(9) [OF assms(1)]]
        follows_prim_elements [OF assms(1) follows_gets(10) [OF assms(1)]]
        follows_prim_elements [OF assms(1) follows_gets(11) [OF assms(1)]]
      simp: primitive_sizes element_payload\<close>)
qed

lemma walk_payload:
  "walk_tag buf wk a TYPE_UNIT = Inr"
  "walk_tag buf wk a TYPE_BOOLEAN = walk_skip buf 1"
  "walk_tag buf wk a TYPE_U8 = walk_skip buf 1"
  "walk_tag buf wk a TYPE_U16 = walk_skip buf 2"
  "walk_tag buf wk a TYPE_U32 = walk_skip buf 4"
  "walk_tag buf wk a TYPE_U64 = walk_skip buf 8"
  "walk_tag buf wk a TYPE_I8 = walk_skip buf 1"
  "walk_tag buf wk a TYPE_I16 = walk_skip buf 2"
  "walk_tag buf wk a TYPE_I32 = walk_skip buf 4"
  "walk_tag buf wk a TYPE_I64 = walk_skip buf 8"
  "walk_tag buf wk a TYPE_F32 = walk_skip buf 4"
  "walk_tag buf wk a TYPE_F64 = walk_skip buf 8"
  "walk_tag buf wk a TYPE_STRING = walk_string buf"
  "walk_tag buf wk a TYPE_UUID = walk_skip buf 16"
  "walk_tag buf wk a TYPE_STRUCTURE = (\<lambda>at. ebind (walk_skip buf 16 at) (walk_fields buf wk))"
  "walk_tag buf wk a TYPE_ENUMERATION = (\<lambda>at. ebind (walk_skip buf 32 at) wk)"
  "walk_tag buf wk a TYPE_OPTION = (\<lambda>at. ebind (walk_u8 buf at) (\<lambda>(b, at). if b = 0 then Inr at else wk at))"
  "walk_tag buf wk a TYPE_MAP = (\<lambda>at. ebind (walk_skip buf 16 at) (\<lambda>at. ebind (walk_u32 buf at) (\<lambda>(n, at).
     iterE n (\<lambda>at. ebind (walk_string buf at) (\<lambda>at. ebind (walk_skip buf 16 at) wk)) at)))"
  "walk_tag buf wk a TYPE_ARRAY = walk_array buf wk"
  by (simp_all add: fun_eq_iff walk_tag_def tag_defs)

lemma follows_structure_tag:
  assumes "sz \<le> length full" "follows full sz anything wk rec"
  shows "follows full sz anything (walk_tag (take sz full) wk a TYPE_STRUCTURE) (deserialize_tag E rec TYPE_STRUCTURE)"
proof -
  have "follows full sz anything (walk_fields (take sz full) wk)
     (\<lambda>r. do { (cnt, r) \<leftarrow> on_backing (get_u32_le E) r;
        (fields, r) \<leftarrow> read_n (unat cnt) (deserialize_field E rec) r;
        i \<leftarrow> from_slice E bs; Some (Structure (MkStructure i fields), r) })" if "length bs = 16" for bs
    unfolding walk_fields_def [abs_def]
    by (rule follows_value_bind [OF follows_u32 [OF assms(1)]],
        rule follows_tail [OF follows_loop [OF follows_field [OF assms]]])
      (use from_slice_id [OF that] in auto)
  from follows_bind [OF follows_skip [OF assms(1)] this] show ?thesis
    by (simp only: walk_payload tag_payload)
qed

lemma follows_enumeration_tag:
  assumes "sz \<le> length full" "follows full sz anything wk rec"
  shows "follows full sz anything (walk_tag (take sz full) wk a TYPE_ENUMERATION)
     (deserialize_tag E rec TYPE_ENUMERATION)"
proof -
  let ?skip = "walk_skip (take sz full)"
  have "follows full sz anything (\<lambda>at. ebind (?skip 16 at) wk)
     (\<lambda>r. do { (j, r) \<leftarrow> take_bytes E 16 r; i \<leftarrow> from_slice E bs; j \<leftarrow> from_slice E j; (v, r) \<leftarrow> rec r;
        Some (Enumeration (MkEnumeration i j v), r) })" if "length bs = 16" for bs
    by (rule follows_bind [OF follows_skip [OF assms(1)]],
        rule follows_from_slice [OF that], rule follows_from_slice, assumption, rule follows_map [OF assms(2)])
  from follows_bind [OF follows_skip [OF assms(1)] this]
  have "follows full sz anything (\<lambda>at. ebind (?skip 16 at) (\<lambda>at. ebind (?skip 16 at) wk))
     (deserialize_tag E rec TYPE_ENUMERATION)" by (simp only: tag_payload)
  then show ?thesis
    unfolding walk_payload
    by (rule iffD1 [OF follows_cong, rotated]) (auto simp: ebind_eq_Inr add.assoc)
qed

lemma follows_option_tag:
  assumes "sz \<le> length full" "follows full sz anything wk rec"
  shows "follows full sz anything (walk_tag (take sz full) wk a TYPE_OPTION) (deserialize_tag E rec TYPE_OPTION)"
proof -
  have branch: "follows full sz anything (\<lambda>at. if b = 0 then Inr at else wk at)
     (\<lambda>r. if b \<noteq> 0 then do { (v, r) \<leftarrow> rec r; Some (VOption (Some v), r) } else Some (VOption None, r))"
    for b :: byte
    using follows_map [OF assms(2)] follows_return [of anything] by (cases "b = 0") auto
  have "follows full sz anything (walk_tag (take sz full) wk a TYPE_OPTION)
     (\<lambda>r. do { (b, r) \<leftarrow> on_backing (get_u8 E) r;
        if b \<noteq> 0 then do { (v, r) \<leftarrow> rec r; Some (VOption (Some v), r) } else Some (VOption None, r) })"
    unfolding walk_payload by (rule follows_value_bind [OF follows_u8 [OF assms(1)]]) (rule branch)
  then show ?thesis by (simp add: tag_payload get_boolean_def bind_case_prod)
qed

lemma follows_map_tag:
  assumes "sz \<le> length full" "follows full sz anything wk rec"
  shows "follows full sz anything (walk_tag (take sz full) wk a TYPE_MAP) (deserialize_tag E rec TYPE_MAP)"
  unfolding walk_payload tag_payload
proof (rule follows_bind [OF follows_skip [OF assms(1)]])
  fix bs :: "byte list" assume "length bs = 16"
  then obtain u where u: "from_slice E bs = Some u" using from_slice_id by blast
  show "follows full sz anything
     (\<lambda>at. ebind (walk_u32 (take sz full) at) (\<lambda>(n, at). iterE n (\<lambda>at. ebind (walk_string (take sz full) at)
        (\<lambda>at. ebind (walk_skip (take sz full) 16 at) wk)) at))
     (\<lambda>r. do { (cnt, r) \<leftarrow> on_backing (get_u32_le E) r; i \<leftarrow> from_slice E bs;
        (fields, r) \<leftarrow> read_n (unat cnt) (deserialize_entry E rec) r;
        Some (KeyValue (fold (\<lambda>field kv. set_field kv field) fields (KeyValue_new_with_id i)), r) })"
    unfolding u bind.bind_lunit
    by (rule follows_value_bind [OF follows_u32 [OF assms(1)]],
        rule follows_map [OF follows_loop [OF follows_entry [OF assms]]])
qed

lemma follows_array_tag:
  assumes "sz \<le> length full" "follows full sz anything wk rec"
  shows "follows full sz anything (walk_tag (take sz full) wk a TYPE_ARRAY) (deserialize_tag E rec TYPE_ARRAY)"
proof -
  have "unat (cnt :: u32) < 2 ^ LENGTH(32)" for cnt by (rule unsigned_less)
  then have "unat (cnt :: u32) < 2 ^ 32" for cnt by simp
  then show ?thesis
    unfolding walk_payload tag_payload walk_array_def [abs_def]
    by (intro follows_value_bind [OF follows_u8 [OF assms(1)]] follows_value_bind [OF follows_u32 [OF assms(1)]]
        follows_elements assms)
qed

lemma follows_tag:
  assumes "sz \<le> length full" "follows full sz anything wk rec"
  shows "follows full sz anything (walk_tag (take sz full) wk a t) (deserialize_tag E rec t)"
proof -
  have leaf: "follows full sz anything (walk_tag (take sz full) wk a t) (deserialize_tag E rec t)"
    if "t \<in> {TYPE_UNIT, TYPE_BOOLEAN, TYPE_U8, TYPE_U16, TYPE_U32, TYPE_U64, TYPE_I8, TYPE_I16, TYPE_I32, TYPE_I64, TYPE_F32, TYPE_F64}"
    using that follows_return [of anything Unit full sz]
    by (auto simp: walk_payload tag_payload follows_map [OF follows_gets(1) [OF assms(1)]]
        follows_map [OF follows_gets(2) [OF assms(1)]]
        follows_map [OF follows_gets(3) [OF assms(1)]]
        follows_map [OF follows_gets(4) [OF assms(1)]]
        follows_map [OF follows_gets(5) [OF assms(1)]]
        follows_map [OF follows_gets(6) [OF assms(1)]]
        follows_map [OF follows_gets(7) [OF assms(1)]]
        follows_map [OF follows_gets(8) [OF assms(1)]]
        follows_map [OF follows_gets(9) [OF assms(1)]]
        follows_map [OF follows_gets(10) [OF assms(1)]]
        follows_map [OF follows_gets(11) [OF assms(1)]]
        simp del: One_nat_def)
  have str: "follows full sz anything (walk_tag (take sz full) wk a TYPE_STRING) (deserialize_tag E rec TYPE_STRING)"
    unfolding walk_payload tag_payload by (rule follows_map [OF follows_string [OF assms(1)]])
  have uuid: "follows full sz anything (walk_tag (take sz full) wk a TYPE_UUID) (deserialize_tag E rec TYPE_UUID)"
    unfolding walk_payload tag_payload
    by (rule follows_tail [OF follows_skip [OF assms(1)]]) (use from_slice_id in fastforce)
  have other: "follows full sz anything (walk_tag (take sz full) wk a t) (deserialize_tag E rec t)"
    if "t \<notin> {TYPE_UNIT, TYPE_BOOLEAN, TYPE_U8, TYPE_U16, TYPE_U32, TYPE_U64, TYPE_I8, TYPE_I16, TYPE_I32, TYPE_I64, TYPE_F32, TYPE_F64,
      TYPE_STRING, TYPE_UUID, TYPE_STRUCTURE, TYPE_ENUMERATION, TYPE_OPTION, TYPE_MAP, TYPE_ARRAY}"
  proof -
    from that have "deserialize_tag E rec t = (\<lambda>r. None)" by (simp add: fun_eq_iff deserialize_tag_def)
    moreover from that have "walk_tag (take sz full) wk a t at = Inl (NotAValue t a)" for at
      by (simp add: walk_tag_def)
    ultimately show ?thesis by (auto intro!: follows_refuses)
  qed
  show ?thesis
    using leaf other str uuid follows_structure_tag [OF assms, of a] follows_enumeration_tag [OF assms, of a]
      follows_option_tag [OF assms, of a] follows_map_tag [OF assms, of a] follows_array_tag [OF assms, of a]
    by blast
qed

lemma next_type_get: "next_type E = on_backing (get_u8 E)"
  by (simp add: fun_eq_iff next_type_def on_backing_def gets take_le_def)

lemma walk_tag_position: "walk_tag buf wk a t at = Inr e \<longleftrightarrow> walk_tag buf wk b t at = Inr e"
  by (simp add: walk_tag_def)

lemma follows_walk:
  assumes "sz \<le> length full"
  shows "follows full sz anything (walk_value (take sz full) n) (deserialize_from_reader E n)"
proof (induction n)
  case 0
  then show ?case by (simp add: follows_def)
next
  case (Suc n)
  have "follows full sz anything
     (\<lambda>at. ebind (walk_u8 (take sz full) at) (\<lambda>(t, after). walk_tag (take sz full) (walk_value (take sz full) n) 0 t after))
     (deserialize_from_reader E (Suc n))"
    unfolding deserialize_from_reader.simps [abs_def] next_type_get
    by (rule follows_value_bind [OF follows_u8 [OF assms]]) (rule follows_tag [OF assms Suc])
  then show ?case
    by (rule iffD1 [OF follows_cong, rotated])
      (auto simp: ebind_eq_Inr intro: walk_tag_position [THEN iffD1])
qed

lemma well_formed_decodes:
  assumes "well_formed b = Inr ()"
  shows "\<exists>v e. deserialize E b = Some v \<and> 4 \<le> length b \<and>
     deserialize_from_reader E MAX_DEPTH (reader_of b 4) = Some (v, reader_of b e)"
proof -
  let ?sz = "unat (le_word (take 4 b) :: u32)"
  from assms obtain e where e: "4 \<le> length b" "4 \<le> ?sz" "?sz \<le> length b"
    "walk_value (take ?sz b) MAX_DEPTH 4 = Inr e"
    by (auto simp: well_formed_def BUFFER_SIZE_SIZE_def Let_def ebind_eq_Inr split: if_splits)
  with follows_walk [OF e(3), of MAX_DEPTH] obtain v where
    v: "deserialize_from_reader E MAX_DEPTH (reader_of b 4) = Some (v, reader_of b e)"
    unfolding follows_def by blast
  let ?n = "max MAX_DEPTH (Suc (length b))"
  have more: "deserialize_from_reader E m r = Some x \<Longrightarrow> m \<le> m' \<Longrightarrow> deserialize_from_reader E m' r = Some x"
    for m m' r x by (rule deserialize_more)
  have "deserialize_from_reader E (Suc (length b)) (reader_of b 4) = deserialize_from_reader E ?n (reader_of b 4)"
    using depth_bound_agree [of "length (drop 4 b)" "Suc (length b)" ?n]
    by (simp add: agree_def reader_of_def less_max_iff_disj)
  with more [OF v, of ?n] e(1) v show ?thesis
    by (auto simp: deserialize_def BufferReader_new_def reader_of_def
        simp del: deserialize_from_reader.simps)
qed

lemma well_formed_reads: "well_formed b = Inr () \<Longrightarrow> \<exists>v. deserialize E b = Some v"
  using well_formed_decodes by blast

lemma serialized_well_formed:
  assumes "encodable v" "depth v \<le> MAX_DEPTH" "serialize E v = Some b" "length b < 2 ^ 32"
  shows "well_formed b = Inr ()"
proof -
  obtain bs where bs: "b = le_bytes 4 (word_of_nat (4 + length bs) :: u32) @ bs"
    "deserialize_from_reader E MAX_DEPTH (reader_at (le_bytes 4 (0 :: u32)) bs) =
        Some (normal v, reader_at (le_bytes 4 (0 :: u32) @ bs) [])"
    using serialize_bytes [OF assms(1)] assms(2,3) by auto
  have sz: "unat (le_word (take 4 b) :: u32) = length b"
    using assms(4) unat_count [of "4 + length bs"] by (simp add: bs(1) del: of_nat_add)
  have len: "4 \<le> length b" by (simp add: bs(1))
  have "reader_at (le_bytes 4 (0 :: u32)) bs = reader_of b 4"
    by (simp add: bs(1) reader_at_def reader_of_def)
  with bs(2) have read: "deserialize_from_reader E MAX_DEPTH (reader_of b 4) =
      Some (normal v, reader_at (le_bytes 4 (0 :: u32) @ bs) [])" by simp
  have "\<And>x r'. deserialize_from_reader E MAX_DEPTH (reader_of b 4) = Some (x, r') \<Longrightarrow>
      \<exists>e. walk_value b MAX_DEPTH 4 = Inr e"
    using follows_walk [of "length b" b MAX_DEPTH] len unfolding follows_def by simp blast
  from this [OF read] sz len show ?thesis
    by (auto simp: well_formed_def BUFFER_SIZE_SIZE_def Let_def)
qed

lemma value_end_reads:
  assumes "at \<le> length b"
  shows "value_end b at = Inr e \<longleftrightarrow> e \<le> length b \<and>
     (\<exists>v. deserialize_from_reader E MAX_DEPTH (reader_of b at) = Some (v, reader_of b e))"
proof -
  have inj: "reader_of b x = reader_of b y \<Longrightarrow> x \<le> length b \<Longrightarrow> y \<le> length b \<Longrightarrow> x = y" for x y
    by (simp add: reader_of_def) (metis diff_diff_cancel length_drop)
  note walk = follows_walk [of "length b" b MAX_DEPTH, unfolded follows_def take_all [OF order_refl], OF order_refl]
  have sound: "walk_value b MAX_DEPTH at = Inr e \<Longrightarrow>
      e \<le> length b \<and> (\<exists>v. deserialize_from_reader E MAX_DEPTH (reader_of b at) = Some (v, reader_of b e))"
    using walk assms by blast
  have complete: "\<exists>e'. e' \<le> length b \<and> reader_of b e = reader_of b e' \<and> walk_value b MAX_DEPTH at = Inr e'"
    if "deserialize_from_reader E MAX_DEPTH (reader_of b at) = Some (v, reader_of b e)" for v
    using walk assms that by blast
  show ?thesis
  proof
    assume "value_end b at = Inr e"
    with sound show "e \<le> length b \<and>
       (\<exists>v. deserialize_from_reader E MAX_DEPTH (reader_of b at) = Some (v, reader_of b e))"
      by (simp add: value_end_def)
  next
    assume "e \<le> length b \<and>
       (\<exists>v. deserialize_from_reader E MAX_DEPTH (reader_of b at) = Some (v, reader_of b e))"
    with complete obtain e' where "e' \<le> length b" "reader_of b e = reader_of b e'"
      "walk_value b MAX_DEPTH at = Inr e'" "e \<le> length b" by blast
    with inj [of e e'] show "value_end b at = Inr e" by (simp add: value_end_def)
  qed
qed

end

section \<open>Properties\<close>

lemma walk_value_numeral:
  "walk_value buffer (numeral k) at =
     ebind (walk_u8 buffer at) (\<lambda>(tag, after). walk_tag buffer (walk_value buffer (pred_numeral k)) at tag after)"
  by (simp add: numeral_eq_Suc)

text \<open>
  C1. A buffer that \<open>well_formed\<close> accepts is decoded without a panic, whoever wrote it.
\<close>

theorem well_formed_safe:
  assumes "buffer_crates E" "well_formed b = Inr ()"
  shows "\<exists>v. deserialize E b = Some v"
  by (rule buffer_crates.well_formed_reads [OF assms])

theorem well_formed_safe_witness:
  "well_formed [7, 0, 0, 0, 17, 1, 0] = Inr () \<and> (\<exists>v. deserialize std_crates [7, 0, 0, 0, 17, 1, 0] = Some v)"
proof -
  have "unat (le_word [7, 0, 0, 0] :: u32) = 7" by (simp add: le_word_def)
  then have "well_formed [7, 0, 0, 0, 17, 1, 0] = Inr ()"
    by (simp add: well_formed_def BUFFER_SIZE_SIZE_def MAX_DEPTH_def walk_u8_def walk_take_def
        walk_tag_def tag_defs walk_value_numeral)
  with well_formed_safe [OF std.buffer_crates_axioms this] show ?thesis by simp
qed

text \<open>
  C28. \<open>well_formed\<close> accepts every buffer the serializer writes for a value nested no deeper than
  its limit, as long as its length fits the size prefix.
\<close>

theorem well_formed_accepts_serialized:
  assumes "buffer_crates E" "encodable v" "depth v \<le> MAX_DEPTH" "serialize E v = Some b"
    "length b < 2 ^ 32"
  shows "well_formed b = Inr ()"
  by (rule buffer_crates.serialized_well_formed [OF assms])

theorem well_formed_accepts_serialized_witness:
  "\<exists>b. serialize std_crates (VOption (Some (U8 7))) = Some b \<and> well_formed b = Inr ()"
proof -
  have ser: "serialize std_crates (VOption (Some (U8 7))) = Some (le_bytes 4 (8 :: u32) @ [17, 1, 2, 7])"
    by (simp add: serialize_def BufferWriter_new_def std_crates_def add_option_some_def add_u8_def
        add_u8_raw_def finalize_def tag_defs) (simp add: le_bytes_def)
  have "well_formed (le_bytes 4 (8 :: u32) @ [17, 1, 2, 7]) = Inr ()"
    by (rule well_formed_accepts_serialized [OF std.buffer_crates_axioms _ _ ser])
      (simp_all add: MAX_DEPTH_def)
  with ser show ?thesis by blast
qed

text \<open>
  \<open>value_end\<close> finds where a value ends without decoding it: it returns an offset exactly when
  decoding at the same place, to the same depth, succeeds and stops at that offset.
\<close>

theorem value_end_exact:
  assumes "buffer_crates E" "at \<le> length b"
  shows "value_end b at = Inr e \<longleftrightarrow> e \<le> length b \<and>
     (\<exists>v. deserialize_from_reader E MAX_DEPTH (reader_of b at) = Some (v, reader_of b e))"
  by (rule buffer_crates.value_end_reads [OF assms])

theorem value_end_exact_witness:
  "value_end [9, 9, 2, 7, 0] 2 = Inr 4 \<and>
   (\<exists>v. deserialize_from_reader std_crates MAX_DEPTH (reader_of [9, 9, 2, 7, 0] 2) =
      Some (v, reader_of [9, 9, 2, 7, 0] 4))"
proof -
  have "value_end [9, 9, 2, 7, 0] 2 = Inr 4"
    by (simp add: value_end_def MAX_DEPTH_def walk_u8_def walk_take_def walk_skip_def walk_tag_def tag_defs
        walk_value_numeral)
  then show ?thesis
    using value_end_exact [OF std.buffer_crates_axioms, of 2 "[9, 9, 2, 7, 0]" 4] by simp
qed

end
