(* ===== verification/Arguments.thy ===== *)
theory Arguments
  imports Well_Formed
begin

text \<open>
  The check of a call's arguments before a guest module reads them
  (\<open>crates/arora-engine/src/arguments.rs\<close>), with the parts of a module's header it reads
  (\<open>crates/arora-types/src/module/low.rs\<close>).

  The check reads type tags where they lie in the buffer and decodes nothing. Its reads index the
  buffer, so they may panic: a read is an option. What it decides is stated over the decoded
  value: the theorems show that the tags it reads are those of the value, that it never reads past
  the buffer, and that it refuses exactly the calls whose fields are not of the declared types.
\<close>

section \<open>A module's header\<close>

datatype TypeRef =
    Scalar uuid
  | Array uuid
  | FixedArray uuid nat
  | TMap uuid uuid
  | TOptionOf uuid

record Parameter =
  p_id :: uuid
  p_name :: string
  p_ty :: TypeRef
  p_mutable :: bool
  p_default_value :: "Value option"

record ExportFunction =
  ef_id :: uuid
  ef_name :: string
  ef_parameters :: "Parameter list"
  ef_ret :: TypeRef

record ImportFunction =
  if_module :: uuid
  if_id :: uuid
  if_name :: string
  if_parameters :: "Parameter list"
  if_ret :: TypeRef

datatype ExportSymbol = Function (es_function: ExportFunction)

datatype ImportSymbol = ImportedFunction (is_function: ImportFunction)

record SemanticVersion =
  major :: u32
  minor :: u32
  patch :: u32

record Executor =
  ex_name :: string
  ex_min_version :: "SemanticVersion option"
  ex_max_version :: "SemanticVersion option"

record Header =
  h_id :: uuid
  h_name :: string
  h_author :: string
  h_description :: "string option"
  h_license :: string
  h_version :: SemanticVersion
  h_executor :: Executor
  h_exports :: "ExportSymbol list"
  h_imports :: "ImportSymbol list"
  h_executable_mime :: string

section \<open>Signatures\<close>

record Signature =
  sig_name :: string
  sig_parameters :: "(uuid, Parameter) hash_map"

type_synonym Signatures = "(uuid, Signature) hash_map"

definition or_insert :: "'k \<Rightarrow> 'v \<Rightarrow> ('k, 'v) hash_map \<Rightarrow> ('k, 'v) hash_map" where
  "or_insert k v m = (if hm_contains m k then m else hm_insert k v m)"

definition signature_of :: "ExportFunction \<Rightarrow> Signature" where
  "signature_of f =
     \<lparr>sig_name = ef_name f,
      sig_parameters = fold (\<lambda>p m. or_insert (p_id p) p m) (ef_parameters f) []\<rparr>"

definition Signatures_of :: "Header \<Rightarrow> Signatures" where
  "Signatures_of header =
     hm_collect (map (\<lambda>s. case s of Function f \<Rightarrow> (ef_id f, signature_of f)) (h_exports header))"

section \<open>Reading the buffer in place\<close>

text \<open>Why a value is not of a type: what the texts of the errors are made of.\<close>

datatype reason =
    Expected byte byte
  | ExpectedArrayOf byte byte
  | ExpectedRecord uuid uuid
  | ExpectedRecordGot uuid byte
  | ExpectedElements nat nat
  | ExpectedArrayGotRecords uuid uuid
  | ExpectedRecordsGot uuid byte

datatype ArgumentError =
    NoParameter string uuid
  | NotOfParameterType string string reason

definition buf_tag :: "byte list \<Rightarrow> nat \<Rightarrow> byte option" where
  "buf_tag buffer at = (if at < length buffer then Some (buffer ! at) else None)"

definition buf_u32 :: "byte list \<Rightarrow> nat \<Rightarrow> nat option" where
  "buf_u32 buffer at =
     (if at + 4 \<le> length buffer then Some (unat (le_word (take 4 (drop at buffer)) :: u32)) else None)"

definition buf_id :: "crates \<Rightarrow> byte list \<Rightarrow> nat \<Rightarrow> uuid option" where
  "buf_id E buffer at =
     (if at + 16 \<le> length buffer then from_slice E (take 16 (drop at buffer)) else None)"

definition buf_end :: "byte list \<Rightarrow> nat \<Rightarrow> nat option" where
  "buf_end buffer at = (case value_end buffer at of Inr e \<Rightarrow> Some e | Inl _ \<Rightarrow> None)"

definition buf_expect :: "byte list \<Rightarrow> nat \<Rightarrow> byte \<Rightarrow> (reason + unit) option" where
  "buf_expect buffer at tag =
     do { found \<leftarrow> buf_tag buffer at;
          Some (if found = tag then Inr () else Inl (Expected tag found)) }"

definition names_a_record :: "uuid \<Rightarrow> bool" where
  "names_a_record i \<longleftrightarrow> i \<notin> set WELL_KNOWN_IDS"

definition dynamic :: "uuid \<Rightarrow> bool" where
  "dynamic i \<longleftrightarrow> i = KEY_VALUE_ID \<or> i = ARRAY_VALUE_ID"

definition primitive :: "uuid \<Rightarrow> byte option" where
  "primitive i = map_option snd (find (\<lambda>(p, _). p = i)
     [(UNIT_ID, TYPE_UNIT), (BOOLEAN_ID, TYPE_BOOLEAN), (I8_ID, TYPE_I8), (I16_ID, TYPE_I16),
      (I32_ID, TYPE_I32), (I64_ID, TYPE_I64), (U8_ID, TYPE_U8), (U16_ID, TYPE_U16),
      (U32_ID, TYPE_U32), (U64_ID, TYPE_U64), (F32_ID, TYPE_F32), (F64_ID, TYPE_F64),
      (STRING_ID, TYPE_STRING), (UUID_ID, TYPE_UUID)])"

definition typed_array_element :: "uuid \<Rightarrow> byte option" where
  "typed_array_element i = map_option snd (find (\<lambda>(a, _). a = i)
     [(ARRAY_BOOLEAN_ID, TYPE_BOOLEAN), (ARRAY_U8_ID, TYPE_U8), (ARRAY_U16_ID, TYPE_U16),
      (ARRAY_U32_ID, TYPE_U32), (ARRAY_U64_ID, TYPE_U64), (ARRAY_I8_ID, TYPE_I8),
      (ARRAY_I16_ID, TYPE_I16), (ARRAY_I32_ID, TYPE_I32), (ARRAY_I64_ID, TYPE_I64),
      (ARRAY_F32_ID, TYPE_F32), (ARRAY_F64_ID, TYPE_F64), (ARRAY_STRING_ID, TYPE_STRING)])"

text \<open>The \<open>?\<close> of a step that may panic or fail: the rest runs when it returned \<open>Ok\<close>.\<close>

definition and_then :: "('e + unit) option \<Rightarrow> ('e + unit) option \<Rightarrow> ('e + unit) option" where
  "and_then m k = Option.bind m (\<lambda>r. case r of Inl e \<Rightarrow> Some (Inl e) | Inr _ \<Rightarrow> k)"

definition buf_scalar :: "crates \<Rightarrow> byte list \<Rightarrow> nat \<Rightarrow> uuid \<Rightarrow> (reason + unit) option" where
  "buf_scalar E buffer at i =
     (if dynamic i then Some (Inr ())
      else case primitive i of
        Some tag \<Rightarrow> buf_expect buffer at tag
      | None \<Rightarrow>
        if i = OPTION_ID then buf_expect buffer at TYPE_OPTION
        else case typed_array_element i of
          Some element \<Rightarrow>
            and_then (buf_expect buffer at TYPE_ARRAY)
              (do { found \<leftarrow> buf_tag buffer (at + 1);
                    Some (if found = element then Inr () else Inl (ExpectedArrayOf element found)) })
        | None \<Rightarrow>
            do { found \<leftarrow> buf_tag buffer at;
                 if found = TYPE_STRUCTURE \<or> found = TYPE_ENUMERATION then
                   do { record_id \<leftarrow> buf_id E buffer (at + 1);
                        Some (if record_id = i then Inr () else Inl (ExpectedRecord i record_id)) }
                 else Some (Inl (ExpectedRecordGot i found)) })"

text \<open>The elements of a generic array, one after the other.\<close>

fun buf_elements :: "crates \<Rightarrow> byte list \<Rightarrow> uuid \<Rightarrow> nat \<Rightarrow> nat \<Rightarrow> (reason + unit) option" where
  "buf_elements E buffer i 0 at = Some (Inr ())"
| "buf_elements E buffer i (Suc n) at =
     and_then (buf_scalar E buffer at i)
       (do { at \<leftarrow> buf_end buffer at; buf_elements E buffer i n at })"

definition buf_array :: "crates \<Rightarrow> byte list \<Rightarrow> nat \<Rightarrow> uuid \<Rightarrow> nat option \<Rightarrow> (reason + unit) option" where
  "buf_array E buffer at i len =
     and_then (buf_expect buffer at TYPE_ARRAY)
       (do { element \<leftarrow> buf_tag buffer (at + 1);
             cnt \<leftarrow> buf_u32 buffer (at + 2);
             if len \<noteq> None \<and> the len \<noteq> cnt then Some (Inl (ExpectedElements (the len) cnt))
             else if dynamic i then Some (Inr ())
             else if element = TYPE_VALUE then buf_elements E buffer i cnt (at + 6)
             else if element = TYPE_STRUCTURE \<or> element = TYPE_ENUMERATION then
               do { record_id \<leftarrow> buf_id E buffer (at + 6);
                    Some (if names_a_record i \<and> record_id = i then Inr ()
                          else Inl (ExpectedArrayGotRecords i record_id)) }
             else Some (case primitive i of
                 Some tag \<Rightarrow> if tag = element then Inr () else Inl (ExpectedArrayOf tag element)
               | None \<Rightarrow> Inl (ExpectedRecordsGot i element)) })"

definition buf_argument :: "crates \<Rightarrow> byte list \<Rightarrow> nat \<Rightarrow> TypeRef \<Rightarrow> (reason + unit) option" where
  "buf_argument E buffer at ty =
     (case ty of
        Scalar i \<Rightarrow> buf_scalar E buffer at i
      | Array i \<Rightarrow> buf_array E buffer at i None
      | FixedArray i len \<Rightarrow> buf_array E buffer at i (Some len)
      | TMap _ _ \<Rightarrow> buf_expect buffer at TYPE_MAP
      | TOptionOf i \<Rightarrow>
          do { tag \<leftarrow> buf_tag buffer at;
               if tag = TYPE_OPTION then
                 do { present \<leftarrow> buf_tag buffer (at + 1);
                      if present = 0 then Some (Inr ()) else buf_scalar E buffer (at + 2) i }
               else buf_scalar E buffer at i })"

section \<open>The check\<close>

fun check_fields ::
  "crates \<Rightarrow> Signature \<Rightarrow> byte list \<Rightarrow> nat \<Rightarrow> nat \<Rightarrow> (ArgumentError + unit) option" where
  "check_fields E sig arg 0 at = Some (Inr ())"
| "check_fields E sig arg (Suc n) at =
     do { field \<leftarrow> buf_id E arg at;
          case hm_get (sig_parameters sig) field of
            None \<Rightarrow> Some (Inl (NoParameter (sig_name sig) field))
          | Some p \<Rightarrow>
              do { tag \<leftarrow> buf_tag arg (at + 16);
                   r \<leftarrow> (if tag \<noteq> TYPE_UNIT then buf_argument E arg (at + 16) (p_ty p) else Some (Inr ()));
                   case r of
                     Inl reason \<Rightarrow> Some (Inl (NotOfParameterType (p_name p) (sig_name sig) reason))
                   | Inr _ \<Rightarrow>
                       do { at \<leftarrow> buf_end arg (at + 16); check_fields E sig arg n at } } }"

definition Signatures_check ::
  "crates \<Rightarrow> Signatures \<Rightarrow> uuid \<Rightarrow> byte list \<Rightarrow> (ArgumentError + unit) option" where
  "Signatures_check E sigs f arg =
     (case hm_get sigs f of
        None \<Rightarrow> Some (Inr ())
      | Some sig \<Rightarrow>
          (case well_formed arg of
             Inl _ \<Rightarrow> Some (Inr ())
           | Inr _ \<Rightarrow>
               do { tag \<leftarrow> buf_tag arg BUFFER_SIZE_SIZE;
                    if tag \<noteq> TYPE_STRUCTURE then Some (Inr ())
                    else do { cnt \<leftarrow> buf_u32 arg (BUFFER_SIZE_SIZE + 17);
                              check_fields E sig arg cnt (BUFFER_SIZE_SIZE + 21) } }))"

section \<open>What the check decides\<close>

text \<open>
  A value is of the type an id names: any value of a dynamic type; a record by its own id, which no
  well-known type has; any other value but an array of records by its type's id.
\<close>

fun value_of_type :: "uuid \<Rightarrow> Value \<Rightarrow> bool" where
  "value_of_type i (Structure s) \<longleftrightarrow> dynamic i \<or> (names_a_record i \<and> st_id s = i)"
| "value_of_type i (Enumeration e) \<longleftrightarrow> dynamic i \<or> (names_a_record i \<and> en_id e = i)"
| "value_of_type i (ArrayStructure _ _) \<longleftrightarrow> dynamic i"
| "value_of_type i (ArrayEnumeration _ _) \<longleftrightarrow> dynamic i"
| "value_of_type i v \<longleftrightarrow> dynamic i \<or> type_uuid v = i"

fun array_len :: "Value \<Rightarrow> nat option" where
  "array_len (ArrayBoolean xs) = Some (length xs)"
| "array_len (ArrayU8 xs) = Some (length xs)"
| "array_len (ArrayU16 xs) = Some (length xs)"
| "array_len (ArrayU32 xs) = Some (length xs)"
| "array_len (ArrayU64 xs) = Some (length xs)"
| "array_len (ArrayI8 xs) = Some (length xs)"
| "array_len (ArrayI16 xs) = Some (length xs)"
| "array_len (ArrayI32 xs) = Some (length xs)"
| "array_len (ArrayI64 xs) = Some (length xs)"
| "array_len (ArrayF32 xs) = Some (length xs)"
| "array_len (ArrayF64 xs) = Some (length xs)"
| "array_len (ArrayString xs) = Some (length xs)"
| "array_len (ArrayStructure _ xs) = Some (length xs)"
| "array_len (ArrayEnumeration _ xs) = Some (length xs)"
| "array_len (ArrayValue xs) = Some (length xs)"
| "array_len _ = None"

text \<open>The elements of an array are of a type: by their array's type, one by one in a generic one.\<close>

fun elements_of_type :: "uuid \<Rightarrow> Value \<Rightarrow> bool" where
  "elements_of_type i (ArrayValue vs) \<longleftrightarrow> dynamic i \<or> list_all (value_of_type i) vs"
| "elements_of_type i (ArrayStructure j _) \<longleftrightarrow> dynamic i \<or> (names_a_record i \<and> j = i)"
| "elements_of_type i (ArrayEnumeration j _) \<longleftrightarrow> dynamic i \<or> (names_a_record i \<and> j = i)"
| "elements_of_type i v \<longleftrightarrow> dynamic i \<or> kind v = kind (empty_array i False)"

fun argument_ok :: "TypeRef \<Rightarrow> Value \<Rightarrow> bool" where
  "argument_ok (Scalar i) v \<longleftrightarrow> value_of_type i v"
| "argument_ok (Array i) v \<longleftrightarrow> array_len v \<noteq> None \<and> elements_of_type i v"
| "argument_ok (FixedArray i n) v \<longleftrightarrow> array_len v = Some n \<and> elements_of_type i v"
| "argument_ok (TMap _ _) v \<longleftrightarrow> kind v = TKeyValue"
| "argument_ok (TOptionOf i) (VOption None) \<longleftrightarrow> True"
| "argument_ok (TOptionOf i) (VOption (Some v)) \<longleftrightarrow> value_of_type i v"
| "argument_ok (TOptionOf i) v \<longleftrightarrow> value_of_type i v"

text \<open>The tags a value and an array's elements are written under.\<close>

fun tag_of :: "Value \<Rightarrow> byte" where
  "tag_of Unit = TYPE_UNIT"
| "tag_of (Boolean _) = TYPE_BOOLEAN"
| "tag_of (U8 _) = TYPE_U8"
| "tag_of (U16 _) = TYPE_U16"
| "tag_of (U32 _) = TYPE_U32"
| "tag_of (U64 _) = TYPE_U64"
| "tag_of (I8 _) = TYPE_I8"
| "tag_of (I16 _) = TYPE_I16"
| "tag_of (I32 _) = TYPE_I32"
| "tag_of (I64 _) = TYPE_I64"
| "tag_of (F32 _) = TYPE_F32"
| "tag_of (F64 _) = TYPE_F64"
| "tag_of (VString _) = TYPE_STRING"
| "tag_of (VOption _) = TYPE_OPTION"
| "tag_of (Structure _) = TYPE_STRUCTURE"
| "tag_of (Enumeration _) = TYPE_ENUMERATION"
| "tag_of (KeyValue _) = TYPE_MAP"
| "tag_of (VUuid _) = TYPE_UUID"
| "tag_of _ = TYPE_ARRAY"

fun element_tag :: "Value \<Rightarrow> byte" where
  "element_tag (ArrayBoolean _) = TYPE_BOOLEAN"
| "element_tag (ArrayU8 _) = TYPE_U8"
| "element_tag (ArrayU16 _) = TYPE_U16"
| "element_tag (ArrayU32 _) = TYPE_U32"
| "element_tag (ArrayU64 _) = TYPE_U64"
| "element_tag (ArrayI8 _) = TYPE_I8"
| "element_tag (ArrayI16 _) = TYPE_I16"
| "element_tag (ArrayI32 _) = TYPE_I32"
| "element_tag (ArrayI64 _) = TYPE_I64"
| "element_tag (ArrayF32 _) = TYPE_F32"
| "element_tag (ArrayF64 _) = TYPE_F64"
| "element_tag (ArrayString _) = TYPE_STRING"
| "element_tag (ArrayStructure _ _) = TYPE_STRUCTURE"
| "element_tag (ArrayEnumeration _ _) = TYPE_ENUMERATION"
| "element_tag (ArrayValue _) = TYPE_VALUE"
| "element_tag _ = TYPE_UNIT"

section \<open>Types by their tags\<close>

lemma tag_of_array: "tag_of v = TYPE_ARRAY \<longleftrightarrow> array_len v \<noteq> None"
  by (cases v) (simp_all add: tag_defs)

lemma of_type_dynamic: "dynamic i \<Longrightarrow> value_of_type i v"
  by (cases v) simp_all

lemma of_type_primitive: "primitive i = Some t \<Longrightarrow> \<not> dynamic i \<Longrightarrow> value_of_type i v \<longleftrightarrow> tag_of v = t"
  by (cases v) (auto simp: primitive_def type_id_defs tag_defs names_a_record_def WELL_KNOWN_IDS_def
      PRIMITIVE_IDS_def split: if_splits)

lemma of_type_option: "value_of_type OPTION_ID v \<longleftrightarrow> tag_of v = TYPE_OPTION"
  by (cases v) (auto simp: type_id_defs tag_defs dynamic_def names_a_record_def WELL_KNOWN_IDS_def)

lemma of_type_array:
  "typed_array_element i = Some t \<Longrightarrow> value_of_type i v \<longleftrightarrow> tag_of v = TYPE_ARRAY \<and> element_tag v = t"
  by (cases v) (auto simp: typed_array_element_def type_id_defs tag_defs names_a_record_def
      dynamic_def WELL_KNOWN_IDS_def split: if_splits)

lemma well_known_cases:
  "names_a_record i \<longleftrightarrow> primitive i = None \<and> i \<noteq> OPTION_ID \<and> typed_array_element i = None \<and> \<not> dynamic i"
  by (auto simp: names_a_record_def WELL_KNOWN_IDS_def PRIMITIVE_IDS_def primitive_def
      typed_array_element_def dynamic_def type_id_defs split: if_splits)

lemma of_type_record:
  "names_a_record i \<Longrightarrow> value_of_type i v \<longleftrightarrow>
     (case v of Structure s \<Rightarrow> st_id s = i | Enumeration e \<Rightarrow> en_id e = i | _ \<Rightarrow> False)"
  by (cases v) (auto simp: names_a_record_def WELL_KNOWN_IDS_def PRIMITIVE_IDS_def dynamic_def)

lemma elements_of_typed_array:
  assumes "array_len v \<noteq> None" "element_tag v \<notin> {TYPE_VALUE, TYPE_STRUCTURE, TYPE_ENUMERATION}"
    "\<not> dynamic i"
  shows "elements_of_type i v \<longleftrightarrow> primitive i = Some (element_tag v)"
  using assms
  by (cases v) (auto simp: primitive_def empty_array_def type_id_defs tag_defs split: if_splits)

section \<open>The bytes of a decoded value\<close>

lemma and_then_simps [simp]:
  "and_then (Some (Inr u)) k = k" "and_then (Some (Inl e)) k = Some (Inl e)"
  by (simp_all add: and_then_def)

lemma deserialize_tag_tag: "deserialize_tag E rec t r = Some (v, r') \<Longrightarrow> t \<noteq> TYPE_ARRAY \<Longrightarrow> tag_of v = t"
  by (auto simp: deserialize_tag_def bind_eq_Some_conv split: if_splits)

lemma deserialize_elements_shape:
  "deserialize_elements E rec t n r = Some (v, r') \<Longrightarrow>
     tag_of v = TYPE_ARRAY \<and> element_tag v = t \<and> array_len v = Some n"
  by (auto simp: deserialize_elements_def bind_eq_Some_conv read_n_length split: if_splits)

context buffer_crates
begin

lemma read_u8:
  "at \<le> length b \<Longrightarrow> on_backing (get_u8 E) (reader_of b at) = Some (x, r) \<longleftrightarrow>
     buf_tag b at = Some x \<and> r = reader_of b (Suc at)"
proof -
  have byte: "le_word bs = bs ! 0" if "length bs = 1" for bs :: "byte list"
    using that by (cases bs) (simp_all add: le_word_def)
  assume "at \<le> length b"
  then show ?thesis
    by (auto simp: on_backing_def gets take_le_def reader_of_def buf_tag_def byte)
qed

lemma read_u32:
  "at \<le> length b \<Longrightarrow> on_backing (get_u32_le E) (reader_of b at) = Some (x, r) \<Longrightarrow>
     buf_u32 b at = Some (unat x) \<and> r = reader_of b (at + 4) \<and> at + 4 \<le> length b"
  by (auto simp: on_backing_def gets take_le_def reader_of_def buf_u32_def add.commute split: if_splits)

lemma read_id:
  "at \<le> length b \<Longrightarrow> take_bytes E 16 (reader_of b at) = Some (bs, r) \<Longrightarrow>
     buf_id E b at = from_slice E bs \<and> r = reader_of b (at + 16) \<and> at + 16 \<le> length b"
  by (auto simp: take_bytes_def reader_of_def buf_id_def advances add.commute split: if_splits)

lemma buf_tag_bound: "buf_tag b at = Some t \<Longrightarrow> Suc at \<le> length b"
  by (simp add: buf_tag_def split: if_splits)

lemma read_tag:
  assumes "at \<le> length b" "deserialize_from_reader E n (reader_of b at) = Some (v, r)"
  obtains m where "n = Suc m" "buf_tag b at = Some (tag_of v)"
    "deserialize_tag E (deserialize_from_reader E m) (tag_of v) (reader_of b (Suc at)) = Some (v, r)"
proof -
  obtain m where m: "n = Suc m" using assms(2) by (cases n) auto
  with assms obtain t where t: "buf_tag b at = Some t"
    "deserialize_tag E (deserialize_from_reader E m) t (reader_of b (Suc at)) = Some (v, r)"
    by (auto simp: next_type_get bind_eq_Some_conv read_u8)
  have "tag_of v = t"
  proof (cases "t = TYPE_ARRAY")
    case True
    with t(2) show ?thesis
      by (auto simp: tag_payload bind_eq_Some_conv dest!: deserialize_elements_shape)
  next
    case False
    with t(2) show ?thesis by (rule deserialize_tag_tag)
  qed
  with m t that show ?thesis by blast
qed

lemma read_end:
  assumes "at \<le> length b" "n \<le> MAX_DEPTH" "deserialize_from_reader E n (reader_of b at) = Some (v, r)"
  shows "\<exists>e. buf_end b at = Some e \<and> e \<le> length b \<and> r = reader_of b e"
proof -
  note walk = follows_walk [of "length b" b MAX_DEPTH, unfolded follows_def take_all [OF order_refl], OF order_refl]
  have "deserialize_from_reader E MAX_DEPTH (reader_of b at) = Some (v, r)"
    by (rule deserialize_more [OF assms(3,2)])
  then obtain e where "e \<le> length b" "r = reader_of b e" "walk_value b MAX_DEPTH at = Inr e"
    using walk assms(1) by blast
  then show ?thesis by (auto simp: buf_end_def value_end_def)
qed

lemma read_array:
  assumes "at \<le> length b" "deserialize_from_reader E n (reader_of b at) = Some (v, r)"
    "array_len v = Some cnt"
  obtains m where "n = Suc m" "buf_tag b (at + 1) = Some (element_tag v)" "buf_u32 b (at + 2) = Some cnt"
    "at + 6 \<le> length b"
    "deserialize_elements E (deserialize_from_reader E m) (element_tag v) cnt (reader_of b (at + 6)) = Some (v, r)"
proof -
  have "tag_of v = TYPE_ARRAY" using assms(3) tag_of_array by force
  with read_tag [OF assms(1,2)] obtain m where m: "n = Suc m" "Suc at \<le> length b"
    "deserialize_tag E (deserialize_from_reader E m) TYPE_ARRAY (reader_of b (Suc at)) = Some (v, r)"
    using buf_tag_bound by metis
  then obtain t r1 c r2 where t: "on_backing (get_u8 E) (reader_of b (Suc at)) = Some (t, r1)"
    "on_backing (get_u32_le E) r1 = Some (c, r2)"
    "deserialize_elements E (deserialize_from_reader E m) t (unat c) r2 = Some (v, r)"
    by (auto simp: tag_payload bind_eq_Some_conv)
  from t(1) m(2) have u: "buf_tag b (Suc at) = Some t" "r1 = reader_of b (Suc (Suc at))"
    using read_u8 by blast+
  with t(2) buf_tag_bound [OF u(1)] have c: "buf_u32 b (at + 2) = Some (unat c)" "r2 = reader_of b (at + 6)"
    "at + 6 \<le> length b" using read_u32 [of "Suc (Suc at)" b c r2] by (auto simp: add.commute [of at])
  from deserialize_elements_shape [OF t(3)] assms(3) have "element_tag v = t" "unat c = cnt" by auto
  with m(1) u c t(3) that show ?thesis by auto
qed

lemma read_record:
  assumes "at \<le> length b" "deserialize_from_reader E n (reader_of b at) = Some (v, r)"
    "v = Structure s \<and> i = st_id s \<or> v = Enumeration e \<and> i = en_id e"
  shows "buf_id E b (at + 1) = Some i"
proof -
  from read_tag [OF assms(1,2)] obtain m where m: "Suc at \<le> length b"
    "deserialize_tag E (deserialize_from_reader E m) (tag_of v) (reader_of b (Suc at)) = Some (v, r)"
    using buf_tag_bound by metis
  then obtain bs r' where "take_bytes E 16 (reader_of b (Suc at)) = Some (bs, r')" "from_slice E bs = Some i"
    using assms(3) by (auto simp: tag_payload bind_eq_Some_conv)
  with read_id [OF m(1)] show ?thesis by simp
qed

lemma read_records:
  assumes "at \<le> length b" "deserialize_from_reader E n (reader_of b at) = Some (v, r)"
    "v = ArrayStructure i ss \<or> v = ArrayEnumeration i es"
  shows "buf_id E b (at + 6) = Some i"
proof -
  obtain cnt where "array_len v = Some cnt" using assms(3) by auto
  with read_array [OF assms(1,2)] obtain m where m: "at + 6 \<le> length b"
    "deserialize_elements E (deserialize_from_reader E m) (element_tag v) cnt (reader_of b (at + 6)) = Some (v, r)"
    by metis
  then obtain bs r' where "take_bytes E 16 (reader_of b (at + 6)) = Some (bs, r')" "from_slice E bs = Some i"
    using assms(3) by (auto simp: element_payload bind_eq_Some_conv)
  with read_id [OF m(1)] show ?thesis by simp
qed

text \<open>
  The steps of the check on a value that was decoded: none panics, and each accepts exactly the
  values of the type.
\<close>

lemma scalar_decides:
  assumes "at \<le> length b" "deserialize_from_reader E n (reader_of b at) = Some (v, r)"
  shows "\<exists>x. buf_scalar E b at i = Some x \<and> (x = Inr () \<longleftrightarrow> value_of_type i v)"
proof -
  have tag: "buf_tag b at = Some (tag_of v)" using read_tag [OF assms] by blast
  consider "dynamic i" | t where "\<not> dynamic i" "primitive i = Some t" | "i = OPTION_ID"
    | t where "\<not> dynamic i" "primitive i = None" "i \<noteq> OPTION_ID" "typed_array_element i = Some t" | "names_a_record i"
    using well_known_cases [of i] by (cases "primitive i"; cases "typed_array_element i") auto
  then show ?thesis
  proof cases
    case 1
    then show ?thesis by (simp add: buf_scalar_def of_type_dynamic)
  next
    case 2
    then show ?thesis by (simp add: buf_scalar_def buf_expect_def tag of_type_primitive)
  next
    case 3
    have "\<not> dynamic OPTION_ID" "primitive OPTION_ID = None"
      by (simp_all add: dynamic_def primitive_def type_id_defs)
    with 3 show ?thesis by (simp add: buf_scalar_def buf_expect_def tag of_type_option)
  next
    case 4
    show ?thesis
    proof (cases "array_len v")
      case None
      then have "tag_of v \<noteq> TYPE_ARRAY" using tag_of_array by simp
      with 4 show ?thesis by (simp add: buf_scalar_def buf_expect_def tag of_type_array)
    next
      case (Some cnt)
      then have "tag_of v = TYPE_ARRAY" using tag_of_array by simp
      moreover have "buf_tag b (at + 1) = Some (element_tag v)" using read_array [OF assms Some] by metis
      ultimately show ?thesis using 4 by (simp add: buf_scalar_def buf_expect_def tag of_type_array)
    qed
  next
    case 5
    then have i: "\<not> dynamic i" "primitive i = None" "i \<noteq> OPTION_ID" "typed_array_element i = None"
      by (simp_all add: well_known_cases)
    have id: "v = Structure s \<Longrightarrow> buf_id E b (at + 1) = Some (st_id s)"
      "v = Enumeration e \<Longrightarrow> buf_id E b (at + 1) = Some (en_id e)" for s e
      using read_record [OF assms] by blast+
    then show ?thesis unfolding of_type_record [OF 5]
      by (cases v) (auto simp: buf_scalar_def i tag, simp_all add: tag_defs)
  qed
qed

lemma elements_decide:
  assumes "at \<le> length b" "m \<le> MAX_DEPTH" "\<not> dynamic i"
    "read_n cnt (deserialize_from_reader E m) (reader_of b at) = Some (vs, r)"
  shows "\<exists>x. buf_elements E b i cnt at = Some x \<and> (x = Inr () \<longleftrightarrow> list_all (value_of_type i) vs)"
  using assms(1,4)
proof (induction cnt arbitrary: at vs)
  case (Suc cnt)
  then obtain v r1 vs' where v: "deserialize_from_reader E m (reader_of b at) = Some (v, r1)"
    "read_n cnt (deserialize_from_reader E m) r1 = Some (vs', r)" "vs = v # vs'"
    by (auto simp: bind_eq_Some_conv)
  from read_end [OF Suc.prems(1) assms(2) v(1)] obtain e where
    e: "buf_end b at = Some e" "e \<le> length b" "r1 = reader_of b e" by blast
  from scalar_decides [OF Suc.prems(1) v(1)] obtain x where
    x: "buf_scalar E b at i = Some x" "x = Inr () \<longleftrightarrow> value_of_type i v" by blast
  from Suc.IH [OF e(2)] v(2) e(3) obtain y where
    "buf_elements E b i cnt e = Some y" "y = Inr () \<longleftrightarrow> list_all (value_of_type i) vs'" by blast
  with x e(1) v(3) show ?case by (cases x) auto
qed simp

lemma array_decides:
  assumes "at \<le> length b" "n \<le> MAX_DEPTH" "deserialize_from_reader E n (reader_of b at) = Some (v, r)"
  shows "\<exists>x. buf_array E b at i len = Some x \<and>
     (x = Inr () \<longleftrightarrow> array_len v \<noteq> None \<and> (len = None \<or> array_len v = len) \<and> elements_of_type i v)"
proof (cases "array_len v")
  case None
  then have "tag_of v \<noteq> TYPE_ARRAY" using tag_of_array by simp
  moreover have "buf_tag b at = Some (tag_of v)" using read_tag [OF assms(1,3)] by blast
  ultimately show ?thesis using None by (simp add: buf_array_def buf_expect_def)
next
  case (Some cnt)
  then have arr: "buf_tag b at = Some TYPE_ARRAY"
    using read_tag [OF assms(1,3)] tag_of_array by (metis option.distinct(1))
  from read_array [OF assms(1,3) Some] obtain m where m: "n = Suc m"
    "buf_tag b (at + 1) = Some (element_tag v)" "buf_u32 b (at + 2) = Some cnt" "at + 6 \<le> length b"
    "deserialize_elements E (deserialize_from_reader E m) (element_tag v) cnt (reader_of b (at + 6)) = Some (v, r)" .
  have dyn: "elements_of_type i v" if "dynamic i" using that by (cases v) simp_all
  define wrong where "wrong \<longleftrightarrow> len \<noteq> None \<and> the len \<noteq> cnt"
  have body: "buf_array E b at i len =
      (if wrong then Some (Inl (ExpectedElements (the len) cnt))
       else if dynamic i then Some (Inr ())
       else if element_tag v = TYPE_VALUE then buf_elements E b i cnt (at + 6)
       else if element_tag v = TYPE_STRUCTURE \<or> element_tag v = TYPE_ENUMERATION then
         do { record_id \<leftarrow> buf_id E b (at + 6);
              Some (if names_a_record i \<and> record_id = i then Inr ()
                    else Inl (ExpectedArrayGotRecords i record_id)) }
       else Some (case primitive i of
           Some tag \<Rightarrow> if tag = element_tag v then Inr () else Inl (ExpectedArrayOf tag (element_tag v))
         | None \<Rightarrow> Inl (ExpectedRecordsGot i (element_tag v))))"
    by (simp only: buf_array_def buf_expect_def arr m(2,3) wrong_def bind.bind_lunit and_then_simps if_True refl)
  have len: "len = None \<or> array_len v = len \<longleftrightarrow> \<not> wrong" using Some by (cases len) (auto simp: wrong_def)
  consider "wrong \<or> dynamic i"
    | vs where "\<not> wrong" "\<not> dynamic i" "v = ArrayValue vs"
    | j ss es where "\<not> wrong" "\<not> dynamic i" "v = ArrayStructure j ss \<or> v = ArrayEnumeration j es"
    | "\<not> wrong" "\<not> dynamic i" "element_tag v \<notin> {TYPE_VALUE, TYPE_STRUCTURE, TYPE_ENUMERATION}"
    using Some by (cases v) (auto simp: tag_defs)
  then show ?thesis
  proof cases
    case 1
    then show ?thesis using dyn Some unfolding body len by auto
  next
    case 2
    with m(5) have "read_n cnt (deserialize_from_reader E m) (reader_of b (at + 6)) = Some (vs, r)"
      by (auto simp: element_payload bind_eq_Some_conv)
    from elements_decide [OF m(4) _ 2(2) this] m(1) assms(2) obtain x where
      "buf_elements E b i cnt (at + 6) = Some x" "x = Inr () \<longleftrightarrow> list_all (value_of_type i) vs" by auto
    with 2 show ?thesis unfolding body len by auto
  next
    case 3
    with read_records [OF assms(1,3)] have "buf_id E b (at + 6) = Some j" by blast
    moreover have "element_tag v \<noteq> TYPE_VALUE" "element_tag v = TYPE_STRUCTURE \<or> element_tag v = TYPE_ENUMERATION"
      using 3(3) by (auto simp: tag_defs)
    ultimately show ?thesis using 3 unfolding body len by auto
  next
    case 4
    with elements_of_typed_array [of v i] Some
    have "elements_of_type i v \<longleftrightarrow> primitive i = Some (element_tag v)" by simp
    with 4 Some show ?thesis unfolding body len by (cases "primitive i") auto
  qed
qed

lemma read_option:
  assumes "at \<le> length b" "deserialize_from_reader E n (reader_of b at) = Some (VOption w, r)"
  obtains m p where "n = Suc m" "buf_tag b (at + 1) = Some p" "p = 0 \<longleftrightarrow> w = None" "at + 2 \<le> length b"
    "\<And>v. w = Some v \<Longrightarrow> deserialize_from_reader E m (reader_of b (at + 2)) = Some (v, r)"
proof -
  from read_tag [OF assms] obtain m where m: "n = Suc m" "Suc at \<le> length b"
    "deserialize_tag E (deserialize_from_reader E m) TYPE_OPTION (reader_of b (Suc at)) = Some (VOption w, r)"
    using buf_tag_bound by (metis tag_of.simps(14))
  then obtain p where "buf_tag b (Suc at) = Some p"
    "(if p \<noteq> 0 then do { (v, r) \<leftarrow> deserialize_from_reader E m (reader_of b (Suc (Suc at)));
       Some (VOption (Some v), r) } else Some (VOption None, reader_of b (Suc (Suc at)))) = Some (VOption w, r)"
    by (auto simp: tag_payload get_boolean_def bind_eq_Some_conv read_u8)
  with m(1) buf_tag_bound [of b "Suc at" p] show ?thesis
    by (intro that [of m p]) (auto simp: bind_eq_Some_conv split: if_splits)
qed

lemma argument_decides:
  assumes "at \<le> length b" "n \<le> MAX_DEPTH" "deserialize_from_reader E n (reader_of b at) = Some (v, r)"
  shows "\<exists>x. buf_argument E b at ty = Some x \<and> (x = Inr () \<longleftrightarrow> argument_ok ty v)"
proof -
  have tag: "buf_tag b at = Some (tag_of v)" using read_tag [OF assms(1,3)] by blast
  show ?thesis
  proof (cases ty)
    case (Scalar i)
    with scalar_decides [OF assms(1,3), of i] show ?thesis by (simp add: buf_argument_def)
  next
    case (Array i)
    with array_decides [OF assms, of i None] show ?thesis by (auto simp: buf_argument_def)
  next
    case (FixedArray i len)
    with array_decides [OF assms, of i "Some len"] show ?thesis by (auto simp: buf_argument_def)
  next
    case (TMap k w)
    then show ?thesis by (cases v) (simp_all add: buf_argument_def buf_expect_def tag, simp_all add: tag_defs)
  next
    case (TOptionOf i)
    show ?thesis
    proof (cases "tag_of v = TYPE_OPTION")
      case True
      then obtain w where w: "v = VOption w" by (cases v) (simp_all add: tag_defs)
      from read_option [OF assms(1) assms(3) [unfolded w]] obtain m p where
        p: "buf_tag b (at + 1) = Some p" "p = 0 \<longleftrightarrow> w = None" "at + 2 \<le> length b"
        "\<And>v. w = Some v \<Longrightarrow> deserialize_from_reader E m (reader_of b (at + 2)) = Some (v, r)" by metis
      then show ?thesis
        using TOptionOf w tag p(1) [simplified] scalar_decides [OF p(3), of m _ r i]
        by (cases w) (auto simp: buf_argument_def)
    next
      case False
      then have "argument_ok ty v \<longleftrightarrow> value_of_type i v" using TOptionOf by (cases v) simp_all
      with False scalar_decides [OF assms(1,3), of i] TOptionOf tag show ?thesis
        by (simp add: buf_argument_def)
    qed
  qed
qed

end

text \<open>What the check answers for the fields of a call, in their order.\<close>

fun verdict :: "Signature \<Rightarrow> Value StructureField list \<Rightarrow> ArgumentError + unit \<Rightarrow> bool" where
  "verdict sig [] x \<longleftrightarrow> x = Inr ()"
| "verdict sig (f # fs) x \<longleftrightarrow>
     (case hm_get (sig_parameters sig) (sf_id f) of
        None \<Rightarrow> x = Inl (NoParameter (sig_name sig) (sf_id f))
      | Some p \<Rightarrow>
          if sf_value f = Unit \<or> argument_ok (p_ty p) (sf_value f) then verdict sig fs x
          else (\<exists>reason. x = Inl (NotOfParameterType (p_name p) (sig_name sig) reason)))"

context buffer_crates
begin

lemma fields_decide:
  assumes "at \<le> length b" "m \<le> MAX_DEPTH"
    "read_n cnt (deserialize_field E (deserialize_from_reader E m)) (reader_of b at) = Some (fs, r)"
  shows "\<exists>x. check_fields E sig b cnt at = Some x \<and> verdict sig fs x"
  using assms(1,3)
proof (induction cnt arbitrary: at fs)
  case (Suc cnt)
  from Suc.prems(2) obtain bs r1 i v r2 fs' where f: "take_bytes E 16 (reader_of b at) = Some (bs, r1)"
    "from_slice E bs = Some i" "deserialize_from_reader E m r1 = Some (v, r2)"
    "read_n cnt (deserialize_field E (deserialize_from_reader E m)) r2 = Some (fs', r)"
    "fs = StructureField i v # fs'"
    unfolding read_n.simps bind_eq_Some_conv by (auto simp: deserialize_field_def get_structure_field_def bind_eq_Some_conv)
  from read_id [OF Suc.prems(1) f(1)] f(2) have id: "buf_id E b at = Some i" "r1 = reader_of b (at + 16)"
    "at + 16 \<le> length b" by auto
  note v = id(3) assms(2) f(3) [unfolded id(2)]
  have tag: "buf_tag b (at + 16) = Some (tag_of v)" using read_tag [OF v(1,3)] by blast
  have unit: "tag_of v = TYPE_UNIT \<longleftrightarrow> v = Unit" by (cases v) (simp_all add: tag_defs)
  from read_end [OF v] obtain e where
    e: "buf_end b (at + 16) = Some e" "e \<le> length b" "r2 = reader_of b e" by blast
  from Suc.IH [OF e(2)] f(4) e(3) obtain y where
    y: "check_fields E sig b cnt e = Some y" "verdict sig fs' y" by blast
  show ?case
  proof (cases "hm_get (sig_parameters sig) i")
    case None
    with id(1) f(5) show ?thesis by simp
  next
    case (Some p)
    from argument_decides [OF v, of "p_ty p"] obtain x where
      "buf_argument E b (at + 16) (p_ty p) = Some x" "x = Inr () \<longleftrightarrow> argument_ok (p_ty p) v" by blast
    with Some id(1) f(5) tag unit e(1) y show ?thesis
      by (cases x; cases "v = Unit") auto
  qed
qed simp

lemma check_decides_decoded:
  assumes "well_formed arg = Inr ()" "deserialize E arg = Some v" "hm_get sigs f = Some sig"
  shows "\<exists>x. Signatures_check E sigs f arg = Some x \<and>
     (case v of Structure s \<Rightarrow> verdict sig (st_fields s) x | _ \<Rightarrow> x = Inr ())"
proof -
  from well_formed_decodes [OF assms(1)] assms(2) obtain r where
    v: "4 \<le> length arg" "deserialize_from_reader E MAX_DEPTH (reader_of arg 4) = Some (v, r)" by auto
  from read_tag [OF v] obtain m where m: "MAX_DEPTH = Suc m" "buf_tag arg 4 = Some (tag_of v)"
    "deserialize_tag E (deserialize_from_reader E m) (tag_of v) (reader_of arg 5) = Some (v, r)"
    by (metis eval_nat_numeral(2) eval_nat_numeral(3) semiring_norm(26) semiring_norm(27) semiring_norm(28))
  show ?thesis
  proof (cases "tag_of v = TYPE_STRUCTURE")
    case True
    then obtain s where s: "v = Structure s" by (cases v) (simp_all add: tag_defs)
    with m(3) obtain bs r1 c r2 fs where f: "take_bytes E 16 (reader_of arg 5) = Some (bs, r1)"
      "on_backing (get_u32_le E) r1 = Some (c, r2)"
      "read_n (unat c) (deserialize_field E (deserialize_from_reader E m)) r2 = Some (fs, r)"
      "st_fields s = fs"
      by (auto simp: tag_payload bind_eq_Some_conv)
    have "5 \<le> length arg" using m(2) by (simp add: buf_tag_def split: if_splits)
    from read_id [OF this f(1)] have "r1 = reader_of arg 21" "21 \<le> length arg" by simp_all
    with read_u32 [of 21 arg c r2] f(2) have u: "buf_u32 arg 21 = Some (unat c)" "r2 = reader_of arg 25"
      "25 \<le> length arg" by simp_all
    from fields_decide [OF u(3) _ f(3) [unfolded u(2)], of sig] m(1) obtain x where
      "check_fields E sig arg (unat c) 25 = Some x" "verdict sig fs x" by auto
    with True s f(4) m(2) u(1) assms(1,3) show ?thesis
      by (simp add: Signatures_check_def BUFFER_SIZE_SIZE_def)
  next
    case False
    with m(2) assms(1,3) show ?thesis
      by (cases v) (simp_all add: Signatures_check_def BUFFER_SIZE_SIZE_def)
  qed
qed

lemma check_total: "Signatures_check E sigs f arg \<noteq> None"
proof (cases "hm_get sigs f")
  case (Some sig)
  show ?thesis
  proof (cases "well_formed arg")
    case (Inr u)
    with well_formed_reads obtain v where "deserialize E arg = Some v" by fastforce
    with check_decides_decoded [OF _ this Some] Inr show ?thesis by auto
  qed (simp add: Signatures_check_def Some)
qed (simp add: Signatures_check_def)

end

section \<open>Signatures by the header\<close>

lemma or_insert_get [hm_simps]:
  "map_of (or_insert k v m) j = (case map_of m j of None \<Rightarrow> if j = k then Some v else None | Some w \<Rightarrow> Some w)"
  by (auto simp: or_insert_def hm_contains_iff split: option.splits)

lemma first_parameter:
  "map_of (fold (\<lambda>p m. or_insert (p_id p) p m) ps m) i =
     (case map_of m i of None \<Rightarrow> find (\<lambda>p. p_id p = i) ps | Some p \<Rightarrow> Some p)"
  by (induction ps arbitrary: m) (auto simp: or_insert_get split: option.splits)

lemma map_of_find: "map_of (map (\<lambda>x. (f x, g x)) xs) k = map_option g (find (\<lambda>x. f x = k) xs)"
  by (induction xs) auto

text \<open>The function and the parameters a header declares, without the maps.\<close>

definition declared :: "Header \<Rightarrow> uuid \<Rightarrow> ExportFunction option" where
  "declared header f = find (\<lambda>ef. ef_id ef = f) (rev (map es_function (h_exports header)))"

lemma Signatures_of_get:
  "hm_get (Signatures_of header) f = map_option signature_of (declared header f)"
proof -
  have "map (\<lambda>s. case s of Function f \<Rightarrow> (ef_id f, signature_of f)) (h_exports header) =
      map (\<lambda>f. (ef_id f, signature_of f)) (map es_function (h_exports header))"
    by (simp add: ExportSymbol.case_eq_if)
  then show ?thesis
    by (simp only: Signatures_of_def declared_def hm_get_collect rev_map map_of_find)
qed

text \<open>The verdict by the declaration itself.\<close>

fun judged :: "ExportFunction \<Rightarrow> Value StructureField list \<Rightarrow> ArgumentError + unit \<Rightarrow> bool" where
  "judged ef [] x \<longleftrightarrow> x = Inr ()"
| "judged ef (f # fs) x \<longleftrightarrow>
     (case find (\<lambda>p. p_id p = sf_id f) (ef_parameters ef) of
        None \<Rightarrow> x = Inl (NoParameter (ef_name ef) (sf_id f))
      | Some p \<Rightarrow>
          if sf_value f = Unit \<or> argument_ok (p_ty p) (sf_value f) then judged ef fs x
          else (\<exists>reason. x = Inl (NotOfParameterType (p_name p) (ef_name ef) reason)))"

lemma verdict_judged: "verdict (signature_of ef) fs x \<longleftrightarrow> judged ef fs x"
  by (induction fs) (simp_all add: signature_of_def first_parameter split: option.splits)

section \<open>Properties\<close>

text \<open>
  C29. The check never panics, whatever the bytes of the call: every index into the buffer stays
  within it, and every value it steps over has an end.
\<close>

theorem check_never_panics:
  assumes "buffer_crates E"
  shows "\<exists>x. Signatures_check E sigs f arg = Some x"
  using buffer_crates.check_total [OF assms] by blast

theorem check_never_panics_witness:
  "\<exists>x. Signatures_check std_crates [(1, \<lparr>sig_name = ''f'', sig_parameters = []\<rparr>)] 1 [5, 0, 0, 0, 13] = Some x"
  by (rule check_never_panics [OF std.buffer_crates_axioms])

text \<open>
  C8. What the check answers is decided by the decoded value, though it decodes nothing. A call is
  let through when its argument is no structure, or when each of its fields is a parameter the
  header declares (the first declared under its id) and holds unit or a value of the declared type;
  otherwise the answer is the error of the first field that is not: no such parameter, or not of
  its declared type.
\<close>

theorem check_decides:
  assumes "buffer_crates E" "well_formed arg = Inr ()" "deserialize E arg = Some v"
    "declared header f = Some ef"
  shows "\<exists>x. Signatures_check E (Signatures_of header) f arg = Some x \<and>
     (case v of Structure s \<Rightarrow> judged ef (st_fields s) x | _ \<Rightarrow> x = Inr ())"
  using buffer_crates.check_decides_decoded [OF assms(1-3), of "Signatures_of header" f "signature_of ef",
      unfolded verdict_judged] assms(4)
  by (simp add: Signatures_of_get)

definition sample_header :: Header where
  "sample_header = \<lparr>h_id = 9, h_name = ''m'', h_author = ''a'', h_description = None,
     h_license = ''l'', h_version = \<lparr>major = 0, minor = 1, patch = 0\<rparr>,
     h_executor = \<lparr>ex_name = ''wasm'', ex_min_version = None, ex_max_version = None\<rparr>,
     h_exports = [Function \<lparr>ef_id = 1, ef_name = ''f'',
       ef_parameters = [\<lparr>p_id = 2, p_name = ''x'', p_ty = Scalar U16_ID, p_mutable = False,
         p_default_value = None\<rparr>], ef_ret = Scalar UNIT_ID\<rparr>],
     h_imports = [], h_executable_mime = ''application/wasm''\<rparr>"

theorem check_decides_witness:
  "\<exists>b reason. serialize std_crates (Structure (MkStructure 1 [StructureField 2 (U8 7)])) = Some b \<and>
     Signatures_check std_crates (Signatures_of sample_header) 1 b =
       Some (Inl (NotOfParameterType ''x'' ''f'' reason))"
proof -
  let ?v = "Structure (MkStructure 1 [StructureField 2 (U8 7)])"
  obtain b where b: "serialize std_crates ?v = Some b" "length b < 2 ^ 32"
    by (simp add: serialize_def BufferWriter_new_def std.puts begin_structure_def begin_structure_raw_def
        add_structure_field_def put_id_def add_u8_def add_u8_raw_def finalize_def std.as_bytes_length)
  have wf: "well_formed b = Inr ()"
    by (rule well_formed_accepts_serialized [OF std.buffer_crates_axioms _ _ b]) (simp_all add: MAX_DEPTH_def max_of_def)
  have de: "deserialize std_crates b = Some ?v"
    using serialize_round_trip [OF std.buffer_crates_axioms, of ?v] b by simp
  have "declared sample_header 1 = Some (es_function (hd (h_exports sample_header)))"
    by (simp add: declared_def sample_header_def)
  from check_decides [OF std.buffer_crates_axioms wf de this] obtain x where
    x: "Signatures_check std_crates (Signatures_of sample_header) 1 b = Some x"
    "judged (es_function (hd (h_exports sample_header))) [StructureField 2 (U8 7)] x" by auto
  from x(2) have "\<exists>reason. x = Inl (NotOfParameterType ''x'' ''f'' reason)"
    by (simp add: sample_header_def dynamic_def type_id_defs)
  with x(1) b(1) show ?thesis by blast
qed

end
