(* ===== verification/Record_Types.thy ===== *)
theory Record_Types
  imports Arguments
begin

text \<open>
  Type expressions of records (\<open>crates/arora-types/src/record/ty.rs\<close>) and the signatures of module
  functions (\<open>record/module.rs\<close>), in their frozen form: every reference to another record pinned
  at a version. A version of the \<open>semver\<close> crate is the tuple of its public fields.
\<close>

section \<open>Type expressions\<close>

datatype PrimitiveKind =
    PkUnit | PkBoolean | PkU8 | PkU16 | PkU32 | PkU64 | PkI8 | PkI16 | PkI32 | PkI64 | PkF32 | PkF64
  | PkString | PkArrayBoolean | PkArrayU8 | PkArrayU16 | PkArrayU32 | PkArrayU64 | PkArrayI8
  | PkArrayI16 | PkArrayI32 | PkArrayI64 | PkArrayF32 | PkArrayF64 | PkArrayString

definition kind_is_array :: "PrimitiveKind \<Rightarrow> bool" where
  "kind_is_array k \<longleftrightarrow> k \<in> {PkArrayBoolean, PkArrayU8, PkArrayU16, PkArrayU32, PkArrayU64, PkArrayI8,
     PkArrayI16, PkArrayI32, PkArrayI64, PkArrayF32, PkArrayF64, PkArrayString}"

definition PrimitiveKind_from_id :: "uuid \<Rightarrow> PrimitiveKind option" where
  "PrimitiveKind_from_id i = map_option snd (find (\<lambda>(known, _). known = i)
     [(UNIT_ID, PkUnit), (BOOLEAN_ID, PkBoolean), (U8_ID, PkU8), (U16_ID, PkU16), (U32_ID, PkU32),
      (U64_ID, PkU64), (I8_ID, PkI8), (I16_ID, PkI16), (I32_ID, PkI32), (I64_ID, PkI64),
      (F32_ID, PkF32), (F64_ID, PkF64), (STRING_ID, PkString), (ARRAY_BOOLEAN_ID, PkArrayBoolean),
      (ARRAY_U8_ID, PkArrayU8), (ARRAY_U16_ID, PkArrayU16), (ARRAY_U32_ID, PkArrayU32),
      (ARRAY_U64_ID, PkArrayU64), (ARRAY_I8_ID, PkArrayI8), (ARRAY_I16_ID, PkArrayI16),
      (ARRAY_I32_ID, PkArrayI32), (ARRAY_I64_ID, PkArrayI64), (ARRAY_F32_ID, PkArrayF32),
      (ARRAY_F64_ID, PkArrayF64), (ARRAY_STRING_ID, PkArrayString)])"

fun kind_array_of :: "PrimitiveKind \<Rightarrow> PrimitiveKind option" where
  "kind_array_of PkBoolean = Some PkArrayBoolean"
| "kind_array_of PkU8 = Some PkArrayU8"
| "kind_array_of PkU16 = Some PkArrayU16"
| "kind_array_of PkU32 = Some PkArrayU32"
| "kind_array_of PkU64 = Some PkArrayU64"
| "kind_array_of PkI8 = Some PkArrayI8"
| "kind_array_of PkI16 = Some PkArrayI16"
| "kind_array_of PkI32 = Some PkArrayI32"
| "kind_array_of PkI64 = Some PkArrayI64"
| "kind_array_of PkF32 = Some PkArrayF32"
| "kind_array_of PkF64 = Some PkArrayF64"
| "kind_array_of PkString = Some PkArrayString"
| "kind_array_of _ = None"

fun kind_name :: "PrimitiveKind \<Rightarrow> string" where
  "kind_name PkUnit = ''unit''"
| "kind_name PkBoolean = ''bool''"
| "kind_name PkU8 = ''u8''"
| "kind_name PkU16 = ''u16''"
| "kind_name PkU32 = ''u32''"
| "kind_name PkU64 = ''u64''"
| "kind_name PkI8 = ''i8''"
| "kind_name PkI16 = ''i16''"
| "kind_name PkI32 = ''i32''"
| "kind_name PkI64 = ''i64''"
| "kind_name PkF32 = ''f32''"
| "kind_name PkF64 = ''f64''"
| "kind_name PkString = ''str''"
| "kind_name PkArrayBoolean = ''bool[]''"
| "kind_name PkArrayU8 = ''u8[]''"
| "kind_name PkArrayU16 = ''u16[]''"
| "kind_name PkArrayU32 = ''u32[]''"
| "kind_name PkArrayU64 = ''u64[]''"
| "kind_name PkArrayI8 = ''i8[]''"
| "kind_name PkArrayI16 = ''i16[]''"
| "kind_name PkArrayI32 = ''i32[]''"
| "kind_name PkArrayI64 = ''i64[]''"
| "kind_name PkArrayF32 = ''f32[]''"
| "kind_name PkArrayF64 = ''f64[]''"
| "kind_name PkArrayString = ''str[]''"

definition kind_from_str :: "string \<Rightarrow> PrimitiveKind option" where
  "kind_from_str s =
     (if s = ''unit'' then Some PkUnit
      else if s = ''bool'' then Some PkBoolean
      else if s = ''u8'' then Some PkU8
      else if s = ''u16'' then Some PkU16
      else if s = ''u32'' then Some PkU32
      else if s = ''u64'' then Some PkU64
      else if s = ''i8'' then Some PkI8
      else if s = ''i16'' then Some PkI16
      else if s = ''i32'' then Some PkI32
      else if s = ''i64'' then Some PkI64
      else if s = ''f32'' then Some PkF32
      else if s = ''f64'' then Some PkF64
      else if s = ''str'' then Some PkString
      else if s = ''bool[]'' then Some PkArrayBoolean
      else if s = ''u8[]'' then Some PkArrayU8
      else if s = ''u16[]'' then Some PkArrayU16
      else if s = ''u32[]'' then Some PkArrayU32
      else if s = ''u64[]'' then Some PkArrayU64
      else if s = ''i8[]'' then Some PkArrayI8
      else if s = ''i16[]'' then Some PkArrayI16
      else if s = ''i32[]'' then Some PkArrayI32
      else if s = ''i64[]'' then Some PkArrayI64
      else if s = ''f32[]'' then Some PkArrayF32
      else if s = ''f64[]'' then Some PkArrayF64
      else if s = ''str[]'' then Some PkArrayString
      else None)"

type_synonym semver = "u64 \<times> u64 \<times> u64 \<times> string \<times> string"

record FrozenReference =
  fr_id :: uuid
  fr_version :: semver

datatype FrozenTy =
    TyPrimitive PrimitiveKind
  | FrozenScalar FrozenReference
  | FrozenArray FrozenReference
  | FrozenOption FrozenTy

function from_type_ref :: "TypeRef \<Rightarrow> semver \<Rightarrow> FrozenTy option" where
  "from_type_ref (Scalar i) version =
     Some (case PrimitiveKind_from_id i of
             Some k \<Rightarrow> TyPrimitive k
           | None \<Rightarrow> FrozenScalar \<lparr>fr_id = i, fr_version = version\<rparr>)"
| "from_type_ref (Array i) version =
     Some (case Option.bind (PrimitiveKind_from_id i) kind_array_of of
             Some k \<Rightarrow> TyPrimitive k
           | None \<Rightarrow> FrozenArray \<lparr>fr_id = i, fr_version = version\<rparr>)"
| "from_type_ref (TOptionOf i) version =
     do { element \<leftarrow> from_type_ref (Scalar i) version; Some (FrozenOption element) }"
| "from_type_ref (FixedArray _ _) version = None"
| "from_type_ref (TMap _ _) version = None"
  by pat_completeness auto

termination
  by (relation "measure (\<lambda>(ty, _). case ty of TOptionOf _ \<Rightarrow> 1 | _ \<Rightarrow> 0)") auto

definition ty_is_option :: "FrozenTy \<Rightarrow> bool" where
  "ty_is_option ty = (case ty of FrozenOption _ \<Rightarrow> True | _ \<Rightarrow> False)"

definition ty_as_array :: "FrozenTy \<Rightarrow> FrozenReference option" where
  "ty_as_array ty = (case ty of FrozenArray r \<Rightarrow> Some r | _ \<Rightarrow> None)"

fun ty_dependencies :: "FrozenTy \<Rightarrow> FrozenReference hash_set \<Rightarrow> FrozenReference hash_set" where
  "ty_dependencies (TyPrimitive _) refs = refs"
| "ty_dependencies (FrozenScalar r) refs = hs_insert r refs"
| "ty_dependencies (FrozenArray r) refs = hs_insert r refs"
| "ty_dependencies (FrozenOption element) refs = ty_dependencies element refs"

section \<open>Signatures\<close>

record FrozenParameter =
  fp_name :: string
  fp_ty :: FrozenTy
  fp_mutable :: bool

record FrozenFunction =
  fn_parameters :: "(uuid, FrozenParameter) hash_map"
  fn_parameter_ordering :: "uuid list"
  fn_return_ty :: FrozenTy

definition fn_parameter_id :: "FrozenFunction \<Rightarrow> string \<Rightarrow> uuid option" where
  "fn_parameter_id f name = map_option fst (find (\<lambda>(_, p). fp_name p = name) (fn_parameters f))"

definition fn_parameter_named :: "FrozenFunction \<Rightarrow> string \<Rightarrow> FrozenParameter option" where
  "fn_parameter_named f name = do { i \<leftarrow> fn_parameter_id f name; hm_get (fn_parameters f) i }"

definition fn_ordered_parameters :: "FrozenFunction \<Rightarrow> FrozenParameter list" where
  "fn_ordered_parameters f = List.map_filter (hm_get (fn_parameters f)) (fn_parameter_ordering f)"

section \<open>Properties\<close>

text \<open>
  A primitive kind is named by exactly one text, which reads back as it, and an array kind is
  the array form of exactly one scalar kind.
\<close>

theorem kind_names_round_trip:
  "(kind_from_str s = Some k \<longleftrightarrow> s = kind_name k) \<and>
   (kind_is_array k \<longleftrightarrow> (\<exists>!e. kind_array_of e = Some k))"
proof
  show "kind_from_str s = Some k \<longleftrightarrow> s = kind_name k"
    by (cases k) (auto simp: kind_from_str_def split: if_splits)
  have "kind_is_array k \<longleftrightarrow> (\<exists>e. kind_array_of e = Some k)"
    by (cases k) (auto simp: kind_is_array_def elim: kind_array_of.elims intro: kind_array_of.simps)
  moreover have "kind_array_of e = Some k \<Longrightarrow> kind_array_of e' = Some k \<Longrightarrow> e = e'" for e e'
    by (cases e; cases e') auto
  ultimately show "kind_is_array k \<longleftrightarrow> (\<exists>!e. kind_array_of e = Some k)" by blast
qed

end
