(* ===== verification/Calls.thy ===== *)
theory Calls
  imports Values
begin

text \<open>
  What crosses the boundary between the device and its modules: calls and their results
  (\<open>crates/arora-types/src/call.rs\<close>), the functions a device can call
  (\<open>crates/arora-behavior/src/lib.rs\<close>), and the status a behavior reports
  (\<open>crates/arora-behavior/src/status.rs\<close>), a value of a pinned enumeration.
\<close>

section \<open>Calls\<close>

record Call =
  call_module_id :: "uuid option"
  call_id :: uuid
  call_args :: "Value StructureField list"

record CallResult =
  cr_ret :: Value
  cr_mutated :: "Value StructureField list"

datatype CallError =
    CallGeneric string | ModuleNotFound uuid | FunctionNotFound uuid
  | Trap string | Internal string | Guest string

record 'f ModuleFunction =
  mf_module_id :: uuid
  mf_function_id :: uuid
  mf_function_name :: string
  mf_function :: 'f

type_synonym 'f FunctionIndex = "(uuid, 'f ModuleFunction) hash_map"

section \<open>The status of a behavior\<close>

datatype Status = Success | Failure | Running

definition STATUS_ENUMERATION_ID :: uuid where
  "STATUS_ENUMERATION_ID = 0x325a5767e3444532860e0749bcf2e428"
definition STATUS_SUCCESS_VARIANT_ID :: uuid where
  "STATUS_SUCCESS_VARIANT_ID = 0x766e9e9a446d4e4683e614b7ca101169"
definition STATUS_FAILURE_VARIANT_ID :: uuid where
  "STATUS_FAILURE_VARIANT_ID = 0x2468f46cbb60425c9a4d9ad326ccc7e2"
definition STATUS_RUNNING_VARIANT_ID :: uuid where
  "STATUS_RUNNING_VARIANT_ID = 0xacd79ec60c44401a82f85da5422d3eec"

fun status_variant :: "Status \<Rightarrow> uuid" where
  "status_variant Success = STATUS_SUCCESS_VARIANT_ID"
| "status_variant Failure = STATUS_FAILURE_VARIANT_ID"
| "status_variant Running = STATUS_RUNNING_VARIANT_ID"

definition value_of_status :: "Status \<Rightarrow> Value" where
  "value_of_status s = Enumeration (MkEnumeration STATUS_ENUMERATION_ID (status_variant s) Unit)"

definition status_of_value :: "Value \<Rightarrow> Status option" where
  "status_of_value v =
     (case v of
        Enumeration e \<Rightarrow>
          if en_id e \<noteq> STATUS_ENUMERATION_ID then None
          else if en_variant_id e = STATUS_SUCCESS_VARIANT_ID then Some Success
          else if en_variant_id e = STATUS_FAILURE_VARIANT_ID then Some Failure
          else if en_variant_id e = STATUS_RUNNING_VARIANT_ID then Some Running
          else None
      | _ \<Rightarrow> None)"

lemmas status_ids = STATUS_ENUMERATION_ID_def STATUS_SUCCESS_VARIANT_ID_def
  STATUS_FAILURE_VARIANT_ID_def STATUS_RUNNING_VARIANT_ID_def

lemma status_round_trip [simp]: "status_of_value (value_of_status s) = Some s"
  by (cases s) (simp_all add: status_of_value_def value_of_status_def status_ids)

end
