(* ===== verification/Keys.thy ===== *)
theory Keys
  imports Values
begin

text \<open>
  Keys, states and state changes (\<open>crates/arora-types/src/data/state.rs\<close>): the parts of a key,
  the selection of a sub-value, and the application of a change to a state. A \<open>Key\<close> is the
  newtype of its path, so it is that string. The parser of uuids is the \<open>uuid\<close> crate's: an
  argument, \<open>parse_uuid\<close>.
\<close>

section \<open>Keys\<close>

type_synonym Key = string

definition get_namespace :: "Key \<Rightarrow> string list" where
  "get_namespace self =
     (let parts = split_at_char CHR ''/'' self in
      if length parts \<le> 1 then [] else take (length parts - 1) parts)"

definition get_entity :: "Key \<Rightarrow> string" where
  "get_entity self =
     (if self = [] then []
      else let parts = split_at_char CHR ''/'' self
           in hd (split_at_char CHR ''.'' (parts ! (length parts - 1))))"

definition get_attributes :: "Key \<Rightarrow> string list" where
  "get_attributes self =
     (let parts = split_at_char CHR ''.'' self in
      if length parts \<le> 1 then [] else drop 1 parts)"

definition get_component :: "Key \<Rightarrow> string option" where
  "get_component self = (case get_attributes self of [] \<Rightarrow> None | a # _ \<Rightarrow> Some a)"

definition from_parts :: "string list \<Rightarrow> string \<Rightarrow> string list \<Rightarrow> Key" where
  "from_parts namespace entity attributes =
     (let namespace_str = join ''/'' namespace;
          attributes_str = join ''.'' attributes
      in if namespace_str \<noteq> [] then
           (if attributes_str \<noteq> [] then namespace_str @ ''/'' @ entity @ ''.'' @ attributes_str
            else namespace_str @ ''/'' @ entity)
         else if attributes_str \<noteq> [] then entity @ ''.'' @ attributes_str
         else entity)"

definition with_component :: "Key \<Rightarrow> string \<Rightarrow> Key" where
  "with_component self component =
     (let attributes = get_attributes self;
          attributes = (case attributes of [] \<Rightarrow> [component] | _ # rest \<Rightarrow> component # rest)
      in from_parts (get_namespace self) (get_entity self) attributes)"

section \<open>Selecting a sub-value\<close>

datatype select_error =
    NotAFieldId string
  | FieldMissing uuid
  | EntryMissing string
  | NeitherFieldNorIndex string
  | IndexOutOfBounds nat
  | IndexDoesNotApply nat

text \<open>
  \<open>str::parse::<usize>\<close> on a 64-bit target: an optional plus sign, at least one decimal digit,
  nothing else, and no overflow.
\<close>

fun digits_value :: "nat \<Rightarrow> string \<Rightarrow> nat option" where
  "digits_value n [] = Some n"
| "digits_value n (c # cs) =
     (let d = (of_char c :: nat) in
      if 48 \<le> d \<and> d \<le> 57 \<and> 10 * n + (d - 48) < 2 ^ 64
      then digits_value (10 * n + (d - 48)) cs else None)"

definition parse_usize :: "string \<Rightarrow> nat option" where
  "parse_usize s =
     (let ds = (case s of c # cs \<Rightarrow> if c = CHR ''+'' then cs else s | [] \<Rightarrow> [])
      in if ds = [] then None else digits_value 0 ds)"

definition items_at :: "nat \<Rightarrow> ('a \<Rightarrow> Value) \<Rightarrow> 'a list \<Rightarrow> select_error + Value" where
  "items_at index wrap items =
     (if index < length items then Inr (wrap (items ! index)) else Inl (IndexOutOfBounds index))"

fun select_index :: "Value \<Rightarrow> nat \<Rightarrow> select_error + Value" where
  "select_index (ArrayValue items) index = items_at index (\<lambda>v. v) items"
| "select_index (ArrayF32 items) index = items_at index F32 items"
| "select_index (ArrayF64 items) index = items_at index F64 items"
| "select_index (ArrayI8 items) index = items_at index I8 items"
| "select_index (ArrayI16 items) index = items_at index I16 items"
| "select_index (ArrayI32 items) index = items_at index I32 items"
| "select_index (ArrayI64 items) index = items_at index I64 items"
| "select_index (ArrayU8 items) index = items_at index U8 items"
| "select_index (ArrayU16 items) index = items_at index U16 items"
| "select_index (ArrayU32 items) index = items_at index U32 items"
| "select_index (ArrayU64 items) index = items_at index U64 items"
| "select_index (ArrayBoolean items) index = items_at index Boolean items"
| "select_index (ArrayString items) index = items_at index VString items"
| "select_index _ index = Inl (IndexDoesNotApply index)"

definition select_attribute ::
  "(string \<Rightarrow> uuid option) \<Rightarrow> Value \<Rightarrow> string \<Rightarrow> select_error + Value" where
  "select_attribute parse_uuid v attribute =
     (case v of
        Structure structure \<Rightarrow>
          (case parse_uuid attribute of
             None \<Rightarrow> Inl (NotAFieldId attribute)
           | Some i \<Rightarrow>
               (case find (\<lambda>f. sf_id f = i) (st_fields structure) of
                  None \<Rightarrow> Inl (FieldMissing i)
                | Some f \<Rightarrow> Inr (sf_value f)))
      | KeyValue kv \<Rightarrow>
          (case Option.bind (get_field kv attribute) kf_value of
             None \<Rightarrow> Inl (EntryMissing attribute)
           | Some x \<Rightarrow> Inr x)
      | _ \<Rightarrow>
          (case parse_usize attribute of
             None \<Rightarrow> Inl (NeitherFieldNorIndex attribute)
           | Some index \<Rightarrow> select_index v index))"

fun select_path ::
  "(string \<Rightarrow> uuid option) \<Rightarrow> string list \<Rightarrow> Value \<Rightarrow> select_error + Value" where
  "select_path parse_uuid [] current = Inr current"
| "select_path parse_uuid (attribute # rest) current =
     ebind (select_attribute parse_uuid current attribute) (select_path parse_uuid rest)"

definition select :: "(string \<Rightarrow> uuid option) \<Rightarrow> Key \<Rightarrow> Value \<Rightarrow> select_error + Value" where
  "select parse_uuid self v = select_path parse_uuid (get_attributes self) v"

datatype conversion_error = ExpectedAKey Value

definition value_of_key :: "Key \<Rightarrow> Value" where
  "value_of_key key = VString key"

definition key_of_value :: "Value \<Rightarrow> conversion_error + Key" where
  "key_of_value v = (case v of VString path \<Rightarrow> Inr path | other \<Rightarrow> Inl (ExpectedAKey other))"

section \<open>States and changes\<close>

record State =
  storage :: "(Key, Value option) hash_map"

record StateChange =
  sc_set :: "(Key, Value option) hash_map"
  sc_unset :: "Key hash_set"

definition State_new :: State where
  "State_new = \<lparr>storage = []\<rparr>"

definition State_set :: "State \<Rightarrow> Key \<Rightarrow> Value option \<Rightarrow> State" where
  "State_set self key v = self\<lparr>storage := hm_insert key v (storage self)\<rparr>"

definition State_unset :: "State \<Rightarrow> Key \<Rightarrow> State" where
  "State_unset self key = self\<lparr>storage := hm_remove key (storage self)\<rparr>"

definition State_get :: "State \<Rightarrow> Key \<Rightarrow> Value option option" where
  "State_get self key = hm_get (storage self) key"

definition evaluate_as_bool :: "State \<Rightarrow> Key \<Rightarrow> bool" where
  "evaluate_as_bool self key =
     (case State_get self key of Some (Some (Boolean b)) \<Rightarrow> b | _ \<Rightarrow> False)"

definition State_apply :: "State \<Rightarrow> StateChange \<Rightarrow> State" where
  "State_apply self changes =
     (let st = fold (\<lambda>(key, v) st. hm_insert key v st) (sc_set changes) (storage self);
          st = fold hm_remove (sc_unset changes) st
      in self\<lparr>storage := st\<rparr>)"

definition StateChange_new :: StateChange where
  "StateChange_new = \<lparr>sc_set = [], sc_unset = []\<rparr>"

definition StateChange_set :: "Key \<Rightarrow> Value \<Rightarrow> StateChange" where
  "StateChange_set key v = \<lparr>sc_set = [(key, Some v)], sc_unset = []\<rparr>"

definition StateChange_of :: "Key \<Rightarrow> Value option \<Rightarrow> StateChange" where
  "StateChange_of key v = \<lparr>sc_set = [(key, v)], sc_unset = []\<rparr>"

definition StateChange_from :: "(Key \<times> Value) list \<Rightarrow> StateChange" where
  "StateChange_from v = \<lparr>sc_set = hm_collect (map (\<lambda>(k, v). (k, Some v)) v), sc_unset = []\<rparr>"

definition StateChange_is_empty :: "StateChange \<Rightarrow> bool" where
  "StateChange_is_empty self \<longleftrightarrow> sc_set self = [] \<and> sc_unset self = []"

definition StateChange_len :: "StateChange \<Rightarrow> nat" where
  "StateChange_len self = length (sc_set self) + length (sc_unset self)"

definition StateChange_contains :: "StateChange \<Rightarrow> Key \<Rightarrow> bool" where
  "StateChange_contains self key \<longleftrightarrow> hm_contains (sc_set self) key \<or> key \<in> set (sc_unset self)"

section \<open>Properties of keys\<close>

abbreviation free_of :: "char \<Rightarrow> string list \<Rightarrow> bool" where
  "free_of c ss \<equiv> \<forall>s\<in>set ss. c \<notin> set s"

text \<open>A list of parts survives being joined: it is empty or its join is not.\<close>

definition joinable :: "string \<Rightarrow> string list \<Rightarrow> bool" where
  "joinable sep parts \<longleftrightarrow> parts = [] \<or> join sep parts \<noteq> []"

lemma join_in: "c \<in> set (join sep ss) \<Longrightarrow> c \<in> set sep \<or> (\<exists>s\<in>set ss. c \<in> set s)"
  by (induction sep ss rule: join.induct) auto

lemma join_append:
  "xs \<noteq> [] \<Longrightarrow> ys \<noteq> [] \<Longrightarrow> join sep (xs @ ys) = join sep xs @ sep @ join sep ys"
proof (induction sep xs rule: join.induct)
  case (2 sep x)
  then show ?case by (cases ys) auto
qed auto

lemma from_parts_joins:
  assumes "joinable ''/'' ns" "joinable ''.'' attrs"
  shows "from_parts ns e attrs = join ''/'' (ns @ [join ''.'' (e # attrs)])"
proof -
  have e: "join ''.'' (e # attrs) = (if attrs = [] then e else e @ ''.'' @ join ''.'' attrs)"
    by (cases attrs) auto
  show ?thesis
    using assms by (cases "ns = []") (auto simp: from_parts_def joinable_def e join_append)
qed

lemma from_parts_dots:
  assumes "joinable ''/'' ns" "joinable ''.'' attrs"
  shows "from_parts ns e attrs = join ''.'' (join ''/'' (ns @ [e]) # attrs)"
  using assms
  by (cases "ns = []"; cases attrs) (auto simp: from_parts_def joinable_def join_append)

lemma split_dots:
  assumes "CHR ''.'' \<notin> set e" "free_of CHR ''.'' attrs"
  shows "split_at_char CHR ''.'' (join ''.'' (e # attrs)) = e # attrs"
  by (rule split_at_char_join) (use assms in auto)

lemma split_slashes:
  assumes "joinable ''/'' ns" "joinable ''.'' attrs" "free_of CHR ''/'' (e # ns @ attrs)"
  shows "split_at_char CHR ''/'' (from_parts ns e attrs) = ns @ [join ''.'' (e # attrs)]"
proof -
  have "CHR ''/'' \<notin> set (join ''.'' (e # attrs))"
    using assms(3) join_in [of "CHR ''/''" "''.''" "e # attrs"] by auto
  with assms show ?thesis
    by (subst from_parts_joins) (auto intro!: split_at_char_join)
qed

lemma get_attributes_from_parts:
  assumes "joinable ''/'' ns" "joinable ''.'' attrs" "free_of CHR ''.'' (e # ns @ attrs)"
  shows "get_attributes (from_parts ns e attrs) = attrs"
proof -
  have "CHR ''.'' \<notin> set (join ''/'' (ns @ [e]))"
    using assms(3) join_in [of "CHR ''.''" "''/''" "ns @ [e]"] by auto
  then have "split_at_char CHR ''.'' (from_parts ns e attrs) = join ''/'' (ns @ [e]) # attrs"
    using assms by (simp add: from_parts_dots split_dots)
  then show ?thesis by (auto simp: get_attributes_def Let_def Suc_le_eq)
qed

lemma get_entity_from_parts:
  assumes "joinable ''/'' ns" "joinable ''.'' attrs" "free_of CHR ''/'' (e # ns @ attrs)"
    "free_of CHR ''.'' (e # ns @ attrs)"
  shows "get_entity (from_parts ns e attrs) = e"
proof (cases "from_parts ns e attrs = []")
  case True
  then have "e = []" by (auto simp: from_parts_def Let_def split: if_splits)
  with True show ?thesis by (simp add: get_entity_def)
next
  case False
  then show ?thesis
    using assms by (simp add: get_entity_def split_slashes split_dots Let_def nth_append)
qed

lemma get_namespace_from_parts:
  assumes "joinable ''/'' ns" "joinable ''.'' attrs" "free_of CHR ''/'' (e # ns @ attrs)"
  shows "get_namespace (from_parts ns e attrs) = ns"
  using assms by (auto simp: get_namespace_def split_slashes Let_def Suc_le_eq)

lemmas parts_of_from_parts =
  get_attributes_from_parts get_entity_from_parts get_namespace_from_parts

lemma joinable_Cons: "x \<noteq> [] \<Longrightarrow> joinable sep (x # xs)"
  by (cases xs) (auto simp: joinable_def)



section \<open>Properties of selection\<close>

lemma select_path_append:
  "select_path p (as @ bs) v = ebind (select_path p as v) (select_path p bs)"
proof (induction "as" arbitrary: v)
  case (Cons a "as")
  then show ?case by (cases "select_attribute p v a") auto
qed simp

text \<open>
  Selecting by index agrees with taking the array apart: on every array form but the two
  packed ones it is the element at that index, and an error naming the index when there is none;
  on a packed array of structures or enumerations it is refused whatever the index.
\<close>

theorem select_index_elements:
  "select_index v i =
     (case into_elements v of
        Inl _ \<Rightarrow> Inl (IndexDoesNotApply i)
      | Inr es \<Rightarrow>
          if kind v = TArrayStructure \<or> kind v = TArrayEnumeration then Inl (IndexDoesNotApply i)
          else if i < length es then Inr (es ! i) else Inl (IndexOutOfBounds i))"
  by (cases v) (auto simp: items_at_def)

section \<open>Properties of states\<close>

lemma State_apply_storage:
  "storage (State_apply st c) = fold hm_remove (sc_unset c) (hm_extend (storage st) (sc_set c))"
  by (simp add: State_apply_def hm_extend_def Let_def)

lemma map_of_fold_remove:
  "map_of (fold hm_remove ks m) k = (if k \<in> set ks then None else map_of m k)"
  by (induction ks arbitrary: m) auto

lemma hm_ok_fold_remove: "hm_ok m \<Longrightarrow> hm_ok (fold hm_remove ks m)"
  by (induction ks arbitrary: m) auto

lemma State_get_apply:
  assumes "hm_ok (sc_set c)"
  shows "State_get (State_apply st c) k =
     (if k \<in> set (sc_unset c) then None
      else case map_of (sc_set c) k of Some v \<Rightarrow> Some v | None \<Rightarrow> State_get st k)"
  using assms
  by (auto simp: State_get_def State_apply_storage map_of_fold_remove map_of_rev_distinct map_add_def
      split: option.splits)

lemma State_apply_ok: "hm_ok (storage st) \<Longrightarrow> hm_ok (storage (State_apply st c))"
  by (simp add: State_apply_storage hm_ok_fold_remove)

end
