(* ===== verification/Steps.thy ===== *)
theory Steps
  imports Prelude
begin

text \<open>
  Stateful code that returns a \<open>Result\<close>: a step takes the state and returns the result and the state
  it left; \<open>None\<close> is a panic, or a recursion that goes past the bound it was given.
\<close>

type_synonym ('e, 's, 'a) step = "'s \<Rightarrow> (('e + 'a) \<times> 's) option"

definition act_bind ::
  "('e, 's, 'a) step \<Rightarrow> ('a \<Rightarrow> ('e, 's, 'b) step) \<Rightarrow> ('e, 's, 'b) step" where
  "act_bind m f s = Option.bind (m s) (\<lambda>(r, s). case r of Inl e \<Rightarrow> Some (Inl e, s) | Inr x \<Rightarrow> f x s)"

definition act_return :: "'a \<Rightarrow> ('e, 's, 'a) step" where
  "act_return x s = Some (Inr x, s)"

definition act_fail :: "'e \<Rightarrow> ('e, 's, 'a) step" where
  "act_fail e s = Some (Inl e, s)"

definition act_lift :: "'e + 'a \<Rightarrow> ('e, 's, 'a) step" where
  "act_lift r s = Some (r, s)"

definition act_read :: "('s \<Rightarrow> 'a) \<Rightarrow> ('e, 's, 'a) step" where
  "act_read f s = Some (Inr (f s), s)"

definition act_modify :: "('s \<Rightarrow> 's) \<Rightarrow> ('e, 's, unit) step" where
  "act_modify f s = Some (Inr (), f s)"

definition act_map_err :: "('e \<Rightarrow> 'f) \<Rightarrow> ('e, 's, 'a) step \<Rightarrow> ('f, 's, 'a) step" where
  "act_map_err g m s = map_option (\<lambda>(r, s). (map_sum g id r, s)) (m s)"

lemmas act_defs = act_bind_def act_return_def act_fail_def act_lift_def act_read_def
  act_modify_def act_map_err_def

text \<open>Evaluation decides the first step before it looks at the second.\<close>

lemma act_bind_code [code]:
  "act_bind m f s =
     (case m s of None \<Rightarrow> None
      | Some (r, s) \<Rightarrow> (case r of Inl e \<Rightarrow> Some (Inl e, s) | Inr x \<Rightarrow> f x s))"
  by (simp add: act_bind_def split: option.splits)

lemma act_bind_cong [fundef_cong]:
  "m = m' \<Longrightarrow> (\<And>x. f x = g x) \<Longrightarrow> act_bind m f = act_bind m' g"
  by presburger

lemma act_simps [simp]:
  "act_bind (act_return x) f = f x"
  "act_bind (act_fail e) f = act_fail e"
  "act_bind (act_lift (Inr x)) f = f x"
  "act_bind (act_lift (Inl e)) f = act_fail e"
  by (simp_all add: fun_eq_iff act_defs)

lemma act_bind_return [simp]: "act_bind m act_return = m"
  by (auto simp: fun_eq_iff act_defs split: Option.bind_splits sum.splits)

lemma act_bind_assoc: "act_bind (act_bind m f) g = act_bind m (\<lambda>x. act_bind (f x) g)"
  by (auto simp: fun_eq_iff act_defs split: Option.bind_splits sum.splits)

lemma act_bind_Inr:
  "act_bind m f s = Some (Inr y, s'') \<longleftrightarrow> (\<exists>x s'. m s = Some (Inr x, s') \<and> f x s' = Some (Inr y, s''))"
  by (auto simp: act_bind_def split: Option.bind_splits sum.splits)

text \<open>A loop that stops at the first error, and one that collects what its rounds answer.\<close>

fun act_each :: "('a \<Rightarrow> ('e, 's, unit) step) \<Rightarrow> 'a list \<Rightarrow> ('e, 's, unit) step" where
  "act_each f [] = act_return ()"
| "act_each f (x # xs) = act_bind (f x) (\<lambda>_. act_each f xs)"

fun act_times :: "nat \<Rightarrow> ('e, 's, 'a) step \<Rightarrow> ('e, 's, 'a list) step" where
  "act_times 0 m = act_return []"
| "act_times (Suc n) m = act_bind m (\<lambda>x. act_bind (act_times n m) (\<lambda>xs. act_return (x # xs)))"

fun act_map :: "('a \<Rightarrow> ('e, 's, 'b) step) \<Rightarrow> 'a list \<Rightarrow> ('e, 's, 'b list) step" where
  "act_map f [] = act_return []"
| "act_map f (x # xs) = act_bind (f x) (\<lambda>y. act_bind (act_map f xs) (\<lambda>ys. act_return (y # ys)))"

text \<open>A step that never panics, from any state.\<close>

definition act_ends :: "('e, 's, 'a) step \<Rightarrow> bool" where
  "act_ends m \<longleftrightarrow> (\<forall>s. m s \<noteq> None)"

lemma act_ends_simps [simp]:
  "act_ends (act_return x)" "act_ends (act_fail e)" "act_ends (act_lift r)" "act_ends (act_read g)" "act_ends (act_modify h)"
  by (simp_all add: act_ends_def act_defs)

lemma act_ends_bind: "act_ends m \<Longrightarrow> (\<And>x. act_ends (f x)) \<Longrightarrow> act_ends (act_bind m f)"
  unfolding act_ends_def act_bind_def by (auto split: Option.bind_splits sum.splits)

lemma act_ends_each: "(\<And>x. x \<in> set xs \<Longrightarrow> act_ends (f x)) \<Longrightarrow> act_ends (act_each f xs)"
  by (induction xs) (auto intro!: act_ends_bind)

lemma act_ends_times: "act_ends m \<Longrightarrow> act_ends (act_times n m)"
  by (induction n) (auto intro!: act_ends_bind)

lemma act_ends_map: "(\<And>x. x \<in> set xs \<Longrightarrow> act_ends (f x)) \<Longrightarrow> act_ends (act_map f xs)"
  by (induction xs) (auto intro!: act_ends_bind)

end
