(* ===== verification/Tree_Cells.thy ===== *)
theory Tree_Cells
  imports Record_Types Calls Keys Steps
begin

text \<open>
  The data of the behavior tree (crate \<open>crates/arora-behavior-tree\<close>): its nodes and their argument
  expressions (\<open>schema.rs\<close>), the cells its variables live in (\<open>variable.rs\<close>), the record a trace
  reads (\<open>trace.rs\<close>), its errors (\<open>error.rs\<close>), and the registry its ticks are called through
  (\<open>crates/arora-engine/src/call.rs\<close>).

  Cells are shared by reference, so a tree-local cell is an address into a heap; a store slot is
  named by the key it was resolved for. What is not this repository's code, or is reached through a
  trait object, is a field of the record \<open>seams\<close>.
\<close>

section \<open>Expressions and nodes\<close>

datatype VariableCell = LocalCell nat | StoredCell Key

record NodeParameterId =
  np_node :: uuid
  np_parameter :: uuid

datatype Expression =
    EValue Value
  | EUuid uuid
  | EVariable VariableCell
  | EVariableId uuid
  | ENodeArgument NodeParameterId
  | ESelect Expression Key
  | ECall CallExpression
and CallExpression =
    CallExpression (ce_module: Expression) (ce_function: Expression)
      (ce_arguments: "(Expression \<times> Expression) list")

record TreeNode =
  tn_id :: uuid
  tn_function :: uuid
  tn_arguments :: "(uuid, Expression) hash_map"
  tn_children :: "uuid list option"

definition RET_PARAM_ID :: uuid where
  "RET_PARAM_ID = 0x5f726574000040008000000000000000"

datatype BehaviorTreeError =
    ParsingError
  | InconsistentTreeError
  | TreeCallError CallError
  | ConversionError
  | VariableNotFound uuid uuid
  | ChildNodeNotFound uuid uuid
  | MissingChildrenParameter uuid uuid
  | InternalError

section \<open>The state of a tree and the device around it\<close>

text \<open>The keys a \<open>Scatter\<close> node last resolved, and their slots.\<close>

record Bound =
  bd_keys :: "Value option"
  bd_slots :: "Key list"

definition Bound_default :: Bound where
  "Bound_default = \<lparr>bd_keys = None, bd_slots = []\<rparr>"

record Scatter =
  scat_node :: uuid
  scat_within :: string
  scat_resolver :: "(string \<Rightarrow> Key option) option"

datatype Outputs = OutPorts "VariableCell option list" | OutKeys Scatter

type_synonym function_index = "FrozenFunction FunctionIndex"

record TickFunction =
  tf_node :: TreeNode
  tf_function :: "FrozenFunction ModuleFunction option"
  tf_calls :: function_index
  tf_argument_order :: "uuid list"
  tf_locals :: "(uuid, VariableCell) hash_map"
  tf_cells :: "(NodeParameterId, VariableCell) hash_map"
  tf_pulls :: "nat list option"
  tf_outputs :: "Outputs option"
  tf_children :: "u64 list"

record TickRecord =
  tr_on :: bool
  tr_statuses :: "(uuid \<times> Status) list"
  tr_watched :: "uuid hash_set"
  tr_returns :: "(uuid \<times> Value option) list"

record 'w tree_state =
  ts_heap :: "nat \<Rightarrow> Value option"
  ts_next :: nat
  ts_bound :: "uuid \<Rightarrow> Bound"
  ts_callables :: "(u64, TickFunction) hash_map"
  ts_record :: TickRecord
  ts_world :: 'w

type_synonym ('w, 'a) act = "(BehaviorTreeError, 'w tree_state, 'a) step"

record 'w seams =
  sm_crates :: crates
  sm_parse_uuid :: "string \<Rightarrow> uuid option"
  sm_regex :: "string \<Rightarrow> (string \<Rightarrow> string option) option"
  sm_to_string :: "BehaviorTreeError \<Rightarrow> string"
  sm_call_of_value :: "Value \<Rightarrow> Call option"
  sm_next_u64 :: "'w \<Rightarrow> u64 \<times> 'w"
  sm_slot_get :: "'w \<Rightarrow> Key \<Rightarrow> Value option"
  sm_slot_set :: "'w \<Rightarrow> Key \<Rightarrow> Value option \<Rightarrow> 'w"
  sm_pull :: "nat list \<Rightarrow> ('w, unit) act"
  sm_dispatch :: "(u64 \<Rightarrow> (CallError, 'w tree_state, Value) step) \<Rightarrow> Call \<Rightarrow>
    (CallError, 'w tree_state, CallResult) step"

section \<open>Cells\<close>

definition cell_get :: "'w seams \<Rightarrow> VariableCell \<Rightarrow> 'w tree_state \<Rightarrow> Value option" where
  "cell_get H c s = (case c of LocalCell a \<Rightarrow> ts_heap s a | StoredCell k \<Rightarrow> sm_slot_get H (ts_world s) k)"

definition get_or_unit :: "'w seams \<Rightarrow> VariableCell \<Rightarrow> 'w tree_state \<Rightarrow> Value" where
  "get_or_unit H c s = (case cell_get H c s of None \<Rightarrow> Unit | Some v \<Rightarrow> v)"

definition set_opt :: "'w seams \<Rightarrow> VariableCell \<Rightarrow> Value option \<Rightarrow> 'w tree_state \<Rightarrow> 'w tree_state" where
  "set_opt H c v s =
     (case c of
        LocalCell a \<Rightarrow> s\<lparr>ts_heap := (ts_heap s)(a := v)\<rparr>
      | StoredCell k \<Rightarrow> s\<lparr>ts_world := sm_slot_set H (ts_world s) k v\<rparr>)"

definition cell_set :: "'w seams \<Rightarrow> VariableCell \<Rightarrow> Value \<Rightarrow> 'w tree_state \<Rightarrow> 'w tree_state" where
  "cell_set H c v s = set_opt H c (Some v) s"

definition local_with :: "Value option \<Rightarrow> 'w tree_state \<Rightarrow> VariableCell \<times> 'w tree_state" where
  "local_with v s =
     (LocalCell (ts_next s), s\<lparr>ts_heap := (ts_heap s)(ts_next s := v), ts_next := Suc (ts_next s)\<rparr>)"

definition is_tree_local :: "string \<Rightarrow> bool" where
  "is_tree_local name \<longleftrightarrow> starts_with name ''.''"

text \<open>
  The contract of \<open>Slot\<close> a cell relies on: a slot reads what was last written to it, up to the
  equality of values, which a write of an equal value leaves as it was; writing one leaves the
  others.
\<close>

definition held_as :: "Value option \<Rightarrow> Value option \<Rightarrow> bool" where
  "held_as held v \<longleftrightarrow> held = v \<or> value_opt_eq held v"

locale slot_host =
  fixes H :: "'w seams" and slot_inv :: "'w \<Rightarrow> bool"
  assumes slot_set_inv: "slot_inv w \<Longrightarrow> slot_inv (sm_slot_set H w k v)"
    and slot_get_set: "slot_inv w \<Longrightarrow> held_as (sm_slot_get H (sm_slot_set H w k v) k) v"
    and slot_get_other: "slot_inv w \<Longrightarrow> k' \<noteq> k \<Longrightarrow>
      sm_slot_get H (sm_slot_set H w k v) k' = sm_slot_get H w k'"
begin

lemma cell_get_set: "slot_inv (ts_world s) \<Longrightarrow> held_as (cell_get H c (set_opt H c v s)) v"
  using slot_get_set by (cases c) (auto simp: cell_get_def set_opt_def held_as_def)

lemma cell_get_other:
  "slot_inv (ts_world s) \<Longrightarrow> c' \<noteq> c \<Longrightarrow> cell_get H c' (set_opt H c v s) = cell_get H c' s"
  using slot_get_other by (cases c; cases c') (auto simp: cell_get_def set_opt_def)

lemma set_opt_inv: "slot_inv (ts_world s) \<Longrightarrow> slot_inv (ts_world (set_opt H c v s))"
  using slot_set_inv by (cases c) (auto simp: set_opt_def)

end

section \<open>The record of a tick\<close>

definition TickRecord_default :: TickRecord where
  "TickRecord_default = \<lparr>tr_on = False, tr_statuses = [], tr_watched = [], tr_returns = []\<rparr>"

definition record_set_on :: "bool \<Rightarrow> TickRecord \<Rightarrow> TickRecord" where
  "record_set_on on r =
     (if on then r\<lparr>tr_on := on\<rparr> else r\<lparr>tr_on := on, tr_statuses := [], tr_returns := []\<rparr>)"

definition record_returned :: "uuid \<Rightarrow> Value \<Rightarrow> bool \<Rightarrow> TickRecord \<Rightarrow> TickRecord" where
  "record_returned node v optional r =
     (let kept = (case v of
          Enumeration e \<Rightarrow> if en_id e = STATUS_ENUMERATION_ID then None else Some v
        | VOption held \<Rightarrow> if optional then held else Some v
        | _ \<Rightarrow> Some v)
      in r\<lparr>tr_returns := tr_returns r @ [(node, kept)]\<rparr>)"

definition record_status :: "uuid \<Rightarrow> Status \<Rightarrow> TickRecord \<Rightarrow> TickRecord" where
  "record_status node status r = r\<lparr>tr_statuses := tr_statuses r @ [(node, status)]\<rparr>"

section \<open>The registry of callables\<close>

text \<open>Identifiers are drawn until one is free: a loop that ends when the generator yields a free one.\<close>

partial_function (option) generate_unique_callable_id ::
  "'w seams \<Rightarrow> (u64, TickFunction) hash_map \<Rightarrow> 'w \<Rightarrow> (u64 \<times> 'w) option" where
  "generate_unique_callable_id H callables w =
     (case sm_next_u64 H w of (i, w) \<Rightarrow>
        if hm_contains callables i then generate_unique_callable_id H callables w else Some (i, w))"

definition register_callable ::
  "'w seams \<Rightarrow> TickFunction \<Rightarrow> (CallError, 'w tree_state, u64) step" where
  "register_callable H callable s =
     do { (i, w) \<leftarrow> generate_unique_callable_id H (ts_callables s) (ts_world s);
          let s' = s\<lparr>ts_world := w\<rparr>;
          (if hm_contains (ts_callables s) i then Some (Inl (CallGeneric ''taken''), s')
           else Some (Inr i, s'\<lparr>ts_callables := hm_insert i callable (ts_callables s)\<rparr>)) }"

definition find_callable :: "u64 \<Rightarrow> 'w tree_state \<Rightarrow> CallError + TickFunction" where
  "find_callable i s =
     (case hm_get (ts_callables s) i of
        None \<Rightarrow> Inl (CallGeneric ''cannot find callable'')
      | Some c \<Rightarrow> Inr c)"

text \<open>The engine unwraps the registry's answer: unregistering an unknown id panics.\<close>

definition unregister_callable :: "u64 \<Rightarrow> 'w tree_state \<Rightarrow> 'w tree_state option" where
  "unregister_callable i s =
     (if hm_contains (ts_callables s) i
      then Some (s\<lparr>ts_callables := hm_remove i (ts_callables s)\<rparr>) else None)"

end
