(* ===== verification/Tree_Expr.thy ===== *)
theory Tree_Expr
  imports Tree_Cells
begin

text \<open>
  Argument expressions of a behavior tree and the calls they state
  (\<open>crates/arora-behavior-tree/src/behavior_tree.rs\<close>, "Other helpers" and "Call expressions"):
  what an expression evaluates to, in which order its calls are made, how arguments are framed for
  optional parameters and written back.
\<close>

section \<open>Framing arguments\<close>

definition is_optional :: "FrozenFunction \<Rightarrow> uuid \<Rightarrow> bool" where
  "is_optional f parameter \<longleftrightarrow>
     (case hm_get (fn_parameters f) parameter of None \<Rightarrow> False | Some p \<Rightarrow> ty_is_option (fp_ty p))"

fun argument_value :: "Value option \<Rightarrow> bool \<Rightarrow> Value" where
  "argument_value (Some (VOption w)) _ = VOption w"
| "argument_value (Some v) True = VOption (Some v)"
| "argument_value (Some v) False = v"
| "argument_value None True = VOption None"
| "argument_value None False = Unit"

definition write_back ::
  "'w seams \<Rightarrow> VariableCell \<Rightarrow> Value \<Rightarrow> bool \<Rightarrow> 'w tree_state \<Rightarrow> 'w tree_state" where
  "write_back H c v optional s =
     (case v of
        VOption (Some w) \<Rightarrow> if optional then cell_set H c w s else cell_set H c v s
      | VOption None \<Rightarrow>
          if optional then (if cell_get H c s \<noteq> None then set_opt H c None s else s)
          else cell_set H c v s
      | _ \<Rightarrow> cell_set H c v s)"

text \<open>A value that is kept: \<open>Some(value).filter(|value| *value != Value::Unit)\<close>.\<close>

definition present :: "Value \<Rightarrow> Value option" where
  "present v = (if v = Unit then None else Some v)"

section \<open>Looking up\<close>

record Scope =
  sc_variables :: "(uuid, VariableCell) hash_map"
  sc_cells :: "(NodeParameterId, VariableCell) hash_map"
  sc_calls :: function_index

definition get_variable ::
  "(uuid, VariableCell) hash_map \<Rightarrow> uuid \<Rightarrow> uuid \<Rightarrow> BehaviorTreeError + VariableCell" where
  "get_variable variables variable node =
     (case hm_get variables variable of
        None \<Rightarrow> Inl (VariableNotFound variable node)
      | Some c \<Rightarrow> Inr c)"

definition get_node_parameter_variable ::
  "NodeParameterId \<Rightarrow> (NodeParameterId, VariableCell) hash_map \<Rightarrow> BehaviorTreeError + VariableCell" where
  "get_node_parameter_variable at cells =
     (case hm_get cells at of None \<Rightarrow> Inl InconsistentTreeError | Some c \<Rightarrow> Inr c)"

definition bt_select :: "'w seams \<Rightarrow> Key \<Rightarrow> Value \<Rightarrow> BehaviorTreeError + Value" where
  "bt_select H path v =
     (if v = Unit then Inr Unit
      else case select (sm_parse_uuid H) path v of
        Inl _ \<Rightarrow> Inl InconsistentTreeError
      | Inr w \<Rightarrow> Inr w)"

definition try_into_uuid :: "'w seams \<Rightarrow> Value \<Rightarrow> BehaviorTreeError + uuid" where
  "try_into_uuid H v =
     (case v of
        ArrayU8 bytes \<Rightarrow>
          (case from_slice (sm_crates H) bytes of None \<Rightarrow> Inl ConversionError | Some u \<Rightarrow> Inr u)
      | _ \<Rightarrow> Inl ConversionError)"

definition read_cell :: "'w seams \<Rightarrow> BehaviorTreeError + VariableCell \<Rightarrow> ('w, Value) act" where
  "read_cell H c = act_bind (act_lift c) (\<lambda>c. act_read (get_or_unit H c))"

definition stated_id :: "'w seams \<Rightarrow> Expression \<Rightarrow> uuid option" where
  "stated_id H e =
     (case e of
        EUuid i \<Rightarrow> Some i
      | EValue (ArrayU8 bytes) \<Rightarrow> from_slice (sm_crates H) bytes
      | EValue (VUuid i) \<Rightarrow> Some i
      | _ \<Rightarrow> None)"

definition written_cell :: "Scope \<Rightarrow> Expression \<Rightarrow> VariableCell option" where
  "written_cell scope argument =
     (case argument of
        EVariable c \<Rightarrow> Some c
      | EVariableId i \<Rightarrow> hm_get (sc_variables scope) i
      | ENodeArgument at \<Rightarrow> hm_get (sc_cells scope) at
      | _ \<Rightarrow> None)"

text \<open>\<open>LOAD\<close>, \<open>EDIT\<close>, \<open>READ\<close>, \<open>SPAWN\<close>, \<open>SPAWN_GRAPH\<close>, \<open>TRACE\<close> and \<open>HALT\<close>.\<close>

definition is_interpreter_function_id :: "uuid \<Rightarrow> bool" where
  "is_interpreter_function_id f \<longleftrightarrow> f \<in>
     {0x61726f72610000000000000000000004, 0x61726f72610000000000000000000002,
      0x61726f72610000000000000000000012, 0x61726f72610000000000000000000006,
      0x61726f7261000000000000000000000b, 0x61726f72610000000000000000000010,
      0x61726f72610000000000000000000009}"

section \<open>Evaluation\<close>

text \<open>
  The recursive call on a part of the expression is the argument \<open>rec\<close>, and \<open>call\<close> is the bridge's
  dispatch.
\<close>

definition compute_uuid ::
  "'w seams \<Rightarrow> Scope \<Rightarrow> uuid \<Rightarrow> (Expression \<Rightarrow> ('w, Value) act) \<Rightarrow> Expression \<Rightarrow> ('w, uuid) act" where
  "compute_uuid H scope node rec e =
     (case e of
        EUuid u \<Rightarrow> act_return u
      | EVariableId i \<Rightarrow>
          act_bind (read_cell H (get_variable (sc_variables scope) i node)) (\<lambda>v. act_lift (try_into_uuid H v))
      | _ \<Rightarrow> act_bind (rec e) (\<lambda>v. act_lift (try_into_uuid H v)))"

lemma compute_uuid_cong [fundef_cong]:
  "H = H' \<Longrightarrow> scope = scope' \<Longrightarrow> node = node' \<Longrightarrow> e = e' \<Longrightarrow> rec e' = rec' e' \<Longrightarrow>
     compute_uuid H scope node rec e = compute_uuid H' scope' node' rec' e'"
  by (cases e') (simp_all add: compute_uuid_def)

text \<open>The arguments a call passes, those it may write back, and those it may not.\<close>

type_synonym arguments =
  "Value StructureField list \<times> (uuid \<times> VariableCell \<times> bool) list \<times> uuid list"

fun call_arguments ::
  "Scope \<Rightarrow> FrozenFunction option \<Rightarrow> (Expression \<Rightarrow> ('w, uuid) act) \<Rightarrow> (Expression \<Rightarrow> ('w, Value) act) \<Rightarrow>
   (Expression \<times> Expression) list \<Rightarrow> arguments \<Rightarrow> ('w, arguments) act" where
  "call_arguments scope f id_of value_of [] acc = act_return acc"
| "call_arguments scope f id_of value_of ((parameter, argument) # rest) (args, written, unwritable) =
     act_bind (id_of parameter) (\<lambda>arg_id.
     act_bind (value_of argument) (\<lambda>v.
       let optional = (case f of None \<Rightarrow> False | Some f \<Rightarrow> is_optional f arg_id);
           (written, unwritable) =
             (case written_cell scope argument of
                Some c \<Rightarrow> (written @ [(arg_id, c, optional)], unwritable)
              | None \<Rightarrow> (written, unwritable @ [arg_id]))
       in call_arguments scope f id_of value_of rest
            (args @ [StructureField arg_id (argument_value (present v) optional)], written, unwritable)))"

lemma call_arguments_cong [fundef_cong]:
  assumes "scope = scope'" "f = f'" "args = args'" "acc = acc'"
    "\<And>p a. (p, a) \<in> set args' \<Longrightarrow> id_of p = id_of' p"
    "\<And>p a. (p, a) \<in> set args' \<Longrightarrow> value_of a = value_of' a"
  shows "call_arguments scope f id_of value_of args acc = call_arguments scope' f' id_of' value_of' args' acc'"
  using assms(5,6) unfolding assms(1-4)
proof (induction args' arbitrary: acc')
  case (Cons x rest)
  obtain p a where x: "x = (p, a)" by (cases x)
  obtain args written unwritable where acc: "acc' = (args, written, unwritable)" by (cases acc') auto
  have "id_of p = id_of' p" "value_of a = value_of' a" using Cons.prems by (auto simp: x)
  moreover have "call_arguments scope' f' id_of value_of rest acc = call_arguments scope' f' id_of' value_of' rest acc"
    for acc using Cons.prems by (intro Cons.IH) auto
  ultimately show ?case unfolding x acc call_arguments.simps by presburger
qed simp

fun write_mutated ::
  "'w seams \<Rightarrow> (uuid \<times> VariableCell \<times> bool) list \<Rightarrow> uuid list \<Rightarrow> Value StructureField list \<Rightarrow> ('w, unit) act" where
  "write_mutated H written unwritable [] = act_return ()"
| "write_mutated H written unwritable (m # ms) =
     (case find (\<lambda>(i, _). i = sf_id m) written of
        Some (_, c, optional) \<Rightarrow>
          act_bind (act_modify (write_back H c (sf_value m) optional)) (\<lambda>_. write_mutated H written unwritable ms)
      | None \<Rightarrow>
          if sf_id m \<in> set unwritable then act_fail InconsistentTreeError
          else write_mutated H written unwritable ms)"

lemma call_argument_size:
  "(p, a) \<in> set args \<Longrightarrow> size p < Suc (size_list (size_prod size size) args)"
  "(p, a) \<in> set args \<Longrightarrow> size a < Suc (size_list (size_prod size size) args)"
  by (induction args) auto

type_synonym 'w dispatch = "Call \<Rightarrow> (CallError, 'w tree_state, CallResult) step"

function compute_expression ::
  "'w seams \<Rightarrow> 'w dispatch \<Rightarrow> Scope \<Rightarrow> uuid \<Rightarrow> Expression \<Rightarrow> ('w, Value) act" where
  "compute_expression H call scope node (EValue v) = act_return v"
| "compute_expression H call scope node (EUuid u) = act_return (ArrayU8 (as_bytes (sm_crates H) u))"
| "compute_expression H call scope node (EVariable c) = act_read (get_or_unit H c)"
| "compute_expression H call scope node (EVariableId i) =
     read_cell H (get_variable (sc_variables scope) i node)"
| "compute_expression H call scope node (ENodeArgument at) =
     read_cell H (get_node_parameter_variable at (sc_cells scope))"
| "compute_expression H call scope node (ESelect source path) =
     act_bind (compute_expression H call scope node source) (\<lambda>v. act_lift (bt_select H path v))"
| "compute_expression H call scope node (ECall (CallExpression m f arguments)) =
     act_bind (compute_uuid H scope node (compute_expression H call scope node) m) (\<lambda>module_id.
     act_bind (compute_uuid H scope node (compute_expression H call scope node) f) (\<lambda>function_id.
     if is_interpreter_function_id function_id then act_fail InconsistentTreeError
     else act_bind (call_arguments scope (map_option mf_function (hm_get (sc_calls scope) function_id))
            (compute_uuid H scope node (compute_expression H call scope node))
            (compute_expression H call scope node) arguments ([], [], [])) (\<lambda>(args, written, unwritable).
          act_bind (act_map_err TreeCallError
              (call \<lparr>call_module_id = Some module_id, call_id = function_id, call_args = args\<rparr>)) (\<lambda>result.
          act_bind (write_mutated H written unwritable (cr_mutated result)) (\<lambda>_.
            act_return (cr_ret result))))))"
  by pat_completeness auto

termination
  by (relation "measure (\<lambda>(_, _, _, _, e). size e)") (auto dest: call_argument_size)

end
