(* ===== verification/Data_Store.thy ===== *)
theory Data_Store
  imports Keys
begin

text \<open>
  The data-store interface (\<open>crates/arora-types/src/data/store.rs\<close>): the description of a key,
  prefixes, the subscription to a store's changes, and the \<open>DataStore\<close> trait. A trait object is
  a record of its methods, each taking and returning the state behind it; its contract is the
  locale \<open>data_store\<close>.
\<close>

section \<open>Errors and key descriptions\<close>

datatype DataError = NoSuchKey string | OtherError

record KeyMeta =
  km_ty :: "Type option"
  km_min :: "u64 option"
  km_max :: "u64 option"
  km_unit :: "string option"
  km_default :: "Value option"
  km_description :: "string option"
  km_editable :: bool

definition KeyMeta_new :: KeyMeta where
  "KeyMeta_new = \<lparr>km_ty = None, km_min = None, km_max = None, km_unit = None, km_default = None,
     km_description = None, km_editable = False\<rparr>"

definition editable :: "KeyMeta \<Rightarrow> KeyMeta" where
  "editable self = self\<lparr>km_editable := True\<rparr>"

definition range_between :: "KeyMeta \<Rightarrow> u64 \<Rightarrow> u64 \<Rightarrow> KeyMeta" where
  "range_between self lo hi = self\<lparr>km_min := Some lo, km_max := Some hi\<rparr>"

definition in_unit :: "KeyMeta \<Rightarrow> string \<Rightarrow> KeyMeta" where
  "in_unit self unit = self\<lparr>km_unit := Some unit\<rparr>"

definition resting_at :: "KeyMeta \<Rightarrow> Value \<Rightarrow> KeyMeta" where
  "resting_at self v = self\<lparr>km_default := Some v\<rparr>"

definition described :: "KeyMeta \<Rightarrow> string \<Rightarrow> KeyMeta" where
  "described self description = self\<lparr>km_description := Some description\<rparr>"

definition of_type :: "KeyMeta \<Rightarrow> Type \<Rightarrow> KeyMeta" where
  "of_type self ty = self\<lparr>km_ty := Some ty\<rparr>"

section \<open>Prefixes\<close>

definition prefix_covers :: "string \<Rightarrow> string \<Rightarrow> bool" where
  "prefix_covers p path \<longleftrightarrow>
     p = [] \<or> path = p \<or>
     (starts_with path p \<and> length p < length path \<and> path ! length p = CHR ''/'')"

definition keep_under :: "string \<Rightarrow> StateChange \<Rightarrow> StateChange" where
  "keep_under p change =
     (if list_all (prefix_covers p) (hm_keys (sc_set change) @ sc_unset change) then change
      else \<lparr>sc_set = hm_collect (filter (\<lambda>(key, _). prefix_covers p key) (sc_set change)),
            sc_unset = hs_collect (filter (prefix_covers p) (sc_unset change))\<rparr>)"

section \<open>Subscriptions\<close>

text \<open>
  A receiver is the number of its channel; the changes waiting in the channel are an argument of
  the operations that take them.
\<close>

record Translation =
  translate :: "StateChange \<Rightarrow> StateChange"
  opened :: bool

record Subscription =
  rx :: nat
  translation :: "Translation option"

definition Subscription_new :: "nat \<Rightarrow> Subscription" where
  "Subscription_new r = \<lparr>rx = r, translation = None\<rparr>"

definition Subscription_map :: "Subscription \<Rightarrow> (StateChange \<Rightarrow> StateChange) \<Rightarrow> Subscription" where
  "Subscription_map self f =
     self\<lparr>translation := Some
       (case translation self of
          None \<Rightarrow> \<lparr>translate = f, opened = False\<rparr>
        | Some t \<Rightarrow> \<lparr>translate = (\<lambda>change. f (translate t change)), opened = opened t\<rparr>)\<rparr>"

definition deliver :: "Subscription \<Rightarrow> StateChange \<Rightarrow> StateChange option \<times> Subscription" where
  "deliver self change =
     (case translation self of
        None \<Rightarrow> (Some change, self)
      | Some t \<Rightarrow>
          let change = translate t change;
              was_opened = opened t;
              self = self\<lparr>translation := Some (t\<lparr>opened := True\<rparr>)\<rparr>
          in (if \<not> was_opened \<or> \<not> StateChange_is_empty change then Some change else None, self))"

text \<open>\<open>try_recv\<close>: the outcome, the subscription and what is left in the channel.\<close>

fun try_recv ::
  "Subscription \<Rightarrow> StateChange list \<Rightarrow> StateChange option \<times> Subscription \<times> StateChange list" where
  "try_recv self [] = (None, self, [])"
| "try_recv self (c # queue) =
     (case deliver self c of
        (Some change, self) \<Rightarrow> (Some change, self, queue)
      | (None, self) \<Rightarrow> try_recv self queue)"

text \<open>
  \<open>recv\<close> blocks on an open channel with nothing deliverable in it; the flag says whether the
  store's end of the channel is still there.
\<close>

datatype recv_outcome = Received StateChange | StoreDropped | Blocks

definition recv ::
  "bool \<Rightarrow> Subscription \<Rightarrow> StateChange list \<Rightarrow> recv_outcome \<times> Subscription \<times> StateChange list" where
  "recv connected self queue =
     (case try_recv self queue of
        (Some change, self, queue) \<Rightarrow> (Received change, self, queue)
      | (None, self, queue) \<Rightarrow> (if connected then Blocks else StoreDropped, self, queue))"

fun try_iter :: "Subscription \<Rightarrow> StateChange list \<Rightarrow> StateChange list \<times> Subscription" where
  "try_iter self [] = ([], self)"
| "try_iter self (c # queue) =
     (case deliver self c of
        (Some change, self) \<Rightarrow> (case try_iter self queue of (cs, self) \<Rightarrow> (change # cs, self))
      | (None, self) \<Rightarrow> try_iter self queue)"

section \<open>The trait\<close>

record ('s, 'slot) DataStore =
  ds_read :: "'s \<Rightarrow> Key list \<Rightarrow> Value option list"
  ds_write :: "'s \<Rightarrow> StateChange \<Rightarrow> (DataError + unit) \<times> 's"
  ds_snapshot :: "'s \<Rightarrow> State"
  ds_slot :: "'s \<Rightarrow> Key \<Rightarrow> 'slot \<times> 's"
  ds_slot_get :: "'s \<Rightarrow> 'slot \<Rightarrow> Value option"
  ds_slot_set :: "'s \<Rightarrow> 'slot \<Rightarrow> Value option \<Rightarrow> (DataError + unit) \<times> 's"
  ds_subscribe :: "'s \<Rightarrow> Subscription \<times> 's"
  ds_subscribe_prefix :: "'s \<Rightarrow> string \<Rightarrow> Subscription \<times> 's"
  ds_meta :: "'s \<Rightarrow> Key list \<Rightarrow> KeyMeta option list"
  ds_all_meta :: "'s \<Rightarrow> (Key, KeyMeta) hash_map"
  ds_set_meta :: "'s \<Rightarrow> (Key, KeyMeta) hash_map \<Rightarrow> (DataError + unit) \<times> 's"
  ds_set_prefix_meta :: "'s \<Rightarrow> (string, KeyMeta) hash_map \<Rightarrow> (DataError + unit) \<times> 's"

text \<open>The methods the trait itself supplies.\<close>

definition default_subscribe_prefix ::
  "('s \<Rightarrow> Subscription \<times> 's) \<Rightarrow> 's \<Rightarrow> string \<Rightarrow> Subscription \<times> 's" where
  "default_subscribe_prefix subscribe self p =
     (case subscribe self of (sub, self) \<Rightarrow> (Subscription_map sub (keep_under p), self))"

definition default_meta :: "'s \<Rightarrow> Key list \<Rightarrow> KeyMeta option list" where
  "default_meta self keys = replicate (length keys) None"

definition default_all_meta :: "'s \<Rightarrow> (Key, KeyMeta) hash_map" where
  "default_all_meta self = []"

definition default_set_meta :: "'s \<Rightarrow> (string, KeyMeta) hash_map \<Rightarrow> (DataError + unit) \<times> 's" where
  "default_set_meta self m = (Inl OtherError, self)"

text \<open>One key read alone.\<close>

definition ds_value :: "('s, 'slot) DataStore \<Rightarrow> 's \<Rightarrow> Key \<Rightarrow> Value option" where
  "ds_value D s k = hd (ds_read D s [k])"

text \<open>
  What a key holds after it is set: a write equal to the value it holds is no change, so the
  stored representation stays.
\<close>

definition settle :: "Value option \<Rightarrow> Value option \<Rightarrow> Value option" where
  "settle old new = (if value_opt_eq old new then old else new)"

definition written :: "StateChange \<Rightarrow> Key \<Rightarrow> Value option \<Rightarrow> Value option" where
  "written c k old =
     (if k \<in> set (sc_unset c) then None
      else case map_of (sc_set c) k of Some v \<Rightarrow> settle old v | None \<Rightarrow> old)"

abbreviation change_ok :: "StateChange \<Rightarrow> bool" where
  "change_ok c \<equiv> hm_ok (sc_set c) \<and> distinct (sc_unset c)"

text \<open>
  The contract: reads are point-wise and agree with the snapshot, a write changes the keys it
  names and no other, and a slot is the key it was resolved from (\<open>names s h k\<close>: the handle
  \<open>h\<close> stands for key \<open>k\<close> in state \<open>s\<close>).
\<close>

locale data_store =
  fixes D :: "('s, 'slot) DataStore"
    and inv :: "'s \<Rightarrow> bool"
    and names :: "'s \<Rightarrow> 'slot \<Rightarrow> Key \<Rightarrow> bool"
  assumes read_map: "inv s \<Longrightarrow> ds_read D s ks = map (ds_value D s) ks"
    and snapshot_ok: "inv s \<Longrightarrow> hm_ok (storage (ds_snapshot D s))"
    and snapshot_value:
      "inv s \<Longrightarrow> ds_value D s k = Option.bind (State_get (ds_snapshot D s) k) (\<lambda>v. v)"
    and write_inv: "inv s \<Longrightarrow> change_ok c \<Longrightarrow> inv (snd (ds_write D s c))"
    and write_result: "inv s \<Longrightarrow> change_ok c \<Longrightarrow> fst (ds_write D s c) = Inr ()"
    and write_value:
      "inv s \<Longrightarrow> change_ok c \<Longrightarrow>
         ds_value D (snd (ds_write D s c)) k = written c k (ds_value D s k)"
    and slot_inv: "inv s \<Longrightarrow> inv (snd (ds_slot D s k))"
    and slot_names: "inv s \<Longrightarrow> names (snd (ds_slot D s k)) (fst (ds_slot D s k)) k"
    and slot_value: "inv s \<Longrightarrow> ds_value D (snd (ds_slot D s k)) k' = ds_value D s k'"
    and slot_get: "inv s \<Longrightarrow> names s h k \<Longrightarrow> ds_slot_get D s h = ds_value D s k"
    and slot_set_inv: "inv s \<Longrightarrow> names s h k \<Longrightarrow> inv (snd (ds_slot_set D s h v))"
    and slot_set_value:
      "inv s \<Longrightarrow> names s h k \<Longrightarrow>
         ds_value D (snd (ds_slot_set D s h v)) k' =
           (if k' = k then settle (ds_value D s k) v else ds_value D s k')"
    and names_write: "inv s \<Longrightarrow> names s h k \<Longrightarrow> change_ok c \<Longrightarrow> names (snd (ds_write D s c)) h k"
    and names_slot: "inv s \<Longrightarrow> names s h k \<Longrightarrow> names (snd (ds_slot D s k')) h k"
    and names_slot_set:
      "inv s \<Longrightarrow> names s h k \<Longrightarrow> names s h' k' \<Longrightarrow> names (snd (ds_slot_set D s h' v)) h k"
begin

text \<open>A slot resolved before a write sees the write.\<close>

lemma slot_sees_write:
  assumes "inv s" "names s h k" "change_ok c"
  shows "ds_slot_get D (snd (ds_write D s c)) h = written c k (ds_slot_get D s h)"
  using assms by (simp add: slot_get [OF write_inv names_write] slot_get write_value)

text \<open>A write of one key is read back, up to the values' own equality, and leaves the others.\<close>

lemma write_read_back:
  assumes "inv s"
  shows "ds_value D (snd (ds_write D s (StateChange_set k v))) k' =
     (if k' = k then settle (ds_value D s k) (Some v) else ds_value D s k')"
  using assms by (simp add: write_value StateChange_set_def written_def)

text \<open>Two slots of one key are one cell.\<close>

lemma slots_alias:
  assumes "inv s" "names s h k" "names s h' k"
  shows "ds_slot_get D (snd (ds_slot_set D s h v)) h' = settle (ds_slot_get D s h') v"
proof -
  have "inv (snd (ds_slot_set D s h v))" "names (snd (ds_slot_set D s h v)) h' k"
    using assms by (blast intro: slot_set_inv names_slot_set)+
  with assms show ?thesis by (simp add: slot_get slot_set_value)
qed

end

section \<open>Properties\<close>

lemma settle_simps [simp]: "settle old new = new \<or> value_opt_eq (settle old new) new"
  by (simp add: settle_def)

lemma prefix_covers_iff: "prefix_covers p path \<longleftrightarrow> p = [] \<or> path = p \<or> (\<exists>r. path = p @ ''/'' @ r)"
proof -
  have "(starts_with path p \<and> length p < length path \<and> path ! length p = CHR ''/'') \<longleftrightarrow>
     (\<exists>r. path = p @ ''/'' @ r)"
    by (auto simp: starts_with_iff neq_Nil_conv Cons_nth_drop_Suc [symmetric])
  then show ?thesis by (simp add: prefix_covers_def)
qed

lemma prefix_covers_refl [simp]: "prefix_covers p p"
  by (simp add: prefix_covers_iff)

lemma prefix_covers_Nil [simp]: "prefix_covers [] p"
  by (simp add: prefix_covers_iff)

lemma prefix_covers_trans: "prefix_covers p q \<Longrightarrow> prefix_covers q r \<Longrightarrow> q \<noteq> [] \<Longrightarrow> prefix_covers p r"
  by (auto simp: prefix_covers_iff)

lemma prefix_covers_length: "prefix_covers p path \<Longrightarrow> length p \<le> length path"
  by (auto simp: prefix_covers_iff)

text \<open>Two prefixes that cover one path are nested, so the longer is the more specific.\<close>

lemma prefix_covers_nested:
  assumes "prefix_covers p path" "prefix_covers q path" "length p \<le> length q"
  shows "prefix_covers p q"
proof (cases "p = []")
  case False
  have rest: "prefix_covers p path \<Longrightarrow> p \<noteq> [] \<Longrightarrow> \<exists>r. path = p @ r \<and> (r = [] \<or> hd r = CHR ''/'')"
    for p by (auto simp: prefix_covers_iff)
  from False assms(3) have "q \<noteq> []" by auto
  with False assms obtain r r' where r: "path = p @ r" "r = [] \<or> hd r = CHR ''/''"
    and r': "path = q @ r'" using rest [of p] rest [of q] by blast
  then obtain t where t: "q = p @ t" using assms(3)
    by (metis append_eq_append_conv_if append_eq_conv_conj append_take_drop_id)
  with r r' have "t = [] \<or> hd t = CHR ''/''" by (cases t) auto
  with t show ?thesis by (cases t) (auto simp: prefix_covers_iff)
qed simp

lemma keep_under_filter:
  assumes "change_ok c"
  shows "keep_under p c = \<lparr>sc_set = filter (\<lambda>(k, _). prefix_covers p k) (sc_set c),
     sc_unset = hs_collect (filter (prefix_covers p) (sc_unset c))\<rparr> \<or>
     keep_under p c = c \<and> list_all (prefix_covers p) (hm_keys (sc_set c) @ sc_unset c)"
  using assms by (simp add: keep_under_def hm_collect_distinct)

lemma keep_under_lookup:
  assumes "change_ok c"
  shows "map_of (sc_set (keep_under p c)) k = (if prefix_covers p k then map_of (sc_set c) k else None)"
    and "set (sc_unset (keep_under p c)) = {k \<in> set (sc_unset c). prefix_covers p k}"
    and "change_ok (keep_under p c)"
  using assms
  by (auto simp: keep_under_def hm_collect_distinct map_of_filter_key list_all_iff map_of_eq_None_iff
      split: if_splits)

section \<open>Reading a feed\<close>

lemma try_recv_shorter: "try_recv self queue = (Some c, sub, rest) \<Longrightarrow> length rest < length queue"
  by (induction self queue rule: try_recv.induct) (fastforce split: prod.splits option.splits)+

text \<open>Taking changes one at a time until there is none.\<close>

function drain :: "Subscription \<Rightarrow> StateChange list \<Rightarrow> StateChange list \<times> Subscription" where
  "drain self queue =
     (case try_recv self queue of
        (None, self, _) \<Rightarrow> ([], self)
      | (Some c, self, rest) \<Rightarrow> (case drain self rest of (cs, self) \<Rightarrow> (c # cs, self)))"
  by pat_completeness auto
termination
  by (relation "measure (\<lambda>(_, queue). length queue)")
    (auto dest: try_recv_shorter try_recv_shorter [OF sym])

declare drain.simps [simp del]

lemma deliver_rx [simp]: "rx (snd (deliver sub c)) = rx sub"
  by (auto simp: deliver_def Let_def split: option.splits)

text \<open>
  Draining a subscription with \<open>try_iter\<close> delivers what polling it with \<open>try_recv\<close> until it
  has nothing delivers, in the same order, and leaves the subscription in the same state; polling
  terminates.
\<close>

theorem try_iter_polls: "try_iter sub queue = drain sub queue"
proof (induction sub queue rule: try_iter.induct)
  case (1 self)
  then show ?case by (simp add: drain.simps)
next
  case (2 self c queue)
  then show ?case
    by (cases "deliver self c"; cases "fst (deliver self c)")
      (auto simp: drain.simps [of self "c # queue"] drain.simps [of _ queue] split: prod.splits)
qed

lemma try_iter_opened:
  assumes "translation sub = Some t" "opened t"
  shows "fst (try_iter sub cs) =
     filter (\<lambda>c. \<not> StateChange_is_empty c) (map (translate t) cs)"
  using assms
proof (induction cs arbitrary: sub t)
  case (Cons c cs)
  let ?sub = "sub\<lparr>translation := Some (t\<lparr>opened := True\<rparr>)\<rparr>"
  have "fst (try_iter ?sub cs) = filter (\<lambda>c. \<not> StateChange_is_empty c) (map (translate t) cs)"
    using Cons.IH [of ?sub "t\<lparr>opened := True\<rparr>"] by simp
  with Cons.prems show ?case by (auto simp: deliver_def Let_def split: prod.splits)
qed simp

lemma mapped_feed:
  "fst (try_iter (Subscription_map (Subscription_new r) f) (opening # cs)) =
     f opening # filter (\<lambda>c. \<not> StateChange_is_empty c) (map f cs)"
proof -
  let ?sub = "\<lparr>rx = r, translation = Some \<lparr>translate = f, opened = True\<rparr>\<rparr>"
  have "fst (try_iter ?sub cs) = filter (\<lambda>c. \<not> StateChange_is_empty c) (map f cs)"
    using try_iter_opened [of ?sub "\<lparr>translate = f, opened = True\<rparr>" cs] by simp
  then show ?thesis
    by (auto simp: Subscription_map_def Subscription_new_def deliver_def Let_def split: prod.splits)
qed

text \<open>
  A view of a feed delivers the view of the opening state, whatever is left of it, and then
  the view of every later change that touches the view, in order; a view of a view is one view.
\<close>

theorem view_feed:
  "fst (try_iter (Subscription_map (Subscription_new r) f) (opening # cs)) =
     f opening # filter (\<lambda>c. \<not> StateChange_is_empty c) (map f cs) \<and>
   Subscription_map (Subscription_map (Subscription_new r) f) g =
     Subscription_map (Subscription_new r) (g \<circ> f)"
proof
  show "fst (try_iter (Subscription_map (Subscription_new r) f) (opening # cs)) =
     f opening # filter (\<lambda>c. \<not> StateChange_is_empty c) (map f cs)"
    by (rule mapped_feed)
qed (simp add: Subscription_map_def Subscription_new_def comp_def)

end
