(* ===== verification/Tree_Nodes.thy ===== *)
theory Tree_Nodes
  imports Tree_Expr Data_Store
begin

text \<open>
  The nodes a behavior tree ticks natively (crate \<open>crates/arora-behavior-tree\<close>): their ids
  (\<open>nodes.rs\<close>), the core string nodes (\<open>core_nodes.rs\<close>), and the data nodes that write several
  cells, \<open>Unpack\<close> and \<open>Scatter\<close> (\<open>scatter.rs\<close>).
\<close>

section \<open>Identifiers\<close>

definition SUCCEED_FUNCTION_ID :: uuid where "SUCCEED_FUNCTION_ID = 0x6696f0bde78140cdaeb58dc616f810d2"
definition FAIL_FUNCTION_ID :: uuid where "FAIL_FUNCTION_ID = 0x3abbbfb6d00d41eb88bb97874267eaf6"
definition RUN_FUNCTION_ID :: uuid where "RUN_FUNCTION_ID = 0x41ae5ed01d124b71aab802e7efedf177"
definition SET_STR_FUNCTION_ID :: uuid where "SET_STR_FUNCTION_ID = 0xc803889f47574b56908f4b2b47041eff"
definition SET_STR_VARIABLE_PARAM_ID :: uuid where "SET_STR_VARIABLE_PARAM_ID = 0x8fa2f9651eb540d9baca8facef0d31a8"
definition SET_STR_VALUE_PARAM_ID :: uuid where "SET_STR_VALUE_PARAM_ID = 0x88438955787244ad8464d636dc5fe26f"
definition UNSET_STR_FUNCTION_ID :: uuid where "UNSET_STR_FUNCTION_ID = 0x7dce01ed98184b7db45a2e7fdece3633"
definition UNSET_STR_VARIABLE_PARAM_ID :: uuid where "UNSET_STR_VARIABLE_PARAM_ID = 0x2c84bf0f4ec241a483ee3f92a53be79d"
definition IS_STR_SET_FUNCTION_ID :: uuid where "IS_STR_SET_FUNCTION_ID = 0x20ba3f0f309e4cd2adfcaca6cc432526"
definition IS_STR_SET_VALUE_PARAM_ID :: uuid where "IS_STR_SET_VALUE_PARAM_ID = 0xc4f1e72d30fe400ba584f08e93944026"
definition WAIT_STR_SET_FUNCTION_ID :: uuid where "WAIT_STR_SET_FUNCTION_ID = 0x3180977c25a1458eab8211f36c654518"
definition WAIT_STR_SET_VALUE_PARAM_ID :: uuid where "WAIT_STR_SET_VALUE_PARAM_ID = 0x8f190079e51944d3ac363bfc322e87eb"
definition REGEX_MATCH_FUNCTION_ID :: uuid where "REGEX_MATCH_FUNCTION_ID = 0x8e3dbcc11a814cf6a4576e0c075456fd"
definition REGEX_MATCH_VALUE_PARAM_ID :: uuid where "REGEX_MATCH_VALUE_PARAM_ID = 0x3267f0938a7f4b77b74c3bd2e7ad40f9"
definition REGEX_MATCH_MATCHER_PARAM_ID :: uuid where "REGEX_MATCH_MATCHER_PARAM_ID = 0x6702e02df6ba4c5dacab9ade0a690afa"
definition REGEX_MATCH_FIRST_MATCH_PARAM_ID :: uuid where "REGEX_MATCH_FIRST_MATCH_PARAM_ID = 0xe8b71df72bb544988bc3833c5bc8eadc"
definition RUN_CALL_FUNCTION_ID :: uuid where "RUN_CALL_FUNCTION_ID = 0x5d2e8a410b674c25913f6ed82b94a710"
definition RUN_CALL_PARAM_ID :: uuid where "RUN_CALL_PARAM_ID = 0x9c513b7724894eb38d0251c6e9385f21"
definition RUN_STATUS_FUNCTION_ID :: uuid where "RUN_STATUS_FUNCTION_ID = 0x1e84d06a932c4571b64d180a73c59236"
definition RUN_STATUS_OUT_PARAM_ID :: uuid where "RUN_STATUS_OUT_PARAM_ID = 0x640f2b955e134886a2793ce1076bd442"
definition RUN_STATUS_LATCH_PARAM_ID :: uuid where "RUN_STATUS_LATCH_PARAM_ID = 0xb738912dc0544a198fe625704ca81357"
definition EQUAL_FUNCTION_ID :: uuid where "EQUAL_FUNCTION_ID = 0xa67583f57b1f4081a210b710bd41d88a"
definition EQUAL_A_PARAM_ID :: uuid where "EQUAL_A_PARAM_ID = 0x75664d78aa4544a7b1fc0ab220b933ee"
definition EQUAL_B_PARAM_ID :: uuid where "EQUAL_B_PARAM_ID = 0x9399b82f7ace41fc873238a42a800698"
definition UNPACK_FUNCTION_ID :: uuid where "UNPACK_FUNCTION_ID = 0x72d3c3889fe04fe99b0438f9e92d6c78"
definition UNPACK_VALUES_PARAM_ID :: uuid where "UNPACK_VALUES_PARAM_ID = 0xaa7e72c3f9794e94b11ff69014ace7cd"
definition SCATTER_FUNCTION_ID :: uuid where "SCATTER_FUNCTION_ID = 0xeb0a42a1659646f783c3990632bfff94"
definition SCATTER_VALUES_PARAM_ID :: uuid where "SCATTER_VALUES_PARAM_ID = 0x40940dc927ce41b2be544203665eda66"
definition SCATTER_KEYS_PARAM_ID :: uuid where "SCATTER_KEYS_PARAM_ID = 0x4056190cced0454790c326d6a93c30b4"
definition SCATTER_WITHIN_PARAM_ID :: uuid where "SCATTER_WITHIN_PARAM_ID = 0x4d773cff49a74b2f88c8c6af05f96673"
definition SEQ_FUNCTION_ID :: uuid where "SEQ_FUNCTION_ID = 0x32246df6ab5d4f18922123e28731de93"
definition SEQ_STAR_FUNCTION_ID :: uuid where "SEQ_STAR_FUNCTION_ID = 0xc2d5ed72798c417494f713378bd9bf1f"
definition SEQ_STAR_CURRENT_INDEX_PARAM_ID :: uuid where "SEQ_STAR_CURRENT_INDEX_PARAM_ID = 0x4de502df3f48454194d8dd68fe92bc8e"
definition FALLBACK_FUNCTION_ID :: uuid where "FALLBACK_FUNCTION_ID = 0xbfa89a4ec369430ebe780dc07311391c"
definition PARALLEL_FUNCTION_ID :: uuid where "PARALLEL_FUNCTION_ID = 0xa93402891f30411f9faa0f07d54613e8"

lemmas node_function_ids =
  SUCCEED_FUNCTION_ID_def FAIL_FUNCTION_ID_def RUN_FUNCTION_ID_def SET_STR_FUNCTION_ID_def
  UNSET_STR_FUNCTION_ID_def IS_STR_SET_FUNCTION_ID_def WAIT_STR_SET_FUNCTION_ID_def
  REGEX_MATCH_FUNCTION_ID_def RUN_CALL_FUNCTION_ID_def RUN_STATUS_FUNCTION_ID_def
  EQUAL_FUNCTION_ID_def UNPACK_FUNCTION_ID_def SCATTER_FUNCTION_ID_def SEQ_FUNCTION_ID_def
  SEQ_STAR_FUNCTION_ID_def FALLBACK_FUNCTION_ID_def PARALLEL_FUNCTION_ID_def

lemmas node_param_ids =
  SET_STR_VARIABLE_PARAM_ID_def SET_STR_VALUE_PARAM_ID_def UNSET_STR_VARIABLE_PARAM_ID_def
  IS_STR_SET_VALUE_PARAM_ID_def WAIT_STR_SET_VALUE_PARAM_ID_def REGEX_MATCH_VALUE_PARAM_ID_def
  REGEX_MATCH_MATCHER_PARAM_ID_def REGEX_MATCH_FIRST_MATCH_PARAM_ID_def RUN_CALL_PARAM_ID_def
  RUN_STATUS_OUT_PARAM_ID_def RUN_STATUS_LATCH_PARAM_ID_def EQUAL_A_PARAM_ID_def
  EQUAL_B_PARAM_ID_def UNPACK_VALUES_PARAM_ID_def SCATTER_VALUES_PARAM_ID_def
  SCATTER_KEYS_PARAM_ID_def SCATTER_WITHIN_PARAM_ID_def SEQ_STAR_CURRENT_INDEX_PARAM_ID_def

definition UNPACK_PORTS :: nat where "UNPACK_PORTS = 64"
definition UNPACK_OUT_BASE :: uuid where "UNPACK_OUT_BASE = 0xae06128422e54149909ae74a02524800"
definition UNPACK_OUT_PARAM_IDS :: "uuid list" where
  "UNPACK_OUT_PARAM_IDS = map (\<lambda>i. UNPACK_OUT_BASE + of_nat i) [0..<UNPACK_PORTS]"

definition unpack_out_index :: "uuid \<Rightarrow> nat option" where
  "unpack_out_index param =
     (if UNPACK_OUT_BASE \<le> param \<and> unat (param - UNPACK_OUT_BASE) < UNPACK_PORTS
      then Some (unat (param - UNPACK_OUT_BASE)) else None)"

section \<open>The core string nodes\<close>

definition set_str :: "string option \<Rightarrow> string option \<Rightarrow> Status \<times> string option" where
  "set_str variable v = (Success, v)"

definition unset_str :: "string option \<Rightarrow> Status \<times> string option" where
  "unset_str variable = (Success, None)"

definition is_str_set :: "string option \<Rightarrow> Status" where
  "is_str_set v = (case v of Some s \<Rightarrow> if s \<noteq> [] then Success else Failure | None \<Rightarrow> Failure)"

definition wait_str_set :: "string option \<Rightarrow> Status" where
  "wait_str_set v = (case v of Some s \<Rightarrow> if s \<noteq> [] then Success else Running | None \<Rightarrow> Running)"

definition regex_match ::
  "'w seams \<Rightarrow> string option \<Rightarrow> string option \<Rightarrow> string option \<Rightarrow> Status \<times> string option" where
  "regex_match H v matcher first_match =
     (case (v, matcher) of
        (Some v, Some matcher) \<Rightarrow>
          (case sm_regex H matcher of
             None \<Rightarrow> (Failure, first_match)
           | Some re \<Rightarrow>
               (case re v of
                  Some found \<Rightarrow> (Success, Some found)
                | None \<Rightarrow> (Failure, first_match)))
      | _ \<Rightarrow> (Failure, first_match))"

definition core_node_parameters :: "uuid \<Rightarrow> (string \<times> uuid) list option" where
  "core_node_parameters f =
     (if f = SET_STR_FUNCTION_ID then
        Some [(''variable'', SET_STR_VARIABLE_PARAM_ID), (''value'', SET_STR_VALUE_PARAM_ID)]
      else if f = UNSET_STR_FUNCTION_ID then Some [(''variable'', UNSET_STR_VARIABLE_PARAM_ID)]
      else if f = IS_STR_SET_FUNCTION_ID then Some [(''value'', IS_STR_SET_VALUE_PARAM_ID)]
      else if f = WAIT_STR_SET_FUNCTION_ID then Some [(''value'', WAIT_STR_SET_VALUE_PARAM_ID)]
      else if f = REGEX_MATCH_FUNCTION_ID then
        Some [(''value'', REGEX_MATCH_VALUE_PARAM_ID), (''matcher'', REGEX_MATCH_MATCHER_PARAM_ID),
              (''first_match'', REGEX_MATCH_FIRST_MATCH_PARAM_ID)]
      else None)"

definition native_writes :: "uuid \<Rightarrow> uuid list" where
  "native_writes f =
     (if f = UNPACK_FUNCTION_ID then UNPACK_OUT_PARAM_IDS
      else if f = SEQ_STAR_FUNCTION_ID then [SEQ_STAR_CURRENT_INDEX_PARAM_ID]
      else if f = RUN_STATUS_FUNCTION_ID then [RUN_STATUS_OUT_PARAM_ID, RUN_STATUS_LATCH_PARAM_ID]
      else if f = SET_STR_FUNCTION_ID then [SET_STR_VARIABLE_PARAM_ID]
      else if f = UNSET_STR_FUNCTION_ID then [UNSET_STR_VARIABLE_PARAM_ID]
      else if f = REGEX_MATCH_FUNCTION_ID then [REGEX_MATCH_FIRST_MATCH_PARAM_ID]
      else [])"

definition is_native :: "uuid \<Rightarrow> bool" where
  "is_native f \<longleftrightarrow>
     f \<in> {SUCCEED_FUNCTION_ID, FAIL_FUNCTION_ID, RUN_FUNCTION_ID, SEQ_FUNCTION_ID,
          SEQ_STAR_FUNCTION_ID, FALLBACK_FUNCTION_ID, PARALLEL_FUNCTION_ID, RUN_CALL_FUNCTION_ID,
          RUN_STATUS_FUNCTION_ID, EQUAL_FUNCTION_ID, UNPACK_FUNCTION_ID, SCATTER_FUNCTION_ID}
     \<or> core_node_parameters f \<noteq> None"

definition read_string :: "Value option \<Rightarrow> BehaviorTreeError + string option" where
  "read_string held =
     (case held of
        None \<Rightarrow> Inr None
      | Some Unit \<Rightarrow> Inr None
      | Some (VOption None) \<Rightarrow> Inr None
      | Some (VString v) \<Rightarrow> Inr (Some v)
      | Some (VOption (Some inner)) \<Rightarrow>
          (case inner of VString v \<Rightarrow> Inr (Some v) | _ \<Rightarrow> Inl ConversionError)
      | Some _ \<Rightarrow> Inl ConversionError)"

definition write_string ::
  "'w seams \<Rightarrow> VariableCell \<Rightarrow> string option \<Rightarrow> string option \<Rightarrow> ('w, unit) act" where
  "write_string H c before after =
     (if before \<noteq> after then act_modify (set_opt H c (map_option VString after)) else act_return ())"

definition read_param ::
  "'w seams \<Rightarrow> (uuid \<Rightarrow> BehaviorTreeError + VariableCell) \<Rightarrow> uuid \<Rightarrow> ('w, VariableCell \<times> string option) act" where
  "read_param H cell i =
     act_bind (act_lift (cell i)) (\<lambda>c.
     act_bind (act_read (cell_get H c)) (\<lambda>held.
     act_bind (act_lift (read_string held)) (\<lambda>v. act_return (c, v))))"

definition tick_core_node ::
  "'w seams \<Rightarrow> uuid \<Rightarrow> (uuid \<Rightarrow> BehaviorTreeError + VariableCell) \<Rightarrow> ('w, Status option) act" where
  "tick_core_node H f cell =
     (if f = SET_STR_FUNCTION_ID then
        act_bind (read_param H cell SET_STR_VARIABLE_PARAM_ID) (\<lambda>(variable, current).
        act_bind (read_param H cell SET_STR_VALUE_PARAM_ID) (\<lambda>(_, v).
          case set_str current v of (status, after) \<Rightarrow>
            act_bind (write_string H variable current after) (\<lambda>_. act_return (Some status))))
      else if f = UNSET_STR_FUNCTION_ID then
        act_bind (read_param H cell UNSET_STR_VARIABLE_PARAM_ID) (\<lambda>(variable, current).
          case unset_str current of (status, after) \<Rightarrow>
            act_bind (write_string H variable current after) (\<lambda>_. act_return (Some status)))
      else if f = IS_STR_SET_FUNCTION_ID then
        act_bind (read_param H cell IS_STR_SET_VALUE_PARAM_ID) (\<lambda>(_, v). act_return (Some (is_str_set v)))
      else if f = WAIT_STR_SET_FUNCTION_ID then
        act_bind (read_param H cell WAIT_STR_SET_VALUE_PARAM_ID) (\<lambda>(_, v). act_return (Some (wait_str_set v)))
      else if f = REGEX_MATCH_FUNCTION_ID then
        act_bind (read_param H cell REGEX_MATCH_VALUE_PARAM_ID) (\<lambda>(_, v).
        act_bind (read_param H cell REGEX_MATCH_MATCHER_PARAM_ID) (\<lambda>(_, matcher).
        act_bind (read_param H cell REGEX_MATCH_FIRST_MATCH_PARAM_ID) (\<lambda>(first_match, current).
          case regex_match H v matcher current of (status, after) \<Rightarrow>
            act_bind (write_string H first_match current after) (\<lambda>_. act_return (Some status)))))
      else act_return None)"

section \<open>Writing several cells\<close>

text \<open>\<open>Unpack\<close> writes the elements that are not unit to its bound ports, in their order.\<close>

fun unpack_write :: "'w seams \<Rightarrow> VariableCell option list \<Rightarrow> Value list \<Rightarrow> 'w tree_state \<Rightarrow> 'w tree_state" where
  "unpack_write H (out # outs) (v # vs) s =
     unpack_write H outs vs (case out of Some c \<Rightarrow> if v \<noteq> Unit then cell_set H c v s else s | None \<Rightarrow> s)"
| "unpack_write H _ _ s = s"

definition Scatter_bind :: "TreeNode \<Rightarrow> BehaviorTreeError + Scatter" where
  "Scatter_bind node =
     ebind (case hm_get (tn_arguments node) SCATTER_WITHIN_PARAM_ID of
              None \<Rightarrow> Inr []
            | Some (EValue (VString within)) \<Rightarrow> Inr within
            | Some _ \<Rightarrow> Inl InconsistentTreeError) (\<lambda>within.
       if within \<noteq> [] \<and> (last within = CHR ''/'' \<or> is_tree_local within) then Inl InconsistentTreeError
       else Inr \<lparr>scat_node = tn_id node, scat_within = within, scat_resolver = None\<rparr>)"

definition key_names :: "Value \<Rightarrow> string list option" where
  "key_names keys =
     (case keys of
        ArrayString names \<Rightarrow> Some names
      | ArrayValue elements \<Rightarrow>
          typed (\<lambda>v. case v of VString name \<Rightarrow> Some name | _ \<Rightarrow> None) elements
      | _ \<Rightarrow> None)"

fun check_names :: "string \<Rightarrow> string hash_set \<Rightarrow> string list \<Rightarrow> BehaviorTreeError + unit" where
  "check_names within named [] = Inr ()"
| "check_names within named (name # names) =
     (if is_tree_local name then Inl InconsistentTreeError
      else if \<not> prefix_covers within name then Inl InconsistentTreeError
      else if name \<in> set named then Inl InconsistentTreeError
      else check_names within (hs_insert name named) names)"

fun resolve_names :: "(string \<Rightarrow> Key option) \<Rightarrow> string list \<Rightarrow> BehaviorTreeError + Key list" where
  "resolve_names resolver [] = Inr []"
| "resolve_names resolver (name # names) =
     (case resolver name of
        None \<Rightarrow> Inl InconsistentTreeError
      | Some k \<Rightarrow> ebind (resolve_names resolver names) (\<lambda>ks. Inr (k # ks)))"

definition Scatter_resolve :: "Scatter \<Rightarrow> string list \<Rightarrow> BehaviorTreeError + Key list" where
  "Scatter_resolve self names =
     ebind (check_names (scat_within self) [] names) (\<lambda>_.
       case scat_resolver self of
         None \<Rightarrow> Inl InconsistentTreeError
       | Some resolver \<Rightarrow> resolve_names resolver names)"

fun scatter_slots :: "'w seams \<Rightarrow> Key list \<Rightarrow> Value list \<Rightarrow> 'w tree_state \<Rightarrow> 'w tree_state" where
  "scatter_slots H (k # ks) (v # vs) s =
     scatter_slots H ks vs (if v \<noteq> Unit then set_opt H (StoredCell k) (Some v) s else s)"
| "scatter_slots H _ _ s = s"

definition Scatter_write :: "'w seams \<Rightarrow> Scatter \<Rightarrow> Value \<Rightarrow> Value \<Rightarrow> ('w, Status) act" where
  "Scatter_write H self keys vals s =
     (case into_elements vals of
        Inl _ \<Rightarrow> Some (Inr Failure, s)
      | Inr vals \<Rightarrow>
          let at = scat_node self;
              write_all = (\<lambda>s. if length (bd_slots (ts_bound s at)) \<noteq> length vals then Some (Inr Failure, s)
                 else Some (Inr Success, scatter_slots H (bd_slots (ts_bound s at)) vals s))
          in if value_opt_eq (bd_keys (ts_bound s at)) (Some keys) then write_all s
             else case key_names keys of
               None \<Rightarrow> Some (Inr Failure, s)
             | Some names \<Rightarrow>
                 if length names \<noteq> length vals then Some (Inr Failure, s)
                 else case Scatter_resolve self names of
                   Inl e \<Rightarrow> Some (Inl e, s)
                 | Inr slots \<Rightarrow>
                     write_all (s\<lparr>ts_bound := (ts_bound s)(at := \<lparr>bd_keys = Some keys, bd_slots = slots\<rparr>)\<rparr>))"

definition with_key_resolver ::
  "(string \<Rightarrow> Key option) \<Rightarrow> (uuid, Outputs) hash_map \<Rightarrow> 'w tree_state \<Rightarrow>
   (uuid, Outputs) hash_map \<times> 'w tree_state" where
  "with_key_resolver resolver outputs s =
     (map (\<lambda>(i, out). (i, case out of
          OutKeys scatter \<Rightarrow> OutKeys (scatter\<lparr>scat_resolver := Some resolver\<rparr>)
        | OutPorts ports \<Rightarrow> OutPorts ports)) outputs,
      fold (\<lambda>(i, out) s. case out of
          OutKeys scatter \<Rightarrow> s\<lparr>ts_bound := (ts_bound s)(scat_node scatter := Bound_default)\<rparr>
        | OutPorts _ \<Rightarrow> s) outputs s)"

end
