(* ===== verification/Tree_Tick.thy ===== *)
theory Tree_Tick
  imports Tree_Nodes "HOL-Library.Product_Lexorder"
begin

text \<open>
  Ticking a lowered behavior tree (\<open>crates/arora-behavior-tree/src/behavior_tree.rs\<close>):
  \<open>tick_builtin\<close> for the native nodes, \<open>tick\<close> for any node, and the path from one node to its
  children through the registry of callables. Module calls, and bringing detached nodes up to date,
  are seams. What is printed while a tree is traced is not modelled.

  A child is ticked through its callable, so the recursion is bounded by a number of callables deep;
  running past it is \<open>None\<close>.
\<close>

section \<open>The native nodes\<close>

text \<open>\<open>child\<close> ticks a child through its callable; \<open>call\<close> is the bridge's dispatch.\<close>

definition builtin_argument ::
  "'w seams \<Rightarrow> 'w dispatch \<Rightarrow> Scope \<Rightarrow> TreeNode \<Rightarrow> uuid \<Rightarrow> ('w, Value) act" where
  "builtin_argument H call scope node parameter =
     (case hm_get (tn_arguments node) parameter of
        None \<Rightarrow> act_fail InconsistentTreeError
      | Some expression \<Rightarrow>
          let cell = hm_get (sc_cells scope) \<lparr>np_node = tn_id node, np_parameter = parameter\<rparr>;
              computed = compute_expression H call scope (tn_id node) expression
          in act_bind
               (case (expression, cell) of
                  (ECall _, _) \<Rightarrow> computed
                | (ESelect _ _, _) \<Rightarrow> computed
                | (_, None) \<Rightarrow> computed
                | (_, Some c) \<Rightarrow> act_read (get_or_unit H c)) (\<lambda>v.
             act_bind
               (case (expression, cell) of
                  (ECall _, Some c) \<Rightarrow> act_modify (set_opt H c (present v))
                | _ \<Rightarrow> act_return ()) (\<lambda>_. act_return v)))"

fun tick_seq :: "(u64 \<Rightarrow> ('w, Status) act) \<Rightarrow> u64 list \<Rightarrow> ('w, Status) act" where
  "tick_seq child [] = act_return Success"
| "tick_seq child (c # cs) =
     act_bind (child c) (\<lambda>status. case status of
        Success \<Rightarrow> tick_seq child cs
      | Failure \<Rightarrow> act_return Failure
      | Running \<Rightarrow> act_return Running)"

fun tick_fallback :: "(u64 \<Rightarrow> ('w, Status) act) \<Rightarrow> u64 list \<Rightarrow> ('w, Status) act" where
  "tick_fallback child [] = act_return Failure"
| "tick_fallback child (c # cs) =
     act_bind (child c) (\<lambda>status. case status of
        Success \<Rightarrow> act_return Success
      | Failure \<Rightarrow> tick_fallback child cs
      | Running \<Rightarrow> act_return Running)"

fun tick_parallel ::
  "(u64 \<Rightarrow> ('w, Status) act) \<Rightarrow> u64 list \<Rightarrow> bool \<Rightarrow> bool \<Rightarrow> ('w, Status) act" where
  "tick_parallel child [] success failure =
     act_return (if success then Success else if failure then Failure else Running)"
| "tick_parallel child (c # cs) success failure =
     act_bind (child c) (\<lambda>status. case status of
        Success \<Rightarrow> tick_parallel child cs success failure
      | Failure \<Rightarrow> tick_parallel child cs False True
      | Running \<Rightarrow> tick_parallel child cs False failure)"

text \<open>The index counts in 16 bits, wrapping as the release build does.\<close>

fun tick_seq_star ::
  "(u64 \<Rightarrow> ('w, Status) act) \<Rightarrow> u64 list \<Rightarrow> u16 \<Rightarrow> ('w, Status \<times> u16) act" where
  "tick_seq_star child [] index = act_return (Success, index)"
| "tick_seq_star child (c # cs) index =
     act_bind (child c) (\<lambda>status. case status of
        Success \<Rightarrow> tick_seq_star child cs (index + 1)
      | Failure \<Rightarrow> act_return (Failure, index)
      | Running \<Rightarrow> act_return (Running, index))"

definition param_cell :: "Scope \<Rightarrow> TreeNode \<Rightarrow> uuid \<Rightarrow> BehaviorTreeError + VariableCell" where
  "param_cell scope node parameter =
     get_node_parameter_variable \<lparr>np_node = tn_id node, np_parameter = parameter\<rparr> (sc_cells scope)"

definition tick_unpack ::
  "'w seams \<Rightarrow> 'w dispatch \<Rightarrow> Scope \<Rightarrow> Outputs option \<Rightarrow> TreeNode \<Rightarrow> ('w, Status) act" where
  "tick_unpack H call scope outputs node =
     (case outputs of
        Some (OutPorts outs) \<Rightarrow>
          act_bind (builtin_argument H call scope node UNPACK_VALUES_PARAM_ID) (\<lambda>v.
            case into_elements v of
              Inr vs \<Rightarrow>
                if length outs \<le> length vs
                then act_bind (act_modify (unpack_write H outs vs)) (\<lambda>_. act_return Success)
                else act_return Failure
            | Inl _ \<Rightarrow> act_return Failure)
      | _ \<Rightarrow> act_fail InconsistentTreeError)"

definition tick_scatter ::
  "'w seams \<Rightarrow> 'w dispatch \<Rightarrow> Scope \<Rightarrow> Outputs option \<Rightarrow> TreeNode \<Rightarrow> ('w, Status) act" where
  "tick_scatter H call scope outputs node =
     (case outputs of
        Some (OutKeys scatter) \<Rightarrow>
          act_bind (builtin_argument H call scope node SCATTER_KEYS_PARAM_ID) (\<lambda>keys.
          act_bind (builtin_argument H call scope node SCATTER_VALUES_PARAM_ID) (\<lambda>vals.
            Scatter_write H scatter keys vals))
      | _ \<Rightarrow> act_fail InconsistentTreeError)"

definition tick_run_call :: "'w seams \<Rightarrow> 'w dispatch \<Rightarrow> Scope \<Rightarrow> TreeNode \<Rightarrow> ('w, Status) act" where
  "tick_run_call H call scope node =
     act_bind (read_cell H (param_cell scope node RUN_CALL_PARAM_ID)) (\<lambda>v.
       case sm_call_of_value H v of
         None \<Rightarrow> act_fail InconsistentTreeError
       | Some c \<Rightarrow>
           act_bind (act_map_err TreeCallError (call c)) (\<lambda>result.
             act_return (case status_of_value (cr_ret result) of None \<Rightarrow> Success | Some st \<Rightarrow> st)))"

text \<open>The child's outcome is a value of this step: an error of the child is written, then raised.\<close>

definition tick_run_status ::
  "'w seams \<Rightarrow> (u64 \<Rightarrow> ('w, Status) act) \<Rightarrow> Scope \<Rightarrow> u64 list \<Rightarrow> TreeNode \<Rightarrow> ('w, Status) act" where
  "tick_run_status H child scope children node =
     act_bind (act_lift (param_cell scope node RUN_STATUS_LATCH_PARAM_ID)) (\<lambda>latch.
     act_bind (act_read (get_or_unit H latch)) (\<lambda>held.
       case status_of_value held of
         Some Success \<Rightarrow> act_return Success
       | Some Failure \<Rightarrow> act_return Failure
       | _ \<Rightarrow>
         (case children of
            [] \<Rightarrow> act_fail InconsistentTreeError
          | c # _ \<Rightarrow> (\<lambda>s. Option.bind (child c s) (\<lambda>(ticked, s).
              act_bind (act_lift (param_cell scope node RUN_STATUS_OUT_PARAM_ID)) (\<lambda>out.
                case ticked of
                  Inl e \<Rightarrow>
                    act_bind (act_modify (cell_set H out (value_of_status Failure))) (\<lambda>_.
                    act_bind (act_modify (cell_set H latch (value_of_status Failure))) (\<lambda>_. act_fail e))
                | Inr status \<Rightarrow>
                    act_bind (act_modify (cell_set H out (value_of_status status))) (\<lambda>_.
                    act_bind (if status \<noteq> Running
                              then act_modify (cell_set H latch (value_of_status status))
                              else act_return ()) (\<lambda>_. act_return status))) s)))))"

definition tick_seq_star_node ::
  "'w seams \<Rightarrow> (u64 \<Rightarrow> ('w, Status) act) \<Rightarrow> Scope \<Rightarrow> u64 list \<Rightarrow> TreeNode \<Rightarrow> ('w, Status) act" where
  "tick_seq_star_node H child scope children node =
     act_bind (act_lift (param_cell scope node SEQ_STAR_CURRENT_INDEX_PARAM_ID)) (\<lambda>index_variable.
     act_bind (act_read (get_or_unit H index_variable)) (\<lambda>held.
       let current = (case held of U16 index \<Rightarrow> index | _ \<Rightarrow> 0) in
       act_bind (tick_seq_star child (drop (unat current) children) current) (\<lambda>(status, index).
         let index = (if status \<noteq> Running then 0 else index) in
         act_bind (act_modify (cell_set H index_variable (U16 index))) (\<lambda>_. act_return status))))"

text \<open>
  The core string nodes read their cells; a call is first computed into its argument's cell, and a
  selection the node only reads into a cell of its own.
\<close>

fun core_inputs ::
  "'w seams \<Rightarrow> 'w dispatch \<Rightarrow> Scope \<Rightarrow> TreeNode \<Rightarrow> uuid list \<Rightarrow> uuid list \<Rightarrow> (uuid, VariableCell) hash_map \<Rightarrow>
   ('w, (uuid, VariableCell) hash_map) act" where
  "core_inputs H call scope node writes [] selected = act_return selected"
| "core_inputs H call scope node writes (parameter # parameters) selected =
     (case hm_get (tn_arguments node) parameter of
        Some (ECall _) \<Rightarrow>
          act_bind (builtin_argument H call scope node parameter) (\<lambda>_.
            core_inputs H call scope node writes parameters selected)
      | Some (ESelect _ _) \<Rightarrow>
          if parameter \<notin> set writes then
            act_bind (builtin_argument H call scope node parameter) (\<lambda>v s.
              case local_with (Some v) s of (c, s) \<Rightarrow>
                core_inputs H call scope node writes parameters (hm_insert parameter c selected) s)
          else core_inputs H call scope node writes parameters selected
      | _ \<Rightarrow> core_inputs H call scope node writes parameters selected)"

definition tick_core :: "'w seams \<Rightarrow> 'w dispatch \<Rightarrow> Scope \<Rightarrow> TreeNode \<Rightarrow> ('w, Status option) act" where
  "tick_core H call scope node =
     (let f = tn_function node;
          parameters = (case core_node_parameters f of None \<Rightarrow> [] | Some ps \<Rightarrow> map snd ps)
      in act_bind (core_inputs H call scope node (native_writes f) parameters []) (\<lambda>selected.
           tick_core_node H f (\<lambda>parameter.
             case hm_get selected parameter of Some c \<Rightarrow> Inr c | None \<Rightarrow> param_cell scope node parameter)))"

definition tick_builtin ::
  "'w seams \<Rightarrow> 'w dispatch \<Rightarrow> (u64 \<Rightarrow> ('w, Status) act) \<Rightarrow> Scope \<Rightarrow> Outputs option \<Rightarrow> u64 list \<Rightarrow> TreeNode \<Rightarrow>
   ('w, Status option) act" where
  "tick_builtin H call child scope outputs children node =
     (let f = tn_function node; native = (\<lambda>m. act_bind m (\<lambda>status. act_return (Some status))) in
      if f = EQUAL_FUNCTION_ID then
        native (act_bind (builtin_argument H call scope node EQUAL_A_PARAM_ID) (\<lambda>a.
                act_bind (builtin_argument H call scope node EQUAL_B_PARAM_ID) (\<lambda>b.
                  act_return (if value_eq a b then Success else Failure))))
      else if f = UNPACK_FUNCTION_ID then native (tick_unpack H call scope outputs node)
      else if f = SCATTER_FUNCTION_ID then native (tick_scatter H call scope outputs node)
      else if f = SUCCEED_FUNCTION_ID then native (act_return Success)
      else if f = FAIL_FUNCTION_ID then native (act_return Failure)
      else if f = RUN_FUNCTION_ID then native (act_return Running)
      else if f = SEQ_FUNCTION_ID then native (tick_seq child children)
      else if f = FALLBACK_FUNCTION_ID then
        native (if children = [] then act_return Success else tick_fallback child children)
      else if f = PARALLEL_FUNCTION_ID then native (tick_parallel child children True False)
      else if f = RUN_CALL_FUNCTION_ID then native (tick_run_call H call scope node)
      else if f = RUN_STATUS_FUNCTION_ID then native (tick_run_status H child scope children node)
      else if f = SEQ_STAR_FUNCTION_ID then native (tick_seq_star_node H child scope children node)
      else tick_core H call scope node)"

section \<open>Calling a module function\<close>

definition TICK_ID_STRUCTURE_ID :: uuid where
  "TICK_ID_STRUCTURE_ID = 0x6f49e65084ca4899a9bd1f3bf17fab51"
definition TICK_ID_CALLABLE_ID_FIELD_RAW_ID :: uuid where
  "TICK_ID_CALLABLE_ID_FIELD_RAW_ID = 0x237992d217d1459fbca17185fa6a69d7"

definition value_of_tick_id :: "u64 \<Rightarrow> Value" where
  "value_of_tick_id i =
     Structure (MkStructure TICK_ID_STRUCTURE_ID [StructureField TICK_ID_CALLABLE_ID_FIELD_RAW_ID (U64 i)])"

text \<open>The \<open>children\<close> parameter, which must be the function's first and an array of tick ids.\<close>

definition children_argument ::
  "TreeNode \<Rightarrow> FrozenFunction \<Rightarrow> u64 list \<Rightarrow> BehaviorTreeError + Value StructureField" where
  "children_argument node f children =
     (let missing = MissingChildrenParameter (tn_id node) (tn_function node) in
      case fn_parameter_ordering f of
        [] \<Rightarrow> Inl missing
      | i # _ \<Rightarrow>
          (case hm_get (fn_parameters f) i of
             None \<Rightarrow> Inl missing
           | Some p \<Rightarrow>
               if fp_name p \<noteq> ''children'' then Inl missing
               else case ty_as_array (fp_ty p) of
                 None \<Rightarrow> Inl missing
               | Some r \<Rightarrow>
                   if fr_id r \<noteq> TICK_ID_STRUCTURE_ID then Inl missing
                   else Inr (StructureField i
                          (array_of_type TICK_ID_STRUCTURE_ID False (map value_of_tick_id children)))))"

text \<open>
  The arguments in their order: what the call passes, the cells its results are written to
  (\<open>locals\<close>), and the parameters read through a selection. Indexing \<open>node.arguments\<close> panics on a
  parameter it does not have.
\<close>

fun leaf_arguments ::
  "'w seams \<Rightarrow> 'w dispatch \<Rightarrow> Scope \<Rightarrow> FrozenFunction \<Rightarrow> TreeNode \<Rightarrow> uuid list \<Rightarrow>
   Value StructureField list \<times> (uuid, VariableCell) hash_map \<times> uuid list \<Rightarrow>
   ('w, Value StructureField list \<times> (uuid, VariableCell) hash_map \<times> uuid list) act" where
  "leaf_arguments H call scope f node [] acc = act_return acc"
| "leaf_arguments H call scope f node (i # is) (args, locals, selected) =
     (case hm_get (tn_arguments node) i of
        None \<Rightarrow> (\<lambda>s. None)
      | Some expression \<Rightarrow>
          act_bind (act_lift (param_cell scope node i)) (\<lambda>variable.
          act_bind
            (case expression of
               ECall _ \<Rightarrow>
                 act_bind (compute_expression H call scope (tn_id node) expression) (\<lambda>v.
                   act_modify (set_opt H variable (present v)))
             | _ \<Rightarrow> act_return ()) (\<lambda>_.
            if i = RET_PARAM_ID then
              leaf_arguments H call scope f node is (args, hm_insert i variable locals, selected)
            else act_bind
              (case expression of
                 ESelect _ _ \<Rightarrow>
                   act_bind (compute_expression H call scope (tn_id node) expression) (\<lambda>v.
                     act_return (present v, locals, selected @ [i]))
               | _ \<Rightarrow>
                   act_bind (act_read (cell_get H variable)) (\<lambda>held.
                     act_return (held, hm_insert i variable locals, selected)))
              (\<lambda>(held, locals, selected).
                 leaf_arguments H call scope f node is
                   (args @ [StructureField i (argument_value held (is_optional f i))], locals, selected)))))"

fun leaf_mutated ::
  "'w seams \<Rightarrow> FrozenFunction \<Rightarrow> (uuid, VariableCell) hash_map \<Rightarrow> uuid list \<Rightarrow> Value StructureField list \<Rightarrow>
   ('w, unit) act" where
  "leaf_mutated H f locals selected [] = act_return ()"
| "leaf_mutated H f locals selected (m # ms) =
     (if sf_id m \<in> set selected then leaf_mutated H f locals selected ms
      else case hm_get locals (sf_id m) of
        None \<Rightarrow> act_fail InternalError
      | Some variable \<Rightarrow>
          act_bind (act_modify (write_back H variable (sf_value m) (is_optional f (sf_id m)))) (\<lambda>_.
            leaf_mutated H f locals selected ms))"

definition tick_leaf ::
  "'w seams \<Rightarrow> 'w dispatch \<Rightarrow> Scope \<Rightarrow> TickFunction \<Rightarrow> FrozenFunction ModuleFunction \<Rightarrow> ('w, Status) act" where
  "tick_leaf H call scope tf module_function =
     (let node = tf_node tf; f = mf_function module_function;
          nof_children = (case tn_children node of None \<Rightarrow> 0 | Some cs \<Rightarrow> length cs)
      in if nof_children \<noteq> length (tf_children tf) then (\<lambda>s. None)
      else act_bind
        (case tn_children node of
           None \<Rightarrow> act_return []
         | Some _ \<Rightarrow> act_bind (act_lift (children_argument node f (tf_children tf))) (\<lambda>a. act_return [a]))
        (\<lambda>children_args.
      act_bind (leaf_arguments H call scope f node (tf_argument_order tf) (children_args, [], []))
        (\<lambda>(args, locals, selected).
      act_bind (act_map_err TreeCallError (call
          \<lparr>call_module_id = Some (mf_module_id module_function), call_id = tn_function node, call_args = args\<rparr>))
        (\<lambda>result.
      act_bind (leaf_mutated H f locals selected (cr_mutated result)) (\<lambda>_.
      case hm_get locals RET_PARAM_ID of
        Some c \<Rightarrow>
          act_bind (act_modify (write_back H c (cr_ret result) (ty_is_option (fn_return_ty f)))) (\<lambda>_.
            act_return Success)
      | None \<Rightarrow>
          act_bind (act_modify (\<lambda>s.
              if tr_on (ts_record s) \<and> tn_id node \<in> set (tr_watched (ts_record s))
              then s\<lparr>ts_record := record_returned (tn_id node) (cr_ret result)
                     (ty_is_option (fn_return_ty f)) (ts_record s)\<rparr> else s)) (\<lambda>_.
            act_return (case status_of_value (cr_ret result) of None \<Rightarrow> Success | Some st \<Rightarrow> st)))))))"

section \<open>One node, and its children\<close>

text \<open>
  \<open>BehaviorTreeError\<close> into \<open>CallError\<close>, which is how a child's error reaches the node above it.
\<close>

definition into_call_error :: "'w seams \<Rightarrow> BehaviorTreeError \<Rightarrow> CallError" where
  "into_call_error H e = (case e of TreeCallError c \<Rightarrow> c | _ \<Rightarrow> CallGeneric (sm_to_string H e))"

type_synonym 'w indirect = "u64 \<Rightarrow> (CallError, 'w tree_state, Value) step"

definition tick_callable :: "'w indirect \<Rightarrow> u64 \<Rightarrow> ('w, Status) act" where
  "tick_callable indirect i =
     act_bind (act_map_err TreeCallError (indirect i)) (\<lambda>v.
       case status_of_value v of None \<Rightarrow> act_fail ConversionError | Some status \<Rightarrow> act_return status)"

definition tick :: "'w seams \<Rightarrow> 'w indirect \<Rightarrow> TickFunction \<Rightarrow> ('w, Status) act" where
  "tick H indirect tf =
     (let scope = \<lparr>sc_variables = tf_locals tf, sc_cells = tf_cells tf, sc_calls = tf_calls tf\<rparr>;
          call = sm_dispatch H indirect
      in act_bind (case tf_pulls tf of Some pulls \<Rightarrow> sm_pull H pulls | None \<Rightarrow> act_return ()) (\<lambda>_.
         act_bind (tick_builtin H call (tick_callable indirect) scope (tf_outputs tf) (tf_children tf) (tf_node tf))
           (\<lambda>builtin. case builtin of
              Some status \<Rightarrow> act_return status
            | None \<Rightarrow>
                (case tf_function tf of
                   None \<Rightarrow> act_fail (TreeCallError (FunctionNotFound (tn_function (tf_node tf))))
                 | Some f \<Rightarrow> tick_leaf H call scope tf f))))"

definition TickFunction_tick :: "'w seams \<Rightarrow> 'w indirect \<Rightarrow> TickFunction \<Rightarrow> ('w, Status) act" where
  "TickFunction_tick H indirect tf s =
     map_option (\<lambda>(ticked, s).
       (ticked, if tr_on (ts_record s)
                then s\<lparr>ts_record := record_status (tn_id (tf_node tf))
                       (case ticked of Inl _ \<Rightarrow> Failure | Inr status \<Rightarrow> status) (ts_record s)\<rparr>
                else s)) (tick H indirect tf s)"

definition TickFunction_call :: "'w seams \<Rightarrow> 'w indirect \<Rightarrow> TickFunction \<Rightarrow> (CallError, 'w tree_state, Value) step" where
  "TickFunction_call H indirect tf =
     act_map_err (into_call_error H)
       (act_bind (TickFunction_tick H indirect tf) (\<lambda>status. act_return (value_of_status status)))"

fun call_indirect :: "'w seams \<Rightarrow> nat \<Rightarrow> 'w indirect" where
  "call_indirect H 0 i = (\<lambda>s. None)"
| "call_indirect H (Suc n) i =
     (\<lambda>s. case find_callable i s of
            Inl e \<Rightarrow> Some (Inl e, s)
          | Inr tf \<Rightarrow> TickFunction_call H (call_indirect H n) tf s)"

section \<open>Lowering\<close>

definition argument_order ::
  "(uuid, Expression) hash_map \<Rightarrow> FrozenFunction ModuleFunction option \<Rightarrow> uuid list" where
  "argument_order arguments signature =
     (let order = (case signature of None \<Rightarrow> [] | Some m \<Rightarrow> fn_parameter_ordering (mf_function m));
          position = (\<lambda>i. if i \<in> set order then length (takeWhile (\<lambda>j. j \<noteq> i) order) else 2 ^ 64 - 1)
      in sort_key (\<lambda>i. (position i, i)) (hm_keys arguments))"

end
