(* ===== verification/Simple_Store.thy ===== *)
theory Simple_Store
  imports Data_Store
begin

text \<open>
  The hash-map data store (\<open>crates/arora-simple-data-store/src/lib.rs\<close>). Cells are shared
  between the store and the slots handed out, so they live in an explicit heap and a cell is an
  address; a channel is likewise shared between the store's sender and the subscription's
  receiver. Each operation holds its locks and is one step; the interleaving of operations is a
  sequence of steps.
\<close>

section \<open>State\<close>

text \<open>
  A subscription owns both its receiver and the \<open>Arc\<close> its subscriber watches, and drops them
  together: one flag per channel says whether the subscription is still there.
\<close>

record Channel =
  ch_queue :: "StateChange list"
  ch_alive :: bool

record Subscriber =
  sub_prefix :: string
  sub_tx :: nat

record Inner =
  in_cells :: "(Key, nat) hash_map"
  in_heap :: "Value option list"
  in_meta :: "(Key, KeyMeta) hash_map"
  in_prefix_meta :: "(string, KeyMeta) hash_map"
  in_subscribers :: "Subscriber list"
  in_channels :: "Channel list"

record SimpleSlot =
  slot_cell :: nat
  slot_key :: Key

definition SimpleDataStore_new :: Inner where
  "SimpleDataStore_new = \<lparr>in_cells = [], in_heap = [], in_meta = [], in_prefix_meta = [],
     in_subscribers = [], in_channels = []\<rparr>"

section \<open>Notification\<close>

definition part_of :: "Subscriber \<Rightarrow> StateChange \<Rightarrow> StateChange" where
  "part_of self change =
     (let covered = prefix_covers (sub_prefix self) in
      if list_all covered (hm_keys (sc_set change) @ sc_unset change) then change
      else \<lparr>sc_set = hm_collect (filter (\<lambda>(key, _). covered key) (sc_set change)),
            sc_unset = hs_collect (filter covered (sc_unset change))\<rparr>)"

definition send :: "Channel list \<Rightarrow> nat \<Rightarrow> StateChange \<Rightarrow> bool \<times> Channel list" where
  "send channels tx change =
     (let ch = channels ! tx in
      if ch_alive ch then (True, channels[tx := ch\<lparr>ch_queue := ch_queue ch @ [change]\<rparr>])
      else (False, channels))"

text \<open>\<open>retain\<close> over the subscribers, in order: who stays, and the channels after the sends.\<close>

fun retain_notified ::
  "StateChange \<Rightarrow> Subscriber list \<Rightarrow> Channel list \<Rightarrow> Subscriber list \<times> Channel list" where
  "retain_notified change [] channels = ([], channels)"
| "retain_notified change (sub # subs) channels =
     (if \<not> ch_alive (channels ! sub_tx sub) then retain_notified change subs channels
      else let part = part_of sub change;
               (keep, channels) = (if StateChange_is_empty part then (True, channels)
                                   else send channels (sub_tx sub) part);
               (subs, channels) = retain_notified change subs channels
           in (if keep then sub # subs else subs, channels))"

definition notify :: "Inner \<Rightarrow> StateChange \<Rightarrow> Inner" where
  "notify self change =
     (if StateChange_is_empty change then self
      else case retain_notified change (in_subscribers self) (in_channels self) of
        (subs, channels) \<Rightarrow> self\<lparr>in_subscribers := subs, in_channels := channels\<rparr>)"

section \<open>Cells\<close>

definition cell :: "Inner \<Rightarrow> Key \<Rightarrow> nat \<times> Inner" where
  "cell self key =
     (case hm_get (in_cells self) key of
        Some a \<Rightarrow> (a, self)
      | None \<Rightarrow>
          let a = length (in_heap self)
          in (a, self\<lparr>in_cells := hm_insert key a (in_cells self), in_heap := in_heap self @ [None]\<rparr>))"

definition store_read :: "Inner \<Rightarrow> Key list \<Rightarrow> Value option list" where
  "store_read self keys =
     map (\<lambda>k. Option.bind (hm_get (in_cells self) k) (\<lambda>a. in_heap self ! a)) keys"

definition write_set :: "Key \<times> Value option \<Rightarrow> Inner \<times> StateChange \<Rightarrow> Inner \<times> StateChange" where
  "write_set kv st =
     (case (kv, st) of ((key, v), (self, effective)) \<Rightarrow>
      case cell self key of (a, self) \<Rightarrow>
        if \<not> value_opt_eq (in_heap self ! a) v
        then (self\<lparr>in_heap := (in_heap self)[a := v]\<rparr>,
              effective\<lparr>sc_set := hm_insert key v (sc_set effective)\<rparr>)
        else (self, effective))"

definition write_unset :: "Key \<Rightarrow> Inner \<times> StateChange \<Rightarrow> Inner \<times> StateChange" where
  "write_unset key st =
     (case st of (self, effective) \<Rightarrow>
      case cell self key of (a, self) \<Rightarrow>
        if in_heap self ! a \<noteq> None
        then (self\<lparr>in_heap := (in_heap self)[a := None]\<rparr>,
              effective\<lparr>sc_unset := hs_insert key (sc_unset effective)\<rparr>)
        else (self, effective))"

definition write_cells :: "Inner \<Rightarrow> StateChange \<Rightarrow> Inner \<times> StateChange" where
  "write_cells self changes =
     fold write_unset (sc_unset changes) (fold write_set (sc_set changes) (self, StateChange_new))"

definition store_write :: "Inner \<Rightarrow> StateChange \<Rightarrow> (DataError + unit) \<times> Inner" where
  "store_write self changes =
     (case write_cells self changes of (self, effective) \<Rightarrow>
        (Inr (), if \<not> StateChange_is_empty effective then notify self effective else self))"

definition snapshot :: "Inner \<Rightarrow> State" where
  "snapshot self = \<lparr>storage = map (\<lambda>(k, a). (k, in_heap self ! a)) (in_cells self)\<rparr>"

section \<open>Key descriptions\<close>

text \<open>\<open>Iterator::max_by_key\<close>: of several greatest, the last.\<close>

fun max_by_key :: "('a \<Rightarrow> nat) \<Rightarrow> 'a list \<Rightarrow> 'a option" where
  "max_by_key f [] = None"
| "max_by_key f (x # xs) =
     (case max_by_key f xs of None \<Rightarrow> Some x | Some y \<Rightarrow> if f y < f x then Some x else Some y)"

definition meta :: "Inner \<Rightarrow> Key list \<Rightarrow> KeyMeta option list" where
  "meta self keys =
     map (\<lambda>key. case hm_get (in_meta self) key of
            Some m \<Rightarrow> Some m
          | None \<Rightarrow> map_option snd
              (max_by_key (\<lambda>(p, _). length p)
                (filter (\<lambda>(p, _). prefix_covers p key) (in_prefix_meta self)))) keys"

definition all_meta :: "Inner \<Rightarrow> (Key, KeyMeta) hash_map" where
  "all_meta self = in_meta self"

definition set_meta :: "Inner \<Rightarrow> (Key, KeyMeta) hash_map \<Rightarrow> (DataError + unit) \<times> Inner" where
  "set_meta self m = (Inr (), self\<lparr>in_meta := hm_extend (in_meta self) m\<rparr>)"

definition set_prefix_meta :: "Inner \<Rightarrow> (string, KeyMeta) hash_map \<Rightarrow> (DataError + unit) \<times> Inner" where
  "set_prefix_meta self m = (Inr (), self\<lparr>in_prefix_meta := hm_extend (in_prefix_meta self) m\<rparr>)"

section \<open>Slots and subscriptions\<close>

definition slot :: "Inner \<Rightarrow> Key \<Rightarrow> SimpleSlot \<times> Inner" where
  "slot self key = (case cell self key of (a, self) \<Rightarrow> (\<lparr>slot_cell = a, slot_key = key\<rparr>, self))"

definition slot_get :: "Inner \<Rightarrow> SimpleSlot \<Rightarrow> Value option" where
  "slot_get inner self = in_heap inner ! slot_cell self"

definition slot_set :: "Inner \<Rightarrow> SimpleSlot \<Rightarrow> Value option \<Rightarrow> (DataError + unit) \<times> Inner" where
  "slot_set inner self v =
     (if value_opt_eq (in_heap inner ! slot_cell self) v then (Inr (), inner)
      else (Inr (), notify (inner\<lparr>in_heap := (in_heap inner)[slot_cell self := v]\<rparr>)
                     \<lparr>sc_set = [(slot_key self, v)], sc_unset = []\<rparr>))"

text \<open>The current state under a prefix, as a change.\<close>

definition opening_change :: "Inner \<Rightarrow> string \<Rightarrow> StateChange" where
  "opening_change self p =
     \<lparr>sc_set = map (\<lambda>(key, a). (key, in_heap self ! a))
                 (filter (\<lambda>(key, _). prefix_covers p key) (in_cells self)),
      sc_unset = []\<rparr>"

definition subscribe_prefix :: "Inner \<Rightarrow> string \<Rightarrow> Subscription \<times> Inner" where
  "subscribe_prefix self p =
     (let r = length (in_channels self)
      in (Subscription_map (Subscription_new r) (\<lambda>change. change),
          self\<lparr>in_subscribers := in_subscribers self @ [\<lparr>sub_prefix = p, sub_tx = r\<rparr>],
               in_channels :=
                 in_channels self @ [\<lparr>ch_queue = [opening_change self p], ch_alive = True\<rparr>]\<rparr>))"

definition subscribe :: "Inner \<Rightarrow> Subscription \<times> Inner" where
  "subscribe self = subscribe_prefix self []"

text \<open>What a subscription does to the channel it shares with the store.\<close>

definition receive :: "Inner \<Rightarrow> Subscription \<Rightarrow> StateChange option \<times> Subscription \<times> Inner" where
  "receive inner sub =
     (let ch = in_channels inner ! rx sub in
      case try_recv sub (ch_queue ch) of (r, sub', rest) \<Rightarrow>
        (r, sub', inner\<lparr>in_channels := (in_channels inner)[rx sub := ch\<lparr>ch_queue := rest\<rparr>]\<rparr>))"

definition drop_subscription :: "Inner \<Rightarrow> Subscription \<Rightarrow> Inner" where
  "drop_subscription inner sub =
     inner\<lparr>in_channels := (in_channels inner)
       [rx sub := \<lparr>ch_queue = [], ch_alive = False\<rparr>]\<rparr>"

definition simple_store :: "(Inner, SimpleSlot) DataStore" where
  "simple_store = \<lparr>ds_read = store_read, ds_write = store_write, ds_snapshot = snapshot, ds_slot = slot,
     ds_slot_get = slot_get, ds_slot_set = slot_set, ds_subscribe = subscribe,
     ds_subscribe_prefix = subscribe_prefix, ds_meta = meta, ds_all_meta = all_meta,
     ds_set_meta = set_meta, ds_set_prefix_meta = set_prefix_meta\<rparr>"

lemma simple_store_sel [simp]:
  "ds_read simple_store = store_read" "ds_write simple_store = store_write"
  "ds_snapshot simple_store = snapshot" "ds_slot simple_store = slot"
  "ds_slot_get simple_store = slot_get" "ds_slot_set simple_store = slot_set"
  "ds_subscribe simple_store = subscribe" "ds_subscribe_prefix simple_store = subscribe_prefix"
  "ds_meta simple_store = meta" "ds_all_meta simple_store = all_meta"
  "ds_set_meta simple_store = set_meta" "ds_set_prefix_meta simple_store = set_prefix_meta"
  by (simp_all add: simple_store_def)

section \<open>Invariant and lookups\<close>

definition store_inv :: "Inner \<Rightarrow> bool" where
  "store_inv s \<longleftrightarrow>
     hm_ok (in_cells s) \<and> distinct (map snd (in_cells s)) \<and>
     list_all (\<lambda>(_, a). a < length (in_heap s)) (in_cells s) \<and>
     hm_ok (in_meta s) \<and> hm_ok (in_prefix_meta s) \<and>
     distinct (map sub_tx (in_subscribers s)) \<and>
     list_all (\<lambda>sub. sub_tx sub < length (in_channels s)) (in_subscribers s)"

definition value_at :: "Inner \<Rightarrow> Key \<Rightarrow> Value option" where
  "value_at s k = Option.bind (map_of (in_cells s) k) (\<lambda>a. in_heap s ! a)"

definition names_key :: "Inner \<Rightarrow> SimpleSlot \<Rightarrow> Key \<Rightarrow> bool" where
  "names_key s h k \<longleftrightarrow> slot_key h = k \<and> map_of (in_cells s) k = Some (slot_cell h)"

lemma store_inv_new: "store_inv SimpleDataStore_new"
  by (simp add: store_inv_def SimpleDataStore_new_def)

lemma read_values: "store_read s ks = map (value_at s) ks"
  by (simp add: store_read_def value_at_def)

lemma ds_value_simple [simp]: "ds_value simple_store = value_at"
  by (simp add: ds_value_def read_values fun_eq_iff)

lemma cell_bound: "store_inv s \<Longrightarrow> map_of (in_cells s) k = Some a \<Longrightarrow> a < length (in_heap s)"
  by (auto simp: store_inv_def list_all_iff dest: map_of_SomeD)

lemma cell_inj:
  "store_inv s \<Longrightarrow> map_of (in_cells s) k = Some a \<Longrightarrow> map_of (in_cells s) k' = Some a \<Longrightarrow> k = k'"
proof -
  assume inv: "store_inv s" and "map_of (in_cells s) k = Some a" "map_of (in_cells s) k' = Some a"
  then have "(k, a) \<in> set (in_cells s)" "(k', a) \<in> set (in_cells s)" by (blast dest: map_of_SomeD)+
  moreover from inv have "inj_on snd (set (in_cells s))" by (simp add: store_inv_def distinct_map)
  ultimately have "(k, a) = (k', a)" by (rule_tac inj_onD [of snd]) auto
  then show "k = k'" by simp
qed

lemma cell_facts:
  assumes "store_inv s" "cell s k = (a, s')"
  shows "store_inv s'" "map_of (in_cells s') k = Some a" "value_at s' = value_at s"
    "map_of (in_cells s) \<subseteq>\<^sub>m map_of (in_cells s')"
    "in_channels s' = in_channels s" "in_subscribers s' = in_subscribers s"
proof -
  show "store_inv s'"
  proof (cases "map_of (in_cells s) k")
    case None
    then have new: "hm_insert k (length (in_heap s)) (in_cells s) = in_cells s @ [(k, length (in_heap s))]"
      by (intro hm_insert_new) (simp add: map_of_eq_None_iff)
    have fresh: "length (in_heap s) \<notin> snd ` set (in_cells s)"
      using assms(1) by (auto simp: store_inv_def list_all_iff)
    have s': "s' = s\<lparr>in_cells := in_cells s @ [(k, length (in_heap s))], in_heap := in_heap s @ [None]\<rparr>"
      using assms(2) None new by (auto simp: cell_def Let_def)
    have "k \<notin> fst ` set (in_cells s)" using None by (simp add: map_of_eq_None_iff)
    then show ?thesis
      using assms(1) fresh unfolding s'
      by (simp add: store_inv_def) (auto simp: list_all_iff)
  qed (use assms in \<open>simp add: cell_def\<close>)
  show "value_at s' = value_at s"
  proof (cases "map_of (in_cells s) k")
    case None
    have "Option.bind (map_of (in_cells s) k') (\<lambda>a. (in_heap s @ [None]) ! a) = value_at s k'" for k'
      using cell_bound [OF assms(1), of k']
      by (cases "map_of (in_cells s) k'") (simp_all add: value_at_def nth_append)
    with None show ?thesis
      using assms(2) by (auto simp: cell_def value_at_def fun_eq_iff Let_def)
  qed (use assms in \<open>simp add: cell_def\<close>)
  show "map_of (in_cells s') k = Some a" "map_of (in_cells s) \<subseteq>\<^sub>m map_of (in_cells s')"
    "in_channels s' = in_channels s" "in_subscribers s' = in_subscribers s"
    using assms by (auto simp: cell_def map_le_def Let_def split: option.splits)
qed

lemma heap_update:
  assumes "store_inv s" "map_of (in_cells s) k = Some a"
  shows "store_inv (s\<lparr>in_heap := (in_heap s)[a := v]\<rparr>)"
    "value_at (s\<lparr>in_heap := (in_heap s)[a := v]\<rparr>) = (value_at s)(k := v)"
proof -
  show "store_inv (s\<lparr>in_heap := (in_heap s)[a := v]\<rparr>)" using assms by (simp add: store_inv_def)
  have "value_at (s\<lparr>in_heap := (in_heap s)[a := v]\<rparr>) k' = ((value_at s)(k := v)) k'" for k'
    using assms(2) cell_bound [OF assms] cell_inj [OF assms, of k']
    by (cases "map_of (in_cells s) k'") (auto simp: value_at_def nth_list_update)
  then show "value_at (s\<lparr>in_heap := (in_heap s)[a := v]\<rparr>) = (value_at s)(k := v)" by (rule ext)
qed

section \<open>What a write changes\<close>

text \<open>What a change, as its observers get it, makes of a key's value.\<close>

definition effect :: "StateChange \<Rightarrow> Key \<Rightarrow> Value option \<Rightarrow> Value option" where
  "effect c k old =
     (if k \<in> set (sc_unset c) then None
      else case map_of (sc_set c) k of Some v \<Rightarrow> v | None \<Rightarrow> old)"

text \<open>A write in progress: the cells are at the effect of the change gathered so far.\<close>

definition writing :: "Inner \<Rightarrow> Inner \<times> StateChange \<Rightarrow> bool" where
  "writing s0 st \<longleftrightarrow>
     store_inv (fst st) \<and> change_ok (snd st) \<and>
     map_of (in_cells s0) \<subseteq>\<^sub>m map_of (in_cells (fst st)) \<and>
     in_channels (fst st) = in_channels s0 \<and> in_subscribers (fst st) = in_subscribers s0 \<and>
     (\<forall>k. value_at (fst st) k = effect (snd st) k (value_at s0 k))"

lemma writing_set:
  assumes "writing s0 st" "sc_unset (snd st) = []"
  shows "writing s0 (write_set (key, v) st)" "sc_unset (snd (write_set (key, v) st)) = []"
    "value_at (fst (write_set (key, v) st)) k =
       (if k = key then settle (value_at (fst st) key) v else value_at (fst st) k)"
proof -
  obtain s eff where st: "st = (s, eff)" by (cases st)
  obtain a s' where c: "cell s key = (a, s')" by (cases "cell s key")
  from assms st have inv: "store_inv s" by (simp add: writing_def)
  note cf = cell_facts [OF inv c]
  note hu = heap_update [OF cf(1,2)]
  have cur: "in_heap s' ! a = value_at s key"
    using cf(2) by (simp add: value_at_def flip: cf(3))
  have le: "map_of (in_cells s0) \<subseteq>\<^sub>m map_of (in_cells s')"
    using assms(1) cf(4) st by (auto simp: writing_def intro: map_le_trans)
  show "writing s0 (write_set (key, v) st)"
    using assms st c cf hu le
    by (auto simp: write_set_def writing_def effect_def split: option.splits if_splits)
  show "sc_unset (snd (write_set (key, v) st)) = []" using assms(2) st c by (simp add: write_set_def)
  show "value_at (fst (write_set (key, v) st)) k =
       (if k = key then settle (value_at (fst st) key) v else value_at (fst st) k)"
    using st c cf(3) hu(2) cur by (auto simp: write_set_def settle_def)
qed

lemma writing_unset:
  assumes "writing s0 st"
  shows "writing s0 (write_unset key st)"
    "value_at (fst (write_unset key st)) k = (if k = key then None else value_at (fst st) k)"
proof -
  obtain s eff where st: "st = (s, eff)" by (cases st)
  obtain a s' where c: "cell s key = (a, s')" by (cases "cell s key")
  from assms st have inv: "store_inv s" by (simp add: writing_def)
  note cf = cell_facts [OF inv c]
  note hu = heap_update [OF cf(1,2)]
  have cur: "in_heap s' ! a = value_at s key"
    using cf(2) by (simp add: value_at_def flip: cf(3))
  have le: "map_of (in_cells s0) \<subseteq>\<^sub>m map_of (in_cells s')"
    using assms(1) cf(4) st by (auto simp: writing_def intro: map_le_trans)
  show "writing s0 (write_unset key st)"
    using assms st c cf hu le
    by (auto simp: write_unset_def writing_def effect_def split: option.splits if_splits)
  show "value_at (fst (write_unset key st)) k = (if k = key then None else value_at (fst st) k)"
    using st c cf(3) hu(2) cur by (auto simp: write_unset_def)
qed

lemma writing_sets:
  assumes "writing s0 st" "sc_unset (snd st) = []" "hm_ok kvs"
  shows "writing s0 (fold write_set kvs st) \<and>
     value_at (fst (fold write_set kvs st)) k =
       (case map_of kvs k of Some v \<Rightarrow> settle (value_at (fst st) k) v | None \<Rightarrow> value_at (fst st) k)"
  using assms
proof (induction kvs arbitrary: st)
  case (Cons kv kvs)
  obtain key v where kv: "kv = (key, v)" by (cases kv)
  note step = writing_set [OF Cons.prems(1,2), of key v]
  have "map_of kvs key = None" using Cons.prems(3) kv by (simp add: map_of_eq_None_iff)
  with Cons.IH [OF step(1,2)] Cons.prems(3) kv step(3) [of k] show ?case
    by (cases "map_of kvs k") auto
qed simp

lemma writing_unsets:
  assumes "writing s0 st"
  shows "writing s0 (fold write_unset ks st) \<and>
     value_at (fst (fold write_unset ks st)) k = (if k \<in> set ks then None else value_at (fst st) k)"
  using assms
proof (induction ks arbitrary: st)
  case (Cons key ks)
  note step = writing_unset [OF Cons.prems, of key]
  from Cons.IH [OF step(1)] step(2) [of k] show ?case by auto
qed simp

lemma write_cells_facts:
  assumes "store_inv s" "change_ok c"
  shows "writing s (write_cells s c)"
    "value_at (fst (write_cells s c)) k = written c k (value_at s k)"
proof -
  have "writing s (s, StateChange_new)"
    using assms(1) by (simp add: writing_def StateChange_new_def effect_def)
  then have sets: "writing s (fold write_set (sc_set c) (s, StateChange_new))"
    "value_at (fst (fold write_set (sc_set c) (s, StateChange_new))) k =
       (case map_of (sc_set c) k of Some v \<Rightarrow> settle (value_at s k) v | None \<Rightarrow> value_at s k)"
    using writing_sets [of s "(s, StateChange_new)" "sc_set c" k] assms(2)
    by (auto simp: StateChange_new_def split: option.splits)
  then show "writing s (write_cells s c)"
    "value_at (fst (write_cells s c)) k = written c k (value_at s k)"
    using writing_unsets [OF sets(1), of "sc_unset c" k]
    by (auto simp: write_cells_def written_def split: option.splits)
qed

section \<open>What a notification sends\<close>

lemma part_of_keep_under: "part_of sub c = keep_under (sub_prefix sub) c"
  by (simp add: part_of_def keep_under_def Let_def)

text \<open>What one subscriber's channel gets of a change.\<close>

definition parts_for :: "string \<Rightarrow> StateChange \<Rightarrow> StateChange list" where
  "parts_for p c = (if StateChange_is_empty (keep_under p c) then [] else [keep_under p c])"

lemma retain_notified_length:
  "length (snd (retain_notified c subs chans)) = length chans"
  by (induction c subs chans rule: retain_notified.induct)
    (auto simp: send_def Let_def split: prod.splits)

lemma send_alive: "ch_alive (snd (send chans i c) ! j) = ch_alive (chans ! j)"
  by (cases "i < length chans"; cases "i = j") (auto simp: send_def Let_def list_update_beyond)

lemma send_result: "fst (send chans i c) = ch_alive (chans ! i)"
  by (simp add: send_def Let_def)

lemma retain_notified_alive:
  "ch_alive (snd (retain_notified c subs chans) ! r) = ch_alive (chans ! r)"
  by (induction subs arbitrary: chans) (simp_all add: send_alive Let_def case_prod_unfold)

lemma retain_notified_subs:
  "fst (retain_notified c subs chans) = filter (\<lambda>sub. ch_alive (chans ! sub_tx sub)) subs"
  by (induction subs arbitrary: chans)
    (simp_all add: send_alive send_result Let_def case_prod_unfold)

lemma retain_notified_other:
  "r \<notin> sub_tx ` set subs \<Longrightarrow> snd (retain_notified c subs chans) ! r = chans ! r"
  by (induction c subs chans rule: retain_notified.induct)
    (auto simp: send_def Let_def split: prod.splits)

lemma retain_notified_queue:
  assumes "distinct (map sub_tx subs)" "sub \<in> set subs" "sub_tx sub < length chans"
    "ch_alive (chans ! sub_tx sub)"
  shows "ch_queue (snd (retain_notified c subs chans) ! sub_tx sub) =
     ch_queue (chans ! sub_tx sub) @ parts_for (sub_prefix sub) c"
  using assms
proof (induction c subs chans rule: retain_notified.induct)
  case (2 c x subs chans)
  show ?case
  proof (cases "x = sub")
    case True
    with 2(3) have "sub_tx sub \<notin> sub_tx ` set subs" by simp
    from retain_notified_other [OF this] True 2(5,6) show ?thesis
      by (simp add: parts_for_def part_of_keep_under send_def Let_def case_prod_unfold)
  next
    case False
    with 2(4) have "sub \<in> set subs" by simp
    moreover from this 2(3) have "sub_tx x \<noteq> sub_tx sub" by (auto simp: image_iff)
    ultimately show ?thesis using 2 by (auto simp: send_def Let_def split: prod.splits)
  qed
qed simp

lemma notify_cells [simp]:
  "in_cells (notify s c) = in_cells s" "in_heap (notify s c) = in_heap s"
  "in_meta (notify s c) = in_meta s" "in_prefix_meta (notify s c) = in_prefix_meta s"
  "value_at (notify s c) = value_at s" "names_key (notify s c) = names_key s"
  by (auto simp: notify_def value_at_def names_key_def fun_eq_iff split: prod.splits)

lemma notify_channels:
  "length (in_channels (notify s c)) = length (in_channels s)"
  "ch_alive (in_channels (notify s c) ! r) = ch_alive (in_channels s ! r)"
  by (simp_all add: notify_def retain_notified_length retain_notified_alive case_prod_unfold)

lemma notify_subscribers:
  "in_subscribers (notify s c) =
     (if StateChange_is_empty c then in_subscribers s
      else filter (\<lambda>sub. ch_alive (in_channels s ! sub_tx sub)) (in_subscribers s))"
  by (simp add: notify_def retain_notified_subs case_prod_unfold)

lemma notify_inv [step_inv]: "store_inv s \<Longrightarrow> store_inv (notify s c)"
  by (auto simp: store_inv_def notify_subscribers notify_channels list_all_iff distinct_map_filter)

lemma notify_queue:
  assumes "store_inv s" "sub \<in> set (in_subscribers s)" "ch_alive (in_channels s ! sub_tx sub)"
  shows "ch_queue (in_channels (notify s c) ! sub_tx sub) =
     ch_queue (in_channels s ! sub_tx sub) @ parts_for (sub_prefix sub) c"
proof (cases "StateChange_is_empty c")
  case True
  then have "StateChange_is_empty (keep_under (sub_prefix sub) c)"
    by (simp add: StateChange_is_empty_def keep_under_def)
  with True show ?thesis by (simp add: notify_def parts_for_def)
next
  case False
  from assms have "distinct (map sub_tx (in_subscribers s))" "sub_tx sub < length (in_channels s)"
    by (auto simp: store_inv_def list_all_iff)
  with False assms show ?thesis
    by (simp add: notify_def case_prod_unfold retain_notified_queue)
qed

section \<open>The store keeps its contract\<close>

lemma store_write_facts:
  assumes "store_inv s" "change_ok c"
  shows "store_inv (snd (store_write s c))"
    "value_at (snd (store_write s c)) k = written c k (value_at s k)"
    "map_of (in_cells s) \<subseteq>\<^sub>m map_of (in_cells (snd (store_write s c)))"
  using write_cells_facts(1) [OF assms] write_cells_facts(2) [OF assms, of k]
  by (auto simp: store_write_def writing_def case_prod_unfold intro: step_inv)

lemma slot_set_facts:
  assumes "store_inv s" "names_key s h k"
  shows "store_inv (snd (slot_set s h v))"
    "value_at (snd (slot_set s h v)) k' = (if k' = k then settle (value_at s k) v else value_at s k')"
    "in_cells (snd (slot_set s h v)) = in_cells s"
proof -
  have a: "map_of (in_cells s) k = Some (slot_cell h)" using assms(2) by (simp add: names_key_def)
  then have cur: "in_heap s ! slot_cell h = value_at s k" by (simp add: value_at_def)
  show "store_inv (snd (slot_set s h v))" "in_cells (snd (slot_set s h v)) = in_cells s"
    using heap_update(1) [OF assms(1) a] assms(1) by (auto simp: slot_set_def intro: step_inv)
  show "value_at (snd (slot_set s h v)) k' = (if k' = k then settle (value_at s k) v else value_at s k')"
    using heap_update(2) [OF assms(1) a] cur by (simp add: slot_set_def settle_def)
qed

lemma slot_facts:
  assumes "store_inv s"
  shows "store_inv (snd (slot s k))" "value_at (snd (slot s k)) = value_at s"
    "names_key (snd (slot s k)) (fst (slot s k)) k"
    "map_of (in_cells s) \<subseteq>\<^sub>m map_of (in_cells (snd (slot s k)))"
    "in_channels (snd (slot s k)) = in_channels s" "in_subscribers (snd (slot s k)) = in_subscribers s"
  using cell_facts [OF assms, of k "fst (cell s k)" "snd (cell s k)"]
  by (auto simp: slot_def names_key_def case_prod_unfold)

lemma names_key_mono:
  "names_key s h k \<Longrightarrow> map_of (in_cells s) \<subseteq>\<^sub>m map_of (in_cells s') \<Longrightarrow> names_key s' h k"
  by (auto simp: names_key_def map_le_def dom_def)

lemma snapshot_get: "State_get (snapshot s) k = map_option (\<lambda>a. in_heap s ! a) (map_of (in_cells s) k)"
  by (simp add: State_get_def snapshot_def map_of_map_keys)

lemma slot_get_value: "names_key s h k \<Longrightarrow> slot_get s h = value_at s k"
  by (simp add: slot_get_def names_key_def value_at_def)

interpretation simple: data_store simple_store store_inv names_key
proof unfold_locales
  fix s k assume "store_inv s"
  then show "hm_ok (storage (ds_snapshot simple_store s))"
    by (simp add: snapshot_def store_inv_def comp_def case_prod_unfold)
  show "ds_value simple_store s k = Option.bind (State_get (ds_snapshot simple_store s) k) (\<lambda>v. v)"
    by (cases "map_of (in_cells s) k") (simp_all add: snapshot_get value_at_def)
next
  fix s c assume "store_inv s" "change_ok c"
  then show "fst (ds_write simple_store s c) = Inr ()"
    by (simp add: store_write_def case_prod_unfold)
next
  fix s h k h' k' v assume "store_inv s" "names_key s h k" "names_key s h' k'"
  then show "names_key (snd (ds_slot_set simple_store s h' v)) h k"
    using slot_set_facts(3) [of s h' k' v] by (simp add: names_key_def)
next
  fix s h k c assume "store_inv s" "names_key s h k" "change_ok c"
  then show "names_key (snd (ds_write simple_store s c)) h k"
    by (simp add: names_key_mono store_write_facts)
next
  fix s h k k' assume "store_inv s" "names_key s h k"
  then show "names_key (snd (ds_slot simple_store s k')) h k"
    by (simp add: names_key_mono slot_facts)
qed (simp_all add: read_values store_write_facts slot_set_facts slot_facts slot_get_value)

text \<open>
  C32. A slot resolved from a key is that key's cell for as long as it is held: after any write it
  reads what the store reads for the key, and what it sets the store reads, every other key
  keeping its value.
\<close>

theorem slot_is_the_key:
  assumes "store_inv s" "slot s k = (h, s1)" "change_ok c" "store_write s1 c = (r, s2)"
    "slot_set s2 h v = (r', s3)"
  shows "slot_get s2 h = hd (store_read s2 [k]) \<and>
     hd (store_read s2 [k]) = written c k (hd (store_read s [k])) \<and>
     store_read s3 [k] = [settle (slot_get s2 h) v] \<and>
     (\<forall>k'. k' \<noteq> k \<longrightarrow> store_read s3 [k'] = store_read s2 [k'])"
proof -
  from assms have s1: "store_inv s1" "names_key s1 h k" "value_at s1 = value_at s"
    using slot_facts [of s k] by auto
  with assms have s2: "store_inv s2" "names_key s2 h k" "value_at s2 k = written c k (value_at s1 k)"
    using simple.write_inv [of s1 c] simple.names_write [of s1 h k c] simple.write_value [of s1 c k]
    by auto
  with assms(5) have "value_at s3 k' = (if k' = k then settle (value_at s2 k) v else value_at s2 k')"
    for k' using simple.slot_set_value [of s2 h k v k'] by simp
  with s1 s2 show ?thesis by (simp add: read_values slot_get_value)
qed

theorem slot_is_the_key_witness:
  "let (h, s1) = slot SimpleDataStore_new ''a'';
       (r, s2) = store_write s1 (StateChange_set ''a'' (U8 1));
       (r', s3) = slot_set s2 h (Some (U8 2))
   in slot_get s2 h = hd (store_read s2 [''a'']) \<and> store_read s3 [''a''] = [settle (slot_get s2 h) (Some (U8 2))]"
proof -
  obtain h s1 where 1: "slot SimpleDataStore_new ''a'' = (h, s1)"
    by (cases "slot SimpleDataStore_new ''a''")
  obtain r s2 where 2: "store_write s1 (StateChange_set ''a'' (U8 1)) = (r, s2)"
    by (cases "store_write s1 (StateChange_set ''a'' (U8 1))")
  obtain r' s3 where 3: "slot_set s2 h (Some (U8 2)) = (r', s3)"
    by (cases "slot_set s2 h (Some (U8 2))")
  show ?thesis
    using slot_is_the_key [OF store_inv_new 1 _ 2 3] 1 2 3 by (simp add: StateChange_set_def)
qed

section \<open>Echoes\<close>

text \<open>A state that differs from another in cells created, not in what it holds or tells.\<close>

definition same_store :: "Inner \<Rightarrow> Inner \<Rightarrow> bool" where
  "same_store s s' \<longleftrightarrow>
     store_inv s' \<and> value_at s' = value_at s \<and> in_channels s' = in_channels s \<and>
     in_subscribers s' = in_subscribers s"

lemma same_store_cell: "same_store s s1 \<Longrightarrow> same_store s (snd (cell s1 k))"
  using cell_facts [of s1 k "fst (cell s1 k)" "snd (cell s1 k)"] by (auto simp: same_store_def)

lemma cell_current: "store_inv s \<Longrightarrow> in_heap (snd (cell s k)) ! fst (cell s k) = value_at s k"
  using cell_facts(2,3) [of s k "fst (cell s k)" "snd (cell s k)"]
  by (metis bind.bind_lunit prod.collapse value_at_def)

lemma write_sets_same:
  assumes "same_store s s1" "\<And>k v. (k, v) \<in> set kvs \<Longrightarrow> value_opt_eq (value_at s k) v"
  shows "\<exists>s2. fold write_set kvs (s1, eff) = (s2, eff) \<and> same_store s s2"
  using assms
proof (induction kvs arbitrary: s1)
  case (Cons kv kvs)
  obtain k v where kv: "kv = (k, v)" by (cases kv)
  have "write_set (k, v) (s1, eff) = (snd (cell s1 k), eff)"
    using Cons.prems kv cell_current [of s1 k] by (simp add: write_set_def same_store_def case_prod_unfold)
  with Cons same_store_cell [OF Cons.prems(1), of k] kv show ?case by simp
qed simp

lemma write_unsets_same:
  assumes "same_store s s1" "\<And>k. k \<in> set ks \<Longrightarrow> value_at s k = None"
  shows "\<exists>s2. fold write_unset ks (s1, eff) = (s2, eff) \<and> same_store s s2"
  using assms
proof (induction ks arbitrary: s1)
  case (Cons k ks)
  have "write_unset k (s1, eff) = (snd (cell s1 k), eff)"
    using Cons.prems cell_current [of s1 k] by (simp add: write_unset_def same_store_def case_prod_unfold)
  with Cons same_store_cell [OF Cons.prems(1), of k] show ?case by simp
qed simp

text \<open>
  A write that sets every key it names to a value equal to the one it holds, and unsets only
  keys that hold none, changes no value and sends nothing to any subscriber.
\<close>

theorem echo_is_silent:
  assumes "store_inv s"
    "\<forall>(k, v)\<in>set (sc_set c). value_opt_eq (hd (store_read s [k])) v"
    "\<forall>k\<in>set (sc_unset c). hd (store_read s [k]) = None"
  shows "in_channels (snd (store_write s c)) = in_channels s \<and>
     store_read (snd (store_write s c)) ks = store_read s ks"
proof -
  have "same_store s s" using assms(1) by (simp add: same_store_def)
  from write_sets_same [OF this, of "sc_set c" StateChange_new] assms(2)
  obtain s1 where s1: "fold write_set (sc_set c) (s, StateChange_new) = (s1, StateChange_new)"
    "same_store s s1" by (auto simp: read_values)
  from write_unsets_same [OF s1(2), of "sc_unset c" StateChange_new] assms(3)
  obtain s2 where s2: "write_cells s c = (s2, StateChange_new)" "same_store s s2"
    by (auto simp: write_cells_def s1(1) read_values)
  then show ?thesis
    by (simp add: store_write_def StateChange_new_def StateChange_is_empty_def same_store_def read_values)
qed

theorem echo_is_silent_witness:
  "let s = snd (store_write (snd (subscribe SimpleDataStore_new)) (StateChange_set ''a'' (U8 1)));
       c = StateChange_set ''a'' (U8 1)
   in in_channels (snd (store_write s c)) = in_channels s"
proof -
  let ?s0 = "snd (subscribe SimpleDataStore_new)" and ?c = "StateChange_set ''a'' (U8 1)"
  have i0: "store_inv ?s0" by (simp add: subscribe_def subscribe_prefix_def Let_def store_inv_def
        SimpleDataStore_new_def)
  have i1: "store_inv (snd (store_write ?s0 ?c))"
    by (rule store_write_facts [OF i0]) (simp_all add: StateChange_set_def)
  have "value_at (snd (store_write ?s0 ?c)) ''a'' = written ?c ''a'' (value_at ?s0 ''a'')"
    by (rule store_write_facts [OF i0]) (simp_all add: StateChange_set_def)
  then have "value_at (snd (store_write ?s0 ?c)) ''a'' = Some (U8 1)"
    by (simp add: written_def StateChange_set_def settle_def value_at_def subscribe_def
        subscribe_prefix_def Let_def SimpleDataStore_new_def)
  then show ?thesis
    using echo_is_silent [OF i1, of ?c "[]"]
    by (simp add: StateChange_set_def read_values value_eq_def)
qed

section \<open>Key descriptions: the most specific one\<close>

lemma max_by_key_None: "max_by_key f xs = None \<longleftrightarrow> xs = []"
  by (cases xs) (auto split: option.splits)

lemma max_by_key_Some:
  "max_by_key f xs = Some y \<Longrightarrow> y \<in> set xs \<and> (\<forall>x\<in>set xs. f x \<le> f y)"
  by (induction xs arbitrary: y) (fastforce simp: max_by_key_None split: option.splits if_splits)+

text \<open>
  The description of a key is its own when it has one, else that of the most specific prefix
  described that covers it: every other described prefix covering the key covers that prefix too.
  The answer does not depend on the order the hash map of prefixes is visited in.
\<close>

theorem meta_most_specific:
  "case hd (meta s [key]) of
     None \<Rightarrow>
       map_of (in_meta s) key = None \<and>
       (\<forall>q m. (q, m) \<in> set (in_prefix_meta s) \<longrightarrow> \<not> prefix_covers q key)
   | Some m \<Rightarrow>
       map_of (in_meta s) key = Some m \<or>
       map_of (in_meta s) key = None \<and>
         (\<exists>p. (p, m) \<in> set (in_prefix_meta s) \<and> prefix_covers p key \<and>
            (\<forall>q m'. (q, m') \<in> set (in_prefix_meta s) \<and> prefix_covers q key \<longrightarrow> prefix_covers q p))"
proof (cases "map_of (in_meta s) key")
  case None
  let ?covering = "filter (\<lambda>(p, _). prefix_covers p key) (in_prefix_meta s)"
  show ?thesis
  proof (cases "max_by_key (\<lambda>(p, _). length p) ?covering")
    case N: None
    with None show ?thesis by (auto simp: meta_def max_by_key_None filter_empty_conv)
  next
    case (Some pm)
    then have pm: "pm \<in> set ?covering" "\<forall>x\<in>set ?covering. length (fst x) \<le> length (fst pm)"
      using max_by_key_Some [OF Some] by (simp_all add: case_prod_unfold)
    have "prefix_covers q (fst pm)" if "(q, m') \<in> set (in_prefix_meta s)" "prefix_covers q key" for q m'
      by (rule prefix_covers_nested [of q key]) (use pm that in auto)
    with pm(1) None Some show ?thesis by (auto simp: meta_def)
  qed
qed (simp add: meta_def)

theorem meta_most_specific_witness:
  "hd (meta (snd (set_prefix_meta SimpleDataStore_new
      [([], KeyMeta_new), (''face'', editable KeyMeta_new)])) [''face/mouth'']) =
     Some (editable KeyMeta_new)"
  using meta_most_specific [of "snd (set_prefix_meta SimpleDataStore_new
      [([], KeyMeta_new), (''face'', editable KeyMeta_new)])" "''face/mouth''"]
  by (simp add: set_prefix_meta_def SimpleDataStore_new_def meta_def hm_extend_def hm_insert_def
      prefix_covers_def starts_with_def)

section \<open>Observers\<close>

text \<open>
  Whoever holds a subscription keeps a state, applying to it each change it receives. A system is
  the store and its observers; its steps are the operations of the store and of the
  subscriptions, in any order.
\<close>

record Observer =
  ob_sub :: Subscription
  ob_prefix :: string
  ob_state :: State

inductive store_step :: "Inner \<times> Observer list \<Rightarrow> Inner \<times> Observer list \<Rightarrow> bool" where
  step_write: "change_ok c \<Longrightarrow> store_step (s, obs) (snd (store_write s c), obs)"
| step_slot: "store_step (s, obs) (snd (slot s k), obs)"
| step_slot_set: "names_key s h k \<Longrightarrow> store_step (s, obs) (snd (slot_set s h v), obs)"
| step_meta: "hm_ok m \<Longrightarrow> store_step (s, obs) (snd (set_meta s m), obs)"
| step_prefix_meta: "hm_ok pm \<Longrightarrow> store_step (s, obs) (snd (set_prefix_meta s pm), obs)"
| step_subscribe:
    "subscribe_prefix s p = (sub, s') \<Longrightarrow>
       store_step (s, obs) (s', obs @ [\<lparr>ob_sub = sub, ob_prefix = p, ob_state = State_new\<rparr>])"
| step_receive:
    "i < length obs \<Longrightarrow> receive s (ob_sub (obs ! i)) = (Some c, sub', s') \<Longrightarrow>
       store_step (s, obs)
         (s', obs[i := (obs ! i)\<lparr>ob_sub := sub', ob_state := State_apply (ob_state (obs ! i)) c\<rparr>])"
| step_drop:
    "i < length obs \<Longrightarrow>
       store_step (s, obs) (drop_subscription s (ob_sub (obs ! i)), take i obs @ drop (Suc i) obs)"

inductive reachable :: "Inner \<times> Observer list \<Rightarrow> bool" where
  reach_new: "reachable (SimpleDataStore_new, [])"
| reach_step: "reachable x \<Longrightarrow> store_step x y \<Longrightarrow> reachable y"

definition state_value :: "State \<Rightarrow> Key \<Rightarrow> Value option" where
  "state_value st k = Option.bind (State_get st k) (\<lambda>v. v)"

text \<open>
  The invariant of one observer: it is registered under its prefix, its channel is open, every
  waiting change is well-formed and not empty (the opening one apart, before it is received), and
  its state after the waiting changes is the store's under the prefix.
\<close>

definition replay :: "StateChange list \<Rightarrow> State \<Rightarrow> State" where
  "replay q st = fold (\<lambda>c st. State_apply st c) q st"

definition observes :: "Inner \<Rightarrow> Observer \<Rightarrow> bool" where
  "observes s ob \<longleftrightarrow>
     (let q = ch_queue (in_channels s ! rx (ob_sub ob)) in
      \<lparr>sub_prefix = ob_prefix ob, sub_tx = rx (ob_sub ob)\<rparr> \<in> set (in_subscribers s) \<and>
      ch_alive (in_channels s ! rx (ob_sub ob)) \<and>
      (\<exists>b. translation (ob_sub ob) = Some \<lparr>translate = (\<lambda>c. c), opened = b\<rparr> \<and>
         list_all (\<lambda>c. \<not> StateChange_is_empty c) (if b then q else drop 1 q)) \<and>
      list_all (\<lambda>c. change_ok c) q \<and>
      (\<forall>k. prefix_covers (ob_prefix ob) k \<longrightarrow> state_value (replay q (ob_state ob)) k = value_at s k))"

definition system_inv :: "Inner \<times> Observer list \<Rightarrow> bool" where
  "system_inv x \<longleftrightarrow>
     (case x of (s, obs) \<Rightarrow>
        store_inv s \<and> distinct (map (\<lambda>ob. rx (ob_sub ob)) obs) \<and> list_all (observes s) obs)"

lemma state_value_apply:
  "change_ok c \<Longrightarrow> state_value (State_apply st c) k = effect c k (state_value st k)"
  by (simp add: state_value_def State_get_apply effect_def split: option.splits)

lemma replay_nonempty:
  assumes "list_all (\<lambda>c. change_ok c) q"
  shows "state_value (replay (filter (\<lambda>c. \<not> StateChange_is_empty c) q) st) k = state_value (replay q st) k"
proof -
  have "\<forall>k. state_value st k = state_value st' k \<Longrightarrow>
     state_value (replay (filter (\<lambda>c. \<not> StateChange_is_empty c) q) st) k = state_value (replay q st') k"
    for st st' using assms
  proof (induction q arbitrary: st st')
    case (Cons c q)
    show ?case
    proof (cases "StateChange_is_empty c")
      case True
      then have "\<forall>k. state_value st k = state_value (State_apply st' c) k"
        using Cons.prems by (simp add: state_value_apply effect_def StateChange_is_empty_def)
      with Cons True show ?thesis by (simp add: replay_def)
    next
      case False
      with Cons show ?thesis by (simp add: replay_def state_value_apply)
    qed
  qed (simp add: replay_def)
  then show ?thesis by simp
qed

lemma effect_keep_under:
  assumes "change_ok c" "prefix_covers p k"
  shows "effect (keep_under p c) k old = effect c k old"
  using assms by (simp add: effect_def keep_under_lookup)

lemma replay_parts:
  assumes "change_ok c" "prefix_covers p k"
  shows "state_value (replay (q @ parts_for p c) st) k = effect c k (state_value (replay q st) k)"
proof (cases "StateChange_is_empty (keep_under p c)")
  case True
  then have "effect (keep_under p c) k old = old" for old
    by (simp add: effect_def StateChange_is_empty_def)
  with True assms show ?thesis by (simp add: parts_for_def effect_keep_under)
next
  case False
  with assms show ?thesis
    by (simp add: parts_for_def replay_def state_value_apply keep_under_lookup effect_keep_under)
qed

lemma observes_cong:
  assumes "observes s ob" "in_subscribers s' = in_subscribers s" "in_channels s' = in_channels s"
    "value_at s' = value_at s"
  shows "observes s' ob"
  using assms by (simp add: observes_def)

text \<open>An observer keeps up with a store that moves its cells and notifies the difference.\<close>

lemma observes_notify:
  assumes "observes s ob" "store_inv s1" "change_ok c"
    "in_subscribers s1 = in_subscribers s" "in_channels s1 = in_channels s"
    "\<And>k. value_at s1 k = effect c k (value_at s k)"
  shows "observes (notify s1 c) ob"
proof -
  let ?r = "rx (ob_sub ob)" and ?sub = "\<lparr>sub_prefix = ob_prefix ob, sub_tx = rx (ob_sub ob)\<rparr>"
  let ?q = "ch_queue (in_channels s ! ?r)"
  have sub: "?sub \<in> set (in_subscribers s1)" "ch_alive (in_channels s1 ! ?r)"
    using assms(1,4,5) by (auto simp: observes_def Let_def)
  have q: "ch_queue (in_channels (notify s1 c) ! ?r) = ?q @ parts_for (ob_prefix ob) c"
    using notify_queue [OF assms(2) sub(1)] sub(2) assms(5) by simp
  have parts: "list_all (\<lambda>c. change_ok c) (parts_for (ob_prefix ob) c)"
    "list_all (\<lambda>c. \<not> StateChange_is_empty c) (parts_for (ob_prefix ob) c)"
    using assms(3) by (simp_all add: parts_for_def keep_under_lookup)
  have drop1: "list_all P (drop 1 xs) \<Longrightarrow> list_all P ys \<Longrightarrow> list_all P (drop 1 (xs @ ys))"
    for P :: "StateChange \<Rightarrow> bool" and xs ys
    by (cases xs) (auto simp: list_all_iff dest: in_set_dropD)
  show ?thesis
    using assms(1,3) sub parts drop1 unfolding observes_def Let_def q notify_channels
    by (auto simp: notify_subscribers replay_parts assms(6) assms(5))
qed

lemma write_observed:
  assumes "store_inv s" "change_ok c" "observes s ob"
  shows "observes (snd (store_write s c)) ob"
proof -
  obtain s1 eff where w: "write_cells s c = (s1, eff)" by (cases "write_cells s c")
  with write_cells_facts(1) [OF assms(1,2)] have "writing s (s1, eff)" by simp
  then have facts: "store_inv s1" "change_ok eff" "in_subscribers s1 = in_subscribers s"
    "in_channels s1 = in_channels s" "\<And>k. value_at s1 k = effect eff k (value_at s k)"
    by (auto simp: writing_def)
  have "snd (store_write s c) = notify s1 eff"
    using w by (simp add: store_write_def notify_def)
  then show ?thesis using observes_notify [OF assms(3) facts] by simp
qed

lemma slot_set_observed:
  assumes "store_inv s" "names_key s h k" "observes s ob"
  shows "observes (snd (slot_set s h v)) ob"
proof (cases "value_opt_eq (in_heap s ! slot_cell h) v")
  case False
  let ?s1 = "s\<lparr>in_heap := (in_heap s)[slot_cell h := v]\<rparr>"
  let ?c = "\<lparr>sc_set = [(k, v)], sc_unset = []\<rparr>"
  have a: "map_of (in_cells s) k = Some (slot_cell h)" "slot_key h = k"
    using assms(2) by (auto simp: names_key_def)
  have "observes (notify ?s1 ?c) ob"
    using heap_update [OF assms(1) a(1), of v]
    by (intro observes_notify [OF assms(3)]) (auto simp: effect_def)
  with False a show ?thesis by (simp add: slot_set_def)
qed (use assms(3) in \<open>simp add: slot_set_def\<close>)

lemma state_value_opening:
  assumes "store_inv s"
  shows "change_ok (opening_change s p)"
    and "prefix_covers p k \<Longrightarrow> state_value (State_apply State_new (opening_change s p)) k = value_at s k"
proof -
  show ok: "change_ok (opening_change s p)"
    using assms
    by (simp add: opening_change_def store_inv_def comp_def case_prod_unfold distinct_map_filter)
  assume "prefix_covers p k"
  then show "state_value (State_apply State_new (opening_change s p)) k = value_at s k"
    unfolding state_value_apply [OF ok]
    by (cases "map_of (in_cells s) k")
      (simp_all add: opening_change_def effect_def map_of_map_keys map_of_filter_key value_at_def
        state_value_def State_get_def State_new_def)
qed

lemma subscribe_facts:
  assumes "store_inv s" "subscribe_prefix s p = (sub, s')"
  shows "store_inv s'" "observes s' \<lparr>ob_sub = sub, ob_prefix = p, ob_state = State_new\<rparr>"
    "rx sub = length (in_channels s)"
    "observes s ob \<Longrightarrow> rx (ob_sub ob) < length (in_channels s) \<Longrightarrow> observes s' ob"
proof -
  have s': "s' = s\<lparr>in_subscribers := in_subscribers s @ [\<lparr>sub_prefix = p, sub_tx = length (in_channels s)\<rparr>],
      in_channels := in_channels s @ [\<lparr>ch_queue = [opening_change s p], ch_alive = True\<rparr>]\<rparr>"
    and sub: "sub = Subscription_map (Subscription_new (length (in_channels s))) (\<lambda>c. c)"
    using assms(2) by (auto simp: subscribe_prefix_def Let_def)
  have v: "value_at s' = value_at s" by (simp add: s' value_at_def fun_eq_iff)
  show "store_inv s'" using assms(1) unfolding s' by (auto simp: store_inv_def list_all_iff)
  show "rx sub = length (in_channels s)" by (simp add: sub Subscription_map_def Subscription_new_def)
  show "observes s' \<lparr>ob_sub = sub, ob_prefix = p, ob_state = State_new\<rparr>"
    using state_value_opening [OF assms(1), of p] unfolding observes_def v
    by (auto intro!: exI [of _ False]
        simp: s' sub Subscription_map_def Subscription_new_def replay_def)
  show "observes s ob \<Longrightarrow> rx (ob_sub ob) < length (in_channels s) \<Longrightarrow> observes s' ob"
    unfolding observes_def v by (simp add: s' nth_append)
qed

lemma observes_bound: "store_inv s \<Longrightarrow> observes s ob \<Longrightarrow> rx (ob_sub ob) < length (in_channels s)"
  by (auto simp: observes_def store_inv_def list_all_iff Let_def)

lemma observes_other:
  assumes "observes s ob" "rx (ob_sub ob) \<noteq> r"
  shows "observes (s\<lparr>in_channels := (in_channels s)[r := ch]\<rparr>) ob"
  using assms by (simp add: observes_def Let_def value_at_def)

text \<open>An observer's receive takes exactly the oldest waiting change.\<close>

lemma receive_observed:
  assumes "observes s ob" "store_inv s" "receive s (ob_sub ob) = (Some c, sub', s')"
  shows "rx sub' = rx (ob_sub ob)"
    "observes s' (ob\<lparr>ob_sub := sub', ob_state := State_apply (ob_state ob) c\<rparr>)"
    "\<exists>ch. s' = s\<lparr>in_channels := (in_channels s)[rx (ob_sub ob) := ch]\<rparr>"
proof -
  let ?r = "rx (ob_sub ob)"
  note bound = observes_bound [OF assms(2,1)]
  obtain b where b: "translation (ob_sub ob) = Some \<lparr>translate = (\<lambda>c. c), opened = b\<rparr>"
    and ne: "list_all (\<lambda>c. \<not> StateChange_is_empty c)
      (if b then ch_queue (in_channels s ! ?r) else drop 1 (ch_queue (in_channels s ! ?r)))"
    using assms(1) by (auto simp: observes_def Let_def)
  obtain c0 q where q: "ch_queue (in_channels s ! ?r) = c0 # q"
    using assms(3) by (cases "ch_queue (in_channels s ! ?r)") (auto simp: receive_def Let_def)
  have sub': "sub' = (ob_sub ob)\<lparr>translation := Some \<lparr>translate = (\<lambda>c. c), opened = True\<rparr>\<rparr>"
    and c: "c = c0"
    and s': "s' = s\<lparr>in_channels := (in_channels s)[?r := (in_channels s ! ?r)\<lparr>ch_queue := q\<rparr>]\<rparr>"
    using assms(3) b ne q by (auto simp: receive_def Let_def deliver_def split: if_splits)
  show "rx sub' = ?r" by (simp add: sub')
  show "\<exists>ch. s' = s\<lparr>in_channels := (in_channels s)[?r := ch]\<rparr>" using s' by blast
  have v: "value_at s' = value_at s" by (simp add: s' value_at_def fun_eq_iff)
  show "observes s' (ob\<lparr>ob_sub := sub', ob_state := State_apply (ob_state ob) c\<rparr>)"
    using assms(1) ne bound unfolding observes_def v
    by (auto simp: s' sub' c q replay_def Let_def split: if_splits)
qed

lemma system_step:
  assumes "store_step x y" "system_inv x"
  shows "system_inv y"
  using assms
proof (induction rule: store_step.induct)
  case (step_write c s obs)
  then show ?case by (auto simp: system_inv_def list_all_iff write_observed store_write_facts)
next
  case (step_slot s obs k)
  then show ?case
    using slot_facts [of s k] by (auto simp: system_inv_def list_all_iff intro: observes_cong)
next
  case (step_slot_set s h k obs v)
  then show ?case by (auto simp: system_inv_def list_all_iff slot_set_observed slot_set_facts)
next
  case (step_meta m s obs)
  then show ?case
    by (auto simp: system_inv_def list_all_iff set_meta_def store_inv_def value_at_def fun_eq_iff
        elim!: observes_cong)
next
  case (step_prefix_meta pm s obs)
  then show ?case
    by (auto simp: system_inv_def list_all_iff set_prefix_meta_def store_inv_def value_at_def fun_eq_iff
        elim!: observes_cong)
next
  case (step_subscribe s p sub s' obs)
  then have "store_inv s" by (simp add: system_inv_def)
  note facts = subscribe_facts [OF this step_subscribe(1)]
  have "\<forall>ob\<in>set obs. rx (ob_sub ob) < length (in_channels s)"
    using step_subscribe(2) observes_bound by (auto simp: system_inv_def list_all_iff)
  with step_subscribe(2) facts show ?case
    by (auto simp: system_inv_def list_all_iff)
next
  case (step_receive i obs s c sub' s')
  then have inv: "store_inv s" "observes s (obs ! i)" by (auto simp: system_inv_def list_all_length)
  note facts = receive_observed [OF inv(2,1) step_receive(2)]
  from facts(3) obtain ch where s': "s' = s\<lparr>in_channels := (in_channels s)[rx (ob_sub (obs ! i)) := ch]\<rparr>" ..
  have rxs: "map (\<lambda>ob. rx (ob_sub ob)) (obs[i := (obs ! i)\<lparr>ob_sub := sub',
      ob_state := State_apply (ob_state (obs ! i)) c\<rparr>]) = map (\<lambda>ob. rx (ob_sub ob)) obs"
    using step_receive(1) facts(1) by (simp add: map_update list_update_same_conv)
  have "observes s' (obs ! j)" if "j < length obs" "j \<noteq> i" for j
    using that step_receive(1,3) unfolding s'
    by (intro observes_other) (auto simp: system_inv_def list_all_length distinct_conv_nth)
  moreover have "store_inv s'" using inv(1) by (simp add: s' store_inv_def)
  ultimately show ?case
    using step_receive(1,3) facts(2) rxs
    by (auto simp: system_inv_def list_all_length nth_list_update)
next
  case (step_drop i obs s)
  let ?s' = "drop_subscription s (ob_sub (obs ! i))"
  have d: "distinct (map (\<lambda>ob. rx (ob_sub ob)) (take i obs @ obs ! i # drop (Suc i) obs))"
    and all: "\<forall>ob\<in>set (take i obs @ drop (Suc i) obs). observes s ob" and inv: "store_inv s"
    using step_drop by (auto simp: system_inv_def list_all_iff id_take_nth_drop [symmetric]
        dest: in_set_takeD in_set_dropD)
  from d all have "\<forall>ob\<in>set (take i obs @ drop (Suc i) obs). observes ?s' ob"
    by (auto simp: drop_subscription_def image_iff intro!: observes_other)
  moreover from inv have "store_inv ?s'" by (simp add: store_inv_def drop_subscription_def)
  ultimately show ?case using d by (auto simp: system_inv_def list_all_iff)
qed

lemma reachable_inv: "reachable x \<Longrightarrow> system_inv x"
proof (induction rule: reachable.induct)
  case reach_new
  then show ?case by (simp add: system_inv_def store_inv_new)
qed (rule system_step)


lemma reachable_run:
  assumes "subscribe_prefix SimpleDataStore_new p = (sub, s1)" "change_ok c"
    "receive (snd (store_write s1 c)) sub = (Some c1, sub1, s2)" "receive s2 sub1 = (Some c2, sub2, s3)"
  shows "reachable (s3, [\<lparr>ob_sub = sub2, ob_prefix = p,
     ob_state = State_apply (State_apply State_new c1) c2\<rparr>])"
proof -
  let ?ob = "\<lambda>sub st. \<lparr>ob_sub = sub, ob_prefix = p, ob_state = st\<rparr>"
  have "reachable (s1, [?ob sub State_new])"
    using reach_step [OF reach_new step_subscribe [OF assms(1)]] by simp
  from reach_step [OF this step_write [OF assms(2)]]
  have 1: "reachable (snd (store_write s1 c), [?ob sub State_new])" .
  have "store_step (snd (store_write s1 c), [?ob sub State_new]) (s2, [?ob sub1 (State_apply State_new c1)])"
    using step_receive [of 0 "[?ob sub State_new]", OF _ ] assms(3) by fastforce
  from reach_step [OF 1 this] have 2: "reachable (s2, [?ob sub1 (State_apply State_new c1)])" .
  have "store_step (s2, [?ob sub1 (State_apply State_new c1)])
     (s3, [?ob sub2 (State_apply (State_apply State_new c1) c2)])"
    using step_receive [of 0 "[?ob sub1 (State_apply State_new c1)]", OF _ ] assms(4) by fastforce
  from reach_step [OF 2 this] show ?thesis .
qed


end
