(* ===== verification/Tree_Store.thy ===== *)
theory Tree_Store
  imports Tree_Cells Simple_Store
begin

text \<open>
  The slots a tree's variables are resolved to are slots of the device's data store: the seams of a
  tree over a store, and the contract of \<open>Slot\<close> for every store that keeps the contract of
  \<open>DataStore\<close>.
\<close>

text \<open>A slot resolved for a key: \<open>DataStore::slot\<close>, then \<open>Slot::get\<close> or \<open>Slot::set\<close>.\<close>

definition slot_of :: "('s, 'slot) DataStore \<Rightarrow> 's \<Rightarrow> Key \<Rightarrow> Value option" where
  "slot_of D w k = (case ds_slot D w k of (h, w) \<Rightarrow> ds_slot_get D w h)"

definition set_slot_of :: "('s, 'slot) DataStore \<Rightarrow> 's \<Rightarrow> Key \<Rightarrow> Value option \<Rightarrow> 's" where
  "set_slot_of D w k v = (case ds_slot D w k of (h, w) \<Rightarrow> snd (ds_slot_set D w h v))"

definition store_seams :: "('s, 'slot) DataStore \<Rightarrow> 's seams \<Rightarrow> 's seams" where
  "store_seams D H = H\<lparr>sm_slot_get := slot_of D, sm_slot_set := set_slot_of D\<rparr>"

lemma held_as_settle: "held_as (settle old v) v"
  by (simp add: held_as_def settle_def)

context data_store begin

lemma slot_of_value: "inv w \<Longrightarrow> slot_of D w k = ds_value D w k"
  by (simp add: slot_of_def case_prod_unfold slot_get [OF slot_inv slot_names] slot_value)

lemma set_slot_of_facts:
  assumes "inv w"
  shows "inv (set_slot_of D w k v)"
    "ds_value D (set_slot_of D w k v) k' = (if k' = k then settle (ds_value D w k) v else ds_value D w k')"
  using assms slot_set_inv [OF slot_inv slot_names] slot_set_value [OF slot_inv slot_names]
  by (simp_all add: set_slot_of_def case_prod_unfold slot_value)

end

sublocale data_store \<subseteq> host: slot_host "store_seams D H" inv for H
  by unfold_locales (simp_all add: store_seams_def set_slot_of_facts slot_of_value held_as_settle)

text \<open>A host without modules, generators or detached nodes, to run small trees over a store.\<close>

definition bare_seams :: "Inner seams" where
  "bare_seams = store_seams simple_store
     \<lparr>sm_crates = std_crates, sm_parse_uuid = (\<lambda>_. None), sm_regex = (\<lambda>_. None),
      sm_to_string = (\<lambda>_. []), sm_call_of_value = (\<lambda>_. None), sm_next_u64 = (\<lambda>w. (0, w)),
      sm_slot_get = slot_of simple_store, sm_slot_set = set_slot_of simple_store,
      sm_pull = (\<lambda>_. act_return ()), sm_dispatch = (\<lambda>_ c. act_fail (FunctionNotFound (call_id c)))\<rparr>"

definition bare_state :: "Inner tree_state" where
  "bare_state = \<lparr>ts_heap = (\<lambda>_. None), ts_next = 10, ts_bound = (\<lambda>_. Bound_default), ts_callables = [],
     ts_record = TickRecord_default, ts_world = SimpleDataStore_new\<rparr>"

lemma bare_host: "slot_host bare_seams store_inv"
  unfolding bare_seams_def by (rule simple.host.slot_host_axioms)

end
