(* ===== verification/Tree_Props.thy ===== *)
theory Tree_Props
  imports Tree_Tick Tree_Store
begin

text \<open>
  What the native nodes of a behavior tree guarantee: which children a control node ticks and what
  it answers, that a finished run is never ticked again, where a resumable sequence resumes, and
  what an argument's cell holds after a call wrote its argument back.
\<close>

section \<open>Ticking children one after the other\<close>

text \<open>The children of \<open>ids\<close>, ticked in turn from \<open>s\<close>, answered \<open>sts\<close> and left \<open>s'\<close>.\<close>

fun ticked ::
  "(u64 \<Rightarrow> ('w, Status) act) \<Rightarrow> u64 list \<Rightarrow> Status list \<Rightarrow> 'w tree_state \<Rightarrow> 'w tree_state \<Rightarrow> bool" where
  "ticked child [] [] s s' \<longleftrightarrow> s = s'"
| "ticked child (i # ids) (st # sts) s s' \<longleftrightarrow>
     (\<exists>s1. child i s = Some (Inr st, s1) \<and> ticked child ids sts s1 s')"
| "ticked child _ _ s s' \<longleftrightarrow> False"

lemma ticked_length: "ticked child ids sts s s' \<Longrightarrow> length ids = length sts"
  by (induction child ids sts s s' rule: ticked.induct) auto

text \<open>
  A sequence answers at its first child that does not succeed, a fallback at its first child that
  does not fail: \<open>pass\<close> is the status either goes on after.
\<close>

definition answers_at :: "Status \<Rightarrow> nat \<Rightarrow> Status list \<Rightarrow> Status \<Rightarrow> bool" where
  "answers_at pass n sts st \<longleftrightarrow>
     (if st = pass then sts = replicate n pass else \<exists>k < n. sts = replicate k pass @ [st])"

lemma answers_at_Cons:
  "answers_at pass (Suc n) (s1 # sts) st \<longleftrightarrow>
     (if s1 = pass then answers_at pass n sts st else sts = [] \<and> st = s1)"
proof -
  have "(\<exists>k < Suc n. s1 # sts = replicate k pass @ [st]) \<longleftrightarrow>
      (s1 = pass \<and> (\<exists>k < n. sts = replicate k pass @ [st])) \<or> (sts = [] \<and> st = s1)"
  proof
    assume "\<exists>k < Suc n. s1 # sts = replicate k pass @ [st]"
    then obtain k where "k < Suc n" "s1 # sts = replicate k pass @ [st]" by blast
    then show "(s1 = pass \<and> (\<exists>k < n. sts = replicate k pass @ [st])) \<or> (sts = [] \<and> st = s1)"
      by (cases k) auto
  next
    assume "(s1 = pass \<and> (\<exists>k < n. sts = replicate k pass @ [st])) \<or> (sts = [] \<and> st = s1)"
    then show "\<exists>k < Suc n. s1 # sts = replicate k pass @ [st]"
    proof
      assume "s1 = pass \<and> (\<exists>k < n. sts = replicate k pass @ [st])"
      then obtain k where "s1 = pass" "k < n" "sts = replicate k pass @ [st]" by blast
      then show ?thesis by (intro exI [of _ "Suc k"]) simp
    qed (intro exI [of _ 0], simp)
  qed
  then show ?thesis by (auto simp: answers_at_def)
qed

lemma answers_at_Nil: "answers_at pass n [] st \<longleftrightarrow> n = 0 \<and> st = pass"
  by (auto simp: answers_at_def)

definition ticks_prefix ::
  "(u64 \<Rightarrow> ('w, Status) act) \<Rightarrow> Status \<Rightarrow> u64 list \<Rightarrow> 'w tree_state \<Rightarrow> Status \<Rightarrow> 'w tree_state \<Rightarrow> bool" where
  "ticks_prefix child pass ids s st s' \<longleftrightarrow>
     (\<exists>sts. answers_at pass (length ids) sts st \<and> ticked child (take (length sts) ids) sts s s')"

lemma ticks_prefix_Nil [simp]: "ticks_prefix child pass [] s st s' \<longleftrightarrow> st = pass \<and> s = s'"
  by (auto simp: ticks_prefix_def answers_at_def)

lemma ticks_prefix_Cons:
  "ticks_prefix child pass (i # ids) s st s' \<longleftrightarrow>
     (\<exists>s1 s2. child i s = Some (Inr s1, s2) \<and>
        (if s1 = pass then ticks_prefix child pass ids s2 st s' else st = s1 \<and> s2 = s'))"
proof
  assume "ticks_prefix child pass (i # ids) s st s'"
  then obtain sts where sts: "answers_at pass (Suc (length ids)) sts st"
    "ticked child (take (length sts) (i # ids)) sts s s'" by (auto simp: ticks_prefix_def)
  then obtain s1 sts' where "sts = s1 # sts'" by (cases sts) (auto simp: answers_at_Nil)
  with sts show "\<exists>s1 s2. child i s = Some (Inr s1, s2) \<and>
        (if s1 = pass then ticks_prefix child pass ids s2 st s' else st = s1 \<and> s2 = s')"
    by (auto simp: answers_at_Cons ticks_prefix_def split: if_splits)
next
  assume "\<exists>s1 s2. child i s = Some (Inr s1, s2) \<and>
        (if s1 = pass then ticks_prefix child pass ids s2 st s' else st = s1 \<and> s2 = s')"
  then obtain s1 s2 where c: "child i s = Some (Inr s1, s2)"
    "if s1 = pass then ticks_prefix child pass ids s2 st s' else st = s1 \<and> s2 = s'" by blast
  show "ticks_prefix child pass (i # ids) s st s'"
  proof (cases "s1 = pass")
    case True
    with c obtain sts where "answers_at pass (length ids) sts st" "ticked child (take (length sts) ids) sts s2 s'"
      by (auto simp: ticks_prefix_def)
    with c True show ?thesis unfolding ticks_prefix_def
      by (intro exI [of _ "s1 # sts"]) (auto simp: answers_at_Cons)
  next
    case False
    with c show ?thesis unfolding ticks_prefix_def
      by (intro exI [of _ "[s1]"]) (auto simp: answers_at_Cons)
  qed
qed

lemma tick_seq_prefix:
  "tick_seq child ids s = Some (Inr st, s') \<longleftrightarrow> ticks_prefix child Success ids s st s'"
proof (induction ids arbitrary: s)
  case (Cons i ids)
  show ?case unfolding tick_seq.simps act_bind_Inr ticks_prefix_Cons
    by (rule ex_cong1, rule ex_cong1) (auto simp: Cons act_return_def split: Status.splits)
qed (auto simp: act_return_def)

lemma tick_fallback_prefix:
  "tick_fallback child ids s = Some (Inr st, s') \<longleftrightarrow> ticks_prefix child Failure ids s st s'"
proof (induction ids arbitrary: s)
  case (Cons i ids)
  show ?case unfolding tick_fallback.simps act_bind_Inr ticks_prefix_Cons
    by (rule ex_cong1, rule ex_cong1) (auto simp: Cons act_return_def split: Status.splits)
qed (auto simp: act_return_def)

text \<open>What a parallel node answers for what all its children answered.\<close>

definition joined :: "Status list \<Rightarrow> Status" where
  "joined sts = (if set sts \<subseteq> {Success} then Success else if Failure \<in> set sts then Failure else Running)"

lemma tick_parallel_ticks_all:
  "tick_parallel child ids success failure s = Some (Inr st, s') \<longleftrightarrow>
     (\<exists>sts. ticked child ids sts s s' \<and>
        st = (if success \<and> set sts \<subseteq> {Success} then Success
              else if failure \<or> Failure \<in> set sts then Failure else Running))"
    if "failure \<Longrightarrow> \<not> success"
  using that
proof (induction ids arbitrary: s success failure)
  case Nil
  have "ticked child [] sts s s' \<longleftrightarrow> sts = [] \<and> s = s'" for sts by (cases sts) auto
  with Nil show ?case by (auto simp: act_return_def)
next
  case (Cons i ids)
  have cons: "ticked child (i # ids) sts s s' \<longleftrightarrow>
      (\<exists>s1 sts' s2. sts = s1 # sts' \<and> child i s = Some (Inr s1, s2) \<and> ticked child ids sts' s2 s')" for sts
    by (cases sts) auto
  have ih: "tick_parallel child ids b f t = Some (Inr st, s') \<longleftrightarrow>
      (\<exists>sts. ticked child ids sts t s' \<and>
        st = (if b \<and> set sts \<subseteq> {Success} then Success
              else if f \<or> Failure \<in> set sts then Failure else Running))" if "f \<Longrightarrow> \<not> b" for b f t
    using Cons.IH that by blast
  have "tick_parallel child (i # ids) success failure s = Some (Inr st, s') \<longleftrightarrow>
      (\<exists>s1 s2. child i s = Some (Inr s1, s2) \<and> (\<exists>sts. ticked child ids sts s2 s' \<and>
        st = (if success \<and> set (s1 # sts) \<subseteq> {Success} then Success
              else if failure \<or> Failure \<in> set (s1 # sts) then Failure else Running)))"
    unfolding tick_parallel.simps act_bind_Inr
  proof (intro ex_cong1 conj_cong refl)
    fix s1 s2
    show "(case s1 of Success \<Rightarrow> tick_parallel child ids success failure
        | Failure \<Rightarrow> tick_parallel child ids False True
        | Running \<Rightarrow> tick_parallel child ids False failure) s2 = Some (Inr st, s') \<longleftrightarrow>
      (\<exists>sts. ticked child ids sts s2 s' \<and>
        st = (if success \<and> set (s1 # sts) \<subseteq> {Success} then Success
              else if failure \<or> Failure \<in> set (s1 # sts) then Failure else Running))"
      using Cons.prems by (cases s1) (simp_all add: ih)
  qed
  then show ?case unfolding cons by blast
qed

lemma tick_parallel_joined:
  "tick_parallel child ids True False s = Some (Inr st, s') \<longleftrightarrow> (\<exists>sts. ticked child ids sts s s' \<and> st = joined sts)"
  by (simp add: tick_parallel_ticks_all [of False True] joined_def)

lemma tick_builtin_native:
  "tn_function node = SUCCEED_FUNCTION_ID \<Longrightarrow> tick_builtin H call child scope outs ids node = act_return (Some Success)"
  "tn_function node = FAIL_FUNCTION_ID \<Longrightarrow> tick_builtin H call child scope outs ids node = act_return (Some Failure)"
  "tn_function node = RUN_FUNCTION_ID \<Longrightarrow> tick_builtin H call child scope outs ids node = act_return (Some Running)"
  "tn_function node = SEQ_FUNCTION_ID \<Longrightarrow> tick_builtin H call child scope outs ids node =
     act_bind (tick_seq child ids) (\<lambda>st. act_return (Some st))"
  "tn_function node = FALLBACK_FUNCTION_ID \<Longrightarrow> tick_builtin H call child scope outs ids node =
     act_bind (if ids = [] then act_return Success else tick_fallback child ids) (\<lambda>st. act_return (Some st))"
  "tn_function node = PARALLEL_FUNCTION_ID \<Longrightarrow> tick_builtin H call child scope outs ids node =
     act_bind (tick_parallel child ids True False) (\<lambda>st. act_return (Some st))"
  "tn_function node = RUN_STATUS_FUNCTION_ID \<Longrightarrow> tick_builtin H call child scope outs ids node =
     act_bind (tick_run_status H child scope ids node) (\<lambda>st. act_return (Some st))"
  "tn_function node = SEQ_STAR_FUNCTION_ID \<Longrightarrow> tick_builtin H call child scope outs ids node =
     act_bind (tick_seq_star_node H child scope ids node) (\<lambda>st. act_return (Some st))"
  by (simp_all add: tick_builtin_def Let_def node_function_ids)

lemma act_bind_Some:
  "act_bind m (\<lambda>x. act_return (Some x)) s = Some (Inr (Some st), s') \<longleftrightarrow> m s = Some (Inr st, s')"
  by (auto simp: act_bind_Inr act_return_def)

text \<open>
  C21. A control node ticks its children in their order. A sequence goes on past the children that
  succeed and answers with the first that does not; a fallback goes on past those that fail; both
  tick no child after the one that answers. A parallel node ticks every child, and succeeds when
  all did, fails when one did, and otherwise runs.
\<close>

theorem control_nodes:
  assumes "tick_builtin H call child scope outs ids node s = Some (Inr (Some st), s')"
  shows "(tn_function node = SEQ_FUNCTION_ID \<longrightarrow> ticks_prefix child Success ids s st s')
    \<and> (tn_function node = FALLBACK_FUNCTION_ID \<longrightarrow>
         (if ids = [] then st = Success \<and> s' = s else ticks_prefix child Failure ids s st s'))
    \<and> (tn_function node = PARALLEL_FUNCTION_ID \<longrightarrow> (\<exists>sts. ticked child ids sts s s' \<and> st = joined sts))"
proof (intro conjI impI)
  show "ticks_prefix child Success ids s st s'" if "tn_function node = SEQ_FUNCTION_ID"
    using assms by (simp add: tick_builtin_native(4) [OF that] act_bind_Some tick_seq_prefix)
  show "if ids = [] then st = Success \<and> s' = s else ticks_prefix child Failure ids s st s'"
    if "tn_function node = FALLBACK_FUNCTION_ID"
    using assms by (auto simp: tick_builtin_native(5) [OF that] act_bind_Some tick_fallback_prefix act_return_def
        split: if_splits)
  show "\<exists>sts. ticked child ids sts s s' \<and> st = joined sts" if "tn_function node = PARALLEL_FUNCTION_ID"
    using assms by (simp add: tick_builtin_native(6) [OF that] act_bind_Some tick_parallel_joined)
qed

definition parent_node :: "uuid \<Rightarrow> TreeNode" where
  "parent_node f = \<lparr>tn_id = 1, tn_function = f, tn_arguments = [], tn_children = Some [2, 3]\<rparr>"

lemma parent_node_function: "tn_function (parent_node f) = f"
  by (simp add: parent_node_def)

definition sample_scope :: Scope where
  "sample_scope = \<lparr>sc_variables = [], sc_cells = [], sc_calls = []\<rparr>"

text \<open>A child that fails at its first tick, by its callable's id.\<close>

definition sample_child :: "u64 \<Rightarrow> ('w, Status) act" where
  "sample_child i = act_return (if i = 2 then Failure else Running)"

theorem control_nodes_witness:
  "ticks_prefix sample_child Failure [2, 3] bare_state Running bare_state \<and>
   (\<exists>sts. ticked sample_child [2, 3] sts bare_state bare_state \<and> Failure = joined sts)"
proof
  have "tick_builtin H call sample_child sample_scope None [2, 3] (parent_node FALLBACK_FUNCTION_ID) bare_state =
      Some (Inr (Some Running), bare_state)" for H and call :: "Inner dispatch"
    by (simp add: tick_builtin_native parent_node_def act_defs sample_child_def)
  from control_nodes [OF this] show "ticks_prefix sample_child Failure [2, 3] bare_state Running bare_state"
    by (simp add: parent_node_def)
  have "tick_builtin H call sample_child sample_scope None [2, 3] (parent_node PARALLEL_FUNCTION_ID) bare_state =
      Some (Inr (Some Failure), bare_state)" for H and call :: "Inner dispatch"
    by (simp add: tick_builtin_native parent_node_def act_defs sample_child_def)
  from control_nodes [OF this] show "\<exists>sts. ticked sample_child [2, 3] sts bare_state bare_state \<and> Failure = joined sts"
    by (simp add: parent_node_def)
qed

section \<open>Cells\<close>

text \<open>Status values have no floats in them, so a value equal to one is it.\<close>

lemma canon_unit: "canon v = Unit \<Longrightarrow> v = Unit"
  by (cases v rule: canon.cases) auto

lemma value_eq_status: "value_eq v (value_of_status st) \<Longrightarrow> v = value_of_status st"
proof -
  assume "value_eq v (value_of_status st)"
  then have "canon v = Enumeration (MkEnumeration STATUS_ENUMERATION_ID (status_variant st) Unit)"
    by (simp add: value_eq_def value_of_status_def)
  then obtain e where "v = Enumeration e" "en_id e = STATUS_ENUMERATION_ID" "en_variant_id e = status_variant st"
    "canon (en_value e) = Unit" by (cases v rule: canon.cases) auto
  then show ?thesis using canon_unit by (cases e) (auto simp: value_of_status_def)
qed

lemma held_status: "held_as held (Some (value_of_status st)) \<Longrightarrow> held = Some (value_of_status st)"
  by (cases held) (auto simp: held_as_def dest: value_eq_status)

lemma value_eq_U16: "value_eq v (U16 n) \<Longrightarrow> v = U16 n"
  by (cases v rule: canon.cases) (auto simp: value_eq_def)

lemma held_U16: "held_as held (Some (U16 n)) \<Longrightarrow> held = Some (U16 n)"
  by (cases held) (auto simp: held_as_def dest: value_eq_U16)

context slot_host begin

lemma get_or_unit_set:
  assumes "slot_inv (ts_world s)"
  shows "get_or_unit H c (cell_set H c (value_of_status st) s) = value_of_status st"
    "get_or_unit H c (cell_set H c (U16 n) s) = U16 n"
  using held_status [OF cell_get_set [OF assms, of c]] held_U16 [OF cell_get_set [OF assms, of c]]
  by (simp_all add: get_or_unit_def cell_set_def)

lemma cell_set_inv: "slot_inv (ts_world s) \<Longrightarrow> slot_inv (ts_world (cell_set H c v s))"
  by (simp add: cell_set_def set_opt_inv)

end

section \<open>A run that ended\<close>

text \<open>What a node whose tick ended this way answers from then on.\<close>

definition latched :: "BehaviorTreeError + Status option \<Rightarrow> Status" where
  "latched r = (case r of Inr (Some st) \<Rightarrow> st | _ \<Rightarrow> Failure)"

lemma run_status_latched:
  assumes "param_cell scope node RUN_STATUS_LATCH_PARAM_ID = Inr latch"
    "status_of_value (get_or_unit H latch s) = Some st" "st \<noteq> Running"
  shows "tick_run_status H child scope ids node s = Some (Inr st, s)"
  using assms by (cases st) (simp_all add: tick_run_status_def act_defs)

lemma run_status_writes_latch:
  assumes H: "slot_host H I"
    and latch: "param_cell scope node RUN_STATUS_LATCH_PARAM_ID = Inr latch"
    and out: "param_cell scope node RUN_STATUS_OUT_PARAM_ID = Inr out"
    and child: "\<And>i s r s'. I (ts_world s) \<Longrightarrow> child i s = Some (r, s') \<Longrightarrow> I (ts_world s')"
    and start: "I (ts_world s)" "ids \<noteq> []"
    and tick: "tick_run_status H child scope ids node s = Some (r, s')"
  shows "r = Inr Running \<or>
    status_of_value (get_or_unit H latch s') = Some (case r of Inl _ \<Rightarrow> Failure | Inr st \<Rightarrow> st)"
proof (cases "status_of_value (get_or_unit H latch s) \<in> {Some Success, Some Failure}")
  case True
  then obtain st where st: "status_of_value (get_or_unit H latch s) = Some st" "st \<noteq> Running" by auto
  from run_status_latched [OF latch this] tick have "r = Inr st" "s' = s" by auto
  with st show ?thesis by simp
next
  case False
  obtain i ids' where ids: "ids = i # ids'" using start(2) by (cases ids) auto
  have held: "(case status_of_value (get_or_unit H latch s) of Some Success \<Rightarrow> a | Some Failure \<Rightarrow> b | _ \<Rightarrow> c) = c"
    for a b c :: "('w, Status) act"
    using False by (auto split: option.splits Status.splits)
  note inv = slot_host.cell_set_inv [OF H]
  from tick obtain r1 s1 where c: "child i s = Some (r1, s1)"
    by (auto simp: tick_run_status_def latch act_defs held ids split: Option.bind_splits)
  then have "I (ts_world s1)" using child start(1) by blast
  then have "I (ts_world (cell_set H out (value_of_status st) s1))" for st by (rule inv)
  note eq = slot_host.get_or_unit_set(1) [OF H this]
  show ?thesis
    using tick c eq by (cases r1) (auto simp: tick_run_status_def latch out act_defs held ids split: if_splits)
qed

text \<open>
  C20. A \<open>RunStatus\<close> node runs its child once: when its tick ends with a status other than running,
  or with an error of its child, every later tick answers that status (failure, for an error) as
  long as the latch is left alone, ticks no child and changes nothing.
\<close>

theorem run_status_latches:
  assumes H: "slot_host H I" and f: "tn_function node = RUN_STATUS_FUNCTION_ID"
    and latch: "param_cell scope node RUN_STATUS_LATCH_PARAM_ID = Inr latch"
    and out: "param_cell scope node RUN_STATUS_OUT_PARAM_ID = Inr out"
    and child: "\<And>i s r s'. I (ts_world s) \<Longrightarrow> child i s = Some (r, s') \<Longrightarrow> I (ts_world s')"
    and start: "I (ts_world s)" "ids \<noteq> []"
    and tick: "tick_builtin H call child scope outs ids node s = Some (r, s')" "r \<noteq> Inr (Some Running)"
    and later: "cell_get H latch t = cell_get H latch s'"
  shows "tick_builtin H call' child' scope outs' ids' node t = Some (Inr (Some (latched r)), t)"
proof -
  obtain r' where r': "tick_run_status H child scope ids node s = Some (r', s')"
    "r = map_sum (\<lambda>e. e) Some r'"
    using tick(1) by (auto simp: tick_builtin_native(7) [OF f] act_defs split: Option.bind_splits sum.splits)
  then have st: "r' \<noteq> Inr Running" "(case r' of Inl _ \<Rightarrow> Failure | Inr st \<Rightarrow> st) = latched r" "latched r \<noteq> Running"
    using tick(2) r'(2) by (cases r'; force simp: latched_def)+
  have "get_or_unit H latch t = get_or_unit H latch s'" using later by (simp add: get_or_unit_def)
  with run_status_writes_latch [OF H latch out child start r'(1)] st
  have "status_of_value (get_or_unit H latch t) = Some (latched r)" by simp
  from run_status_latched [OF latch this st(3)] show ?thesis
    by (simp add: tick_builtin_native(7) [OF f] act_defs)
qed

definition latch_scope :: Scope where
  "latch_scope = \<lparr>sc_variables = [],
     sc_cells = [(\<lparr>np_node = 1, np_parameter = RUN_STATUS_LATCH_PARAM_ID\<rparr>, LocalCell 0),
                 (\<lparr>np_node = 1, np_parameter = RUN_STATUS_OUT_PARAM_ID\<rparr>, LocalCell 1)],
     sc_calls = []\<rparr>"

definition failed_state :: "Inner tree_state" where
  "failed_state = cell_set bare_seams (LocalCell 0) (value_of_status Failure)
     (cell_set bare_seams (LocalCell 1) (value_of_status Failure) bare_state)"

theorem run_status_latches_witness:
  "tick_builtin bare_seams (\<lambda>c s. None) (\<lambda>i s. None) latch_scope None [2] (parent_node RUN_STATUS_FUNCTION_ID) failed_state =
     Some (Inr (Some Failure), failed_state)"
proof -
  have cells: "param_cell latch_scope (parent_node f) RUN_STATUS_LATCH_PARAM_ID = Inr (LocalCell 0)"
    "param_cell latch_scope (parent_node f) RUN_STATUS_OUT_PARAM_ID = Inr (LocalCell 1)" for f
    by (simp_all add: param_cell_def latch_scope_def parent_node_def get_node_parameter_variable_def node_param_ids)
  have run: "tick_builtin bare_seams (\<lambda>c s. None) sample_child latch_scope None [2] (parent_node RUN_STATUS_FUNCTION_ID)
      bare_state = Some (Inr (Some Failure), failed_state)"
    by (simp add: tick_builtin_native(7) parent_node_function tick_run_status_def cells act_defs sample_child_def
        failed_state_def get_or_unit_def cell_get_def bare_state_def status_of_value_def)
  have "latched (Inr (Some Failure)) = Failure" by (simp add: latched_def)
  moreover have "store_inv (ts_world bare_state)" by (simp add: bare_state_def store_inv_new)
  ultimately show ?thesis
    using run_status_latches [OF bare_host _ cells _ _ _ run, of failed_state "\<lambda>c s. None" "\<lambda>i s. None" None "[2]"]
    by (simp add: sample_child_def act_defs parent_node_function)
qed

section \<open>Resuming a sequence\<close>

text \<open>The index a \<open>SeqStar\<close> node holds: a cell without one is at the first child.\<close>

definition resume_index :: "'w seams \<Rightarrow> VariableCell \<Rightarrow> 'w tree_state \<Rightarrow> nat" where
  "resume_index H c s = (case get_or_unit H c s of U16 n \<Rightarrow> unat n | _ \<Rightarrow> 0)"

lemma ticked_inv:
  assumes "\<And>i s r s'. P s \<Longrightarrow> child i s = Some (r, s') \<Longrightarrow> P s'"
  shows "P s \<Longrightarrow> ticked child ids sts s s' \<Longrightarrow> P s'"
proof (induction ids arbitrary: sts s)
  case Nil
  then show ?case by (cases sts) auto
next
  case (Cons i ids)
  then show ?case using assms by (cases sts) (auto, blast)
qed

lemma tick_seq_star_prefix:
  assumes "tick_seq_star child ids n s = Some (Inr (st, m), s')"
  shows "\<exists>k. m = n + of_nat k \<and> k \<le> length ids \<and> (st \<noteq> Success \<longrightarrow> k < length ids) \<and>
    (\<exists>s1. ticked child (take k ids) (replicate k Success) s s1 \<and>
       (if st = Success then k = length ids \<and> s' = s1 else child (ids ! k) s1 = Some (Inr st, s')))"
  using assms
proof (induction ids arbitrary: n s)
  case (Cons i ids)
  from Cons.prems obtain st1 s1 where c: "child i s = Some (Inr st1, s1)"
    "(case st1 of Success \<Rightarrow> tick_seq_star child ids (n + 1)
      | Failure \<Rightarrow> act_return (Failure, n) | Running \<Rightarrow> act_return (Running, n)) s1 = Some (Inr (st, m), s')"
    by (auto simp: act_bind_Inr)
  show ?case
  proof (cases "st1 = Success")
    case True
    with c Cons.IH [of "n + 1" s1] obtain k s2 where k: "m = n + 1 + of_nat k" "k \<le> length ids"
      "st \<noteq> Success \<longrightarrow> k < length ids" "ticked child (take k ids) (replicate k Success) s1 s2"
      "if st = Success then k = length ids \<and> s' = s2 else child (ids ! k) s2 = Some (Inr st, s')" by auto
    show ?thesis
      by (rule exI [of _ "Suc k"]) (use k c True in \<open>auto simp: algebra_simps\<close>)
  next
    case False
    with c have "st = st1" "m = n" "s' = s1" "st \<noteq> Success"
      by (auto simp: act_return_def split: Status.splits)
    with c show ?thesis by (intro exI [of _ 0]) auto
  qed
qed (auto simp: act_return_def)

text \<open>
  C22. A resumable sequence starts at the child it stopped at: it ticks, from the child its index
  names, the children that succeed and then the one it answers for. When that one is running the
  index names it afterwards, so the next tick starts at it; otherwise the index is back at the first.
\<close>

theorem seq_star_resumes:
  assumes H: "slot_host H I" and f: "tn_function node = SEQ_STAR_FUNCTION_ID"
    and index: "param_cell scope node SEQ_STAR_CURRENT_INDEX_PARAM_ID = Inr c"
    and child: "\<And>i s r s'. I (ts_world s) \<Longrightarrow> child i s = Some (r, s') \<Longrightarrow> I (ts_world s')"
    and start: "I (ts_world s)" "length ids < 2 ^ 16"
    and tick: "tick_builtin H call child scope outs ids node s = Some (Inr (Some st), s')"
  defines "n \<equiv> resume_index H c s"
  shows "\<exists>k s1 s2. ticked child (take k (drop n ids)) (replicate k Success) s s1 \<and>
     (if st = Success then s2 = s1 \<and> length ids \<le> n + k
      else n + k < length ids \<and> child (ids ! (n + k)) s1 = Some (Inr st, s2)) \<and>
     s' = cell_set H c (U16 (if st = Running then of_nat (n + k) else 0)) s2 \<and>
     resume_index H c s' = (if st = Running then n + k else 0)"
proof -
  let ?c = "case get_or_unit H c s of U16 i \<Rightarrow> i | _ \<Rightarrow> 0"
  have c: "unat ?c = n" by (auto simp: n_def resume_index_def split: Value.splits)
  from tick obtain m s2 where m: "tick_seq_star child (drop n ids) ?c s = Some (Inr (st, m), s2)"
    "s' = cell_set H c (U16 (if st \<noteq> Running then 0 else m)) s2"
    by (auto simp: tick_builtin_native(8) [OF f] act_bind_Some tick_seq_star_node_def index Let_def c
        act_bind_Inr act_return_def act_read_def act_modify_def split: prod.splits)
  from tick_seq_star_prefix [OF m(1)] obtain k s1 where k: "m = ?c + of_nat k" "k \<le> length (drop n ids)"
    "ticked child (take k (drop n ids)) (replicate k Success) s s1"
    "if st = Success then k = length (drop n ids) \<and> s2 = s1
     else k < length (drop n ids) \<and> child (drop n ids ! k) s1 = Some (Inr st, s2)"
    by (auto split: if_splits)
  have "I (ts_world s1)" using ticked_inv [of "\<lambda>s. I (ts_world s)" child] child start(1) k(3) by blast
  then have inv: "I (ts_world s2)" using k(4) child by (auto split: if_splits)
  have "m = of_nat (n + k)" using k(1) by (simp flip: c)
  moreover have "unat (of_nat (n + k) :: u16) = n + k" if "st = Running"
  proof -
    have "n + k < 2 ^ 16" using that k(4) start(2) by auto
    then show ?thesis by (simp add: unsigned_of_nat take_bit_eq_mod del: of_nat_add)
  qed
  ultimately show ?thesis
    by (intro exI [of _ k] exI [of _ s1] exI [of _ s2])
      (use k m(2) in \<open>auto simp: resume_index_def slot_host.get_or_unit_set [OF H inv] split: if_splits\<close>)
qed

definition index_scope :: Scope where
  "index_scope = \<lparr>sc_variables = [],
     sc_cells = [(\<lparr>np_node = 1, np_parameter = SEQ_STAR_CURRENT_INDEX_PARAM_ID\<rparr>, LocalCell 0)], sc_calls = []\<rparr>"

text \<open>A child that succeeds, and one that runs.\<close>

definition running_child :: "u64 \<Rightarrow> ('w, Status) act" where
  "running_child i = act_return (if i = 2 then Success else Running)"

theorem seq_star_resumes_witness:
  "resume_index bare_seams (LocalCell 0) (cell_set bare_seams (LocalCell 0) (U16 1) bare_state) = 1"
proof -
  let ?s = "cell_set bare_seams (LocalCell 0) (U16 1) bare_state"
  have index: "param_cell index_scope (parent_node f) SEQ_STAR_CURRENT_INDEX_PARAM_ID = Inr (LocalCell 0)" for f
    by (simp add: param_cell_def index_scope_def parent_node_def get_node_parameter_variable_def)
  have held: "get_or_unit bare_seams (LocalCell 0) bare_state = Unit"
    by (simp add: get_or_unit_def cell_get_def bare_state_def)
  have run: "tick_builtin bare_seams (\<lambda>c s. None) running_child index_scope None [2, 3]
      (parent_node SEQ_STAR_FUNCTION_ID) bare_state = Some (Inr (Some Running), ?s)"
    by (simp add: tick_builtin_native(8) parent_node_function tick_seq_star_node_def index act_defs held running_child_def)
  have "store_inv (ts_world bare_state)" by (simp add: bare_state_def store_inv_new)
  from seq_star_resumes [OF bare_host parent_node_function index _ this _ run]
  obtain k s1 s2 where "k < 2" "running_child ([2, 3] ! k) s1 = Some (Inr Running, s2)"
    "resume_index bare_seams (LocalCell 0) ?s = k"
    by (auto simp: resume_index_def [of _ _ bare_state] held running_child_def act_defs)
  moreover from this(1,2) have "k = 1" by (auto simp: running_child_def act_defs dest: less_2_cases)
  ultimately show ?thesis by simp
qed

section \<open>Arguments and expressions\<close>

text \<open>What a cell holds once a call wrote back the argument it was passed unchanged.\<close>

fun kept :: "Value option \<Rightarrow> bool \<Rightarrow> Value option" where
  "kept (Some (VOption w)) True = w"
| "kept (Some v) _ = Some v"
| "kept None True = None"
| "kept None False = Some Unit"

text \<open>
  An argument a call leaves as it was comes back into its cell as it was: the cell of an
  optional parameter keeps its value, or its absence, unless it held an option, which is unwrapped;
  the cell of another parameter keeps its value, and holds the unit value where it held none.
\<close>

theorem argument_round_trip:
  assumes "slot_host H I" "I (ts_world s)"
  shows "held_as (cell_get H c (write_back H c (argument_value (cell_get H c s) optional) optional s))
     (kept (cell_get H c s) optional)"
proof -
  note set = slot_host.cell_get_set [OF assms, of c]
  have "held_as (cell_get H c (write_back H c (argument_value None optional) optional s)) (kept None optional)"
    if "cell_get H c s = None"
    using that set by (cases optional) (auto simp: write_back_def cell_set_def held_as_def)
  moreover have "held_as (cell_get H c (write_back H c (argument_value (Some v) optional) optional s)) (kept (Some v) optional)"
    if "cell_get H c s = Some v" for v
  proof (cases "\<exists>w. v = VOption w")
    case True
    then obtain w where v: "v = VOption w" by blast
    show ?thesis unfolding v using that set v
      by (cases w; cases optional) (simp_all add: write_back_def cell_set_def)
  next
    case False
    then have "argument_value (Some v) optional = (if optional then VOption (Some v) else v)"
      "kept (Some v) optional = Some v" by (cases v; cases optional; simp)+
    with False set show ?thesis by (cases v) (auto simp: write_back_def cell_set_def split: if_splits)
  qed
  ultimately show ?thesis by (cases "cell_get H c s") simp_all
qed

theorem argument_round_trip_witness:
  "held_as (cell_get bare_seams (LocalCell 0) (write_back bare_seams (LocalCell 0) (VOption (Some (U8 7))) True
       (cell_set bare_seams (LocalCell 0) (U8 7) bare_state)))
     (Some (U8 7))"
proof -
  let ?s = "cell_set bare_seams (LocalCell 0) (U8 7) bare_state"
  have "store_inv (ts_world ?s)" by (simp add: bare_state_def cell_set_def set_opt_def store_inv_new)
  from argument_round_trip [OF bare_host this, of "LocalCell 0" True] show ?thesis
    by (simp add: cell_get_def cell_set_def set_opt_def)
qed

fun call_free :: "Expression \<Rightarrow> bool" where
  "call_free (ESelect source path) \<longleftrightarrow> call_free source"
| "call_free (ECall c) \<longleftrightarrow> False"
| "call_free _ \<longleftrightarrow> True"

text \<open>
  Evaluating an expression that makes no call always ends, with a value or an error, and leaves
  every cell, slot and record as it was, whatever the modules behind the bridge would do.
\<close>

theorem call_free_pure:
  assumes "call_free e"
  shows "\<exists>r. compute_expression H call scope node e s = Some (r, s) \<and>
     (\<forall>call'. compute_expression H call' scope node e s = Some (r, s))"
  using assms
  by (induction e rule: call_free.induct)
    (auto simp: act_defs read_cell_def split: sum.splits)

theorem call_free_pure_witness:
  "\<exists>r. compute_expression bare_seams (\<lambda>c s. None) latch_scope 1
     (ESelect (ENodeArgument \<lparr>np_node = 1, np_parameter = RUN_STATUS_OUT_PARAM_ID\<rparr>) [CHR ''x'']) bare_state =
     Some (r, bare_state)"
  using call_free_pure by (metis call_free.simps)

end
