(* ===== verification/Graph_Model.thy ===== *)
theory Graph_Model
  imports Keys
begin

text \<open>
  The behavior graph and its edition (\<open>arora-behavior/src/graph.rs\<close>): the data model, \<open>apply\<close>,
  which edits a graph through one index of its nodes by id, and \<open>diff\<close>, which gives the edit
  from one graph to another. \<open>apply\<close> is proved to be an index-free reference edit
  (\<open>apply_reference\<close>), and to take a graph to the target of a \<open>diff\<close>.
\<close>

section \<open>Ordered maps\<close>

text \<open>A \<open>BTreeMap\<close> is the list of its entries in ascending order of their keys.\<close>

type_synonym ('k, 'v) btree_map = "('k \<times> 'v) list"

abbreviation bt_ok :: "('k::linorder, 'v) btree_map \<Rightarrow> bool" where
  "bt_ok m \<equiv> sorted_wrt (<) (map fst m)"

fun bt_insert :: "'k::linorder \<Rightarrow> 'v \<Rightarrow> ('k, 'v) btree_map \<Rightarrow> ('k, 'v) btree_map" where
  "bt_insert k v [] = [(k, v)]"
| "bt_insert k v ((k', v') # m) =
     (if k < k' then (k, v) # (k', v') # m
      else if k = k' then (k, v) # m
      else (k', v') # bt_insert k v m)"

definition bt_remove :: "'k \<Rightarrow> ('k, 'v) btree_map \<Rightarrow> ('k, 'v) btree_map" where
  "bt_remove k m = filter (\<lambda>e. fst e \<noteq> k) m"

lemma map_of_bt_insert [simp]: "map_of (bt_insert k v m) = (map_of m)(k \<mapsto> v)"
  by (induction k v m rule: bt_insert.induct) (auto simp: fun_eq_iff)

lemma map_of_bt_remove [simp]: "map_of (bt_remove k m) = (map_of m)(k := None)"
  unfolding bt_remove_def by (induction m) (auto simp: fun_eq_iff)

lemma keys_bt_insert [simp]: "fst ` set (bt_insert k v m) = insert k (fst ` set m)"
  by (induction k v m rule: bt_insert.induct) auto

lemma bt_ok_insert [simp, intro]: "bt_ok m \<Longrightarrow> bt_ok (bt_insert k v m)"
proof (induction k v m rule: bt_insert.induct)
  case (2 k v k' v' m)
  have "\<forall>x \<in> set (map fst (bt_insert k v m)). k' < x" if "k' < k"
    using that "2.prems" by auto
  with 2 show ?case by auto
qed simp

lemma bt_ok_filter [simp, intro]: "bt_ok m \<Longrightarrow> bt_ok (filter P m)"
  by (induction m) auto

lemma bt_ok_remove [simp, intro]: "bt_ok m \<Longrightarrow> bt_ok (bt_remove k m)"
  by (simp add: bt_remove_def)

lemma bt_ok_distinct: "bt_ok m \<Longrightarrow> distinct (map fst m)"
  by (simp add: strict_sorted_iff)

section \<open>The graph\<close>

datatype Port = MkPort (port_node: uuid) (port_port: uuid)

datatype Source = SValue Value | SKey string | SPort Port | SSelect Source Key

fun source_port :: "Source \<Rightarrow> Port option" where
  "source_port (SPort port) = Some port"
| "source_port (SSelect source path) = source_port source"
| "source_port (SValue v) = None"
| "source_port (SKey k) = None"

text \<open>The derived \<open>PartialEq\<close>: that of values at the leaves.\<close>

fun source_eq :: "Source \<Rightarrow> Source \<Rightarrow> bool" where
  "source_eq (SValue v) (SValue w) \<longleftrightarrow> value_eq v w"
| "source_eq (SKey k) (SKey l) \<longleftrightarrow> k = l"
| "source_eq (SPort p) (SPort q) \<longleftrightarrow> p = q"
| "source_eq (SSelect s p) (SSelect t q) \<longleftrightarrow> source_eq s t \<and> p = q"
| "source_eq _ _ \<longleftrightarrow> False"

record Node =
  n_id :: uuid
  n_function :: uuid
  n_bind :: "(uuid, Source) btree_map"
  n_children :: "uuid list option"

record Graph =
  g_root :: "uuid option"
  g_nodes :: "Node list"

record Version =
  major :: u64
  minor :: u64

record GraphType =
  gt_name :: string
  gt_version :: Version

definition reads :: "GraphType \<Rightarrow> GraphType \<Rightarrow> bool" where
  "reads self graph \<longleftrightarrow> gt_name self = gt_name graph
     \<and> major (gt_version self) = major (gt_version graph)
     \<and> minor (gt_version graph) \<le> minor (gt_version self)"

datatype GraphError = BindingTargets uuid

record Binding =
  b_node :: uuid
  b_port :: uuid
  b_source :: Source

record GraphDiff =
  d_remove :: "uuid list"
  d_set :: "Node list"
  d_unbind :: "Port list"
  d_bind :: "Binding list"
  d_root :: "uuid option"

definition Graph_empty :: Graph where
  "Graph_empty = \<lparr>g_root = None, g_nodes = []\<rparr>"

definition graph_node :: "Graph \<Rightarrow> uuid \<Rightarrow> Node option" where
  "graph_node self i = find (\<lambda>node. n_id node = i) (g_nodes self)"

section \<open>Applying an edit\<close>

text \<open>
  The check made before anything changes: the first binding onto a node the edited graph will
  not have.
\<close>

definition refused_binding :: "Graph \<Rightarrow> GraphDiff \<Rightarrow> Binding option" where
  "refused_binding self d =
     (let removed = hs_collect (d_remove d);
          present = hs_collect (filter (\<lambda>i. i \<notin> set removed) (map n_id (g_nodes self))
                      @ map n_id (d_set d))
      in find (\<lambda>binding. b_node binding \<notin> set present) (d_bind d))"

text \<open>A binding whose source reads one of the removed nodes.\<close>

definition reads_removed :: "uuid hash_set \<Rightarrow> Source \<Rightarrow> bool" where
  "reads_removed removed source =
     (case source_port source of None \<Rightarrow> False | Some port \<Rightarrow> port_node port \<in> set removed)"

definition unread :: "uuid hash_set \<Rightarrow> Node \<Rightarrow> Node" where
  "unread removed node =
     node\<lparr>n_bind := filter (\<lambda>(_, source). \<not> reads_removed removed source) (n_bind node)\<rparr>"

definition removals :: "uuid hash_set \<Rightarrow> Graph \<Rightarrow> Graph" where
  "removals removed self =
     (if removed = [] then self
      else \<lparr>g_root = (case g_root self of
                        None \<Rightarrow> None
                      | Some root \<Rightarrow> if root \<in> set removed then None else Some root),
            g_nodes = map (unread removed)
                        (filter (\<lambda>node. n_id node \<notin> set removed) (g_nodes self))\<rparr>)"

text \<open>
  The index of the nodes by id, and an edit of the node at an index. An index past the end is
  the panic of \<open>nodes[i]\<close>, the value \<open>None\<close>.
\<close>

type_synonym node_index = "(uuid, nat) hash_map"

definition index_nodes :: "Node list \<Rightarrow> node_index" where
  "index_nodes nodes = hm_collect (map (\<lambda>(i, node). (n_id node, i)) (enumerate 0 nodes))"

definition edit_at :: "nat \<Rightarrow> (Node \<Rightarrow> Node) \<Rightarrow> Node list \<Rightarrow> Node list option" where
  "edit_at i f nodes = (if i < length nodes then Some (nodes[i := f (nodes ! i)]) else None)"

definition set_node ::
  "Node \<Rightarrow> node_index \<times> Node list \<Rightarrow> (node_index \<times> Node list) option" where
  "set_node node s =
     (case hm_get (fst s) (n_id node) of
        Some i \<Rightarrow> map_option (Pair (fst s)) (edit_at i (\<lambda>_. node) (snd s))
      | None \<Rightarrow> Some (hm_insert (n_id node) (length (snd s)) (fst s), snd s @ [node]))"

definition unbind_port :: "node_index \<Rightarrow> Port \<Rightarrow> Node list \<Rightarrow> Node list option" where
  "unbind_port at port nodes =
     (case hm_get at (port_node port) of
        None \<Rightarrow> Some nodes
      | Some i \<Rightarrow>
          edit_at i (\<lambda>n. n\<lparr>n_bind := bt_remove (port_port port) (n_bind n)\<rparr>) nodes)"

definition bind_port :: "node_index \<Rightarrow> Binding \<Rightarrow> Node list \<Rightarrow> Node list option" where
  "bind_port at binding nodes =
     (case hm_get at (b_node binding) of
        None \<Rightarrow> None
      | Some i \<Rightarrow>
          edit_at i (\<lambda>n. n\<lparr>n_bind := bt_insert (b_port binding) (b_source binding) (n_bind n)\<rparr>)
            nodes)"

text \<open>\<open>Graph::apply\<close>: \<open>None\<close> is a panic.\<close>

definition graph_apply :: "Graph \<Rightarrow> GraphDiff \<Rightarrow> (GraphError + Graph) option" where
  "graph_apply self d =
     (case if d_bind d = [] then None else refused_binding self d of
        Some binding \<Rightarrow> Some (Inl (BindingTargets (b_node binding)))
      | None \<Rightarrow> do {
          let self = removals (hs_collect (d_remove d)) self;
          (at, nodes) \<leftarrow> foldM set_node (d_set d) (index_nodes (g_nodes self), g_nodes self);
          nodes \<leftarrow> foldM (unbind_port at) (d_unbind d) nodes;
          nodes \<leftarrow> foldM (bind_port at) (d_bind d) nodes;
          Some (Inr \<lparr>g_root = (case d_root d of Some root \<Rightarrow> Some root | None \<Rightarrow> g_root self),
                     g_nodes = nodes\<rparr>)
        })"

section \<open>The edit between two graphs\<close>

definition nodes_by_id :: "Graph \<Rightarrow> (uuid, Node) hash_map" where
  "nodes_by_id g = hm_collect (map (\<lambda>node. (n_id node, node)) (g_nodes g))"

definition option_filter :: "('a \<Rightarrow> bool) \<Rightarrow> 'a option \<Rightarrow> 'a option" where
  "option_filter P x = (case x of Some y \<Rightarrow> if P y then Some y else None | None \<Rightarrow> None)"

definition unrooted :: "Graph \<Rightarrow> Graph \<Rightarrow> uuid option" where
  "unrooted self target = option_filter
     (\<lambda>root. g_root target = None
       \<and> (hm_get (nodes_by_id self) root = None \<or> hm_contains (nodes_by_id target) root))
     (g_root self)"

definition diff_remove :: "Graph \<Rightarrow> Graph \<Rightarrow> uuid list" where
  "diff_remove self target =
     filter (\<lambda>i. \<not> hm_contains (nodes_by_id target) i \<or> Some i = unrooted self target)
       (map n_id (g_nodes self))
     @ (case option_filter (\<lambda>root. \<not> hm_contains (nodes_by_id self) root)
               (unrooted self target) of
          None \<Rightarrow> [] | Some root \<Rightarrow> [root])"

text \<open>What the loop over the nodes of \<open>target\<close> does with one of them.\<close>

definition kept_node :: "Graph \<Rightarrow> uuid hash_set \<Rightarrow> Node \<Rightarrow> Node option" where
  "kept_node self removed node =
     (case option_filter (\<lambda>_. n_id node \<notin> set removed)
             (hm_get (nodes_by_id self) (n_id node)) of
        None \<Rightarrow> None
      | Some old \<Rightarrow>
          if n_function old \<noteq> n_function node \<or> n_children old \<noteq> n_children node then None
          else Some old)"

definition changed_bindings :: "uuid hash_set \<Rightarrow> Node \<Rightarrow> Node \<Rightarrow> Binding list" where
  "changed_bindings removed old node =
     map (\<lambda>(port, source). \<lparr>b_node = n_id node, b_port = port, b_source = source\<rparr>)
       (filter (\<lambda>(port, source).
          \<not> (case map_of (n_bind old) port of None \<Rightarrow> False | Some s \<Rightarrow> source_eq s source)
          \<or> reads_removed removed source) (n_bind node))"

definition dropped_bindings :: "uuid hash_set \<Rightarrow> Node \<Rightarrow> Node \<Rightarrow> Port list" where
  "dropped_bindings removed old node =
     map (\<lambda>(port, source). MkPort (n_id node) port)
       (filter (\<lambda>(port, source).
          map_of (n_bind node) port = None \<and> \<not> reads_removed removed source) (n_bind old))"

definition diff_node :: "Graph \<Rightarrow> uuid hash_set \<Rightarrow> Node \<Rightarrow> GraphDiff \<Rightarrow> GraphDiff" where
  "diff_node self removed node d =
     (case kept_node self removed node of
        None \<Rightarrow> d\<lparr>d_set := d_set d @ [node]\<rparr>
      | Some old \<Rightarrow> d\<lparr>d_bind := d_bind d @ changed_bindings removed old node,
                     d_unbind := d_unbind d @ dropped_bindings removed old node\<rparr>)"

definition graph_diff :: "Graph \<Rightarrow> Graph \<Rightarrow> GraphDiff" where
  "graph_diff self target =
     (let remove = diff_remove self target;
          removed = hs_collect remove;
          d = fold (diff_node self removed) (g_nodes target)
                \<lparr>d_remove = remove, d_set = [], d_unbind = [], d_bind = [], d_root = None\<rparr>;
          left = option_filter (\<lambda>root. root \<notin> set removed) (g_root self)
      in if g_root target \<noteq> None \<and> g_root target \<noteq> left then d\<lparr>d_root := g_root target\<rparr>
         else d)"

section \<open>The reference edit\<close>

text \<open>
  The edit without the index: every step is a map over the nodes, or an addition at the end. An
  edit by id touches the one node that has it.
\<close>

abbreviation ids :: "Node list \<Rightarrow> uuid list" where
  "ids nodes \<equiv> map n_id nodes"

definition graph_ok :: "Graph \<Rightarrow> bool" where
  "graph_ok g \<longleftrightarrow> distinct (ids (g_nodes g)) \<and> list_all (\<lambda>n. bt_ok (n_bind n)) (g_nodes g)"

definition edit_node :: "uuid \<Rightarrow> (Node \<Rightarrow> Node) \<Rightarrow> Node list \<Rightarrow> Node list" where
  "edit_node i f nodes = map (\<lambda>n. if n_id n = i then f n else n) nodes"

definition put_node :: "Node \<Rightarrow> Node list \<Rightarrow> Node list" where
  "put_node node nodes =
     (if n_id node \<in> set (ids nodes) then edit_node (n_id node) (\<lambda>_. node) nodes
      else nodes @ [node])"

definition unbind_ref :: "Port \<Rightarrow> Node list \<Rightarrow> Node list" where
  "unbind_ref port = edit_node (port_node port)
     (\<lambda>n. n\<lparr>n_bind := bt_remove (port_port port) (n_bind n)\<rparr>)"

definition bind_ref :: "Binding \<Rightarrow> Node list \<Rightarrow> Node list" where
  "bind_ref b = edit_node (b_node b)
     (\<lambda>n. n\<lparr>n_bind := bt_insert (b_port b) (b_source b) (n_bind n)\<rparr>)"

definition apply_ref :: "Graph \<Rightarrow> GraphDiff \<Rightarrow> Graph" where
  "apply_ref self d =
     (let g = removals (hs_collect (d_remove d)) self
      in \<lparr>g_root = (case d_root d of Some root \<Rightarrow> Some root | None \<Rightarrow> g_root g),
          g_nodes = fold bind_ref (d_bind d) (fold unbind_ref (d_unbind d)
                      (fold put_node (d_set d) (g_nodes g)))\<rparr>)"

section \<open>The index finds the nodes\<close>

definition index_ok :: "node_index \<Rightarrow> Node list \<Rightarrow> bool" where
  "index_ok at nodes \<longleftrightarrow> distinct (ids nodes)
     \<and> (\<forall>i k. map_of at i = Some k \<longleftrightarrow> k < length nodes \<and> n_id (nodes ! k) = i)"

lemma index_ok_None: "index_ok at nodes \<Longrightarrow> map_of at i = None \<longleftrightarrow> i \<notin> set (ids nodes)"
proof -
  assume "index_ok at nodes"
  then have "map_of at i = None \<longleftrightarrow> (\<forall>k < length nodes. n_id (nodes ! k) \<noteq> i)"
    unfolding index_ok_def by (metis not_None_eq)
  also have "\<dots> \<longleftrightarrow> i \<notin> set (ids nodes)"
    by (metis in_set_conv_nth length_map nth_map)
  finally show ?thesis .
qed

lemma edit_at_edit_node:
  assumes "index_ok at nodes" "map_of at i = Some k"
  shows "edit_at k f nodes = Some (edit_node i f nodes)"
proof -
  from assms have k: "k < length nodes" "n_id (nodes ! k) = i" and d: "distinct (ids nodes)"
    by (auto simp: index_ok_def)
  have "nodes[k := f (nodes ! k)] = edit_node i f nodes"
  proof (rule nth_equalityI)
    fix j assume "j < length (nodes[k := f (nodes ! k)])"
    then have j: "j < length nodes" by simp
    with k d have "n_id (nodes ! j) = i \<longleftrightarrow> j = k"
      by (metis distinct_conv_nth length_map nth_map)
    with j k show "nodes[k := f (nodes ! k)] ! j = edit_node i f nodes ! j"
      by (auto simp: edit_node_def nth_list_update)
  qed (simp add: edit_node_def)
  with k show ?thesis by (simp add: edit_at_def)
qed

lemma ids_edit_node: "(\<And>n. n_id n = i \<Longrightarrow> n_id (f n) = i) \<Longrightarrow> ids (edit_node i f nodes) = ids nodes"
  by (auto simp: edit_node_def)

lemma index_ok_ids: "ids ms = ids nodes \<Longrightarrow> index_ok at nodes \<Longrightarrow> index_ok at ms"
  unfolding index_ok_def by (metis length_map nth_map)

lemma ids_edits [simp]:
  "ids (unbind_ref p nodes) = ids nodes" "ids (bind_ref b nodes) = ids nodes"
  by (simp_all add: unbind_ref_def bind_ref_def ids_edit_node)

lemma ids_put_node:
  "ids (put_node n nodes) = (if n_id n \<in> set (ids nodes) then ids nodes else ids nodes @ [n_id n])"
  by (simp add: put_node_def ids_edit_node)

lemma index_nodes_ok:
  assumes "distinct (ids nodes)"
  shows "index_ok (index_nodes nodes) nodes"
proof -
  let ?es = "map (\<lambda>(i, node). (n_id node, i)) (enumerate 0 nodes)"
  have "map fst ?es = ids nodes"
    by (rule nth_equalityI) (auto simp: nth_enumerate_eq)
  with assms have d: "distinct (map fst ?es)" by simp
  have "(i, k) \<in> set ?es \<longleftrightarrow> k < length nodes \<and> n_id (nodes ! k) = i" for i k
    by (auto simp: image_iff in_set_enumerate_eq split: prod.splits)
  then have "map_of ?es i = Some k \<longleftrightarrow> k < length nodes \<and> n_id (nodes ! k) = i" for i k
    by (simp only: map_of_eq_Some_iff [OF d])
  with assms show ?thesis
    by (simp only: index_ok_def index_nodes_def hm_collect_distinct [OF d] simp_thms)
qed

lemma set_node_ref:
  assumes "index_ok at nodes"
  shows "\<exists>at'. set_node n (at, nodes) = Some (at', put_node n nodes) \<and> index_ok at' (put_node n nodes)"
proof (cases "map_of at (n_id n)")
  case None
  with assms have new: "n_id n \<notin> set (ids nodes)" by (simp add: index_ok_None)
  then have "n_id (nodes ! k) \<noteq> n_id n" if "k < length nodes" for k
    using that by (metis length_map nth_map nth_mem)
  with assms new have "index_ok (hm_insert (n_id n) (length nodes) at) (nodes @ [n])"
    unfolding index_ok_def by (auto simp: nth_append less_Suc_eq)
  with None new show ?thesis by (auto simp: set_node_def put_node_def)
next
  case (Some k)
  with assms have old: "n_id n \<in> set (ids nodes)" by (metis index_ok_None option.simps(3))
  from edit_at_edit_node [OF assms Some, of "\<lambda>_. n"] old Some
  have "set_node n (at, nodes) = Some (at, put_node n nodes)"
    by (simp add: set_node_def put_node_def)
  moreover have "index_ok at (put_node n nodes)"
    using assms old by (intro index_ok_ids [OF _ assms]) (simp add: ids_put_node)
  ultimately show ?thesis by blast
qed

lemma set_nodes_ref:
  "index_ok at nodes \<Longrightarrow> \<exists>at'. foldM set_node ns (at, nodes) = Some (at', fold put_node ns nodes)
     \<and> index_ok at' (fold put_node ns nodes)"
proof (induction ns arbitrary: at nodes)
  case (Cons n ns)
  from set_node_ref [OF Cons.prems] obtain at' where
    "set_node n (at, nodes) = Some (at', put_node n nodes)" "index_ok at' (put_node n nodes)"
    by blast
  with Cons.IH show ?case by simp
qed simp

lemma unbind_ports_ref:
  "index_ok at nodes \<Longrightarrow> foldM (unbind_port at) ps nodes = Some (fold unbind_ref ps nodes)
     \<and> index_ok at (fold unbind_ref ps nodes)"
proof (induction ps arbitrary: nodes)
  case (Cons p ps)
  have "unbind_port at p nodes = Some (unbind_ref p nodes)"
  proof (cases "map_of at (port_node p)")
    case None
    with Cons.prems have "port_node p \<notin> set (ids nodes)" by (simp add: index_ok_None)
    then have "unbind_ref p nodes = nodes"
      by (force simp: unbind_ref_def edit_node_def intro!: map_idI)
    with None show ?thesis by (simp add: unbind_port_def)
  qed (use Cons.prems in \<open>simp add: unbind_port_def unbind_ref_def edit_at_edit_node\<close>)
  moreover have "index_ok at (unbind_ref p nodes)"
    using index_ok_ids [OF ids_edits(1) Cons.prems] .
  ultimately show ?case using Cons.IH by simp
qed simp

lemma bind_ports_ref:
  "index_ok at nodes \<Longrightarrow> b_node ` set bs \<subseteq> set (ids nodes) \<Longrightarrow>
     foldM (bind_port at) bs nodes = Some (fold bind_ref bs nodes)"
proof (induction bs arbitrary: nodes)
  case (Cons b bs)
  then obtain k where "map_of at (b_node b) = Some k"
    by (metis image_subset_iff index_ok_None list.set_intros(1) not_None_eq)
  with Cons.prems have "bind_port at b nodes = Some (bind_ref b nodes)"
    by (simp add: bind_port_def bind_ref_def edit_at_edit_node)
  moreover have "index_ok at (bind_ref b nodes)"
    using index_ok_ids [OF ids_edits(2)] Cons.prems by blast
  moreover have "b_node ` set bs \<subseteq> set (ids (bind_ref b nodes))"
    using Cons.prems(2) by (simp only: ids_edits) auto
  ultimately show ?case using Cons.IH [of "bind_ref b nodes"] by simp
qed simp

lemma ids_fold_edits [simp]:
  "ids (fold unbind_ref ps nodes) = ids nodes" "ids (fold bind_ref bs nodes) = ids nodes"
  by (induction ps arbitrary: nodes; simp) (induction bs arbitrary: nodes; simp)

lemma ids_fold_put:
  "distinct (ids ns) \<Longrightarrow>
     ids (fold put_node ns nodes) = ids nodes @ filter (\<lambda>i. i \<notin> set (ids nodes)) (ids ns)"
proof (induction ns arbitrary: nodes)
  case (Cons n ns)
  have "filter (\<lambda>i. i \<noteq> n_id n \<and> i \<notin> set (ids nodes)) (ids ns)
    = filter (\<lambda>i. i \<notin> set (ids nodes)) (ids ns)"
    using Cons.prems by (intro filter_cong) (auto simp del: set_map)
  moreover have "ids (fold put_node ns (put_node n nodes)) = ids (put_node n nodes)
    @ filter (\<lambda>i. i \<notin> set (ids (put_node n nodes))) (ids ns)"
    using Cons by simp
  ultimately show ?case by (simp add: ids_put_node del: set_map)
qed simp

lemma set_ids_fold_put: "set (ids (fold put_node ns nodes)) = set (ids nodes) \<union> set (ids ns)"
  by (induction ns arbitrary: nodes) (auto simp: ids_put_node simp del: set_map)

lemma ids_removals:
  "ids (g_nodes (removals rs g)) = filter (\<lambda>i. i \<notin> set rs) (ids (g_nodes g))"
  by (simp add: removals_def unread_def filter_map comp_def)

section \<open>What an edit makes of each node\<close>

abbreviation node_at :: "Node list \<Rightarrow> uuid \<Rightarrow> Node option" where
  "node_at nodes i \<equiv> find (\<lambda>n. n_id n = i) nodes"

lemma node_at_id: "node_at nodes i = Some n \<Longrightarrow> n_id n = i"
  by (auto simp: find_Some_iff)

lemma node_at_None: "node_at nodes i = None \<longleftrightarrow> i \<notin> set (ids nodes)"
  by (auto simp: find_None_iff)

lemma node_at_mem: "distinct (ids nodes) \<Longrightarrow> n \<in> set nodes \<Longrightarrow> node_at nodes (n_id n) = Some n"
  by (induction nodes) auto

lemma node_at_in: "node_at nodes i = Some n \<Longrightarrow> n \<in> set nodes"
  by (auto simp: find_Some_iff)

lemma node_at_edit:
  assumes "\<And>n. n_id n = i \<Longrightarrow> n_id (f n) = i"
  shows "node_at (edit_node i f nodes) j =
    (if j = i then map_option f (node_at nodes i) else node_at nodes j)"
  using assms by (induction nodes) (auto simp: edit_node_def)

lemma node_at_append: "node_at (xs @ ys) j = (case node_at xs j of Some n \<Rightarrow> Some n | None \<Rightarrow> node_at ys j)"
  by (induction xs) auto

lemma node_at_put: "node_at (put_node n nodes) j = (if j = n_id n then Some n else node_at nodes j)"
proof (cases "n_id n \<in> set (ids nodes)")
  case True
  then obtain m where "node_at nodes (n_id n) = Some m" by (metis node_at_None not_None_eq)
  with True show ?thesis by (simp add: put_node_def node_at_edit)
next
  case False
  then have "node_at nodes (n_id n) = None" by (simp only: node_at_None not_False_eq_True)
  with False show ?thesis by (auto simp: put_node_def node_at_append split: option.splits)
qed

lemma node_at_puts:
  "distinct (ids ns) \<Longrightarrow> node_at (fold put_node ns nodes) j =
     (case node_at ns j of Some n \<Rightarrow> Some n | None \<Rightarrow> node_at nodes j)"
proof (induction ns arbitrary: nodes)
  case (Cons n ns)
  then have "node_at ns (n_id n) = None" by (simp only: node_at_None) simp
  with Cons show ?case by (auto simp: node_at_put split: option.splits)
qed simp

lemma unread_Nil [simp]: "unread [] n = n"
  by (cases n) (simp add: unread_def reads_removed_def option.case_eq_if)

lemma unread_sel [simp]:
  "n_id (unread rs n) = n_id n" "n_function (unread rs n) = n_function n"
  "n_children (unread rs n) = n_children n"
  by (simp_all add: unread_def)

lemma node_at_removals:
  "node_at (g_nodes (removals rs g)) j =
     (if j \<in> set rs then None else map_option (unread rs) (node_at (g_nodes g) j))"
proof -
  have "node_at (map (unread rs) (filter (\<lambda>n. n_id n \<notin> set rs) ns)) j =
     (if j \<in> set rs then None else map_option (unread rs) (node_at ns j))" for ns
    by (induction ns) auto
  then show ?thesis by (auto simp: removals_def option.map_ident_strong)
qed

definition unbound :: "uuid \<Rightarrow> Port list \<Rightarrow> Node \<Rightarrow> Node" where
  "unbound i ps n = n\<lparr>n_bind :=
     fold bt_remove (map port_port (filter (\<lambda>p. port_node p = i) ps)) (n_bind n)\<rparr>"

definition bound :: "uuid \<Rightarrow> Binding list \<Rightarrow> Node \<Rightarrow> Node" where
  "bound i bs n = n\<lparr>n_bind :=
     fold (\<lambda>b. bt_insert (b_port b) (b_source b)) (filter (\<lambda>b. b_node b = i) bs) (n_bind n)\<rparr>"

lemma node_at_unbinds:
  "node_at (fold unbind_ref ps nodes) j = map_option (unbound j ps) (node_at nodes j)"
proof (induction ps arbitrary: nodes)
  case (Cons p ps)
  then show ?case
    by (cases "node_at nodes j") (auto simp: unbind_ref_def node_at_edit unbound_def)
qed (simp add: unbound_def option.map_ident_strong)

lemma node_at_binds:
  "node_at (fold bind_ref bs nodes) j = map_option (bound j bs) (node_at nodes j)"
proof (induction bs arbitrary: nodes)
  case (Cons b bs)
  then show ?case
    by (cases "node_at nodes j") (auto simp: bind_ref_def node_at_edit bound_def)
qed (simp add: bound_def option.map_ident_strong)

lemma bound_sel [simp]:
  "n_id (bound i bs n) = n_id n" "n_function (bound i bs n) = n_function n"
  "n_children (bound i bs n) = n_children n"
  "n_id (unbound i ps n) = n_id n" "n_function (unbound i ps n) = n_function n"
  "n_children (unbound i ps n) = n_children n"
  by (simp_all add: bound_def unbound_def)

lemma map_of_fold_bt_remove:
  "map_of (fold bt_remove ks m) k = (if k \<in> set ks then None else map_of m k)"
  by (induction ks arbitrary: m) auto

lemma map_of_fold_bt_insert:
  "map_of (fold (\<lambda>b. bt_insert (b_port b) (b_source b)) bs m) k =
     (case map_of (rev (map (\<lambda>b. (b_port b, b_source b)) bs)) k of
        Some s \<Rightarrow> Some s | None \<Rightarrow> map_of m k)"
  by (induction bs arbitrary: m) (auto simp: map_add_def split: option.splits)

lemma bt_ok_folds:
  "bt_ok m \<Longrightarrow> bt_ok (fold bt_remove ks m)"
  "bt_ok m \<Longrightarrow> bt_ok (fold (\<lambda>b. bt_insert (b_port b) (b_source b)) bs m)"
  by (induction ks arbitrary: m; simp) (induction bs arbitrary: m; simp)

lemma bt_ok_bind [intro]:
  "bt_ok (n_bind n) \<Longrightarrow> bt_ok (n_bind (unread rs n))"
  "bt_ok (n_bind n) \<Longrightarrow> bt_ok (n_bind (unbound i ps n))"
  "bt_ok (n_bind n) \<Longrightarrow> bt_ok (n_bind (bound i bs n))"
  by (simp_all add: unread_def unbound_def bound_def bt_ok_folds)

section \<open>Applying is the reference edit\<close>

lemma distinct_put: "distinct (ids nodes) \<Longrightarrow> distinct (ids (put_node n nodes))"
  by (simp add: ids_put_node del: set_map)

lemma distinct_puts: "distinct (ids nodes) \<Longrightarrow> distinct (ids (fold put_node ns nodes))"
  by (induction ns arbitrary: nodes) (simp_all add: distinct_put)

lemma distinct_removals: "distinct (ids (g_nodes g)) \<Longrightarrow> distinct (ids (g_nodes (removals rs g)))"
  by (simp add: ids_removals)

lemma ids_apply_ref:
  "ids (g_nodes (apply_ref g d)) =
     ids (fold put_node (d_set d) (g_nodes (removals (hs_collect (d_remove d)) g)))"
  by (simp add: apply_ref_def Let_def)

lemma not_refused:
  assumes "refused_binding g d = None"
  shows "b_node ` set (d_bind d) \<subseteq> set (ids (g_nodes (apply_ref g d)))"
  using assms
  by (auto simp: refused_binding_def Let_def find_None_iff ids_apply_ref set_ids_fold_put
      ids_removals simp del: set_map)

lemma graph_apply_ref:
  assumes "distinct (ids (g_nodes g))"
  shows "graph_apply g d = Some (case refused_binding g d of
    Some b \<Rightarrow> Inl (BindingTargets (b_node b)) | None \<Rightarrow> Inr (apply_ref g d))"
proof (cases "refused_binding g d")
  case (Some b)
  then have "d_bind d \<noteq> []" by (auto simp: refused_binding_def Let_def)
  with Some show ?thesis by (simp add: graph_apply_def)
next
  case None
  define g1 where "g1 = removals (hs_collect (d_remove d)) g"
  define ns where "ns = fold put_node (d_set d) (g_nodes g1)"
  have "index_ok (index_nodes (g_nodes g1)) (g_nodes g1)"
    using assms by (auto simp: g1_def intro!: index_nodes_ok distinct_removals)
  from set_nodes_ref [OF this, of "d_set d"] obtain at where
    set: "foldM set_node (d_set d) (index_nodes (g_nodes g1), g_nodes g1) = Some (at, ns)"
    and ok: "index_ok at ns" by (auto simp: ns_def)
  from unbind_ports_ref [OF ok, of "d_unbind d"] have
    unbind: "foldM (unbind_port at) (d_unbind d) ns = Some (fold unbind_ref (d_unbind d) ns)"
    and ok': "index_ok at (fold unbind_ref (d_unbind d) ns)" by simp_all
  have "b_node ` set (d_bind d) \<subseteq> set (ids (fold unbind_ref (d_unbind d) ns))"
    using not_refused [OF None] by (simp add: ids_apply_ref ns_def g1_def del: set_map)
  note bind = bind_ports_ref [OF ok' this]
  from set unbind bind None show ?thesis
    by (simp add: graph_apply_def Let_def g1_def [symmetric] apply_ref_def ns_def)
qed

lemma graph_ok_bind: "graph_ok g \<Longrightarrow> graph_node g i = Some n \<Longrightarrow> bt_ok (n_bind n)"
  by (auto simp: graph_ok_def list_all_iff graph_node_def dest: node_at_in)

lemma graph_okI:
  "distinct (ids (g_nodes g)) \<Longrightarrow> (\<And>i n. graph_node g i = Some n \<Longrightarrow> bt_ok (n_bind n)) \<Longrightarrow> graph_ok g"
  unfolding graph_ok_def list_all_iff graph_node_def by (auto dest: node_at_mem)

lemma put_all_ok:
  "\<forall>n \<in> set nodes. bt_ok (n_bind n) \<Longrightarrow> \<forall>n \<in> set ns. bt_ok (n_bind n) \<Longrightarrow>
     \<forall>n \<in> set (fold put_node ns nodes). bt_ok (n_bind n)"
proof (induction ns arbitrary: nodes)
  case (Cons n ns)
  then have "\<forall>m \<in> set (put_node n nodes). bt_ok (n_bind m)"
    by (auto simp: put_node_def edit_node_def)
  with Cons show ?case by simp
qed simp

lemma graph_node_apply_ref:
  "graph_node (apply_ref g d) i = map_option (bound i (d_bind d) \<circ> unbound i (d_unbind d))
     (node_at (fold put_node (d_set d) (g_nodes (removals (hs_collect (d_remove d)) g))) i)"
  by (simp add: graph_node_def apply_ref_def Let_def node_at_binds node_at_unbinds
      option.map_comp)

lemma apply_ref_ok:
  assumes "graph_ok g" and "list_all (\<lambda>n. bt_ok (n_bind n)) (d_set d)"
  shows "graph_ok (apply_ref g d)"
proof (rule graph_okI)
  let ?rs = "hs_collect (d_remove d)"
  show "distinct (ids (g_nodes (apply_ref g d)))"
    using assms(1) unfolding ids_apply_ref graph_ok_def
    by (blast intro: distinct_puts distinct_removals)
  have "\<forall>n \<in> set (g_nodes (removals ?rs g)). bt_ok (n_bind n)"
    using assms(1) by (auto simp: removals_def graph_ok_def list_all_iff)
  from put_all_ok [OF this] assms(2)
  have ok: "\<forall>n \<in> set (fold put_node (d_set d) (g_nodes (removals ?rs g))). bt_ok (n_bind n)"
    by (simp add: list_all_iff)
  fix i n assume "graph_node (apply_ref g d) i = Some n"
  with ok show "bt_ok (n_bind n)"
    by (auto simp: graph_node_apply_ref dest!: node_at_in)
qed

text \<open>
  C27. \<open>apply\<close> edits through an index of positions it keeps up to date while it adds nodes; the
  reference edit searches for every node by its id. On a graph whose ids are unique they agree:
  \<open>apply\<close> never panics, it fails exactly when some binding of the diff targets a node that is
  neither kept nor set (naming the first such node, and changing nothing), and otherwise the
  graph is the reference edit's, which again has unique ids and ordered bindings.
\<close>

theorem apply_reference:
  assumes "graph_ok g" and "list_all (\<lambda>n. bt_ok (n_bind n)) (d_set d)"
  shows "graph_apply g d = Some (case refused_binding g d of
           Some b \<Rightarrow> Inl (BindingTargets (b_node b)) | None \<Rightarrow> Inr (apply_ref g d))
    \<and> (refused_binding g d = None \<longleftrightarrow> (\<forall>b \<in> set (d_bind d).
         b_node b \<in> (set (ids (g_nodes g)) - set (d_remove d)) \<union> set (ids (d_set d))))
    \<and> graph_ok (apply_ref g d)"
proof (intro conjI)
  show "graph_apply g d = Some (case refused_binding g d of
           Some b \<Rightarrow> Inl (BindingTargets (b_node b)) | None \<Rightarrow> Inr (apply_ref g d))"
    using assms(1) by (simp add: graph_apply_ref graph_ok_def)
  show "refused_binding g d = None \<longleftrightarrow> (\<forall>b \<in> set (d_bind d).
         b_node b \<in> (set (ids (g_nodes g)) - set (d_remove d)) \<union> set (ids (d_set d)))"
    by (auto simp: refused_binding_def Let_def find_None_iff simp del: set_map)
  show "graph_ok (apply_ref g d)" using assms by (rule apply_ref_ok)
qed

section \<open>The diff between two graphs\<close>

text \<open>Two sources a diff does not tell apart: identical, or equal by \<open>PartialEq\<close>.\<close>

definition same_source :: "Source \<Rightarrow> Source \<Rightarrow> bool" where
  "same_source s t \<longleftrightarrow> s = t \<or> source_eq s t"

definition same_node :: "Node \<Rightarrow> Node \<Rightarrow> bool" where
  "same_node m n \<longleftrightarrow> n_id m = n_id n \<and> n_function m = n_function n \<and> n_children m = n_children n
     \<and> list_all2 (\<lambda>(p, s) (q, t). p = q \<and> same_source s t) (n_bind m) (n_bind n)"

lemma same_node_refl [simp]: "same_node n n"
  by (auto simp: same_node_def same_source_def intro!: list.rel_refl)

lemma source_eq_port: "source_eq s t \<Longrightarrow> source_port s = source_port t"
  by (induction s t rule: source_eq.induct) auto

lemma source_eq_reads: "source_eq s t \<Longrightarrow> reads_removed rs s = reads_removed rs t"
  by (simp add: reads_removed_def source_eq_port)

lemma bt_same:
  assumes "bt_ok ms" "bt_ok ns" "\<And>p. rel_option R (map_of ms p) (map_of ns p)"
  shows "list_all2 (\<lambda>(p, s) (q, t). p = q \<and> R s t) ms ns"
proof -
  have dom: "set (map fst ms) = set (map fst ns)"
  proof -
    have "map_of ms p = None \<longleftrightarrow> map_of ns p = None" for p
      using assms(3) [of p] by (cases "map_of ms p"; cases "map_of ns p") auto
    then show ?thesis by (auto simp: map_of_eq_None_iff)
  qed
  then have keys: "map fst ms = map fst ns"
    using assms(1, 2) by (metis sorted_distinct_set_unique strict_sorted_iff)
  show ?thesis
  proof (rule list_all2_all_nthI)
    show len: "length ms = length ns" using keys by (metis length_map)
    fix k assume k: "k < length ms"
    obtain p s where ps: "ms ! k = (p, s)" by fastforce
    obtain q t where qt: "ns ! k = (q, t)" by fastforce
    from keys k len have pq: "p = q" by (metis fst_conv nth_map ps qt)
    have "map_of ms p = Some s" "map_of ns q = Some t"
      using k len ps qt assms(1, 2) bt_ok_distinct by (metis map_of_is_SomeI nth_mem)+
    with assms(3) [of p] pq ps qt show "(case ms ! k of (p, s) \<Rightarrow> \<lambda>(q, t). p = q \<and> R s t) (ns ! k)"
      by simp
  qed
qed

lemma nodes_by_id [simp]:
  assumes "distinct (ids (g_nodes g))"
  shows "map_of (nodes_by_id g) i = graph_node g i"
    and "hm_contains (nodes_by_id g) i \<longleftrightarrow> i \<in> set (ids (g_nodes g))"
proof -
  have "map_of (map (\<lambda>n. (n_id n, n)) ns) i = node_at ns i" for ns
    by (induction ns) auto
  moreover have "distinct (map fst (map (\<lambda>n. (n_id n, n)) (g_nodes g)))"
    using assms by (simp add: comp_def)
  ultimately show m: "map_of (nodes_by_id g) i = graph_node g i"
    by (simp add: nodes_by_id_def graph_node_def map_of_rev_distinct)
  then show "hm_contains (nodes_by_id g) i \<longleftrightarrow> i \<in> set (ids (g_nodes g))"
    by (simp only: hm_contains_iff graph_node_def node_at_None) simp
qed

lemma option_filter_simps [simp]:
  "option_filter P None = None" "option_filter P (Some x) = (if P x then Some x else None)"
  by (simp_all add: option_filter_def)

lemma map_of_filter_entries:
  "distinct (map fst m) \<Longrightarrow> map_of (filter P m) p = option_filter (\<lambda>s. P (p, s)) (map_of m p)"
  by (induction m) (auto simp: map_of_eq_None_iff)

text \<open>What the loop over the target's nodes collects.\<close>

definition rebinds :: "Graph \<Rightarrow> uuid hash_set \<Rightarrow> Node \<Rightarrow> Binding list" where
  "rebinds g rs n =
     (case kept_node g rs n of None \<Rightarrow> [] | Some old \<Rightarrow> changed_bindings rs old n)"

definition drops :: "Graph \<Rightarrow> uuid hash_set \<Rightarrow> Node \<Rightarrow> Port list" where
  "drops g rs n =
     (case kept_node g rs n of None \<Rightarrow> [] | Some old \<Rightarrow> dropped_bindings rs old n)"

lemma fold_diff_node:
  "fold (diff_node g rs) ns d = d\<lparr>
     d_set := d_set d @ filter (\<lambda>n. kept_node g rs n = None) ns,
     d_unbind := d_unbind d @ concat (map (drops g rs) ns),
     d_bind := d_bind d @ concat (map (rebinds g rs) ns)\<rparr>"
proof (induction ns arbitrary: d)
  case (Cons n ns)
  show ?case unfolding fold_simps Cons
    by (cases "kept_node g rs n") (simp_all add: diff_node_def rebinds_def [of g rs n] drops_def [of g rs n])
qed simp

lemma graph_diff_sel:
  fixes g t
  defines "rs \<equiv> hs_collect (diff_remove g t)"
  shows "d_remove (graph_diff g t) = diff_remove g t"
    and "d_set (graph_diff g t) = filter (\<lambda>n. kept_node g rs n = None) (g_nodes t)"
    and "d_unbind (graph_diff g t) = concat (map (drops g rs) (g_nodes t))"
    and "d_bind (graph_diff g t) = concat (map (rebinds g rs) (g_nodes t))"
    and "d_root (graph_diff g t) =
      (if g_root t \<noteq> option_filter (\<lambda>r. r \<notin> set rs) (g_root g) then g_root t else None)"
  unfolding rs_def by (auto simp: graph_diff_def Let_def fold_diff_node)

lemma filter_concat_owner:
  assumes "distinct (map key xs)" "x \<in> set xs" "\<And>y z. y \<in> set xs \<Longrightarrow> z \<in> set (f y) \<Longrightarrow> own z = key y"
  shows "filter (\<lambda>z. own z = key x) (concat (map f xs)) = f x"
  using assms
proof (induction xs)
  case (Cons y ys)
  show ?case
  proof (cases "x = y")
    case True
    have "own z \<noteq> key x" if "z \<in> set (concat (map f ys))" for z
    proof -
      from that obtain w where w: "w \<in> set ys" "z \<in> set (f w)" by auto
      with Cons.prems(3) have "own z = key w" by auto
      with w True Cons.prems(1) show ?thesis by (metis distinct.simps(2) image_eqI list.map(2) list.set_map)
    qed
    then have "filter (\<lambda>z. own z = key x) (concat (map f ys)) = []"
      by (simp only: filter_empty_conv) simp
    moreover have "filter (\<lambda>z. own z = key x) (f y) = f y"
      using Cons.prems(3) True by (auto intro!: filter_True)
    ultimately show ?thesis using True by simp
  next
    case False
    then have x: "x \<in> set ys" using Cons.prems(2) by simp
    then have "key y \<noteq> key x" using Cons.prems(1) by auto
    then have "filter (\<lambda>z. own z = key x) (f y) = []"
      using Cons.prems(3) [of y] by (auto simp: filter_empty_conv)
    with x Cons show ?thesis by simp
  qed
qed simp

lemma diff_owners:
  "b \<in> set (rebinds g rs n) \<Longrightarrow> b_node b = n_id n"
  "p \<in> set (drops g rs n) \<Longrightarrow> port_node p = n_id n"
  by (auto simp: rebinds_def drops_def changed_bindings_def dropped_bindings_def
      split: option.splits)

lemma diff_of_node:
  assumes "distinct (ids (g_nodes t))" "n \<in> set (g_nodes t)"
  shows "filter (\<lambda>b. b_node b = n_id n) (d_bind (graph_diff g t)) =
      rebinds g (hs_collect (diff_remove g t)) n"
    and "filter (\<lambda>p. port_node p = n_id n) (d_unbind (graph_diff g t)) =
      drops g (hs_collect (diff_remove g t)) n"
  unfolding graph_diff_sel
  by (rule filter_concat_owner [OF assms], erule diff_owners)+

text \<open>The nodes that keep their place: in both graphs, and not a root the target unroots.\<close>

definition stays :: "Graph \<Rightarrow> Graph \<Rightarrow> uuid \<Rightarrow> bool" where
  "stays g t i \<longleftrightarrow> i \<in> set (ids (g_nodes g)) \<and> i \<in> set (ids (g_nodes t))
     \<and> \<not> (g_root t = None \<and> g_root g = Some i)"

lemma in_diff_remove:
  assumes "distinct (ids (g_nodes g))" "distinct (ids (g_nodes t))"
  shows "i \<in> set (ids (g_nodes g)) \<Longrightarrow> i \<in> set (diff_remove g t) \<longleftrightarrow> \<not> stays g t i"
    and "g_root t = None \<Longrightarrow> g_root g = Some i \<Longrightarrow> i \<in> set (diff_remove g t)"
proof -
  have none: "graph_node g r = None \<longleftrightarrow> r \<notin> set (ids (g_nodes g))" for r
    by (simp only: graph_node_def node_at_None)
  show "i \<in> set (ids (g_nodes g)) \<Longrightarrow> i \<in> set (diff_remove g t) \<longleftrightarrow> \<not> stays g t i"
    using assms
    by (cases "g_root g")
      (auto simp: diff_remove_def unrooted_def stays_def none simp del: set_map)
  show "g_root t = None \<Longrightarrow> g_root g = Some i \<Longrightarrow> i \<in> set (diff_remove g t)"
    using assms by (auto simp: diff_remove_def unrooted_def none simp del: set_map)
qed

lemma kept_node_iff:
  assumes "distinct (ids (g_nodes g))"
  shows "kept_node g rs n = Some old \<longleftrightarrow> n_id n \<notin> set rs \<and> graph_node g (n_id n) = Some old
    \<and> n_function old = n_function n \<and> n_children old = n_children n"
  using assms by (cases "graph_node g (n_id n)") (auto simp: kept_node_def)

lemma kept_stays:
  assumes "distinct (ids (g_nodes g))" "distinct (ids (g_nodes t))" "n \<in> set (g_nodes t)"
    "kept_node g (hs_collect (diff_remove g t)) n = Some old"
  shows "stays g t (n_id n)"
proof -
  have "graph_node g (n_id n) = Some old" "n_id n \<notin> set (diff_remove g t)"
    using assms(4) by (simp_all add: kept_node_iff [OF assms(1)])
  moreover from this(1) have "n_id n \<in> set (ids (g_nodes g))"
    by (metis graph_node_def node_at_None option.simps(3))
  ultimately show ?thesis using in_diff_remove(1) [OF assms(1, 2)] by blast
qed

lemma diff_not_refused:
  assumes "distinct (ids (g_nodes g))" "distinct (ids (g_nodes t))"
  shows "refused_binding g (graph_diff g t) = None"
proof -
  have "b_node b \<in> set (ids (g_nodes g)) - set (diff_remove g t)"
    if "b \<in> set (d_bind (graph_diff g t))" for b
  proof -
    from that obtain n old where n: "n \<in> set (g_nodes t)"
      "kept_node g (hs_collect (diff_remove g t)) n = Some old" "b_node b = n_id n"
      by (fastforce simp: graph_diff_sel rebinds_def changed_bindings_def split: option.splits)
    with kept_stays [OF assms n(1, 2)] have "stays g t (b_node b)" by simp
    with in_diff_remove(1) [OF assms, of "b_node b"] show ?thesis by (auto simp: stays_def)
  qed
  then show ?thesis
    by (auto simp: refused_binding_def Let_def find_None_iff graph_diff_sel simp del: set_map)
qed

lemma diff_root:
  assumes "distinct (ids (g_nodes g))" "distinct (ids (g_nodes t))"
  shows "g_root (apply_ref g (graph_diff g t)) = g_root t"
proof -
  let ?rs = "hs_collect (diff_remove g t)"
  have left: "g_root (removals ?rs g) = option_filter (\<lambda>r. r \<notin> set ?rs) (g_root g)"
    by (cases "g_root g") (auto simp: removals_def simp flip: set_empty)
  have "option_filter (\<lambda>r. r \<notin> set ?rs) (g_root g) = None" if "g_root t = None"
    using in_diff_remove(2) [OF assms that] by (cases "g_root g") auto
  then show ?thesis
    by (cases "g_root t") (auto simp: apply_ref_def Let_def graph_diff_sel left)
qed

lemma diff_ids:
  assumes "distinct (ids (g_nodes g))" "distinct (ids (g_nodes t))"
  shows "ids (g_nodes (apply_ref g (graph_diff g t))) =
    filter (stays g t) (ids (g_nodes g)) @ filter (\<lambda>i. \<not> stays g t i) (ids (g_nodes t))"
proof -
  let ?rs = "hs_collect (diff_remove g t)"
  let ?set = "d_set (graph_diff g t)"
  have set: "?set = filter (\<lambda>n. kept_node g ?rs n = None) (g_nodes t)"
    by (simp add: graph_diff_sel)
  with assms(2) have d: "distinct (ids ?set)" by (simp add: distinct_map_filter)
  have old: "filter (\<lambda>i. i \<notin> set ?rs) (ids (g_nodes g)) = filter (stays g t) (ids (g_nodes g))"
    using in_diff_remove(1) [OF assms] by (intro filter_cong) (simp_all del: set_map)
  have kept: "kept_node g ?rs n = None" if "n \<in> set (g_nodes t)" "\<not> stays g t (n_id n)" for n
    using kept_stays [OF assms that(1)] that(2) by (cases "kept_node g ?rs n") auto
  have "filter (\<lambda>i. i \<notin> set (filter (stays g t) (ids (g_nodes g)))) (ids ?set) =
      filter (\<lambda>i. \<not> stays g t i) (ids ?set)"
    by (intro filter_cong) (auto simp: stays_def simp del: set_map)
  also have "\<dots> = filter (\<lambda>i. \<not> stays g t i) (ids (g_nodes t))"
    unfolding set filter_map filter_filter comp_def
    using kept by (intro arg_cong [where f = "map n_id"] filter_cong) auto
  finally show ?thesis
    by (simp only: ids_apply_ref graph_diff_sel(1) ids_fold_put [OF d] ids_removals old)
qed

lemma map_of_unread:
  assumes "bt_ok (n_bind n)"
  shows "map_of (n_bind (unread rs n)) p =
    option_filter (\<lambda>s. \<not> reads_removed rs s) (map_of (n_bind n) p)"
  by (simp add: unread_def map_of_filter_entries bt_ok_distinct [OF assms])

lemma map_of_changed:
  assumes "bt_ok (n_bind n)"
  shows "map_of (rev (map (\<lambda>b. (b_port b, b_source b)) (changed_bindings rs old n))) p =
    option_filter (\<lambda>s. \<not> (case map_of (n_bind old) p of None \<Rightarrow> False | Some s' \<Rightarrow> source_eq s' s)
      \<or> reads_removed rs s) (map_of (n_bind n) p)"
proof -
  let ?P = "\<lambda>(port, source).
    \<not> (case map_of (n_bind old) port of None \<Rightarrow> False | Some s \<Rightarrow> source_eq s source)
      \<or> reads_removed rs source"
  have eq: "map (\<lambda>b. (b_port b, b_source b)) (changed_bindings rs old n) = filter ?P (n_bind n)"
    by (simp add: changed_bindings_def comp_def case_prod_beta)
  have d: "distinct (map fst (filter ?P (n_bind n)))"
    using bt_ok_distinct [OF assms] by (rule hm_ok_filter)
  show ?thesis unfolding eq map_of_rev_distinct [OF d]
    by (simp add: map_of_filter_entries bt_ok_distinct [OF assms])
qed

lemma ports_dropped:
  assumes "bt_ok (n_bind old)"
  shows "p \<in> set (map port_port (dropped_bindings rs old n)) \<longleftrightarrow>
    map_of (n_bind n) p = None \<and> (\<exists>s. map_of (n_bind old) p = Some s \<and> \<not> reads_removed rs s)"
proof -
  have "map_of (n_bind old) p = Some s \<longleftrightarrow> (p, s) \<in> set (n_bind old)" for s
    using bt_ok_distinct [OF assms] by simp
  then show ?thesis by (force simp: dropped_bindings_def)
qed

lemma rebuilt_same:
  assumes "bt_ok (n_bind old)" "bt_ok (n_bind n)" "n_id old = n_id n"
    "n_function old = n_function n" "n_children old = n_children n"
    and bs: "filter (\<lambda>b. b_node b = n_id n) bs = changed_bindings rs old n"
    and ps: "filter (\<lambda>p. port_node p = n_id n) ps = dropped_bindings rs old n"
  shows "same_node (bound (n_id n) bs (unbound (n_id n) ps (unread rs old))) n"
    (is "same_node ?m n")
proof -
  have "rel_option same_source (map_of (n_bind ?m) p) (map_of (n_bind n) p)" for p
  proof -
    have "map_of (n_bind ?m) p =
      (case option_filter (\<lambda>s. \<not> (case map_of (n_bind old) p of None \<Rightarrow> False | Some s' \<Rightarrow> source_eq s' s)
          \<or> reads_removed rs s) (map_of (n_bind n) p) of
        Some s \<Rightarrow> Some s
      | None \<Rightarrow> if p \<in> set (map port_port (dropped_bindings rs old n)) then None
          else option_filter (\<lambda>s. \<not> reads_removed rs s) (map_of (n_bind old) p))"
      by (simp add: bound_def unbound_def bs ps map_of_fold_bt_insert map_of_fold_bt_remove
          map_of_changed [OF assms(2)] map_of_unread [OF assms(1)] del: set_map cong: option.case_cong)
    then show ?thesis
      unfolding ports_dropped [OF assms(1)]
      by (cases "map_of (n_bind n) p"; cases "map_of (n_bind old) p")
        (auto simp: same_source_def source_eq_reads)
  qed
  with assms show ?thesis
    unfolding same_node_def by (auto intro!: bt_same)
qed

lemma diff_nodes:
  assumes g: "graph_ok g" and t: "graph_ok t"
  shows "rel_option same_node (graph_node (apply_ref g (graph_diff g t)) i) (graph_node t i)"
proof -
  let ?rs = "hs_collect (diff_remove g t)" and ?d = "graph_diff g t"
  from g t have dg: "distinct (ids (g_nodes g))" and dt: "distinct (ids (g_nodes t))"
    by (simp_all add: graph_ok_def)
  have set: "d_set ?d = filter (\<lambda>n. kept_node g ?rs n = None) (g_nodes t)"
    by (simp add: graph_diff_sel)
  then have ds: "distinct (ids (d_set ?d))" using dt by (simp add: distinct_map_filter)
  have at: "graph_node (apply_ref g ?d) i = map_option (bound i (d_bind ?d) \<circ> unbound i (d_unbind ?d))
     (case node_at (d_set ?d) i of Some n \<Rightarrow> Some n
      | None \<Rightarrow> if i \<in> set ?rs then None else map_option (unread ?rs) (graph_node g i))"
    unfolding graph_node_apply_ref node_at_puts [OF ds] node_at_removals graph_diff_sel(1)
    by (simp only: graph_node_def)
  show ?thesis
  proof (cases "graph_node t i")
    case None
    then have nt: "i \<notin> set (ids (g_nodes t))" by (simp only: graph_node_def node_at_None not_False_eq_True)
    then have "node_at (d_set ?d) i = None" by (auto simp: set find_None_iff)
    moreover have "i \<in> set ?rs \<or> graph_node g i = None"
      using nt in_diff_remove(1) [OF dg dt, of i]
      by (auto simp: graph_node_def node_at_None stays_def simp del: set_map)
    ultimately show ?thesis using None by (auto simp: at)
  next
    case (Some n)
    then have n: "n \<in> set (g_nodes t)" and i: "n_id n = i"
      by (auto simp: graph_node_def dest: node_at_in node_at_id)
    note own = diff_of_node [OF dt n, of g, unfolded i]
    show ?thesis
    proof (cases "kept_node g ?rs n")
      case None
      then have "node_at (d_set ?d) i = Some n"
        using node_at_mem [OF ds] n i by (auto simp: set)
      moreover have "bound i (d_bind ?d) (unbound i (d_unbind ?d) n) = n"
        by (simp add: bound_def unbound_def own rebinds_def drops_def None)
      ultimately show ?thesis using Some by (simp add: at)
    next
      case (Some old)
      then have old: "i \<notin> set ?rs" "graph_node g i = Some old" "n_function old = n_function n"
        "n_children old = n_children n"
        by (simp_all add: kept_node_iff [OF dg] i)
      have "m = n" if "m \<in> set (g_nodes t)" "n_id m = i" for m
        using node_at_mem [OF dt that(1)] node_at_mem [OF dt n] that(2) i by simp
      then have "node_at (d_set ?d) i = None" using Some by (auto simp: set find_None_iff)
      moreover have "same_node (bound i (d_bind ?d) (unbound i (d_unbind ?d) (unread ?rs old))) n"
        unfolding i [symmetric]
      proof (rule rebuilt_same)
        show "bt_ok (n_bind old)" "bt_ok (n_bind n)"
          using graph_ok_bind [OF g old(2)] graph_ok_bind [OF t \<open>graph_node t i = Some n\<close>] .
        show "n_id old = n_id n" using node_at_id [OF old(2) [unfolded graph_node_def]] i by simp
        show "filter (\<lambda>b. b_node b = n_id n) (d_bind ?d) = changed_bindings ?rs old n"
          "filter (\<lambda>p. port_node p = n_id n) (d_unbind ?d) = dropped_bindings ?rs old n"
          unfolding i own by (simp_all add: rebinds_def drops_def Some)
      qed (rule old)+
      ultimately show ?thesis using old \<open>graph_node t i = Some n\<close> by (simp add: at)
    qed
  qed
qed

text \<open>
  C5. The diff between two graphs does what it is for: applying it to the first graph succeeds
  and gives the target's root and, under every id, the target's node - the same function and
  children, and the same bindings up to the equality the diff compares sources with. The nodes
  that keep their place come first, in the first graph's order, then the others in the target's
  order; a node that was the root of the first graph and is not the root of a target without one
  does not keep its place.
\<close>

theorem apply_diff:
  assumes "graph_ok g" and "graph_ok t"
  shows "\<exists>g'. graph_apply g (graph_diff g t) = Some (Inr g')
    \<and> g_root g' = g_root t
    \<and> (\<forall>i. rel_option same_node (graph_node g' i) (graph_node t i))
    \<and> ids (g_nodes g') = filter (stays g t) (ids (g_nodes g))
        @ filter (\<lambda>i. \<not> stays g t i) (ids (g_nodes t))"
proof -
  from assms have d: "distinct (ids (g_nodes g))" "distinct (ids (g_nodes t))"
    by (simp_all add: graph_ok_def)
  then have "graph_apply g (graph_diff g t) = Some (Inr (apply_ref g (graph_diff g t)))"
    by (simp add: graph_apply_ref diff_not_refused)
  with diff_root [OF d] diff_ids [OF d] diff_nodes [OF assms] show ?thesis by blast
qed

definition sample_node :: "uuid \<Rightarrow> (uuid, Source) btree_map \<Rightarrow> Node" where
  "sample_node i b = \<lparr>n_id = i, n_function = 7, n_bind = b, n_children = None\<rparr>"

definition sample_graph :: Graph where
  "sample_graph = \<lparr>g_root = Some 1, g_nodes =
     [sample_node 1 [(5, SValue (U8 3))], sample_node 2 [(6, SPort (MkPort 1 5))]]\<rparr>"

definition sample_target :: Graph where
  "sample_target = \<lparr>g_root = None, g_nodes =
     [sample_node 1 [(5, SValue (U8 4))], sample_node 2 [(6, SPort (MkPort 1 5))]]\<rparr>"

lemma samples_ok: "graph_ok sample_graph" "graph_ok sample_target"
  by (simp_all add: graph_ok_def sample_graph_def sample_target_def sample_node_def)

theorem apply_diff_witness:
  "\<exists>g'. graph_apply sample_graph (graph_diff sample_graph sample_target) = Some (Inr g')
    \<and> g_root g' = None \<and> ids (g_nodes g') = [2, 1]"
proof -
  have "filter (stays sample_graph sample_target) (ids (g_nodes sample_graph)) = [2]"
    "filter (\<lambda>i. \<not> stays sample_graph sample_target i) (ids (g_nodes sample_target)) = [1]"
    "g_root sample_target = None"
    by (simp_all add: stays_def sample_graph_def sample_target_def sample_node_def)
  with apply_diff [OF samples_ok] show ?thesis by auto
qed

theorem apply_reference_witness:
  "graph_apply sample_graph \<lparr>d_remove = [1], d_set = [], d_unbind = [],
      d_bind = [\<lparr>b_node = 1, b_port = 5, b_source = SKey ''k''\<rparr>], d_root = None\<rparr>
    = Some (Inl (BindingTargets 1))"
  using apply_reference [OF samples_ok(1), of "\<lparr>d_remove = [1], d_set = [], d_unbind = [],
      d_bind = [\<lparr>b_node = 1, b_port = 5, b_source = SKey ''k''\<rparr>], d_root = None\<rparr>"]
  by (simp add: refused_binding_def Let_def sample_graph_def sample_node_def)

lemma concat_map_Nil [simp]: "concat (map (\<lambda>_. []) xs) = []"
  by (induction xs) simp_all

lemma fold_put_new:
  "distinct (ids (nodes @ ns)) \<Longrightarrow> fold put_node ns nodes = nodes @ ns"
proof (induction ns arbitrary: nodes)
  case (Cons n ns)
  then have "put_node n nodes = nodes @ [n]" by (auto simp: put_node_def)
  with Cons show ?case by simp
qed simp

text \<open>
  Loading a behavior - applying the diff from the empty graph - installs exactly that graph:
  the same root and the same nodes in the same order, whatever their bindings read.
\<close>

theorem load_graph:
  assumes "graph_ok t"
  shows "graph_apply Graph_empty (graph_diff Graph_empty t) = Some (Inr t)"
proof -
  have d: "distinct (ids (g_nodes t))" and e: "distinct (ids (g_nodes Graph_empty))"
    using assms by (simp_all add: graph_ok_def Graph_empty_def)
  have rs: "diff_remove Graph_empty t = []"
    by (simp add: diff_remove_def unrooted_def Graph_empty_def)
  have kept: "kept_node Graph_empty rs n = None" for rs n
    by (simp add: kept_node_def nodes_by_id_def Graph_empty_def hm_collect_def hm_extend_def)
  have "g_nodes (apply_ref Graph_empty (graph_diff Graph_empty t)) = g_nodes t"
  proof -
    have "rebinds Graph_empty rs = (\<lambda>_. [])" "drops Graph_empty rs = (\<lambda>_. [])" for rs
      by (simp_all add: rebinds_def drops_def kept fun_eq_iff)
    moreover have "g_nodes (removals (hs_collect []) Graph_empty) = []"
      by (simp add: removals_def hs_collect_def Graph_empty_def)
    ultimately show ?thesis
      using fold_put_new [of "[]" "g_nodes t"] d
      by (simp add: apply_ref_def Let_def graph_diff_sel rs kept)
  qed
  moreover have "g_root (apply_ref Graph_empty (graph_diff Graph_empty t)) = g_root t"
    using diff_root [OF e d] .
  ultimately have "apply_ref Graph_empty (graph_diff Graph_empty t) = t" by simp
  with e d show ?thesis by (simp add: graph_apply_ref diff_not_refused)
qed

theorem load_graph_witness:
  "graph_apply Graph_empty (graph_diff Graph_empty sample_graph) = Some (Inr sample_graph)"
  by (rule load_graph [OF samples_ok(1)])

text \<open>
  The diff is minimal where nothing changes: from a graph to itself it has no entry at all,
  as long as no bound constant is a NaN (a NaN is unequal to itself, and would be bound again).
\<close>

theorem diff_self:
  assumes "graph_ok g" and "list_all (\<lambda>n. list_all (\<lambda>(p, s). source_eq s s) (n_bind n)) (g_nodes g)"
  shows "graph_diff g g = \<lparr>d_remove = [], d_set = [], d_unbind = [], d_bind = [], d_root = None\<rparr>"
proof -
  from assms have d: "distinct (ids (g_nodes g))" by (simp add: graph_ok_def)
  have rs: "diff_remove g g = []"
  proof -
    have "unrooted g g = None" by (cases "g_root g") (simp_all add: unrooted_def)
    with d show ?thesis by (auto simp: diff_remove_def filter_empty_conv)
  qed
  have kept: "kept_node g [] n = Some n" if "n \<in> set (g_nodes g)" for n
    using node_at_mem [OF d that] by (simp add: kept_node_iff [OF d] graph_node_def)
  have same: "changed_bindings [] n n = [] \<and> dropped_bindings [] n n = []" if "n \<in> set (g_nodes g)" for n
  proof -
    have "bt_ok (n_bind n)" using assms(1) that by (simp add: graph_ok_def list_all_iff)
    then have "(p, s) \<in> set (n_bind n) \<Longrightarrow> map_of (n_bind n) p = Some s" for p s
      using bt_ok_distinct map_of_is_SomeI by metis
    moreover have "(p, s) \<in> set (n_bind n) \<Longrightarrow> source_eq s s" for p s
      using assms(2) that by (auto simp: list_all_iff)
    moreover have "\<not> reads_removed [] s" for s
      by (simp add: reads_removed_def split: option.split)
    ultimately show ?thesis
      by (auto simp: changed_bindings_def dropped_bindings_def filter_empty_conv)
  qed
  have "option_filter (\<lambda>r. True) (g_root g) = g_root g" by (cases "g_root g") simp_all
  then show ?thesis
    using graph_diff_sel [of g g] kept same
    by (intro GraphDiff.equality)
      (auto simp: rs hs_collect_def rebinds_def drops_def filter_empty_conv)
qed

theorem diff_self_witness:
  "graph_diff sample_graph sample_graph =
    \<lparr>d_remove = [], d_set = [], d_unbind = [], d_bind = [], d_root = None\<rparr>"
proof (rule diff_self [OF samples_ok(1)])
  show "list_all (\<lambda>n. list_all (\<lambda>(p, s). source_eq s s) (n_bind n)) (g_nodes sample_graph)"
    by (simp add: sample_graph_def sample_node_def value_eq_def)
qed

end
