(* ===== verification/Graph_Checks.thy ===== *)
theory Graph_Checks
  imports Graph_Model Tree_Nodes
begin

text \<open>
  The checks the behavior-tree interpreter makes of a graph before it hosts it
  (\<open>crates/arora-behavior-tree/src/behavior.rs\<close>): what its nodes reach, whether it is one tree with
  detached nodes beside it, whether it holds a cycle, whether a selection is written. Shown: the
  worklist walk computes reachability, the depth-first walk decides acyclicity, and the tree check
  accepts exactly the graphs its documentation describes.
\<close>

section \<open>Walking the children\<close>

text \<open>A graph's nodes by id.\<close>

type_synonym node_map = "(uuid, Node) hash_map"

definition by_id :: "Graph \<Rightarrow> node_map" where
  "by_id g = hm_collect (map (\<lambda>node. (n_id node, node)) (g_nodes g))"

definition listed_children :: "Node \<Rightarrow> uuid list" where
  "listed_children node = (case n_children node of None \<Rightarrow> [] | Some cs \<Rightarrow> cs)"

definition children_in :: "node_map \<Rightarrow> uuid \<Rightarrow> uuid list" where
  "children_in nodes i = (case hm_get nodes i of None \<Rightarrow> [] | Some node \<Rightarrow> listed_children node)"

lemma children_in_absent: "i \<notin> fst ` set nodes \<Longrightarrow> children_in nodes i = []"
  by (metis children_in_def map_of_eq_None_iff option.simps(4))

text \<open>The vector of pending ids is popped and extended at its end, which here is the head.\<close>

function reach_from :: "node_map \<Rightarrow> uuid hash_set \<Rightarrow> uuid list \<Rightarrow> uuid hash_set" where
  "reach_from nodes found [] = found"
| "reach_from nodes found (i # pending) =
     (if i \<in> set found then reach_from nodes found pending
      else reach_from nodes (hs_insert i found) (rev (children_in nodes i) @ pending))"
  by pat_completeness auto

termination
proof (relation "measures [\<lambda>(nodes, found, _). card (fst ` set nodes - set found),
    \<lambda>(_, _, pending). length pending]", goal_cases)
  case (3 nodes found i pending)
  show ?case
  proof (cases "i \<in> fst ` set nodes")
    case True
    with 3 have "fst ` set nodes - set (hs_insert i found) \<subset> fst ` set nodes - set found" by auto
    then show ?thesis by (simp add: psubset_card_mono)
  next
    case False
    then have "fst ` set nodes - set (hs_insert i found) = fst ` set nodes - set found" by auto
    with False show ?thesis by (simp add: children_in_absent)
  qed
qed auto

definition reach :: "node_map \<Rightarrow> uuid list \<Rightarrow> uuid hash_set" where
  "reach nodes starts = reach_from nodes [] (rev starts)"

definition subtree :: "node_map \<Rightarrow> uuid \<Rightarrow> uuid hash_set" where
  "subtree nodes i = reach nodes [i]"

section \<open>One tree, and the calls beside it\<close>

datatype CheckError =
    ListedTwice uuid | ChildNotANode uuid uuid | RootAsChild uuid | TwoParents uuid uuid uuid
  | NotUnderRoot uuid | Cycle | OwnDescendant uuid | WrittenSelection uuid uuid

text \<open>The first node listed twice; \<open>Uuid::nil()\<close> when there is none.\<close>

fun first_twice :: "uuid hash_set \<Rightarrow> Node list \<Rightarrow> uuid" where
  "first_twice seen [] = 0"
| "first_twice seen (node # nodes) =
     (if n_id node \<in> set seen then n_id node else first_twice (hs_insert (n_id node) seen) nodes)"

definition listed_twice :: "Graph \<Rightarrow> CheckError" where
  "listed_twice g = ListedTwice (first_twice [] (g_nodes g))"

definition is_detachable :: "uuid \<Rightarrow> uuid list option \<Rightarrow> bool" where
  "is_detachable f children \<longleftrightarrow> \<not> is_native f \<and> (case children of None \<Rightarrow> True | Some cs \<Rightarrow> cs = [])"

fun claim_children ::
  "node_map \<Rightarrow> uuid \<Rightarrow> uuid \<Rightarrow> uuid list \<Rightarrow> (uuid, uuid) hash_map \<Rightarrow> CheckError + (uuid, uuid) hash_map" where
  "claim_children nodes root node [] parent = Inr parent"
| "claim_children nodes root node (child # cs) parent =
     (if \<not> hm_contains nodes child then Inl (ChildNotANode node child)
      else if child = root then Inl (RootAsChild node)
      else case hm_get parent child of
        Some other \<Rightarrow> Inl (TwoParents child other node)
      | None \<Rightarrow> claim_children nodes root node cs (hm_insert child node parent))"

fun claim_all ::
  "node_map \<Rightarrow> uuid \<Rightarrow> Node list \<Rightarrow> (uuid, uuid) hash_map \<Rightarrow> CheckError + (uuid, uuid) hash_map" where
  "claim_all nodes root [] parent = Inr parent"
| "claim_all nodes root (node # ns) parent =
     ebind (claim_children nodes root (n_id node) (listed_children node) parent) (claim_all nodes root ns)"

fun detached_nodes ::
  "uuid \<Rightarrow> (uuid, uuid) hash_map \<Rightarrow> Node list \<Rightarrow> CheckError + uuid list" where
  "detached_nodes root parent [] = Inr []"
| "detached_nodes root parent (node # ns) =
     (if n_id node = root \<or> hm_contains parent (n_id node) then detached_nodes root parent ns
      else if \<not> is_detachable (n_function node) (n_children node) then Inl (NotUnderRoot (n_id node))
      else ebind (detached_nodes root parent ns) (\<lambda>ds. Inr (n_id node # ds)))"

definition check_tree :: "Graph \<Rightarrow> uuid \<Rightarrow> CheckError + uuid list" where
  "check_tree g root =
     (let nodes = by_id g in
      if length nodes \<noteq> length (g_nodes g) then Inl (listed_twice g)
      else ebind (claim_all nodes root (g_nodes g) []) (\<lambda>parent.
           ebind (detached_nodes root parent (g_nodes g)) (\<lambda>detached.
             if length (subtree nodes root) + length detached \<noteq> length (g_nodes g) then Inl Cycle
             else Inr (sort detached))))"

section \<open>No cycle\<close>

definition left_to_walk :: "node_map \<Rightarrow> (uuid \<times> nat) list \<Rightarrow> nat" where
  "left_to_walk nodes stack = (\<Sum>(i, k) \<leftarrow> stack. Suc (length (children_in nodes i) - k))"

lemma hm_contains_iff_set: "hm_contains m k \<longleftrightarrow> k \<in> fst ` set m"
  by (simp add: hm_contains_def)

text \<open>
  \<open>nodes[id]\<close> panics on an id that is not a node: \<open>None\<close>. The top of the stack is the head.
\<close>

function walk_open ::
  "node_map \<Rightarrow> uuid hash_set \<Rightarrow> uuid hash_set \<Rightarrow> (uuid \<times> nat) list \<Rightarrow> (CheckError + unit) option" where
  "walk_open nodes finished active [] = Some (Inr ())"
| "walk_open nodes finished active ((i, k) # stack) =
     (case hm_get nodes i of
        None \<Rightarrow> None
      | Some node \<Rightarrow>
          if length (listed_children node) \<le> k
          then walk_open nodes (hs_insert i finished) (hs_remove i active) stack
          else let child = listed_children node ! k in
            if \<not> hm_contains nodes child then Some (Inl (ChildNotANode i child))
            else if child \<in> set active then Some (Inl (OwnDescendant child))
            else if child \<notin> set finished
            then walk_open nodes finished (hs_insert child active) ((child, 0) # (i, Suc k) # stack)
            else walk_open nodes finished active ((i, Suc k) # stack))"
  by pat_completeness auto

termination
proof (relation "measures [\<lambda>(nodes, finished, active, _). card (fst ` set nodes - (set finished \<union> set active)),
    \<lambda>(nodes, _, _, stack). left_to_walk nodes stack]", goal_cases)
  case (2 nodes finished active i k stack node)
  have "card (fst ` set nodes - (set (hs_insert i finished) \<union> set (hs_remove i active)))
      \<le> card (fst ` set nodes - (set finished \<union> set active))" by (intro card_mono) auto
  then show ?case by (auto simp: left_to_walk_def less_le)
next
  case (3 nodes finished active i k stack node child)
  then have "fst ` set nodes - (set finished \<union> set (hs_insert child active))
      \<subset> fst ` set nodes - (set finished \<union> set active)" by (auto simp: hm_contains_iff_set)
  then show ?case by (simp add: psubset_card_mono)
next
  case (4 nodes finished active i k stack node child)
  then show ?case by (simp add: left_to_walk_def children_in_def)
qed auto

definition check_acyclic :: "Graph \<Rightarrow> uuid \<Rightarrow> (CheckError + unit) option" where
  "check_acyclic g root = walk_open (by_id g) [] [root] [(root, 0)]"

section \<open>No selection is written\<close>

definition written_port :: "FrozenFunction FunctionIndex \<Rightarrow> Node \<Rightarrow> uuid \<Rightarrow> bool" where
  "written_port index node port \<longleftrightarrow> port = RET_PARAM_ID \<or>
     (case hm_get index (n_function node) of
        None \<Rightarrow> False
      | Some m \<Rightarrow>
          (case hm_get (fn_parameters (mf_function m)) port of None \<Rightarrow> False | Some p \<Rightarrow> fp_mutable p))"

fun is_select :: "Source \<Rightarrow> bool" where
  "is_select (SSelect _ _) \<longleftrightarrow> True"
| "is_select _ \<longleftrightarrow> False"

definition check_selections :: "Graph \<Rightarrow> FrozenFunction FunctionIndex \<Rightarrow> CheckError + unit" where
  "check_selections g index =
     (case find (\<lambda>(node, port, source). is_select source \<and> written_port index node port)
             (concat (map (\<lambda>node. map (Pair node) (n_bind node)) (g_nodes g))) of
        Some (node, port, _) \<Rightarrow> Inl (WrittenSelection (n_id node) port)
      | None \<Rightarrow> Inr ())"

section \<open>What is reached\<close>

definition child_rel :: "node_map \<Rightarrow> (uuid \<times> uuid) set" where
  "child_rel nodes = {(i, j). j \<in> set (children_in nodes i)}"

lemma child_rel_iff: "(i, j) \<in> child_rel nodes \<longleftrightarrow> j \<in> set (children_in nodes i)"
  by (simp add: child_rel_def)

lemma reach_from_distinct: "distinct found \<Longrightarrow> distinct (reach_from nodes found pending)"
  by (induction nodes found pending rule: reach_from.induct) auto

lemma reach_from_grows: "set found \<union> set pending \<subseteq> set (reach_from nodes found pending)"
  by (induction nodes found pending rule: reach_from.induct) auto

lemma reach_from_sound:
  "set (reach_from nodes found pending) \<subseteq> set found \<union> (child_rel nodes)\<^sup>* `` set pending"
proof (induction nodes found pending rule: reach_from.induct)
  case (2 nodes found i pending)
  have "(child_rel nodes)\<^sup>* `` (set (children_in nodes i) \<union> set pending)
      \<subseteq> (child_rel nodes)\<^sup>* `` set (i # pending)"
    by (auto simp: Image_iff simp flip: child_rel_iff intro: converse_rtrancl_into_rtrancl)
  moreover have "set found \<subseteq> set found \<union> (child_rel nodes)\<^sup>* `` set (i # pending)" "i \<in> (child_rel nodes)\<^sup>* `` set (i # pending)"
    "(child_rel nodes)\<^sup>* `` set pending \<subseteq> (child_rel nodes)\<^sup>* `` set (i # pending)" by auto
  ultimately show ?case using 2 by (cases "i \<in> set found") (simp_all, blast+)
qed simp

lemma reach_from_closed:
  assumes "\<And>i j. i \<in> set found \<Longrightarrow> (i, j) \<in> child_rel nodes \<Longrightarrow> j \<in> set found \<union> set pending"
    "i \<in> set (reach_from nodes found pending)" "(i, j) \<in> child_rel nodes"
  shows "j \<in> set (reach_from nodes found pending)"
  using assms
proof (induction nodes found pending rule: reach_from.induct)
  case (2 nodes found k pending)
  show ?case
  proof (cases "k \<in> set found")
    case True
    have "j' \<in> set found \<union> set pending" if "i' \<in> set found" "(i', j') \<in> child_rel nodes" for i' j'
      using 2(3) [OF that] True by auto
    with 2 True show ?thesis by simp
  next
    case False
    have "j' \<in> set (hs_insert k found) \<union> set (rev (children_in nodes k) @ pending)"
      if "i' \<in> set (hs_insert k found)" "(i', j') \<in> child_rel nodes" for i' j'
      using that 2(3) [of i' j'] by (cases "i' = k") (auto simp: child_rel_iff)
    with 2 False show ?thesis by simp
  qed
qed simp

text \<open>The walk finds what its starts reach, each once.\<close>

lemma reach_distinct [simp]: "distinct (reach nodes starts)"
  by (simp add: reach_def reach_from_distinct)

lemma set_reach: "set (reach nodes starts) = (child_rel nodes)\<^sup>* `` set starts"
proof
  show "set (reach nodes starts) \<subseteq> (child_rel nodes)\<^sup>* `` set starts"
    using reach_from_sound [of nodes "[]" "rev starts"] by (simp add: reach_def)
  have "j \<in> set (reach nodes starts)" if "(i, j) \<in> (child_rel nodes)\<^sup>*" "i \<in> set starts" for i j
    using that
  proof (induction rule: rtrancl_induct)
    case base
    then show ?case using reach_from_grows [of "[]" "rev starts" nodes] by (auto simp: reach_def)
  next
    case (step j k)
    then show ?case using reach_from_closed [of "[]" nodes "rev starts" j k] by (simp add: reach_def)
  qed
  then show "(child_rel nodes)\<^sup>* `` set starts \<subseteq> set (reach nodes starts)" by blast
qed

lemma by_id_nodes: "by_id g = nodes_by_id g"
  by (simp add: by_id_def nodes_by_id_def)

section \<open>The depth-first walk\<close>

text \<open>
  The walk's invariant: the open ids are those of the stack, which is a path down the children; the
  children a node has passed are finished, but for the one the walk is in; the finished ids are
  closed under children and lie on no cycle.
\<close>

fun on_path :: "node_map \<Rightarrow> uuid set \<Rightarrow> (uuid \<times> nat) list \<Rightarrow> bool" where
  "on_path nodes F [] \<longleftrightarrow> True"
| "on_path nodes F [(i, k)] \<longleftrightarrow>
     k \<le> length (children_in nodes i) \<and> set (take k (children_in nodes i)) \<subseteq> F"
| "on_path nodes F ((i, k) # (j, l) # stack) \<longleftrightarrow>
     k \<le> length (children_in nodes i) \<and> set (take k (children_in nodes i)) \<subseteq> F \<and>
     (\<exists>m. l = Suc m \<and> m < length (children_in nodes j) \<and> children_in nodes j ! m = i) \<and>
     on_path nodes (insert i F) ((j, l) # stack)"

definition walk_inv :: "node_map \<Rightarrow> uuid set \<Rightarrow> uuid set \<Rightarrow> (uuid \<times> nat) list \<Rightarrow> bool" where
  "walk_inv nodes F A stack \<longleftrightarrow>
     A = fst ` set stack \<and> distinct (map fst stack) \<and> F \<inter> A = {} \<and> F \<union> A \<subseteq> fst ` set nodes \<and>
     child_rel nodes `` F \<subseteq> F \<and> (\<forall>i \<in> F. (i, i) \<notin> (child_rel nodes)\<^sup>+) \<and> on_path nodes F stack"

lemma on_path_mono: "on_path nodes F stack \<Longrightarrow> F \<subseteq> G \<Longrightarrow> on_path nodes G stack"
proof (induction nodes F stack arbitrary: G rule: on_path.induct)
  case (3 nodes F i k j l stack)
  have "insert i F \<subseteq> insert i G" using 3(3) by blast
  then show ?case using 3 by auto
qed auto

lemma closed_rtrancl: "r `` F \<subseteq> F \<Longrightarrow> i \<in> F \<Longrightarrow> (i, j) \<in> r\<^sup>* \<Longrightarrow> j \<in> F"
  by (erule rtrancl_induct) auto

text \<open>A node whose children are all finished joins them.\<close>

lemma finish_node:
  assumes closed: "r `` F \<subseteq> F" and acyclic: "\<forall>i \<in> F. (i, i) \<notin> r\<^sup>+"
    and new: "i \<notin> F" "r `` {i} \<subseteq> F"
  shows "r `` insert i F \<subseteq> insert i F" "\<forall>j \<in> insert i F. (j, j) \<notin> r\<^sup>+"
proof -
  show "r `` insert i F \<subseteq> insert i F" using closed new by blast
  have "(i, i) \<notin> r\<^sup>+"
  proof
    assume "(i, i) \<in> r\<^sup>+"
    then obtain j where "(i, j) \<in> r" "(j, i) \<in> r\<^sup>*" by (blast dest: tranclD)
    with new closed_rtrancl [OF closed, of j i] show False by blast
  qed
  with acyclic show "\<forall>j \<in> insert i F. (j, j) \<notin> r\<^sup>+" by blast
qed

text \<open>From any node of the path, the walk's top is under it.\<close>

lemma path_reaches_top:
  assumes "on_path nodes F ((i, k) # stack)" "j \<in> fst ` set ((i, k) # stack)"
  shows "(j, i) \<in> (child_rel nodes)\<^sup>*"
  using assms
proof (induction stack arbitrary: i k F)
  case (Cons x stack)
  obtain j' l where x: "x = (j', l)" by (cases x)
  from Cons.prems(1) have step: "(j', i) \<in> child_rel nodes" and rest: "on_path nodes (insert i F) ((j', l) # stack)"
    by (auto simp: x child_rel_iff)
  show ?case
  proof (cases "j = i")
    case False
    with Cons.prems(2) have "j \<in> fst ` set ((j', l) # stack)" by (auto simp: x)
    from Cons.IH [OF rest this] step show ?thesis by (rule rtrancl_into_rtrancl)
  qed simp
qed simp

lemma on_path_advance:
  assumes path: "on_path nodes F ((i, k) # stack)" and k: "k < length (children_in nodes i)"
    "children_in nodes i ! k \<in> G" "F \<subseteq> G"
  shows "on_path nodes G ((i, Suc k) # stack)"
proof -
  have "set (take k (children_in nodes i)) \<subseteq> F" using path by (cases stack) auto
  then have "set (take (Suc k) (children_in nodes i)) \<subseteq> G"
    using k by (auto simp: take_Suc_conv_app_nth)
  moreover have "on_path nodes (insert i G) stack'" if "on_path nodes (insert i F) stack'" for stack'
    using k(3) by (intro on_path_mono [OF that]) blast
  ultimately show ?thesis using path k(1) by (cases stack) auto
qed

text \<open>
  The walk answers: it never panics; when it accepts, its finished ids are closed, acyclic and hold
  what it began with; a refusal names a child that is not a node, or one that is its own descendant,
  under a node of its path.
\<close>

definition decided :: "node_map \<Rightarrow> uuid set \<Rightarrow> uuid set \<Rightarrow> (CheckError + unit) option \<Rightarrow> bool" where
  "decided nodes F A r \<longleftrightarrow>
     (case r of
        None \<Rightarrow> False
      | Some (Inr _) \<Rightarrow> \<exists>G. F \<union> A \<subseteq> G \<and> G \<subseteq> fst ` set nodes \<and>
          child_rel nodes `` G \<subseteq> G \<and> (\<forall>i \<in> G. (i, i) \<notin> (child_rel nodes)\<^sup>+)
      | Some (Inl (ChildNotANode i j)) \<Rightarrow>
          i \<in> (child_rel nodes)\<^sup>* `` A \<and> (i, j) \<in> child_rel nodes \<and> j \<notin> fst ` set nodes
      | Some (Inl (OwnDescendant j)) \<Rightarrow> j \<in> (child_rel nodes)\<^sup>* `` A \<and> (j, j) \<in> (child_rel nodes)\<^sup>+
      | Some (Inl _) \<Rightarrow> False)"

lemma decided_mono:
  assumes "decided nodes F' A' r" "F \<union> A \<subseteq> F' \<union> A'"
    "(child_rel nodes)\<^sup>* `` A' \<subseteq> (child_rel nodes)\<^sup>* `` A"
  shows "decided nodes F A r"
proof (cases r)
  case (Some x)
  then show ?thesis
  proof (cases x)
    case (Inl e)
    with Some assms show ?thesis by (cases e) (auto simp: decided_def)
  next
    case (Inr u)
    with Some assms(1) obtain G where "F' \<union> A' \<subseteq> G" "G \<subseteq> fst ` set nodes" "child_rel nodes `` G \<subseteq> G"
      "\<forall>i \<in> G. (i, i) \<notin> (child_rel nodes)\<^sup>+" by (auto simp: decided_def)
    with Some Inr assms(2) show ?thesis by (auto simp: decided_def intro!: exI [of _ G])
  qed
qed (use assms in \<open>simp add: decided_def\<close>)

lemma walk_open_decides:
  "walk_inv nodes (set finished) (set active) stack \<Longrightarrow>
     decided nodes (set finished) (set active) (walk_open nodes finished active stack)"
proof (induction nodes finished active stack rule: walk_open.induct)
  case (1 nodes finished active)
  then show ?case by (auto simp: walk_inv_def decided_def intro!: exI [of _ "set finished"])
next
  case (2 nodes finished active i k stack)
  let ?F = "set finished" and ?A = "set active" and ?R = "child_rel nodes"
  from "2.prems" have A: "?A = fst ` set ((i, k) # stack)" and dist: "distinct (map fst ((i, k) # stack))"
    and FA: "?F \<inter> ?A = {}" "?F \<union> ?A \<subseteq> fst ` set nodes" and closed: "?R `` ?F \<subseteq> ?F"
    and acyclic: "\<forall>i \<in> ?F. (i, i) \<notin> ?R\<^sup>+" and path: "on_path nodes ?F ((i, k) # stack)"
    unfolding walk_inv_def by blast+
  then have "i \<in> fst ` set nodes" by auto
  then obtain node where node: "hm_get nodes i = Some node"
    by (cases "hm_get nodes i") (auto simp: map_of_eq_None_iff)
  let ?cs = "listed_children node"
  have cs: "children_in nodes i = ?cs" by (simp add: children_in_def node)
  have k: "k \<le> length ?cs" "set (take k ?cs) \<subseteq> ?F" using path by (cases stack; auto simp: cs)+
  show ?case
  proof (cases "length ?cs \<le> k")
    case True
    have "?R `` {i} \<subseteq> ?F" using k True by (auto simp: child_rel_def cs)
    moreover have "i \<notin> ?F" using FA(1) A by auto
    ultimately have fin: "?R `` insert i ?F \<subseteq> insert i ?F" "\<forall>j \<in> insert i ?F. (j, j) \<notin> ?R\<^sup>+"
      using finish_node [OF closed acyclic] by blast+
    have "on_path nodes (insert i ?F) stack" using path by (cases stack) auto
    then have "walk_inv nodes (set (hs_insert i finished)) (set (hs_remove i active)) stack"
      using A dist FA fin by (auto simp: walk_inv_def)
    from "2.IH"(1) [OF node True this] have "decided nodes (insert i ?F) (?A - {i})
        (walk_open nodes (hs_insert i finished) (hs_remove i active) stack)" by simp
    then have "decided nodes ?F ?A (walk_open nodes (hs_insert i finished) (hs_remove i active) stack)"
      by (rule decided_mono) auto
    then show ?thesis using True by (simp add: node)
  next
    case False
    let ?c = "?cs ! k"
    from False have ic: "(i, ?c) \<in> ?R" by (simp add: child_rel_def cs)
    have iA: "i \<in> ?A" using A by simp
    consider "\<not> hm_contains nodes ?c" | "hm_contains nodes ?c" "?c \<in> ?A"
      | "hm_contains nodes ?c" "?c \<notin> ?A" "?c \<notin> ?F" | "hm_contains nodes ?c" "?c \<notin> ?A" "?c \<in> ?F" by blast
    then show ?thesis
    proof cases
      case 1
      then show ?thesis using False ic iA by (auto simp: node Let_def decided_def hm_contains_iff_set)
    next
      case 2
      then have "(?c, i) \<in> ?R\<^sup>*" using path_reaches_top [OF path, of ?c] A by simp
      with ic have "(?c, ?c) \<in> ?R\<^sup>+" by (metis rtrancl_into_trancl1)
      with 2 show ?thesis using False by (auto simp: node Let_def decided_def)
    next
      case 3
      have "on_path nodes ?F ((?c, 0) # (i, Suc k) # stack)"
        using on_path_advance [OF path, of "insert ?c ?F"] False by (auto simp: cs)
      then have "walk_inv nodes ?F (set (hs_insert ?c active)) ((?c, 0) # (i, Suc k) # stack)"
        using 3 A dist FA closed acyclic by (auto simp: walk_inv_def hm_contains_iff_set)
      from "2.IH"(2) [OF node False refl _ _ _ this] 3
      have "decided nodes ?F (insert ?c ?A)
          (walk_open nodes finished (hs_insert ?c active) ((?c, 0) # (i, Suc k) # stack))" by simp
      then have "decided nodes ?F ?A
          (walk_open nodes finished (hs_insert ?c active) ((?c, 0) # (i, Suc k) # stack))"
        by (rule decided_mono) (use ic iA in \<open>auto intro: converse_rtrancl_into_rtrancl\<close>)
      then show ?thesis using 3 False by (simp add: node Let_def)
    next
      case 4
      have "on_path nodes ?F ((i, Suc k) # stack)"
        using on_path_advance [OF path, of ?F] False 4 by (simp add: cs)
      then have "walk_inv nodes ?F ?A ((i, Suc k) # stack)"
        using A dist FA closed acyclic by (auto simp: walk_inv_def)
      from "2.IH"(3) [OF node False refl _ _ _ this] 4 show ?thesis using False by (simp add: node Let_def)
    qed
  qed
qed

section \<open>What the checks decide\<close>

lemma keys_by_id [simp]: "fst ` set (by_id g) = set (ids (g_nodes g))"
proof (rule set_eqI)
  fix i
  have "i \<in> fst ` set (by_id g) \<longleftrightarrow> hm_get (by_id g) i \<noteq> None" by (simp add: map_of_eq_None_iff)
  also have "\<dots> \<longleftrightarrow> i \<in> set (ids (g_nodes g))"
    unfolding by_id_def hm_get_collect by (auto simp: map_of_eq_None_iff image_iff)
  finally show "i \<in> fst ` set (by_id g) \<longleftrightarrow> i \<in> set (ids (g_nodes g))" .
qed

lemma hm_ok_by_id [simp]: "hm_ok (by_id g)"
  by (simp add: by_id_def)

lemma by_id_listed_once: "length (by_id g) = length (g_nodes g) \<longleftrightarrow> distinct (ids (g_nodes g))"
proof -
  have "length (by_id g) = card (fst ` set (by_id g))"
    using distinct_card [OF hm_ok_by_id, of g] by simp
  then show ?thesis by (simp del: set_map add: card_distinct distinct_card) (metis card_distinct distinct_card length_map)
qed

lemma children_in_by_id:
  assumes "distinct (ids (g_nodes g))"
  shows "node \<in> set (g_nodes g) \<Longrightarrow> children_in (by_id g) (n_id node) = listed_children node"
    and "c \<in> set (children_in (by_id g) i) \<longleftrightarrow> (\<exists>node \<in> set (g_nodes g). n_id node = i \<and> c \<in> set (listed_children node))"
proof -
  have *: "children_in (by_id g) (n_id node) = listed_children node" if "node \<in> set (g_nodes g)" for node
  proof -
    have "hm_get (by_id g) (n_id node) = Some node"
      using that assms by (subst by_id_def, subst hm_get_collect, subst map_of_rev_distinct)
        (auto simp: comp_def intro!: map_of_is_SomeI)
    then show ?thesis by (simp add: children_in_def)
  qed
  then show "node \<in> set (g_nodes g) \<Longrightarrow> children_in (by_id g) (n_id node) = listed_children node" .
  have "i \<notin> set (ids (g_nodes g)) \<Longrightarrow> children_in (by_id g) i = []" by (simp add: children_in_absent)
  with * show "c \<in> set (children_in (by_id g) i) \<longleftrightarrow>
      (\<exists>node \<in> set (g_nodes g). n_id node = i \<and> c \<in> set (listed_children node))" by fastforce
qed

text \<open>Under \<open>root\<close>, every child is a node and no node is its own descendant.\<close>

definition sound_under :: "Graph \<Rightarrow> uuid \<Rightarrow> bool" where
  "sound_under g root \<longleftrightarrow> (\<forall>i \<in> set (subtree (by_id g) root).
     set (children_in (by_id g) i) \<subseteq> set (ids (g_nodes g)) \<and> (i, i) \<notin> (child_rel (by_id g))\<^sup>+)"

lemma set_subtree: "set (subtree nodes i) = (child_rel nodes)\<^sup>* `` {i}"
  by (simp add: subtree_def set_reach)

lemma acyclic_decided:
  assumes "root \<in> set (ids (g_nodes g))"
  shows "\<exists>r. check_acyclic g root = Some r \<and> (r = Inr () \<longleftrightarrow> sound_under g root)"
proof -
  let ?r = "child_rel (by_id g)"
  have "walk_inv (by_id g) (set []) (set [root]) [(root, 0)]" using assms by (simp add: walk_inv_def)
  from walk_open_decides [OF this] have d: "decided (by_id g) {} {root} (check_acyclic g root)"
    by (simp add: check_acyclic_def)
  then obtain r where r: "check_acyclic g root = Some r" by (cases "check_acyclic g root") (auto simp: decided_def)
  have "sound_under g root" if ok: "r = Inr ()"
  proof -
    from d r ok obtain G where G: "root \<in> G" "G \<subseteq> set (ids (g_nodes g))" "?r `` G \<subseteq> G" "\<forall>i \<in> G. (i, i) \<notin> ?r\<^sup>+"
      by (auto simp: decided_def)
    then have "set (subtree (by_id g) root) \<subseteq> G" by (auto simp: set_subtree intro: closed_rtrancl)
    with G show ?thesis by (auto simp: sound_under_def simp flip: child_rel_iff, blast)
  qed
  moreover have "\<not> sound_under g root" if "r = Inl e" for e
    using d r that by (cases e) (auto simp: decided_def sound_under_def set_subtree child_rel_iff)
  ultimately show ?thesis using r by (cases r) auto
qed

text \<open>
  C26. The depth-first check of a graph answers for every root that is a node, and accepts exactly
  when, under the root, every child is a node and no node is its own descendant.
\<close>

theorem check_acyclic_decides:
  assumes "root \<in> set (ids (g_nodes g))"
  shows "\<exists>r. check_acyclic g root = Some r \<and> (r = Inr () \<longleftrightarrow> sound_under g root)"
  using assms by (rule acyclic_decided)

lemma keys_insert: "fst ` set (hm_insert k v m) = insert k (fst ` set m)"
  by (simp flip: dom_map_of_conv_image_fst)

lemma claim_children_ok:
  "(\<exists>p. claim_children nodes root n cs parent = Inr p) \<longleftrightarrow>
     distinct cs \<and> set cs \<subseteq> fst ` set nodes - {root} \<and> set cs \<inter> fst ` set parent = {}"
  "claim_children nodes root n cs parent = Inr p \<Longrightarrow> fst ` set p = fst ` set parent \<union> set cs"
proof (induction cs arbitrary: parent)
  case (Cons c cs)
  { case (1 parent)
    show ?case
    proof (cases "hm_contains nodes c \<and> c \<noteq> root \<and> c \<notin> fst ` set parent")
      case True
      then have "hm_get parent c = None" by (simp add: map_of_eq_None_iff)
      with True have "claim_children nodes root n (c # cs) parent = claim_children nodes root n cs (hm_insert c n parent)"
        by simp
      then have "(\<exists>p. claim_children nodes root n (c # cs) parent = Inr p) \<longleftrightarrow>
          distinct cs \<and> set cs \<subseteq> fst ` set nodes - {root} \<and> set cs \<inter> insert c (fst ` set parent) = {}"
        using Cons.IH(1) [of "hm_insert c n parent"] unfolding keys_insert by simp
      with True show ?thesis by (auto simp: hm_contains_iff_set)
    next
      case False
      then have "\<nexists>p. claim_children nodes root n (c # cs) parent = Inr p"
        by (auto simp: map_of_eq_None_iff split: option.split)
      with False show ?thesis by (auto simp: hm_contains_iff_set)
    qed }
  { case (2 parent)
    then show ?case using Cons.IH(2) [of "hm_insert c n parent"] keys_insert [of c n parent] by (auto split: if_splits option.splits) }
qed auto

lemma claim_all_ok:
  "(\<exists>p. claim_all nodes root ns parent = Inr p) \<longleftrightarrow>
     distinct (concat (map listed_children ns)) \<and>
     set (concat (map listed_children ns)) \<subseteq> fst ` set nodes - {root} \<and>
     set (concat (map listed_children ns)) \<inter> fst ` set parent = {}"
  "claim_all nodes root ns parent = Inr p \<Longrightarrow>
     fst ` set p = fst ` set parent \<union> set (concat (map listed_children ns))"
proof (induction ns arbitrary: parent)
  case (Cons node ns)
  { case (1 parent)
    note cc = claim_children_ok [of nodes root "n_id node" "listed_children node" parent]
    show ?case
    proof (cases "claim_children nodes root (n_id node) (listed_children node) parent")
      case (Inl e)
      then have "\<nexists>p. claim_children nodes root (n_id node) (listed_children node) parent = Inr p" by simp
      with cc(1) have "\<not> (distinct (listed_children node) \<and> set (listed_children node) \<subseteq> fst ` set nodes - {root} \<and>
        set (listed_children node) \<inter> fst ` set parent = {})"
        by blast
      with Inl show ?thesis by auto
    next
      case (Inr p')
      with cc(1) have "distinct (listed_children node) \<and> set (listed_children node) \<subseteq> fst ` set nodes - {root} \<and>
        set (listed_children node) \<inter> fst ` set parent = {}" by blast
      moreover have "(\<exists>p. claim_all nodes root (node # ns) parent = Inr p) \<longleftrightarrow> (\<exists>p. claim_all nodes root ns p' = Inr p)"
        using Inr by simp
      moreover note Cons.IH(1) [of p', unfolded cc(2) [OF Inr]]
      ultimately show ?thesis by (auto simp only: concat.simps list.map distinct_append set_append)
    qed }
  { case (2 parent)
    note cc = claim_children_ok [of nodes root "n_id node" "listed_children node" parent]
    from 2 obtain p' where p': "claim_children nodes root (n_id node) (listed_children node) parent = Inr p'"
      "claim_all nodes root ns p' = Inr p" by (auto simp: ebind_eq_Inr)
    from cc(2) [OF p'(1)] Cons.IH(2) [OF p'(2)] show ?case by auto }
qed auto

lemma detached_nodes_ok:
  "detached_nodes root parent ns = Inr ds \<longleftrightarrow>
     (\<forall>n \<in> set ns. n_id n \<noteq> root \<longrightarrow> n_id n \<notin> fst ` set parent \<longrightarrow> is_detachable (n_function n) (n_children n)) \<and>
     ds = filter (\<lambda>i. i \<noteq> root \<and> i \<notin> fst ` set parent) (ids ns)"
  by (induction ns arbitrary: ds) (auto simp: hm_contains_iff_set ebind_eq_Inr)

text \<open>
  One tree rooted at \<open>root\<close>, beside which \<open>ds\<close> are detached: each node is listed once, every child is
  a node other than the root, no node is listed as a child twice, and every node is under the root but
  for those of \<open>ds\<close>, which no node holds and which are calls without children.
\<close>

definition all_children :: "Graph \<Rightarrow> uuid list" where
  "all_children g = concat (map listed_children (g_nodes g))"

definition tree_with :: "Graph \<Rightarrow> uuid \<Rightarrow> uuid list \<Rightarrow> bool" where
  "tree_with g root ds \<longleftrightarrow>
     distinct (ids (g_nodes g)) \<and> distinct (all_children g) \<and>
     set (all_children g) \<subseteq> set (ids (g_nodes g)) - {root} \<and>
     sorted ds \<and> distinct ds \<and>
     set ds = set (ids (g_nodes g)) - {root} - set (all_children g) \<and>
     set (ids (g_nodes g)) = set (subtree (by_id g) root) \<union> set ds \<and>
     (\<forall>n \<in> set (g_nodes g). n_id n \<in> set ds \<longrightarrow> is_detachable (n_function n) (n_children n))"

lemma sorted_distinct_filter:
  "sorted ds \<and> distinct ds \<and> set ds = set xs \<longleftrightarrow> ds = sort xs" if "distinct xs" for ds xs :: "uuid list"
  using that by (metis distinct_sort set_sort sorted_distinct_set_unique sorted_sort)

lemma swap_sorted: "(P (set xs) \<and> Q (set xs) \<and> ds = sort xs) \<longleftrightarrow> (ds = sort xs \<and> Q (set ds) \<and> P (set ds))"
  by (metis set_sort)

lemma subtree_nodes:
  assumes "distinct (ids (g_nodes g))" "root \<in> set (ids (g_nodes g))" "set (all_children g) \<subseteq> set (ids (g_nodes g))"
  shows "set (subtree (by_id g) root) \<subseteq> set (ids (g_nodes g))"
    "i \<in> set (subtree (by_id g) root) \<Longrightarrow> i = root \<or> i \<in> set (all_children g)"
proof -
  have child: "j \<in> set (all_children g)" if "(i, j) \<in> child_rel (by_id g)" for i j
    using that children_in_by_id(2) [OF assms(1)] by (auto simp: child_rel_iff all_children_def)
  have *: "j = root \<or> j \<in> set (all_children g)" if "(root, j) \<in> (child_rel (by_id g))\<^sup>*" for j
    using that by (cases rule: rtranclE) (auto dest: child)
  then show "i \<in> set (subtree (by_id g) root) \<Longrightarrow> i = root \<or> i \<in> set (all_children g)"
    by (auto simp: set_subtree)
  from * assms(2,3) show "set (subtree (by_id g) root) \<subseteq> set (ids (g_nodes g))" by (auto simp: set_subtree)
qed

lemma tree_decided:
  assumes root: "root \<in> set (ids (g_nodes g))"
  shows "check_tree g root = Inr ds \<longleftrightarrow> tree_with g root ds"
proof (cases "distinct (ids (g_nodes g)) \<and> distinct (all_children g) \<and>
    set (all_children g) \<subseteq> set (ids (g_nodes g)) - {root}")
  case False
  have "check_tree g root \<noteq> Inr ds"
  proof
    assume "check_tree g root = Inr ds"
    then obtain p where "length (by_id g) = length (g_nodes g)" "claim_all (by_id g) root (g_nodes g) [] = Inr p"
      by (auto simp: check_tree_def Let_def ebind_eq_Inr split: if_splits)
    with False claim_all_ok(1) [of "by_id g" root "g_nodes g" "[]"] show False
      by (auto simp: by_id_listed_once all_children_def)
  qed
  with False show ?thesis by (auto simp: tree_with_def)
next
  case True
  let ?xs = "filter (\<lambda>i. i \<noteq> root \<and> i \<notin> set (all_children g)) (ids (g_nodes g))"
  let ?ok = "\<forall>n \<in> set (g_nodes g). n_id n \<in> set ?xs \<longrightarrow> is_detachable (n_function n) (n_children n)"
  from True claim_all_ok [of "by_id g" root "g_nodes g" "[]"] obtain p where
    p: "claim_all (by_id g) root (g_nodes g) [] = Inr p" "fst ` set p = set (all_children g)"
    by (auto simp: all_children_def)
  have det: "detached_nodes root p (g_nodes g) = Inr xs \<longleftrightarrow> ?ok \<and> xs = ?xs" for xs
    by (auto simp: detached_nodes_ok p(2))
  note sub = subtree_nodes [OF conjunct1 [OF True] root]
  have dx: "distinct ?xs" using True by simp
  have "set (subtree (by_id g) root) \<inter> set ?xs = {}" using sub(2) True by fastforce
  then have "length (subtree (by_id g) root) + length ?xs = card (set (subtree (by_id g) root) \<union> set ?xs)"
    using dx by (simp only: card_Un_disjoint finite_set distinct_card subtree_def reach_distinct)
  moreover have "set (subtree (by_id g) root) \<union> set ?xs \<subseteq> set (ids (g_nodes g))"
    using sub(1) True by auto
  moreover have "length (g_nodes g) = card (set (ids (g_nodes g)))"
    using True by (metis distinct_card length_map)
  ultimately have count: "length (subtree (by_id g) root) + length ?xs = length (g_nodes g) \<longleftrightarrow>
      set (ids (g_nodes g)) = set (subtree (by_id g) root) \<union> set ?xs"
    using card_subset_eq [OF finite_set, of "set (subtree (by_id g) root) \<union> set ?xs" "ids (g_nodes g)"] by auto
  have "check_tree g root = Inr ds \<longleftrightarrow>
      ?ok \<and> set (ids (g_nodes g)) = set (subtree (by_id g) root) \<union> set ?xs \<and> ds = sort ?xs"
  proof (cases "detached_nodes root p (g_nodes g)")
    case (Inl e)
    with det [of ?xs] have "\<not> ?ok" by simp
    with Inl True p(1) show ?thesis by (simp add: check_tree_def Let_def by_id_listed_once)
  next
    case (Inr xs)
    with det have ok: ?ok and xs: "xs = ?xs" by blast+
    have "check_tree g root = (if length (subtree (by_id g) root) + length ?xs \<noteq> length (g_nodes g) then Inl Cycle
        else Inr (sort ?xs))"
      using True p(1) Inr xs by (simp add: check_tree_def Let_def by_id_listed_once)
    with ok count show ?thesis by auto
  qed
  also have "\<dots> \<longleftrightarrow> (sorted ds \<and> distinct ds \<and> set ds = set ?xs) \<and>
      set (ids (g_nodes g)) = set (subtree (by_id g) root) \<union> set ds \<and>
      (\<forall>n \<in> set (g_nodes g). n_id n \<in> set ds \<longrightarrow> is_detachable (n_function n) (n_children n))"
    unfolding sorted_distinct_filter [OF dx]
    by (rule swap_sorted [of "\<lambda>D. \<forall>n \<in> set (g_nodes g). n_id n \<in> D \<longrightarrow> is_detachable (n_function n) (n_children n)"
          _ "\<lambda>D. set (ids (g_nodes g)) = set (subtree (by_id g) root) \<union> D"])
  also have "set ?xs = set (ids (g_nodes g)) - {root} - set (all_children g)" by auto
  also have "(sorted ds \<and> distinct ds \<and> set ds = set (ids (g_nodes g)) - {root} - set (all_children g)) \<and>
      set (ids (g_nodes g)) = set (subtree (by_id g) root) \<union> set ds \<and>
      (\<forall>n \<in> set (g_nodes g). n_id n \<in> set ds \<longrightarrow> is_detachable (n_function n) (n_children n)) \<longleftrightarrow> tree_with g root ds"
    unfolding tree_with_def using True by blast
  finally show ?thesis .
qed

text \<open>
  C23. The check of a graph to spawn accepts exactly the graphs that are one tree from the given root
  with detached calls beside it, and answers those calls in the order of their ids.
\<close>

theorem check_tree_decides:
  assumes "root \<in> set (ids (g_nodes g))"
  shows "check_tree g root = Inr ds \<longleftrightarrow> tree_with g root ds"
  using assms by (rule tree_decided)

lemma distinct_concat_map:
  "distinct (concat (map f xs)) \<Longrightarrow> m \<in> set xs \<Longrightarrow> n \<in> set xs \<Longrightarrow> j \<in> set (f m) \<Longrightarrow> j \<in> set (f n) \<Longrightarrow> m = n"
  by (induction xs) auto

text \<open>A graph the tree check accepts has no cycle, so the scaffold can host it.\<close>

lemma tree_sound:
  assumes "root \<in> set (ids (g_nodes g))" "check_tree g root = Inr ds"
  shows "check_acyclic g root = Some (Inr ())"
proof -
  let ?r = "child_rel (by_id g)"
  from assms have t: "tree_with g root ds" by (simp add: tree_decided)
  then have dist: "distinct (ids (g_nodes g))" "distinct (all_children g)" "set (all_children g) \<subseteq> set (ids (g_nodes g)) - {root}"
    unfolding tree_with_def by blast+
  have rel: "(i, j) \<in> ?r \<longleftrightarrow> (\<exists>node \<in> set (g_nodes g). n_id node = i \<and> j \<in> set (listed_children node))" for i j
    by (simp add: child_rel_iff children_in_by_id(2) [OF dist(1)])
  then have child: "(i, j) \<in> ?r \<Longrightarrow> j \<in> set (all_children g)" for i j by (auto simp: all_children_def)
  have one_parent: "i = i'" if "(i, j) \<in> ?r" "(i', j) \<in> ?r" for i i' j
  proof -
    from that rel obtain m n where mn: "m \<in> set (g_nodes g)" "n \<in> set (g_nodes g)" "n_id m = i" "n_id n = i'"
      "j \<in> set (listed_children m)" "j \<in> set (listed_children n)" by blast
    have "m = n" using distinct_concat_map [OF dist(2) [unfolded all_children_def] mn(1,2) mn(5,6)] .
    with mn show ?thesis by simp
  qed
  have acyclic: "(j, j) \<notin> ?r\<^sup>+" if "(root, j) \<in> ?r\<^sup>*" for j
    using that
  proof (induction rule: rtrancl_induct)
    case base
    show ?case
    proof
      assume "(root, root) \<in> ?r\<^sup>+"
      then obtain i where "(i, root) \<in> ?r" by (blast elim: tranclE)
      from child [OF this] dist(3) show False by blast
    qed
  next
    case (step j k)
    show ?case
    proof
      assume "(k, k) \<in> ?r\<^sup>+"
      then obtain m where "(k, m) \<in> ?r\<^sup>*" "(m, k) \<in> ?r" by (blast dest: tranclD2)
      with one_parent [OF _ step(2)] have "(k, j) \<in> ?r\<^sup>*" by blast
      with step show False by (meson rtrancl_into_trancl2)
    qed
  qed
  have "set (children_in (by_id g) i) \<subseteq> set (ids (g_nodes g))" for i
    using child [of i] dist(3) by (auto simp: child_rel_iff)
  with acyclic have "sound_under g root" by (auto simp: sound_under_def set_subtree)
  with acyclic_decided [OF assms(1)] show ?thesis by auto
qed

definition plain_node :: "uuid \<Rightarrow> uuid \<Rightarrow> uuid list \<Rightarrow> Node" where
  "plain_node i f cs = \<lparr>n_id = i, n_function = f, n_bind = [], n_children = Some cs\<rparr>"

definition looped_graph :: Graph where
  "looped_graph = \<lparr>g_root = Some 1, g_nodes = [plain_node 1 SEQ_FUNCTION_ID [2], plain_node 2 SEQ_FUNCTION_ID [1]]\<rparr>"

definition forked_graph :: Graph where
  "forked_graph = \<lparr>g_root = Some 1, g_nodes = [plain_node 1 SEQ_FUNCTION_ID [2], plain_node 2 9 [], plain_node 3 9 []]\<rparr>"

theorem check_acyclic_decides_witness: "check_acyclic looped_graph 1 \<noteq> Some (Inr ())"
proof -
  have "by_id looped_graph = [(1, plain_node 1 SEQ_FUNCTION_ID [2]), (2, plain_node 2 SEQ_FUNCTION_ID [1])]"
    by (simp add: by_id_def looped_graph_def plain_node_def hm_collect_def hm_extend_def hm_insert_def)
  then have "(1, 2) \<in> child_rel (by_id looped_graph)" "(2, 1) \<in> child_rel (by_id looped_graph)"
    by (simp_all add: child_rel_def children_in_def listed_children_def plain_node_def)
  then have "(1, 1) \<in> (child_rel (by_id looped_graph))\<^sup>+" by (rule trancl.trancl_into_trancl [OF trancl.r_into_trancl])
  then have "\<not> sound_under looped_graph 1" by (auto simp: sound_under_def set_subtree)
  moreover have "1 \<in> set (ids (g_nodes looped_graph))" by (simp add: looped_graph_def plain_node_def)
  ultimately show ?thesis using check_acyclic_decides [of 1 looped_graph] by auto
qed

theorem check_tree_decides_witness: "tree_with forked_graph 1 [3]"
proof -
  have "1 \<in> set (ids (g_nodes forked_graph))" by (simp add: forked_graph_def plain_node_def)
  moreover have "check_tree forked_graph 1 = Inr [3]" by code_simp
  ultimately show ?thesis using check_tree_decides [of 1 forked_graph "[3]"] by simp
qed

end
