(* ===== verification/Tree_Load.thy ===== *)
theory Tree_Load
  imports Tree_Tick Tree_Store Graph_Checks
begin

text \<open>
  Loading a behavior tree: lowering a graph's nodes to the tree's
  (\<open>crates/arora-behavior-tree/src/graph.rs\<close>), giving every argument its cell
  (\<open>load_behavior_tree_nodes_with\<close> in \<open>behavior_tree.rs\<close>), and registering every held node's tick
  (\<open>register_ticks\<close>). What lowering the detached nodes finds is a parameter of \<open>register_ticks\<close>.

  A cell is an address of the heap of the state; a refused load leaves cells nothing refers to.
\<close>

section \<open>From a graph to nodes\<close>

definition KEY_NAMESPACE :: uuid where
  "KEY_NAMESPACE = 0xbeed0a7b1d2f4877ab4f1be522a521aa"

text \<open>\<open>v5\<close> is \<open>Uuid::new_v5\<close>.\<close>

definition key_variable :: "(uuid \<Rightarrow> string \<Rightarrow> uuid) \<Rightarrow> string \<Rightarrow> uuid" where
  "key_variable v5 key = v5 KEY_NAMESPACE key"

type_synonym names = "(uuid, string) hash_map"

fun source_to_expression :: "(uuid \<Rightarrow> string \<Rightarrow> uuid) \<Rightarrow> Source \<Rightarrow> names \<Rightarrow> Expression \<times> names" where
  "source_to_expression v5 (SValue v) names = (EValue v, names)"
| "source_to_expression v5 (SKey key) names =
     (let i = key_variable v5 key
      in (EVariableId i, if hm_contains names i then names else hm_insert i key names))"
| "source_to_expression v5 (SPort port) names =
     (ENodeArgument \<lparr>np_node = port_node port, np_parameter = port_port port\<rparr>, names)"
| "source_to_expression v5 (SSelect source path) names =
     (case source_to_expression v5 source names of (e, names) \<Rightarrow> (ESelect e path, names))"

fun lower_bindings ::
  "(uuid \<Rightarrow> string \<Rightarrow> uuid) \<Rightarrow> (uuid \<times> Source) list \<Rightarrow> names \<Rightarrow> (uuid \<times> Expression) list \<times> names" where
  "lower_bindings v5 [] names = ([], names)"
| "lower_bindings v5 ((port, source) # bs) names =
     (case source_to_expression v5 source names of (e, names) \<Rightarrow>
      case lower_bindings v5 bs names of (es, names) \<Rightarrow> ((port, e) # es, names))"

fun lower_nodes :: "(uuid \<Rightarrow> string \<Rightarrow> uuid) \<Rightarrow> Node list \<Rightarrow> names \<Rightarrow> TreeNode list \<times> names" where
  "lower_nodes v5 [] names = ([], names)"
| "lower_nodes v5 (node # ns) names =
     (case lower_bindings v5 (n_bind node) names of (es, names) \<Rightarrow>
      case lower_nodes v5 ns names of (ts, names) \<Rightarrow>
        (\<lparr>tn_id = n_id node, tn_function = n_function node, tn_arguments = hm_collect es,
          tn_children = n_children node\<rparr> # ts, names))"

definition lower_graph :: "(uuid \<Rightarrow> string \<Rightarrow> uuid) \<Rightarrow> Graph \<Rightarrow> BehaviorTreeError + TreeNode list \<times> names" where
  "lower_graph v5 g =
     (if g_root g \<noteq> None \<and> graph_node g (the (g_root g)) = None then Inl InconsistentTreeError
      else Inr (lower_nodes v5 (sort_key (\<lambda>node. (g_root g \<noteq> Some (n_id node), n_id node)) (g_nodes g)) []))"

section \<open>Cells\<close>

record loading =
  ld_variables :: "(uuid, VariableCell) hash_map"
  ld_cells :: "(NodeParameterId, VariableCell) hash_map"
  ld_bindings :: "(NodeParameterId, VariableCell) hash_map"
  ld_fed :: "NodeParameterId hash_set"

type_synonym 'w load_state = "loading \<times> 'w tree_state"

definition put_cell :: "NodeParameterId \<Rightarrow> VariableCell \<Rightarrow> loading \<Rightarrow> loading" where
  "put_cell at c ld = ld\<lparr>ld_cells := hm_insert at c (ld_cells ld)\<rparr>"

definition resolved_slot :: "(string \<Rightarrow> Key option) \<Rightarrow> names \<Rightarrow> uuid \<Rightarrow> Key option" where
  "resolved_slot resolver names i =
     do { name \<leftarrow> hm_get names i; if is_tree_local name then None else resolver name }"

definition variable_cell ::
  "(string \<Rightarrow> Key option) \<Rightarrow> names \<Rightarrow> uuid \<Rightarrow> 'w load_state \<Rightarrow> VariableCell \<times> 'w load_state" where
  "variable_cell resolver names i st =
     (case st of (ld, s) \<Rightarrow>
      case hm_get (ld_variables ld) i of
        Some c \<Rightarrow> (c, ld, s)
      | None \<Rightarrow>
          (let (c, s) = (case resolved_slot resolver names i of Some k \<Rightarrow> (StoredCell k, s) | None \<Rightarrow> local_with None s)
           in (c, ld\<lparr>ld_variables := hm_insert i c (ld_variables ld)\<rparr>, s)))"

text \<open>The cells of the variables an expression reads, at any depth.\<close>

function (sequential) bind_variables ::
  "(string \<Rightarrow> Key option) \<Rightarrow> names \<Rightarrow> Expression \<Rightarrow> 'w load_state \<Rightarrow> 'w load_state"
and bind_arguments ::
  "(string \<Rightarrow> Key option) \<Rightarrow> names \<Rightarrow> (Expression \<times> Expression) list \<Rightarrow> 'w load_state \<Rightarrow> 'w load_state" where
  "bind_variables resolver names (EVariableId i) st = snd (variable_cell resolver names i st)"
| "bind_variables resolver names (ESelect source path) st = bind_variables resolver names source st"
| "bind_variables resolver names (ECall (CallExpression m f arguments)) st =
     bind_arguments resolver names arguments
       (bind_variables resolver names f (bind_variables resolver names m st))"
| "bind_variables resolver names _ st = st"
| "bind_arguments resolver names [] st = st"
| "bind_arguments resolver names ((parameter, argument) # rest) st =
     bind_arguments resolver names rest
       (bind_variables resolver names argument (bind_variables resolver names parameter st))"
  by pat_completeness auto

termination
  by (relation "measure (\<lambda>x. case x of
      Inl (_, _, e, _) \<Rightarrow> size e
    | Inr (_, _, args, _) \<Rightarrow> size_list (size_prod size size) args)") auto

text \<open>The other node's argument an expression reads, through any selection.\<close>

fun read_argument :: "Expression \<Rightarrow> NodeParameterId option" where
  "read_argument (ENodeArgument source) = Some source"
| "read_argument (ESelect source path) = read_argument source"
| "read_argument _ = None"

fun setup_node_parameter_variable ::
  "crates \<Rightarrow> (string \<Rightarrow> Key option) \<Rightarrow> names \<Rightarrow> NodeParameterId \<Rightarrow> Expression \<Rightarrow> 'w load_state \<Rightarrow>
   BehaviorTreeError + VariableCell \<times> 'w load_state" where
  "setup_node_parameter_variable E resolver names at e (ld, s) =
     ebind (case e of
        EValue v \<Rightarrow> (case local_with (Some v) s of (c, s) \<Rightarrow> Inr (c, ld, s))
      | EUuid u \<Rightarrow> (case local_with (Some (ArrayU8 (as_bytes E u))) s of (c, s) \<Rightarrow> Inr (c, ld, s))
      | EVariable c \<Rightarrow> Inr (c, ld, s)
      | EVariableId i \<Rightarrow> Inr (variable_cell resolver names i (ld, s))
      | ENodeArgument other \<Rightarrow>
          (case hm_get (ld_cells ld) other of
             None \<Rightarrow> Inl InconsistentTreeError
           | Some c \<Rightarrow> Inr (c, ld, s))
      | ESelect source path \<Rightarrow> setup_node_parameter_variable E resolver names at source (ld, s)
      | ECall call \<Rightarrow>
          (case bind_variables resolver names e (ld, s) of (ld, s) \<Rightarrow>
           case local_with None s of (c, s) \<Rightarrow> Inr (c, ld, s)))
     (\<lambda>(c, ld, s). Inr (c, put_cell at c ld, s))"

text \<open>
  Each literal argument of a call gets a cell of its own, the call site's; a literal id stays.
\<close>

definition site_cell :: "Value \<Rightarrow> 'w tree_state \<Rightarrow> Expression \<times> 'w tree_state" where
  "site_cell v s = (case local_with (Some v) s of (c, s) \<Rightarrow> (EVariable c, s))"

function with_call_site_cells :: "crates \<Rightarrow> Expression \<Rightarrow> 'w tree_state \<Rightarrow> Expression \<times> 'w tree_state"
and identifier_cells :: "crates \<Rightarrow> Expression \<Rightarrow> 'w tree_state \<Rightarrow> Expression \<times> 'w tree_state"
and argument_cells ::
  "crates \<Rightarrow> (Expression \<times> Expression) list \<Rightarrow> 'w tree_state \<Rightarrow> (Expression \<times> Expression) list \<times> 'w tree_state"
where
  "with_call_site_cells E (ECall (CallExpression m f arguments)) s =
     (case identifier_cells E m s of (m, s) \<Rightarrow>
      case identifier_cells E f s of (f, s) \<Rightarrow>
      case argument_cells E arguments s of (arguments, s) \<Rightarrow> (ECall (CallExpression m f arguments), s))"
| "with_call_site_cells E (ESelect source path) s =
     (case with_call_site_cells E source s of (source, s) \<Rightarrow> (ESelect source path, s))"
| "with_call_site_cells E (EValue v) s = (EValue v, s)"
| "with_call_site_cells E (EUuid u) s = (EUuid u, s)"
| "with_call_site_cells E (EVariable c) s = (EVariable c, s)"
| "with_call_site_cells E (EVariableId i) s = (EVariableId i, s)"
| "with_call_site_cells E (ENodeArgument at) s = (ENodeArgument at, s)"
| "identifier_cells E e s =
     (case e of
        ECall _ \<Rightarrow> with_call_site_cells E e s
      | ESelect _ _ \<Rightarrow> with_call_site_cells E e s
      | _ \<Rightarrow> (e, s))"
| "argument_cells E [] s = ([], s)"
| "argument_cells E ((parameter, argument) # rest) s =
     (case identifier_cells E parameter s of (parameter, s) \<Rightarrow>
      case (case argument of
              EValue v \<Rightarrow> site_cell v s
            | EUuid u \<Rightarrow> site_cell (ArrayU8 (as_bytes E u)) s
            | _ \<Rightarrow> with_call_site_cells E argument s) of (argument, s) \<Rightarrow>
      case argument_cells E rest s of (rest, s) \<Rightarrow> ((parameter, argument) # rest, s))"
  by pat_completeness auto

termination
  by (relation "measure (\<lambda>x. case x of
      Inl (_, e, _) \<Rightarrow> 2 * size e
    | Inr (Inl (_, e, _)) \<Rightarrow> 2 * size e + 1
    | Inr (Inr (_, args, _)) \<Rightarrow> 2 * size_list (size_prod size size) args + 1)")
    auto

section \<open>Loading\<close>

type_synonym tree_index = "(uuid, TreeNode) hash_map"

record BehaviorTree =
  bt_root :: TreeNode
  bt_index :: tree_index
  bt_variables :: "(uuid, VariableCell) hash_map"
  bt_cells :: "(NodeParameterId, VariableCell) hash_map"
  bt_outputs :: "(uuid, Outputs) hash_map"
  bt_detached :: "TreeNode list"
  bt_bindings :: "(NodeParameterId, VariableCell) hash_map"
  bt_names :: names

fun site_arguments ::
  "crates \<Rightarrow> (uuid \<times> Expression) list \<Rightarrow> 'w tree_state \<Rightarrow> (uuid \<times> Expression) list \<times> 'w tree_state" where
  "site_arguments E [] s = ([], s)"
| "site_arguments E ((parameter, argument) # rest) s =
     (case with_call_site_cells E argument s of (argument, s) \<Rightarrow>
      case site_arguments E rest s of (rest, s) \<Rightarrow> ((parameter, argument) # rest, s))"

abbreviation node_argument :: "TreeNode \<Rightarrow> uuid \<Rightarrow> NodeParameterId" where
  "node_argument node parameter \<equiv> \<lparr>np_node = tn_id node, np_parameter = parameter\<rparr>"

type_synonym pending = "(NodeParameterId \<times> Expression) list"

text \<open>The nodes as listed, their index, and every argument: a node listed twice is refused.\<close>

fun list_nodes ::
  "crates \<Rightarrow> TreeNode list \<Rightarrow> TreeNode list \<times> tree_index \<times> pending \<times> 'w tree_state \<Rightarrow>
   BehaviorTreeError + TreeNode list \<times> tree_index \<times> pending \<times> 'w tree_state" where
  "list_nodes E [] acc = Inr acc"
| "list_nodes E (node # ns) (listed, index, arguments, s) =
     (case site_arguments E (tn_arguments node) s of (own, s) \<Rightarrow>
      let node = node\<lparr>tn_arguments := own\<rparr> in
      if hm_contains index (tn_id node) then Inl InconsistentTreeError
      else list_nodes E ns
             (listed @ [node], hm_insert (tn_id node) node index,
              arguments @ map (\<lambda>(parameter, e). (node_argument node parameter, e)) own, s))"

text \<open>
  The nodes the tree holds: the walk of \<open>reach_from\<close>, from the root through the children of the
  tree's nodes.
\<close>

definition children_index :: "tree_index \<Rightarrow> node_map" where
  "children_index index = map (\<lambda>(i, node). (i,
     \<lparr>n_id = tn_id node, n_function = tn_function node, n_bind = [], n_children = tn_children node\<rparr>)) index"

definition attached_nodes :: "tree_index \<Rightarrow> TreeNode list \<Rightarrow> uuid hash_set" where
  "attached_nodes index listed =
     reach (children_index index) (case listed of [] \<Rightarrow> [] | root # _ \<Rightarrow> [tn_id root])"

definition Detached_select :: "TreeNode list \<Rightarrow> uuid hash_set \<Rightarrow> TreeNode list" where
  "Detached_select nodes attached =
     filter (\<lambda>node. tn_id node \<notin> set attached \<and> is_detachable (tn_function node) (tn_children node)) nodes"

fun return_ports :: "TreeNode list \<Rightarrow> 'w load_state \<Rightarrow> 'w load_state" where
  "return_ports [] st = st"
| "return_ports (node # ns) (ld, s) =
     (if hm_contains (tn_arguments node) RET_PARAM_ID then return_ports ns (ld, s)
      else case local_with None s of (c, s) \<Rightarrow> return_ports ns (put_cell (node_argument node RET_PARAM_ID) c ld, s))"

text \<open>The end of the chain of ports a return bound to another node's input feeds.\<close>

fun follow_ports :: "tree_index \<Rightarrow> nat \<Rightarrow> NodeParameterId \<Rightarrow> NodeParameterId" where
  "follow_ports index 0 fed = fed"
| "follow_ports index (Suc n) fed =
     (case do { node \<leftarrow> hm_get index (np_node fed); e \<leftarrow> hm_get (tn_arguments node) (np_parameter fed);
                read_argument e } of
        Some next \<Rightarrow> follow_ports index n next
      | None \<Rightarrow> fed)"

fun is_stored :: "VariableCell option \<Rightarrow> bool" where
  "is_stored (Some (StoredCell _)) \<longleftrightarrow> True"
| "is_stored _ \<longleftrightarrow> False"

definition fed_input ::
  "tree_index \<Rightarrow> uuid hash_set \<Rightarrow> loading \<Rightarrow> NodeParameterId \<Rightarrow> Expression \<Rightarrow> NodeParameterId option" where
  "fed_input index detached ld at e =
     (case read_argument e of
        None \<Rightarrow> None
      | Some input \<Rightarrow>
          if np_node at \<in> set detached \<and> np_parameter at = RET_PARAM_ID
          then (let fed = follow_ports index (length index) input
                in if is_stored (hm_get (ld_cells ld) fed) then Some fed else None)
          else None)"

text \<open>One argument whose source, if it reads one, has its cell.\<close>

definition setup_argument ::
  "crates \<Rightarrow> (string \<Rightarrow> Key option) \<Rightarrow> names \<Rightarrow> tree_index \<Rightarrow> uuid hash_set \<Rightarrow> NodeParameterId \<Rightarrow> Expression \<Rightarrow>
   'w load_state \<Rightarrow> BehaviorTreeError + 'w load_state" where
  "setup_argument E resolver names index detached at e st =
     ebind (setup_node_parameter_variable E resolver names at e st) (\<lambda>(c, ld, s). Inr
       (case fed_input index detached ld at e of
          Some fed \<Rightarrow>
            (case local_with None s of (port, s) \<Rightarrow>
              let ld = put_cell fed port (put_cell at port ld)
              in (ld\<lparr>ld_fed := hs_insert fed (ld_fed ld)\<rparr>, s))
        | None \<Rightarrow>
            if is_stored (Some c) \<and> np_node at \<in> set detached
            then (case local_with None s of (port, s) \<Rightarrow>
              let ld = put_cell at port ld in (ld\<lparr>ld_bindings := hm_insert at c (ld_bindings ld)\<rparr>, s))
            else (ld, s)))"

definition waits :: "loading \<Rightarrow> Expression \<Rightarrow> bool" where
  "waits ld e \<longleftrightarrow> (case read_argument e of None \<Rightarrow> False | Some source \<Rightarrow> \<not> hm_contains (ld_cells ld) source)"

fun sweep ::
  "crates \<Rightarrow> (string \<Rightarrow> Key option) \<Rightarrow> names \<Rightarrow> tree_index \<Rightarrow> uuid hash_set \<Rightarrow> pending \<Rightarrow> pending \<Rightarrow>
   'w load_state \<Rightarrow> BehaviorTreeError + pending \<times> 'w load_state" where
  "sweep E resolver names index detached [] unresolved st = Inr (unresolved, st)"
| "sweep E resolver names index detached ((at, e) # rest) unresolved (ld, s) =
     (if waits ld e then sweep E resolver names index detached rest (unresolved @ [(at, e)]) (ld, s)
      else ebind (setup_argument E resolver names index detached at e (ld, s))
             (sweep E resolver names index detached rest unresolved))"

text \<open>
  The pending arguments are swept until none is left; the number of sweeps is bounded by \<open>n\<close>, and
  \<open>None\<close> is a loop that goes past it. A sweep that sets up none reports the first as unresolved.
\<close>

fun sweeps ::
  "crates \<Rightarrow> (string \<Rightarrow> Key option) \<Rightarrow> names \<Rightarrow> tree_index \<Rightarrow> uuid hash_set \<Rightarrow> nat \<Rightarrow> pending \<Rightarrow>
   'w load_state \<Rightarrow> (BehaviorTreeError + 'w load_state) option" where
  "sweeps E resolver names index detached n [] st = Some (Inr st)"
| "sweeps E resolver names index detached 0 pending st = None"
| "sweeps E resolver names index detached (Suc n) pending st =
     (case sweep E resolver names index detached pending [] st of
        Inl e \<Rightarrow> Some (Inl e)
      | Inr ([], st) \<Rightarrow> Some (Inr st)
      | Inr ((at, e) # unresolved, st) \<Rightarrow>
          if length ((at, e) # unresolved) = length pending
          then (case setup_node_parameter_variable E resolver names at e st of
                  Inl err \<Rightarrow> Some (Inl err)
                | Inr (_, st) \<Rightarrow> sweeps E resolver names index detached n ((at, e) # unresolved) st)
          else sweeps E resolver names index detached n ((at, e) # unresolved) st)"

text \<open>The arguments that read a fed input share the cell of the last one of their chain.\<close>

definition argument_sources :: "tree_index \<Rightarrow> (NodeParameterId, NodeParameterId) hash_map" where
  "argument_sources index = hm_collect (concat (map (\<lambda>(_, node).
     List.map_filter (\<lambda>(parameter, e). map_option (Pair (node_argument node parameter)) (read_argument e))
       (tn_arguments node)) index))"

fun last_fed ::
  "(NodeParameterId, NodeParameterId) hash_map \<Rightarrow> NodeParameterId hash_set \<Rightarrow> nat \<Rightarrow> NodeParameterId \<Rightarrow>
   NodeParameterId option \<Rightarrow> NodeParameterId option" where
  "last_fed sources fed_inputs 0 at fed = fed"
| "last_fed sources fed_inputs (Suc n) at fed =
     (case hm_get sources at of
        None \<Rightarrow> fed
      | Some source \<Rightarrow>
          last_fed sources fed_inputs n source (if source \<in> set fed_inputs then Some source else fed))"

definition share_fed :: "tree_index \<Rightarrow> loading \<Rightarrow> loading" where
  "share_fed index ld =
     (if ld_fed ld = [] then ld
      else let sources = argument_sources index in
        fold (\<lambda>reader ld.
          case last_fed sources (ld_fed ld) (length sources) reader None of
            None \<Rightarrow> ld
          | Some fed \<Rightarrow>
              (case hm_get (ld_cells ld) fed of None \<Rightarrow> ld | Some c \<Rightarrow> put_cell reader c ld))
          (hm_keys sources) ld)"

section \<open>Data nodes\<close>

definition required_arguments :: "uuid \<Rightarrow> uuid list option" where
  "required_arguments f =
     (if f = EQUAL_FUNCTION_ID then Some [EQUAL_A_PARAM_ID, EQUAL_B_PARAM_ID]
      else if f = UNPACK_FUNCTION_ID then Some [UNPACK_VALUES_PARAM_ID]
      else if f = SCATTER_FUNCTION_ID then Some [SCATTER_VALUES_PARAM_ID, SCATTER_KEYS_PARAM_ID]
      else None)"

text \<open>The ports \<open>Unpack\<close> binds: a variable is written by one of them, by its name or its id.\<close>

fun unpack_ports ::
  "names \<Rightarrow> (uuid \<times> Expression) list \<Rightarrow> (string + uuid) hash_set \<Rightarrow> nat list \<Rightarrow> BehaviorTreeError + nat list" where
  "unpack_ports names [] seen taken = Inr taken"
| "unpack_ports names ((param, e) # rest) seen taken =
     (if param = UNPACK_VALUES_PARAM_ID then unpack_ports names rest seen taken
      else case unpack_out_index param of
        None \<Rightarrow> Inl InconsistentTreeError
      | Some i \<Rightarrow>
          (case e of
             EVariableId variable \<Rightarrow>
               let target = (case hm_get names variable of None \<Rightarrow> Inr variable | Some name \<Rightarrow> Inl name)
               in if target \<in> set seen then Inl InconsistentTreeError
                  else unpack_ports names rest (hs_insert target seen) (taken @ [i])
           | _ \<Rightarrow> Inl InconsistentTreeError))"

fun place_ports ::
  "TreeNode \<Rightarrow> (NodeParameterId, VariableCell) hash_map \<Rightarrow> nat list \<Rightarrow> VariableCell option list \<Rightarrow>
   BehaviorTreeError + VariableCell option list" where
  "place_ports node cells [] outs = Inr outs"
| "place_ports node cells (i # is) outs =
     ebind (get_node_parameter_variable (node_argument node (UNPACK_OUT_PARAM_IDS ! i)) cells) (\<lambda>c.
       place_ports node cells is (outs[i := Some c]))"

definition bind_data_node ::
  "TreeNode \<Rightarrow> names \<Rightarrow> (NodeParameterId, VariableCell) hash_map \<Rightarrow> BehaviorTreeError + Outputs option" where
  "bind_data_node node names cells =
     (case required_arguments (tn_function node) of
        None \<Rightarrow> Inr None
      | Some required \<Rightarrow>
          if \<exists>i \<in> set required. \<not> hm_contains (tn_arguments node) i then Inl InconsistentTreeError
          else if tn_function node = SCATTER_FUNCTION_ID then
            ebind (Scatter_bind node) (\<lambda>scatter. Inr (Some (OutKeys scatter)))
          else if tn_function node \<noteq> UNPACK_FUNCTION_ID then Inr None
          else ebind (unpack_ports names (tn_arguments node) [] []) (\<lambda>taken.
                 let count = (if taken = [] then 0 else Max (set taken) + 1) in
                 ebind (place_ports node cells taken (replicate count None)) (\<lambda>outs.
                   Inr (Some (OutPorts outs)))))"

fun bind_data_nodes ::
  "names \<Rightarrow> (NodeParameterId, VariableCell) hash_map \<Rightarrow> (uuid \<times> TreeNode) list \<Rightarrow> (uuid, Outputs) hash_map \<Rightarrow>
   BehaviorTreeError + (uuid, Outputs) hash_map" where
  "bind_data_nodes names cells [] outputs = Inr outputs"
| "bind_data_nodes names cells ((_, node) # rest) outputs =
     ebind (bind_data_node node names cells) (\<lambda>taken.
       bind_data_nodes names cells rest
         (case taken of None \<Rightarrow> outputs | Some out \<Rightarrow> hm_insert (tn_id node) out outputs))"

section \<open>The tree\<close>

definition load_behavior_tree_nodes_with ::
  "crates \<Rightarrow> TreeNode list \<Rightarrow> (string \<Rightarrow> Key option) \<Rightarrow> names \<Rightarrow> ('w, BehaviorTree) act" where
  "load_behavior_tree_nodes_with E nodes resolver names s =
     (case list_nodes E nodes ([], [], [], s) of
        Inl e \<Rightarrow> Some (Inl e, s)
      | Inr (listed, index, arguments, s) \<Rightarrow>
          let detached = Detached_select listed (attached_nodes index listed);
              detached_ids = map tn_id detached;
              start = return_ports detached
                (\<lparr>ld_variables = [], ld_cells = [], ld_bindings = [], ld_fed = []\<rparr>, s)
          in case sweeps E resolver names index detached_ids (length arguments) arguments start of
               None \<Rightarrow> None
             | Some (Inl e) \<Rightarrow> Some (Inl e, s)
             | Some (Inr (ld, s)) \<Rightarrow>
                 let ld = share_fed index ld in
                 (case bind_data_nodes names (ld_cells ld) index [] of
                    Inl e \<Rightarrow> Some (Inl e, s)
                  | Inr outputs \<Rightarrow>
                      (case listed of
                         [] \<Rightarrow> Some (Inl InconsistentTreeError, s)
                       | root # _ \<Rightarrow> Some (Inr
                           \<lparr>bt_root = root, bt_index = index, bt_variables = ld_variables ld,
                            bt_cells = ld_cells ld, bt_outputs = outputs, bt_detached = detached,
                            bt_bindings = ld_bindings ld, bt_names = names\<rparr>, s))))"

definition build_behavior_tree ::
  "crates \<Rightarrow> (uuid \<Rightarrow> string \<Rightarrow> uuid) \<Rightarrow> Graph \<Rightarrow> (string \<Rightarrow> Key option) \<Rightarrow> ('w, BehaviorTree) act" where
  "build_behavior_tree E v5 g resolver =
     act_bind (act_lift (lower_graph v5 g)) (\<lambda>(nodes, names). load_behavior_tree_nodes_with E nodes resolver names)"

section \<open>What a load gives\<close>

fun selected_source :: "Expression \<Rightarrow> Expression" where
  "selected_source (ESelect source path) = selected_source source"
| "selected_source (EValue v) = EValue v"
| "selected_source (EUuid u) = EUuid u"
| "selected_source (EVariable c) = EVariable c"
| "selected_source (EVariableId i) = EVariableId i"
| "selected_source (ENodeArgument at) = ENodeArgument at"
| "selected_source (ECall call) = ECall call"

lemma read_argument_source: "read_argument e = (case selected_source e of ENodeArgument at \<Rightarrow> Some at | _ \<Rightarrow> None)"
  by (induction e rule: selected_source.induct) auto

text \<open>What setting up a cell changes, and what a waiting argument does.\<close>

lemma waits_refused:
  "waits ld e \<Longrightarrow> \<exists>err. setup_node_parameter_variable E resolver names at e (ld, s) = Inl err"
  by (induction e rule: read_argument.induct) (auto simp: waits_def hm_contains_iff)

definition variables_kept :: "(string \<Rightarrow> Key option) \<Rightarrow> names \<Rightarrow> loading \<Rightarrow> bool" where
  "variables_kept resolver names ld \<longleftrightarrow> (\<forall>i c. hm_get (ld_variables ld) i = Some c \<longrightarrow>
     (case resolved_slot resolver names i of Some k \<Rightarrow> c = StoredCell k | None \<Rightarrow> (\<exists>a. c = LocalCell a)))"

text \<open>One load state goes on from another: variables keep their cells, and only \<open>at\<close> changes its.\<close>

definition goes_on ::
  "(string \<Rightarrow> Key option) \<Rightarrow> names \<Rightarrow> NodeParameterId set \<Rightarrow> loading \<Rightarrow> loading \<Rightarrow> bool" where
  "goes_on resolver names A ld ld' \<longleftrightarrow>
     hm_get (ld_variables ld) \<subseteq>\<^sub>m hm_get (ld_variables ld') \<and>
     (\<forall>x. x \<notin> A \<longrightarrow> hm_get (ld_cells ld') x = hm_get (ld_cells ld) x) \<and>
     (variables_kept resolver names ld \<longrightarrow> variables_kept resolver names ld')"

lemma goes_on_refl [simp]: "goes_on resolver names A ld ld"
  by (simp add: goes_on_def)

lemma goes_on_trans:
  "goes_on resolver names A ld1 ld2 \<Longrightarrow> goes_on resolver names B ld2 ld3 \<Longrightarrow> A \<union> B \<subseteq> C \<Longrightarrow>
     goes_on resolver names C ld1 ld3"
  unfolding goes_on_def by (metis (no_types, lifting) UnCI map_le_trans subsetD)

lemma goes_on_mono: "goes_on resolver names A ld ld' \<Longrightarrow> A \<subseteq> B \<Longrightarrow> goes_on resolver names B ld ld'"
  by (auto simp: goes_on_def)

lemma variable_cell_goes_on:
  assumes "variable_cell resolver names i (ld, s) = (c, ld', s')"
  shows "goes_on resolver names {} ld ld'" "hm_get (ld_variables ld') i = Some c"
    "ld_cells ld' = ld_cells ld" "ld_bindings ld' = ld_bindings ld" "ld_fed ld' = ld_fed ld"
proof -
  show "hm_get (ld_variables ld') i = Some c" "ld_cells ld' = ld_cells ld" "ld_bindings ld' = ld_bindings ld"
    "ld_fed ld' = ld_fed ld"
    using assms by (auto simp: variable_cell_def Let_def split: option.splits prod.splits)
  have "variables_kept resolver names ld'" if kept: "variables_kept resolver names ld"
  proof (cases "hm_get (ld_variables ld) i")
    case None
    then have "ld' = ld\<lparr>ld_variables := hm_insert i c (ld_variables ld)\<rparr>"
      "case resolved_slot resolver names i of Some k \<Rightarrow> c = StoredCell k | None \<Rightarrow> (\<exists>a. c = LocalCell a)"
      using assms by (auto simp: variable_cell_def Let_def local_with_def split: option.splits)
    with kept show ?thesis by (simp add: variables_kept_def)
  qed (use assms kept in \<open>simp add: variable_cell_def\<close>)
  moreover have "hm_get (ld_variables ld) \<subseteq>\<^sub>m hm_get (ld_variables ld')"
    using assms by (auto simp: variable_cell_def Let_def map_le_def split: option.splits prod.splits)
  moreover have "ld_cells ld' = ld_cells ld"
    using assms by (auto simp: variable_cell_def Let_def split: option.splits prod.splits)
  ultimately show "goes_on resolver names {} ld ld'" by (simp add: goes_on_def)
qed

lemma bind_variables_goes_on:
  "bind_variables resolver names e st = st' \<Longrightarrow>
     goes_on resolver names {} (fst st) (fst st') \<and> ld_cells (fst st') = ld_cells (fst st) \<and>
     ld_bindings (fst st') = ld_bindings (fst st) \<and> ld_fed (fst st') = ld_fed (fst st)"
  "bind_arguments resolver names as st = st' \<Longrightarrow>
     goes_on resolver names {} (fst st) (fst st') \<and> ld_cells (fst st') = ld_cells (fst st) \<and>
     ld_bindings (fst st') = ld_bindings (fst st) \<and> ld_fed (fst st') = ld_fed (fst st)"
proof (induction resolver names e st and resolver names as st arbitrary: st' and st'
    rule: bind_variables_bind_arguments.induct)
  case (1 resolver names i st)
  obtain ld s where st: "st = (ld, s)" by (cases st)
  obtain c ld' s' where v: "variable_cell resolver names i (ld, s) = (c, ld', s')" by (metis prod_cases3)
  from variable_cell_goes_on [OF v] 1 show ?case by (auto simp: st v)
qed (auto intro: goes_on_trans)

text \<open>The cell an argument is given, by what it reads through its selections.\<close>

definition placed :: "loading \<Rightarrow> NodeParameterId \<Rightarrow> Expression \<Rightarrow> bool" where
  "placed ld at e \<longleftrightarrow>
     (case selected_source e of
        ENodeArgument source \<Rightarrow> (\<exists>c. hm_get (ld_cells ld) source = Some c \<and> hm_get (ld_cells ld) at = Some c)
      | EVariableId i \<Rightarrow> (\<exists>c. hm_get (ld_variables ld) i = Some c \<and> hm_get (ld_cells ld) at = Some c)
      | EVariable c \<Rightarrow> hm_get (ld_cells ld) at = Some c
      | _ \<Rightarrow> (\<exists>a. hm_get (ld_cells ld) at = Some (LocalCell a)))"

lemma put_cell_sel [simp]:
  "hm_get (ld_cells (put_cell at c ld)) = (hm_get (ld_cells ld))(at \<mapsto> c)"
  "ld_variables (put_cell at c ld) = ld_variables ld" "ld_bindings (put_cell at c ld) = ld_bindings ld"
  "ld_fed (put_cell at c ld) = ld_fed ld"
  by (simp_all add: put_cell_def fun_eq_iff)

lemma put_goes_on: "goes_on resolver names A ld ld1 \<Longrightarrow> at \<in> A \<Longrightarrow> goes_on resolver names A ld (put_cell at c ld1)"
  by (auto simp: goes_on_def variables_kept_def)

lemma setup_goes_on:
  assumes "setup_node_parameter_variable E resolver names at e (ld, s) = Inr (c, ld', s')"
  shows "goes_on resolver names {at} ld ld' \<and> hm_get (ld_cells ld') at = Some c \<and>
    ld_bindings ld' = ld_bindings ld \<and> ld_fed ld' = ld_fed ld \<and>
    (hm_get (ld_cells ld) at = None \<longrightarrow> placed ld' at e)"
  using assms
proof (induction e arbitrary: c ld' s' rule: selected_source.induct)
  case (1 source path)
  then obtain c1 ld1 s1 where r: "setup_node_parameter_variable E resolver names at source (ld, s) = Inr (c1, ld1, s1)"
    "c = c1" "ld' = put_cell at c1 ld1" by (auto simp: ebind_eq_Inr)
  from "1.IH" [OF r(1)] have ih: "goes_on resolver names {at} ld ld1" "hm_get (ld_cells ld1) at = Some c1"
    "ld_bindings ld1 = ld_bindings ld" "ld_fed ld1 = ld_fed ld" "hm_get (ld_cells ld) at = None \<longrightarrow> placed ld1 at source"
    by blast+
  then have same: "hm_get (ld_cells ld') = hm_get (ld_cells ld1)" "ld_variables ld' = ld_variables ld1"
    by (simp_all add: r fun_upd_idem)
  have "placed ld' at (ESelect source path) = placed ld1 at source"
    unfolding placed_def same selected_source.simps ..
  with ih r(2,3) show ?case by (simp add: put_goes_on)
next
  case (2 v)
  then show ?case by (auto simp: local_with_def put_goes_on placed_def)
next
  case (3 v)
  then show ?case by (auto simp: local_with_def put_goes_on placed_def)
next
  case (4 v)
  then show ?case by (auto simp: put_goes_on placed_def)
next
  case (5 i)
  then obtain c1 ld1 s1 where v: "variable_cell resolver names i (ld, s) = (c1, ld1, s1)"
    "c = c1" "ld' = put_cell at c1 ld1" by (auto simp: ebind_eq_Inr split: prod.splits)
  note facts = variable_cell_goes_on [OF v(1)]
  have "goes_on resolver names {at} ld ld1" using facts(1) by (rule goes_on_mono) simp
  with facts v(2,3) show ?case by (simp add: put_goes_on placed_def)
next
  case (6 source)
  then show ?case by (auto simp: put_goes_on placed_def split: option.splits)
next
  case (7 call)
  obtain ld1 s1 where b: "bind_variables resolver names (ECall call) (ld, s) = (ld1, s1)" by fastforce
  from bind_variables_goes_on(1) [OF b] have facts: "goes_on resolver names {} ld ld1" "ld_cells ld1 = ld_cells ld"
    "ld_bindings ld1 = ld_bindings ld" "ld_fed ld1 = ld_fed ld" by simp_all
  have "goes_on resolver names {at} ld ld1" using facts(1) by (rule goes_on_mono) simp
  with facts 7 b show ?case by (auto simp: local_with_def put_goes_on placed_def)
qed

text \<open>
  A sweep keeps every cell it finds, sets up what it does not leave, and leaves in order what waited;
  when it leaves everything, it changed nothing and everything waits.
\<close>

abbreviation has_cell :: "loading \<Rightarrow> NodeParameterId \<Rightarrow> bool" where
  "has_cell ld at \<equiv> hm_get (ld_cells ld) at \<noteq> None"

lemma setup_argument_keeps:
  assumes "setup_argument E resolver names index detached at e (ld, s) = Inr (ld', s')"
  shows "has_cell ld' at \<and> (\<forall>x. has_cell ld x \<longrightarrow> has_cell ld' x)"
proof -
  obtain c ld1 s1 where s1: "setup_node_parameter_variable E resolver names at e (ld, s) = Inr (c, ld1, s1)"
    "has_cell ld1 x \<Longrightarrow> has_cell ld' x" for x
    using assms
    by (auto simp: setup_argument_def ebind_eq_Inr Let_def local_with_def split: option.splits if_splits)
  from setup_goes_on [OF s1(1)] have "has_cell ld1 at" "\<And>x. has_cell ld x \<Longrightarrow> has_cell ld1 x"
    by (auto simp: goes_on_def)
  with s1(2) show ?thesis by blast
qed

lemma sweep_result:
  assumes "sweep E resolver names index detached pending unresolved (ld, s) = Inr (unresolved', ld', s')"
  shows "\<exists>kept. unresolved' = unresolved @ kept \<and> length kept \<le> length pending \<and> set kept \<subseteq> set pending \<and>
    (\<forall>x. has_cell ld x \<longrightarrow> has_cell ld' x) \<and>
    (\<forall>x \<in> set pending. x \<in> set kept \<or> has_cell ld' (fst x)) \<and>
    (length kept = length pending \<longrightarrow> ld' = ld \<and> s' = s \<and> (\<forall>x \<in> set kept. waits ld (snd x)))"
  using assms
proof (induction pending arbitrary: unresolved ld s)
  case (Cons x pending)
  obtain at e where x: "x = (at, e)" by (cases x)
  show ?case
  proof (cases "waits ld e")
    case True
    with Cons.prems x have "sweep E resolver names index detached pending (unresolved @ [x]) (ld, s) = Inr (unresolved', ld', s')"
      by simp
    from Cons.IH [OF this] obtain kept where "unresolved' = (unresolved @ [x]) @ kept"
      "length kept \<le> length pending" "set kept \<subseteq> set pending" "\<forall>x. has_cell ld x \<longrightarrow> has_cell ld' x"
      "\<forall>x \<in> set pending. x \<in> set kept \<or> has_cell ld' (fst x)"
      "length kept = length pending \<longrightarrow> ld' = ld \<and> s' = s \<and> (\<forall>x \<in> set kept. waits ld (snd x))" by blast
    with True x show ?thesis by (intro exI [of _ "x # kept"]) auto
  next
    case False
    with Cons.prems x obtain ld1 s1 where s1:
      "setup_argument E resolver names index detached at e (ld, s) = Inr (ld1, s1)"
      "sweep E resolver names index detached pending unresolved (ld1, s1) = Inr (unresolved', ld', s')"
      by (auto simp: ebind_eq_Inr)
    from Cons.IH [OF s1(2)] obtain kept where "unresolved' = unresolved @ kept"
      "length kept \<le> length pending" "set kept \<subseteq> set pending" "\<forall>x. has_cell ld1 x \<longrightarrow> has_cell ld' x"
      "\<forall>x \<in> set pending. x \<in> set kept \<or> has_cell ld' (fst x)" by blast
    with setup_argument_keeps [OF s1(1)] x show ?thesis by (intro exI [of _ kept]) auto
  qed
qed auto

lemma sweeps_end:
  assumes "length pending \<le> n"
  shows "\<exists>r. sweeps E resolver names index detached n pending (ld, s) = Some r \<and>
    (\<forall>ld' s'. r = Inr (ld', s') \<longrightarrow> (\<forall>x \<in> set pending. has_cell ld' (fst x)) \<and> (\<forall>x. has_cell ld x \<longrightarrow> has_cell ld' x))"
  using assms
proof (induction n arbitrary: pending ld s)
  case (Suc n)
  show ?case
  proof (cases pending)
    case (Cons y ys)
    show ?thesis
    proof (cases "sweep E resolver names index detached pending [] (ld, s)")
      case (Inl e)
      with Cons show ?thesis by simp
    next
      case (Inr r)
      obtain kept ld1 s1 where r: "r = (kept, ld1, s1)" by (cases r)
      from sweep_result [OF Inr [unfolded r]] have kept: "length kept \<le> length pending" "set kept \<subseteq> set pending"
        "\<forall>x. has_cell ld x \<longrightarrow> has_cell ld1 x" "\<forall>x \<in> set pending. x \<in> set kept \<or> has_cell ld1 (fst x)"
        "length kept = length pending \<longrightarrow> ld1 = ld \<and> s1 = s \<and> (\<forall>x \<in> set kept. waits ld (snd x))" by auto
      show ?thesis
      proof (cases kept)
        case Nil
        with Inr r Cons kept show ?thesis by auto
      next
        case (Cons k ks)
        obtain at e where k: "k = (at, e)" by (cases k)
        show ?thesis
        proof (cases "length kept = length pending")
          case True
          with kept(5) Cons k have "waits ld1 e" by auto
          from waits_refused [OF this] obtain err where
            "setup_node_parameter_variable E resolver names at e (ld1, s1) = Inl err" by blast
          with True Inr r Cons k \<open>pending = y # ys\<close> show ?thesis by auto
        next
          case False
          with kept(1) Suc.prems have "length kept \<le> n" by simp
          from Suc.IH [OF this, of ld1 s1] obtain r' where r':
            "sweeps E resolver names index detached n kept (ld1, s1) = Some r'"
            "\<And>ld' s' x. r' = Inr (ld', s') \<Longrightarrow> x \<in> set kept \<Longrightarrow> has_cell ld' (fst x)"
            "\<And>ld' s' x. r' = Inr (ld', s') \<Longrightarrow> has_cell ld1 x \<Longrightarrow> has_cell ld' x" by blast
          have "sweeps E resolver names index detached (Suc n) pending (ld, s) = Some r'"
            using r'(1) False Inr r Cons k \<open>pending = y # ys\<close> by auto
          moreover have "has_cell ld' (fst x)" if "r' = Inr (ld', s')" "x \<in> set pending" for ld' s' x
            using kept(4) r'(2,3) [OF that(1)] that(2) by blast
          moreover have "has_cell ld' x" if "r' = Inr (ld', s')" "has_cell ld x" for ld' s' x
            using kept(3) r'(3) [OF that(1)] that(2) by blast
          ultimately show ?thesis by blast
        qed
      qed
    qed
  qed simp
qed simp

lemma list_nodes_arguments:
  assumes "list_nodes E ns (listed, index, arguments, s) = Inr (listed', index', arguments', s')"
    "\<And>node p e. node \<in> snd ` set index \<Longrightarrow> (p, e) \<in> set (tn_arguments node) \<Longrightarrow> (node_argument node p, e) \<in> set arguments"
    "node \<in> snd ` set index'" "(p, e) \<in> set (tn_arguments node)"
  shows "(node_argument node p, e) \<in> set arguments'"
  using assms
proof (induction ns arbitrary: listed index arguments s)
  case (Cons n ns)
  obtain own s1 where own: "site_arguments E (tn_arguments n) s = (own, s1)" by fastforce
  let ?n = "n\<lparr>tn_arguments := own\<rparr>"
  let ?args = "arguments @ map (\<lambda>(parameter, e). (node_argument ?n parameter, e)) own"
  from Cons.prems(1) own have new: "\<not> hm_contains index (tn_id n)" and
    rest: "list_nodes E ns (listed @ [?n], hm_insert (tn_id n) ?n index, ?args, s1) = Inr (listed', index', arguments', s')"
    by (auto simp: Let_def split: if_splits)
  have "hm_insert (tn_id n) ?n index = index @ [(tn_id n, ?n)]"
    using new by (intro hm_insert_new) (simp add: hm_contains_def)
  then have "(node_argument node p, e) \<in> set ?args"
    if "node \<in> snd ` set (hm_insert (tn_id n) ?n index)" "(p, e) \<in> set (tn_arguments node)" for node p e
    using that Cons.prems(2) by fastforce
  from Cons.IH [OF rest this Cons.prems(3,4)] show ?case .
qed auto

lemma return_ports_keep:
  "has_cell ld x \<Longrightarrow> has_cell (fst (return_ports ns (ld, s))) x"
proof (induction ns arbitrary: ld s)
  case (Cons n ns)
  then show ?case by (auto simp: local_with_def split: if_splits)
qed auto

lemma return_ports_give:
  "node \<in> set ns \<Longrightarrow> \<not> hm_contains (tn_arguments node) RET_PARAM_ID \<Longrightarrow>
     has_cell (fst (return_ports ns (ld, s))) (node_argument node RET_PARAM_ID)"
proof (induction ns arbitrary: ld s)
  case (Cons n ns)
  have "has_cell (put_cell (node_argument n RET_PARAM_ID) c ld) (node_argument n RET_PARAM_ID)" for c
    by simp
  note start = return_ports_keep [OF this]
  note start = start [unfolded not_None_eq]
  from Cons show ?case by (auto simp: local_with_def start simp del: put_cell_sel split: if_splits)
qed auto

lemma fold_keeps_cell:
  "(\<And>y l. has_cell l x \<Longrightarrow> has_cell (f y l) x) \<Longrightarrow> has_cell ld x \<Longrightarrow> has_cell (fold f ys ld) x"
  by (induction ys arbitrary: ld) (simp_all del: not_None_eq)

lemma share_fed_keeps:
  assumes "has_cell ld x"
  shows "has_cell (share_fed index ld) x"
proof (cases "ld_fed ld = []")
  case True
  with assms show ?thesis by (simp add: share_fed_def)
next
  case False
  show ?thesis
    unfolding share_fed_def Let_def if_not_P [OF False]
    by (rule fold_keeps_cell [OF _ assms]) (simp split: option.splits)
qed

lemma load_ended:
  "\<exists>r s'. load_behavior_tree_nodes_with E nodes resolver names s = Some (r, s') \<and>
     (\<forall>t. r = Inr t \<longrightarrow>
        (\<forall>node \<in> snd ` set (bt_index t). \<forall>(p, e) \<in> set (tn_arguments node).
           hm_contains (bt_cells t) (node_argument node p)) \<and>
        (\<forall>node \<in> set (bt_detached t). hm_contains (tn_arguments node) RET_PARAM_ID \<or>
           hm_contains (bt_cells t) (node_argument node RET_PARAM_ID)))"
proof (cases "list_nodes E nodes ([], [], [], s)")
  case (Inl e)
  then show ?thesis by (simp add: load_behavior_tree_nodes_with_def)
next
  case (Inr x)
  obtain listed index arguments s1 where x: "x = (listed, index, arguments, s1)" by (cases x)
  define detached where "detached = Detached_select listed (attached_nodes index listed)"
  obtain ld0 s2 where st: "return_ports detached (\<lparr>ld_variables = [], ld_cells = [], ld_bindings = [], ld_fed = []\<rparr>, s1) = (ld0, s2)"
    by fastforce
  obtain r where r: "sweeps E resolver names index (map tn_id detached) (length arguments) arguments (ld0, s2) = Some r"
    "\<And>ld' s' y. r = Inr (ld', s') \<Longrightarrow> y \<in> set arguments \<Longrightarrow> has_cell ld' (fst y)"
    "\<And>ld' s' y. r = Inr (ld', s') \<Longrightarrow> has_cell ld0 y \<Longrightarrow> has_cell ld' y"
    using sweeps_end [of arguments "length arguments" E resolver names index "map tn_id detached" ld0 s2] by blast
  have args: "(node_argument node p, e) \<in> set arguments"
    if "node \<in> snd ` set index" "(p, e) \<in> set (tn_arguments node)" for node p e
    using list_nodes_arguments [OF Inr [unfolded x] _ that] by simp
  have ret: "has_cell ld0 (node_argument node RET_PARAM_ID)"
    if "node \<in> set detached" "\<not> hm_contains (tn_arguments node) RET_PARAM_ID" for node
    using return_ports_give [OF that, of "\<lparr>ld_variables = [], ld_cells = [], ld_bindings = [], ld_fed = []\<rparr>" s1]
    by (simp add: st)
  show ?thesis
  proof (cases r)
    case (Inl e)
    with Inr x st r(1) show ?thesis by (simp add: load_behavior_tree_nodes_with_def Let_def flip: detached_def)
  next
    case r2: (Inr y)
    obtain ld s3 where y: "y = (ld, s3)" by (cases y)
    note kept = r(2,3) [OF r2 [unfolded y]]
    have given: "hm_contains (ld_cells (share_fed index ld)) (node_argument node p)"
      if "node \<in> snd ` set index" "(p, e) \<in> set (tn_arguments node)" for node p e
      unfolding hm_contains_iff using share_fed_keeps [OF kept(1) [OF args [OF that]]] by simp
    have returned: "hm_contains (tn_arguments node) RET_PARAM_ID \<or>
        hm_contains (ld_cells (share_fed index ld)) (node_argument node RET_PARAM_ID)"
      if "node \<in> set detached" for node
      unfolding hm_contains_iff [of "ld_cells _"] using share_fed_keeps [OF kept(2) [OF ret [OF that]]] by blast
    have load: "load_behavior_tree_nodes_with E nodes resolver names s =
      (case bind_data_nodes names (ld_cells (share_fed index ld)) index [] of
         Inl e \<Rightarrow> Some (Inl e, s3)
       | Inr outputs \<Rightarrow> (case listed of [] \<Rightarrow> Some (Inl InconsistentTreeError, s3)
           | root # _ \<Rightarrow> Some (Inr
                \<lparr>bt_root = root, bt_index = index, bt_variables = ld_variables (share_fed index ld),
                 bt_cells = ld_cells (share_fed index ld), bt_outputs = outputs, bt_detached = detached,
                 bt_bindings = ld_bindings (share_fed index ld), bt_names = names\<rparr>, s3)))"
      using Inr x st r(1) r2 y
      by (simp add: load_behavior_tree_nodes_with_def Let_def flip: detached_def) (unfold detached_def, rule refl)
    show ?thesis
    proof (cases "bind_data_nodes names (ld_cells (share_fed index ld)) index []")
      case (Inl e)
      with load show ?thesis by simp
    next
      case (Inr outputs)
      with load given show ?thesis by (cases listed) (auto dest: returned)
    qed
  qed
qed

text \<open>
  C24. Loading a tree always ends, whatever its arguments read; a load that succeeds gave every
  argument of every node a cell, and every detached node a cell for its return value.
\<close>

theorem load_ends:
  "\<exists>r s'. load_behavior_tree_nodes_with E nodes resolver names s = Some (r, s') \<and>
     (\<forall>t. r = Inr t \<longrightarrow>
        (\<forall>node \<in> snd ` set (bt_index t). \<forall>(p, e) \<in> set (tn_arguments node).
           hm_contains (bt_cells t) (node_argument node p)) \<and>
        (\<forall>node \<in> set (bt_detached t). hm_contains (tn_arguments node) RET_PARAM_ID \<or>
           hm_contains (bt_cells t) (node_argument node RET_PARAM_ID)))"
  by (rule load_ended)

text \<open>
  Where nothing is detached, an argument's cell is decided once: by the variable it reads, by the
  port it reads, or a local cell of its own.
\<close>

lemma placed_goes_on:
  assumes "placed ld at e" "goes_on resolver names A ld ld'" "\<And>x. x \<in> A \<Longrightarrow> \<not> has_cell ld x"
  shows "placed ld' at e"
proof -
  have cells: "hm_get (ld_cells ld') x = Some c" if "hm_get (ld_cells ld) x = Some c" for x c
    using assms(2,3) that unfolding goes_on_def by (metis option.distinct(1))
  have "hm_get (ld_variables ld') i = Some c" if "hm_get (ld_variables ld) i = Some c" for i c
    using assms(2) that unfolding goes_on_def map_le_def by (metis domI)
  with assms(1) cells show ?thesis
    by (auto simp: placed_def split: Expression.splits)
qed

lemma sweep_places:
  assumes "sweep E resolver names index [] pending unresolved (ld, s) = Inr (unresolved', ld', s')"
    "distinct (map fst pending)" "\<And>x. x \<in> set pending \<Longrightarrow> \<not> has_cell ld (fst x)"
  shows "\<exists>kept. unresolved' = unresolved @ kept \<and> set kept \<subseteq> set pending \<and> distinct (map fst kept) \<and>
    goes_on resolver names (fst ` set pending) ld ld' \<and> ld_fed ld' = ld_fed ld \<and>
    (\<forall>x \<in> set kept. \<not> has_cell ld' (fst x)) \<and>
    (\<forall>x \<in> set pending. x \<in> set kept \<or> placed ld' (fst x) (snd x))"
  using assms
proof (induction pending arbitrary: unresolved ld s)
  case (Cons x pending)
  obtain at e where x: "x = (at, e)" by (cases x)
  show ?case
  proof (cases "waits ld e")
    case True
    with Cons.prems x have "sweep E resolver names index [] pending (unresolved @ [x]) (ld, s) = Inr (unresolved', ld', s')"
      by simp
    from Cons.IH [OF this] Cons.prems(2,3) obtain kept where k: "unresolved' = (unresolved @ [x]) @ kept"
      "set kept \<subseteq> set pending" "distinct (map fst kept)" "goes_on resolver names (fst ` set pending) ld ld'"
      "ld_fed ld' = ld_fed ld" "\<forall>x \<in> set kept. \<not> has_cell ld' (fst x)"
      "\<forall>x \<in> set pending. x \<in> set kept \<or> placed ld' (fst x) (snd x)" by auto
    have "fst x \<notin> fst ` set pending" using Cons.prems(2) by simp
    then have "\<not> has_cell ld' (fst x)" "fst x \<notin> fst ` set kept"
      using k(2,4) Cons.prems(3) [of x] by (auto simp: goes_on_def)
    with k goes_on_mono [OF k(4), of "fst ` set (x # pending)"] show ?thesis
      by (intro exI [of _ "x # kept"]) auto
  next
    case False
    with Cons.prems x obtain c ld1 s1 where
      s1: "setup_node_parameter_variable E resolver names at e (ld, s) = Inr (c, ld1, s1)"
      and rest: "sweep E resolver names index [] pending unresolved (ld1, s1) = Inr (unresolved', ld', s')"
      by (auto simp: ebind_eq_Inr setup_argument_def fed_input_def split: option.splits)
    from setup_goes_on [OF s1] Cons.prems(3) [of x] x have g: "goes_on resolver names {at} ld ld1"
      "ld_fed ld1 = ld_fed ld" "placed ld1 at e" "has_cell ld1 at" by auto
    have new: "at \<notin> fst ` set pending" using Cons.prems(2) x by simp
    have "\<not> has_cell ld1 (fst y)" if "y \<in> set pending" for y
    proof -
      from new that have "fst y \<notin> {at}" by auto
      with g(1) have "hm_get (ld_cells ld1) (fst y) = hm_get (ld_cells ld) (fst y)" by (simp add: goes_on_def)
      with Cons.prems(3) [of y] that show ?thesis by simp
    qed
    note unset = this
    from Cons.IH [OF rest _ unset] Cons.prems(2) obtain kept where k: "unresolved' = unresolved @ kept"
      "set kept \<subseteq> set pending" "distinct (map fst kept)" "goes_on resolver names (fst ` set pending) ld1 ld'"
      "ld_fed ld' = ld_fed ld1" "\<forall>x \<in> set kept. \<not> has_cell ld' (fst x)"
      "\<forall>x \<in> set pending. x \<in> set kept \<or> placed ld' (fst x) (snd x)" by auto
    have "placed ld' at e" by (rule placed_goes_on [OF g(3) k(4)]) (use unset in auto)
    moreover have "goes_on resolver names (fst ` set (x # pending)) ld ld'"
      by (rule goes_on_trans [OF g(1) k(4)]) (auto simp: x)
    ultimately show ?thesis using k g(2) x by (intro exI [of _ kept]) auto
  qed
qed auto

lemma sweeps_place:
  assumes "sweeps E resolver names index [] n pending (ld, s) = Some (Inr (ld', s'))"
    "distinct (map fst pending)" "\<And>x. x \<in> set pending \<Longrightarrow> \<not> has_cell ld (fst x)"
  shows "goes_on resolver names (fst ` set pending) ld ld' \<and> ld_fed ld' = ld_fed ld \<and>
    (\<forall>x \<in> set pending. placed ld' (fst x) (snd x))"
  using assms
proof (induction n arbitrary: pending ld s)
  case (Suc n)
  show ?case
  proof (cases pending)
    case (Cons y ys)
    with Suc.prems(1) obtain unresolved ld1 s1 where
      w: "sweep E resolver names index [] pending [] (ld, s) = Inr (unresolved, ld1, s1)"
      by (auto split: sum.splits)
    from sweep_places [OF w Suc.prems(2,3)] have k: "set unresolved \<subseteq> set pending" "distinct (map fst unresolved)"
      "goes_on resolver names (fst ` set pending) ld ld1" "ld_fed ld1 = ld_fed ld"
      "\<And>x. x \<in> set unresolved \<Longrightarrow> \<not> has_cell ld1 (fst x)"
      "\<And>x. x \<in> set pending \<Longrightarrow> x \<in> set unresolved \<or> placed ld1 (fst x) (snd x)" by auto
    show ?thesis
    proof (cases unresolved)
      case Nil
      with Suc.prems(1) Cons w k show ?thesis by auto
    next
      case un: (Cons z zs)
      have "sweeps E resolver names index [] n unresolved (ld1, s1) = Some (Inr (ld', s'))"
      proof (cases "length unresolved = length pending")
        case True
        from sweep_result [OF w] True have "ld1 = ld" "s1 = s" "\<forall>x \<in> set unresolved. waits ld (snd x)"
          by auto
        then have "waits ld1 (snd z)" using un by simp
        from waits_refused [OF this] obtain err where
          "setup_node_parameter_variable E resolver names (fst z) (snd z) (ld1, s1) = Inl err" by blast
        with Suc.prems(1) Cons w True un show ?thesis by (cases z) auto
      next
        case False
        with Suc.prems(1) Cons w un show ?thesis by (cases z) auto
      qed
      from Suc.IH [OF this k(2,5)] have ih: "goes_on resolver names (fst ` set unresolved) ld1 ld'"
        "ld_fed ld' = ld_fed ld1" "\<And>x. x \<in> set unresolved \<Longrightarrow> placed ld' (fst x) (snd x)" by auto
      have "placed ld' (fst x) (snd x)" if "x \<in> set pending" for x
        using k(6) [OF that] ih(3) placed_goes_on [OF _ ih(1), of "fst x" "snd x"] k(5) by blast
      moreover have "goes_on resolver names (fst ` set pending) ld ld'"
        by (rule goes_on_trans [OF k(3) ih(1)]) (use k(1) in auto)
      ultimately show ?thesis using ih(2) k(4) by simp
    qed
  qed (use Suc.prems in simp)
next
  case 0
  then show ?case by (cases pending) auto
qed

lemma site_arguments_fst:
  "site_arguments E args s = (args', s') \<Longrightarrow> map fst args' = map fst args"
  by (induction E args s arbitrary: args' s' rule: site_arguments.induct) (auto split: prod.splits)

lemma list_nodes_distinct:
  assumes "list_nodes E ns (listed, index, arguments, s) = Inr (listed', index', arguments', s')"
    "\<forall>node \<in> set ns. distinct (map fst (tn_arguments node))"
    "distinct (map fst arguments)" "\<forall>x \<in> set arguments. hm_contains index (np_node (fst x))"
  shows "distinct (map fst arguments')"
  using assms
proof (induction ns arbitrary: listed index arguments s)
  case (Cons n ns)
  obtain own s1 where own: "site_arguments E (tn_arguments n) s = (own, s1)" by fastforce
  let ?n = "n\<lparr>tn_arguments := own\<rparr>"
  let ?own = "map (\<lambda>(parameter, e). (node_argument ?n parameter, e)) own"
  from Cons.prems(1) own have new: "\<not> hm_contains index (tn_id n)" and
    rest: "list_nodes E ns (listed @ [?n], hm_insert (tn_id n) ?n index, arguments @ ?own, s1) = Inr (listed', index', arguments', s')"
    by (auto simp: Let_def split: if_splits)
  have fst_own: "map fst ?own = map (node_argument ?n) (map fst own)" by auto
  have "inj_on (node_argument ?n) A" for A by (auto simp: inj_on_def)
  moreover have "distinct (map fst own)" using Cons.prems(2) site_arguments_fst [OF own] by simp
  ultimately have "distinct (map fst ?own)"
    unfolding fst_own distinct_map [of "node_argument ?n"] by blast
  moreover have "set (map fst arguments) \<inter> set (map fst ?own) = {}"
    using Cons.prems(4) new unfolding fst_own by auto
  ultimately have "distinct (map fst (arguments @ ?own))" using Cons.prems(3) by simp
  moreover have "\<forall>x \<in> set (arguments @ ?own). hm_contains (hm_insert (tn_id n) ?n index) (np_node (fst x))"
    using Cons.prems(4) by (auto simp: hm_contains_iff)
  ultimately show ?case using Cons.IH [OF rest] Cons.prems(2) by simp
qed auto

definition loaded :: "BehaviorTree \<Rightarrow> loading" where
  "loaded t = \<lparr>ld_variables = bt_variables t, ld_cells = bt_cells t, ld_bindings = bt_bindings t, ld_fed = []\<rparr>"


definition sample_nodes :: "TreeNode list" where
  "sample_nodes =
     [\<lparr>tn_id = 1, tn_function = SEQ_STAR_FUNCTION_ID,
        tn_arguments = [(SEQ_STAR_CURRENT_INDEX_PARAM_ID, EVariableId 9)], tn_children = Some [2]\<rparr>,
      \<lparr>tn_id = 2, tn_function = RUN_STATUS_FUNCTION_ID,
        tn_arguments = [(RUN_STATUS_LATCH_PARAM_ID, EValue (U8 1)),
          (RUN_STATUS_OUT_PARAM_ID, ENodeArgument \<lparr>np_node = 1, np_parameter = SEQ_STAR_CURRENT_INDEX_PARAM_ID\<rparr>)],
        tn_children = None\<rparr>]"

definition one_slot :: "string \<Rightarrow> Key option" where
  "one_slot name = (if name = ''/step'' then Some ''/step'' else None)"

lemma sample_loads:
  "case load_behavior_tree_nodes_with E sample_nodes one_slot [(9, ''/step'')] s of
     Some (Inr t, _) \<Rightarrow> bt_detached t = [] | _ \<Rightarrow> False"
  by code_simp


theorem load_ends_witness:
  "\<exists>t s'. load_behavior_tree_nodes_with std_crates sample_nodes one_slot [(9, ''/step'')] bare_state = Some (Inr t, s') \<and>
     (\<forall>node \<in> snd ` set (bt_index t). \<forall>(p, e) \<in> set (tn_arguments node).
        hm_contains (bt_cells t) (node_argument node p))"
  using sample_loads [of std_crates bare_state]
    load_ends [of std_crates sample_nodes one_slot "[(9, ''/step'')]" bare_state]
  by (auto split: option.splits sum.splits)

end
