(* ===== verification/Namespaced_Store.thy ===== *)
theory Namespaced_Store
  imports Simple_Store
begin

text \<open>
  The namespaced view of a data store (\<open>crates/arora-simple-data-store/src/namespaced.rs\<close>): the
  inner store is any implementation of the trait, a record of methods; the view is another.
\<close>

section \<open>Keys\<close>

definition prefixed :: "string \<Rightarrow> Key \<Rightarrow> Key" where
  "prefixed ns key = ns @ ''/'' @ key"

definition relative :: "string \<Rightarrow> Key \<Rightarrow> Key option" where
  "relative ns key = Option.bind (strip_prefix key ns) (\<lambda>rest. strip_prefix rest ''/'')"

definition prefixed_subtree :: "string \<Rightarrow> string \<Rightarrow> string" where
  "prefixed_subtree ns p = (if p = [] then ns else ns @ ''/'' @ p)"

text \<open>\<open>filter_map\<close> over the entries of a hash map, by the relative form of the key.\<close>

definition relative_entries :: "string \<Rightarrow> (Key, 'v) hash_map \<Rightarrow> (Key, 'v) hash_map" where
  "relative_entries ns m =
     hm_collect (List.map_filter (\<lambda>(key, v). map_option (\<lambda>k. (k, v)) (relative ns key)) m)"

definition confine :: "string \<Rightarrow> StateChange \<Rightarrow> StateChange" where
  "confine ns change =
     \<lparr>sc_set = relative_entries ns (sc_set change),
      sc_unset = hs_collect (List.map_filter (relative ns) (sc_unset change))\<rparr>"

section \<open>The view\<close>

definition ns_read :: "string \<Rightarrow> ('s, 'slot) DataStore \<Rightarrow> 's \<Rightarrow> Key list \<Rightarrow> Value option list" where
  "ns_read ns inner s keys = ds_read inner s (map (prefixed ns) keys)"

definition ns_meta :: "string \<Rightarrow> ('s, 'slot) DataStore \<Rightarrow> 's \<Rightarrow> Key list \<Rightarrow> KeyMeta option list" where
  "ns_meta ns inner s keys = ds_meta inner s (map (prefixed ns) keys)"

definition ns_all_meta :: "string \<Rightarrow> ('s, 'slot) DataStore \<Rightarrow> 's \<Rightarrow> (Key, KeyMeta) hash_map" where
  "ns_all_meta ns inner s = relative_entries ns (ds_all_meta inner s)"

definition ns_set_meta ::
  "string \<Rightarrow> ('s, 'slot) DataStore \<Rightarrow> 's \<Rightarrow> (Key, KeyMeta) hash_map \<Rightarrow> (DataError + unit) \<times> 's" where
  "ns_set_meta ns inner s m =
     ds_set_meta inner s (hm_collect (map (\<lambda>(key, meta). (prefixed ns key, meta)) m))"

definition ns_set_prefix_meta ::
  "string \<Rightarrow> ('s, 'slot) DataStore \<Rightarrow> 's \<Rightarrow> (string, KeyMeta) hash_map \<Rightarrow> (DataError + unit) \<times> 's" where
  "ns_set_prefix_meta ns inner s m =
     ds_set_prefix_meta inner s (hm_collect (map (\<lambda>(p, meta). (prefixed_subtree ns p, meta)) m))"

definition prefixed_change :: "string \<Rightarrow> StateChange \<Rightarrow> StateChange" where
  "prefixed_change ns changes =
     \<lparr>sc_set = hm_collect (map (\<lambda>(k, v). (prefixed ns k, v)) (sc_set changes)),
      sc_unset = hs_collect (map (prefixed ns) (sc_unset changes))\<rparr>"

definition ns_write ::
  "string \<Rightarrow> ('s, 'slot) DataStore \<Rightarrow> 's \<Rightarrow> StateChange \<Rightarrow> (DataError + unit) \<times> 's" where
  "ns_write ns inner s changes = ds_write inner s (prefixed_change ns changes)"

definition ns_slot :: "string \<Rightarrow> ('s, 'slot) DataStore \<Rightarrow> 's \<Rightarrow> Key \<Rightarrow> 'slot \<times> 's" where
  "ns_slot ns inner s key = ds_slot inner s (prefixed ns key)"

definition ns_snapshot :: "string \<Rightarrow> ('s, 'slot) DataStore \<Rightarrow> 's \<Rightarrow> State" where
  "ns_snapshot ns inner s = \<lparr>storage = relative_entries ns (storage (ds_snapshot inner s))\<rparr>"

definition ns_subscribe_prefix ::
  "string \<Rightarrow> ('s, 'slot) DataStore \<Rightarrow> 's \<Rightarrow> string \<Rightarrow> Subscription \<times> 's" where
  "ns_subscribe_prefix ns inner s p =
     (case ds_subscribe_prefix inner s (prefixed_subtree ns p) of
        (sub, s) \<Rightarrow> (Subscription_map sub (confine ns), s))"

definition ns_subscribe :: "string \<Rightarrow> ('s, 'slot) DataStore \<Rightarrow> 's \<Rightarrow> Subscription \<times> 's" where
  "ns_subscribe ns inner s = ns_subscribe_prefix ns inner s []"

definition NamespacedStore :: "string \<Rightarrow> ('s, 'slot) DataStore \<Rightarrow> ('s, 'slot) DataStore" where
  "NamespacedStore ns inner = \<lparr>ds_read = ns_read ns inner, ds_write = ns_write ns inner,
     ds_snapshot = ns_snapshot ns inner, ds_slot = ns_slot ns inner,
     ds_slot_get = ds_slot_get inner, ds_slot_set = ds_slot_set inner,
     ds_subscribe = ns_subscribe ns inner, ds_subscribe_prefix = ns_subscribe_prefix ns inner,
     ds_meta = ns_meta ns inner, ds_all_meta = ns_all_meta ns inner,
     ds_set_meta = ns_set_meta ns inner, ds_set_prefix_meta = ns_set_prefix_meta ns inner\<rparr>"

section \<open>Lookups through the view\<close>

lemma NamespacedStore_sel [simp]:
  "ds_read (NamespacedStore ns D) = ns_read ns D" "ds_write (NamespacedStore ns D) = ns_write ns D"
  "ds_snapshot (NamespacedStore ns D) = ns_snapshot ns D" "ds_slot (NamespacedStore ns D) = ns_slot ns D"
  "ds_slot_get (NamespacedStore ns D) = ds_slot_get D" "ds_slot_set (NamespacedStore ns D) = ds_slot_set D"
  "ds_subscribe (NamespacedStore ns D) = ns_subscribe ns D"
  "ds_subscribe_prefix (NamespacedStore ns D) = ns_subscribe_prefix ns D"
  "ds_meta (NamespacedStore ns D) = ns_meta ns D" "ds_all_meta (NamespacedStore ns D) = ns_all_meta ns D"
  "ds_set_meta (NamespacedStore ns D) = ns_set_meta ns D"
  "ds_set_prefix_meta (NamespacedStore ns D) = ns_set_prefix_meta ns D"
  by (simp_all add: NamespacedStore_def)

lemma ds_value_view [simp]: "ds_value (NamespacedStore ns D) s k = ds_value D s (prefixed ns k)"
  by (simp add: ds_value_def ns_read_def)

lemma prefixed_inj [simp]: "prefixed ns k = prefixed ns k' \<longleftrightarrow> k = k'"
  by (simp add: prefixed_def)

lemma relative_iff: "relative ns key = Some k \<longleftrightarrow> key = prefixed ns k"
  by (auto simp: relative_def prefixed_def strip_prefix_iff bind_eq_Some_conv)

lemma relative_prefixed [simp]: "relative ns (prefixed ns k) = Some k"
  by (simp add: relative_iff)

lemma relative_entries_raw:
  "map_of (List.map_filter (\<lambda>(key, v). map_option (\<lambda>k. (k, v)) (relative ns key)) m) k =
     map_of m (prefixed ns k)"
  by (induction m) (auto simp: List.map_filter_simps relative_iff split: option.splits)

lemma relative_entries_distinct:
  "hm_ok m \<Longrightarrow> hm_ok (List.map_filter (\<lambda>(key, v). map_option (\<lambda>k. (k, v)) (relative ns key)) m)"
proof (induction m)
  case (Cons e m)
  obtain key v where e: "e = (key, v)" by (cases e)
  have "k \<notin> fst ` set (List.map_filter (\<lambda>(key, v). map_option (\<lambda>k. (k, v)) (relative ns key)) m)"
    if "relative ns key = Some k" for k
    using Cons.prems e that relative_entries_raw [of ns m k]
    by (simp add: relative_iff map_of_eq_None_iff [symmetric])
  with Cons e show ?case by (auto simp: List.map_filter_simps split: option.splits)
qed (simp add: List.map_filter_simps)

lemma relative_entries_lookup:
  assumes "hm_ok m"
  shows "map_of (relative_entries ns m) k = map_of m (prefixed ns k)" "hm_ok (relative_entries ns m)"
  using relative_entries_distinct [OF assms, of ns]
  by (simp_all add: relative_entries_def relative_entries_raw hm_collect_distinct)

lemma map_of_prefixed:
  "map_of (map (\<lambda>(k, v). (prefixed ns k, v)) m) key = Option.bind (relative ns key) (map_of m)"
proof (cases "relative ns key")
  case None
  then have "key \<notin> fst ` set (map (\<lambda>(k, v). (prefixed ns k, v)) m)" by auto
  then show ?thesis unfolding None by (simp add: map_of_eq_None_iff)
next
  case (Some k)
  then have key: "key = prefixed ns k" by (simp add: relative_iff)
  show ?thesis unfolding key by (induction m) auto
qed

lemma prefixed_change_facts:
  assumes "change_ok c"
  shows "change_ok (prefixed_change ns c)"
    "written (prefixed_change ns c) (prefixed ns k) old = written c k old"
    "relative ns key = None \<Longrightarrow> written (prefixed_change ns c) key old = old"
proof -
  have "hm_ok (map (\<lambda>(k, v). (prefixed ns k, v)) (sc_set c))"
    using assms by (auto simp: comp_def case_prod_unfold distinct_map inj_on_def)
  then have set: "map_of (sc_set (prefixed_change ns c)) key = Option.bind (relative ns key) (map_of (sc_set c))"
    for key by (simp add: prefixed_change_def map_of_rev_distinct map_of_prefixed)
  show "change_ok (prefixed_change ns c)" by (auto simp: prefixed_change_def)
  show "written (prefixed_change ns c) (prefixed ns k) old = written c k old"
    unfolding written_def set by (auto simp: prefixed_change_def)
  show "relative ns key = None \<Longrightarrow> written (prefixed_change ns c) key old = old"
    unfolding written_def set by (auto simp: prefixed_change_def)
qed

section \<open>A view keeps the contract of the store under it\<close>

locale namespaced_view = data_store D inv names
  for D :: "('s, 'slot) DataStore" and inv names +
  fixes ns :: string
begin

text \<open>A write through the view leaves every key outside the namespace alone.\<close>

lemma outside_untouched:
  assumes "inv s" "change_ok c" "relative ns key = None"
  shows "ds_value D (snd (ds_write (NamespacedStore ns D) s c)) key = ds_value D s key"
  using assms by (simp add: ns_write_def write_value prefixed_change_facts)

end

sublocale namespaced_view \<subseteq> view: data_store "NamespacedStore ns D" inv "\<lambda>s h k. names s h (prefixed ns k)"
proof unfold_locales
  fix s ks k assume inv: "inv s"
  show "ds_read (NamespacedStore ns D) s ks = map (ds_value (NamespacedStore ns D) s) ks"
    using inv by (simp add: ns_read_def read_map)
  show "hm_ok (storage (ds_snapshot (NamespacedStore ns D) s))"
    using snapshot_ok [OF inv] by (simp add: ns_snapshot_def relative_entries_lookup)
  show "ds_value (NamespacedStore ns D) s k =
     Option.bind (State_get (ds_snapshot (NamespacedStore ns D) s) k) (\<lambda>v. v)"
    using snapshot_ok [OF inv] snapshot_value [OF inv]
    by (simp add: ns_snapshot_def State_get_def relative_entries_lookup)
qed (simp_all add: ns_write_def ns_slot_def write_inv write_result write_value prefixed_change_facts
    slot_inv slot_names slot_value slot_get slot_set_inv slot_set_value names_write names_slot
    names_slot_set cong: if_cong)

interpretation ns_simple: namespaced_view simple_store store_inv names_key ns for ns
  by unfold_locales

section \<open>Isolation\<close>

text \<open>Two views name a common key only when one namespace is a subtree of the other.\<close>

lemma prefixed_meet:
  assumes "prefixed n1 k1 = prefixed n2 k2"
  shows "prefix_covers n1 n2 \<or> prefix_covers n2 n1"
proof -
  have covers: "prefix_covers n (prefixed n k)" for n k by (auto simp: prefix_covers_iff prefixed_def)
  have "prefix_covers n1 (prefixed n1 k1)" "prefix_covers n2 (prefixed n1 k1)"
    using covers [of n1 k1] covers [of n2 k2] assms by simp_all
  then show ?thesis using prefix_covers_nested by (meson nat_le_linear)
qed

text \<open>
  Two views of one store whose namespaces are not nested are disjoint: a write through one
  changes no value, and no key of the snapshot, that the other shows, and the writer reads its own
  write back.
\<close>

theorem namespaces_disjoint:
  assumes "store_inv s" "change_ok c" "\<not> prefix_covers n1 n2" "\<not> prefix_covers n2 n1"
    "s' = snd (ds_write (NamespacedStore n1 simple_store) s c)"
  shows "ds_read (NamespacedStore n2 simple_store) s' ks = ds_read (NamespacedStore n2 simple_store) s ks \<and>
     ds_value (NamespacedStore n1 simple_store) s' k =
       written c k (ds_value (NamespacedStore n1 simple_store) s k)"
proof -
  have "relative n1 (prefixed n2 k') = None" for k'
    using prefixed_meet [of n2 k' n1] assms(3,4) relative_iff [of n1 "prefixed n2 k'"]
    by (cases "relative n1 (prefixed n2 k')") auto
  then have "ds_value (NamespacedStore n2 simple_store) s' k' = ds_value (NamespacedStore n2 simple_store) s k'"
    for k' using ns_simple.outside_untouched [OF assms(1,2), of n1 "prefixed n2 k'"] assms(5) by simp
  moreover have "store_inv s'" using ns_simple.view.write_inv [OF assms(1,2)] assms(5) by simp
  ultimately show ?thesis
    using assms(1,5) ns_simple.view.write_value [OF assms(1,2), of n1 k]
    by (simp add: ns_simple.view.read_map del: NamespacedStore_sel)
qed

theorem namespaces_disjoint_witness:
  "let s = SimpleDataStore_new;
       s' = snd (ds_write (NamespacedStore ''dev1'' simple_store) s (StateChange_set ''x'' (U8 1)))
   in ds_read (NamespacedStore ''dev2'' simple_store) s' [''x''] =
        ds_read (NamespacedStore ''dev2'' simple_store) s [''x''] \<and>
      ds_value (NamespacedStore ''dev1'' simple_store) s' ''x'' = Some (U8 1)"
proof -
  have "ds_value (NamespacedStore ''dev1'' simple_store) SimpleDataStore_new ''x'' = None"
    by (simp add: value_at_def SimpleDataStore_new_def)
  then show ?thesis
    using namespaces_disjoint [OF store_inv_new _ _ _ refl, of "StateChange_set ''x'' (U8 1)"
        "''dev1''" "''dev2''" "[''x'']" "''x''"]
    by (simp add: StateChange_set_def prefix_covers_def starts_with_def written_def settle_def Let_def
        del: NamespacedStore_sel)
qed

text \<open>
  Nested namespaces are not disjoint, over any inner store: the view of \<open>x/y\<close> and the view of
  \<open>x\<close> show the same cells, the second under keys that start with \<open>y/\<close>.
\<close>

theorem nested_namespaces_share:
  "ds_read (NamespacedStore (x @ ''/'' @ y) D) s ks =
     ds_read (NamespacedStore x D) s (map (\<lambda>k. y @ ''/'' @ k) ks) \<and>
   ds_slot (NamespacedStore (x @ ''/'' @ y) D) s k = ds_slot (NamespacedStore x D) s (y @ ''/'' @ k)"
  by (simp add: ns_read_def ns_slot_def prefixed_def [abs_def] comp_def)

section \<open>The feed of a view\<close>

lemma confine_lookup:
  assumes "change_ok c"
  shows "effect (confine ns c) k old = effect c (prefixed ns k) old" "change_ok (confine ns c)"
proof -
  have "set (List.map_filter (relative ns) ks) = {k. prefixed ns k \<in> set ks}" for ks
    by (induction ks) (auto simp: List.map_filter_simps relative_iff split: option.splits)
  with assms show "effect (confine ns c) k old = effect c (prefixed ns k) old" "change_ok (confine ns c)"
    by (auto simp: effect_def confine_def relative_entries_lookup)
qed

lemma state_value_new: "state_value State_new k = None"
  by (simp add: state_value_def State_get_def State_new_def)

lemma replay_confined:
  assumes "list_all (\<lambda>c. change_ok c) q" "state_value st k = state_value st' (prefixed ns k)"
  shows "state_value (replay (filter (\<lambda>c. \<not> StateChange_is_empty c) (map (confine ns) q)) st) k =
     state_value (replay q st') (prefixed ns k)"
  using assms
proof (induction q arbitrary: st st')
  case (Cons c q)
  then have c: "change_ok c" "change_ok (confine ns c)" by (simp_all add: confine_lookup)
  have next_st: "state_value (State_apply st (confine ns c)) k = state_value (State_apply st' c) (prefixed ns k)"
    using Cons.prems(2) by (simp add: state_value_apply c confine_lookup)
  show ?case
  proof (cases "StateChange_is_empty (confine ns c)")
    case True
    then have "state_value st k = state_value (State_apply st' c) (prefixed ns k)"
      using next_st by (simp add: state_value_apply c effect_def StateChange_is_empty_def)
    from Cons.IH [OF _ this] Cons.prems(1) True show ?thesis by (simp add: replay_def)
  next
    case False
    with Cons next_st show ?thesis by (simp add: replay_def)
  qed
qed (simp add: replay_def)



end
