(* ===== verification/Tasks.thy ===== *)
theory Tasks
  imports Calls Graph_Model
begin

text \<open>
  Task runs as data (\<open>crates/arora-behavior/src/task.rs\<close>), and the interpreter module's ids and the
  call that halts a run (\<open>crates/arora-behavior/src/interpreter_module.rs\<close>).
\<close>

datatype RunPolicy = Concurrent

record TaskHandle =
  th_id :: uuid
  th_stop :: Call
  th_status :: Key
  th_feedback :: "Key list"
  th_result :: "Key list"
  th_update :: "Key list"

record LoadedBehavior =
  lb_revision :: u64
  lb_graph :: Graph

text \<open>\<open>ID\<close>, \<open>HALT\<close>, \<open>HALT_ARG\<close>, \<open>SPAWN_GRAPH\<close> and \<open>TRACE\<close>.\<close>

definition INTERPRETER_ID :: uuid where
  "INTERPRETER_ID = 0x61726f72610000000000000000000001"

definition INTERPRETER_HALT :: uuid where
  "INTERPRETER_HALT = 0x61726f72610000000000000000000009"

definition INTERPRETER_HALT_ARG :: uuid where
  "INTERPRETER_HALT_ARG = 0x61726f7261000000000000000000000a"

definition INTERPRETER_SPAWN_GRAPH :: uuid where
  "INTERPRETER_SPAWN_GRAPH = 0x61726f7261000000000000000000000b"

definition INTERPRETER_TRACE :: uuid where
  "INTERPRETER_TRACE = 0x61726f72610000000000000000000010"

definition value_of_task :: "uuid \<Rightarrow> Value" where
  "value_of_task task = VUuid task"

definition encode_halt :: "uuid \<Rightarrow> Call" where
  "encode_halt task =
     \<lparr>call_module_id = Some INTERPRETER_ID, call_id = INTERPRETER_HALT,
      call_args = [StructureField INTERPRETER_HALT_ARG (value_of_task task)]\<rparr>"

end
