(* ===== verification/Runtime_Step.thy ===== *)
theory Runtime_Step
  imports Namespaced_Store Tasks "HOL-Library.Product_Lexorder"
begin

text \<open>
  The device's step (\<open>crates/arora/src/runtime.rs\<close>): the clock, the phases that apply what the
  hardware and the remotes delivered, the behavior's tick, the coalesced outbound change, and the
  metronome that paces \<open>run\<close>. The engine, the interpreter and the value encoders are
  \<open>dyn\<close> seams: fields of the record \<open>Seams\<close> the phases take.
\<close>

section \<open>Calls, commands and events\<close>

record 'f MethodSignature =
  ms_module_id :: uuid
  ms_id :: uuid
  ms_name :: string
  ms_function :: 'f

record DeviceInfo =
  di_name :: "string option"
  di_description :: "string option"
  di_model_family :: "string option"
  di_hardware_version :: "string option"
  di_software_version :: "string option"
  di_owners :: "string list"

datatype BridgeOp =
    OpGet "Key list" | OpUpdate StateChange | OpCall Call
  | OpListKeys "string option" | OpListMethods "string option" | OpDescribeMethods "string option"

datatype BridgeError = Disconnected string | Unregistered | BridgeOther string

text \<open>A command's reply channel is a number; what was sent on it is recorded.\<close>

record BridgeCommand =
  bc_op :: BridgeOp
  bc_reply :: nat

datatype Inbound =
    InCommand BridgeCommand
  | InDeviceInfo "BridgeError + DeviceInfo option"
  | InDataRequested bool

text \<open>The refusals a command is answered with; their texts are not modelled.\<close>

datatype command_error =
    NotAnInput "Key list" | NotOfDeclaredType "Key list" | WriteFailed DataError
  | CallFailed CallError | EncodeFailed

type_synonym reply = "nat \<times> (command_error + CallResult)"

datatype RuntimeError = StoreFailed DataError | BehaviorTreeFailed string

datatype BehaviorStatus = BRunning | BDone "string option"

section \<open>Task runs\<close>

datatype RunCalls = CallsFunction "uuid option" uuid | CallsGraph "uuid list" | CallsNothing

text \<open>How the log names a run, as data rather than text.\<close>

datatype run_label = NamedFunction string uuid | UnnamedFunction uuid | GraphOf nat | TraceRun

record TaskRun =
  tr_id :: uuid
  tr_calls :: RunCalls
  tr_policy :: RunPolicy
  tr_label :: "run_label option"
  tr_status :: Key
  tr_halted :: bool
  tr_interrupted :: "string option"

definition TaskRun_started :: "TaskHandle \<Rightarrow> RunCalls \<Rightarrow> RunPolicy \<Rightarrow> TaskRun" where
  "TaskRun_started handle calls policy =
     \<lparr>tr_id = th_id handle, tr_calls = calls, tr_policy = policy, tr_label = None,
      tr_status = th_status handle, tr_halted = False, tr_interrupted = None\<rparr>"

definition TaskRun_calls_module :: "TaskRun \<Rightarrow> uuid \<Rightarrow> uuid list \<Rightarrow> bool" where
  "TaskRun_calls_module self module exports =
     (case tr_calls self of
        CallsFunction called f \<Rightarrow> called = Some module \<and> f \<in> set exports
      | CallsGraph functions \<Rightarrow> list_ex (\<lambda>f. f \<in> set exports) functions
      | CallsNothing \<Rightarrow> False)"

definition function_label :: "'f FunctionIndex \<Rightarrow> uuid \<Rightarrow> run_label" where
  "function_label index i =
     (case hm_get index i of
        Some f \<Rightarrow> NamedFunction (mf_function_name f) i
      | None \<Rightarrow> UnnamedFunction i)"

definition label_run :: "'f FunctionIndex \<Rightarrow> TaskRun \<Rightarrow> TaskRun" where
  "label_run functions run =
     (if tr_label run = None
      then run\<lparr>tr_label := Some (case tr_calls run of
             CallsFunction _ f \<Rightarrow> function_label functions f
           | CallsGraph fs \<Rightarrow> GraphOf (length fs)
           | CallsNothing \<Rightarrow> TraceRun)\<rparr>
      else run)"

datatype run_end = Succeeded | InterruptedBy string | Halted | Failed

definition run_outcome :: "Status option \<Rightarrow> TaskRun \<Rightarrow> run_end option" where
  "run_outcome status run =
     (case (status, tr_interrupted run) of
        (Some Success, _) \<Rightarrow> Some Succeeded
      | (Some Failure, Some why) \<Rightarrow> Some (InterruptedBy why)
      | (Some Failure, None) \<Rightarrow> Some (if tr_halted run then Halted else Failed)
      | (_, _) \<Rightarrow> None)"

definition run_status :: "('s, 'slot) DataStore \<Rightarrow> 's \<Rightarrow> TaskRun \<Rightarrow> Status option" where
  "run_status D s run =
     (case ds_read D s [tr_status run] of
        [] \<Rightarrow> None
      | v # _ \<Rightarrow> Option.bind v status_of_value)"

text \<open>The runs still followed, and what the log says of the ended ones.\<close>

definition report_task_runs ::
  "('s, 'slot) DataStore \<Rightarrow> 's \<Rightarrow> TaskRun list \<Rightarrow> 'f FunctionIndex \<Rightarrow>
     TaskRun list \<times> (uuid \<times> run_end) list" where
  "report_task_runs D s runs functions =
     (let runs = map (label_run functions) runs;
          outcome = (\<lambda>run. run_outcome (run_status D s run) run)
      in (filter (\<lambda>run. outcome run = None) runs,
          List.map_filter (\<lambda>run. map_option (Pair (tr_id run)) (outcome run)) runs))"

section \<open>The seams and the device\<close>

text \<open>
  What a call to the engine can reach: the store, the engine itself, the interpreter cell and the
  task runs (the interpreter module's functions edit both).
\<close>

record ('s, 'e, 'i) World =
  w_store :: 's
  w_engine :: 'e
  w_interpreter :: "'i option"
  w_task_runs :: "TaskRun list"

record ('s, 'slot, 'e, 'i, 'f) Seams =
  sm_store :: "('s, 'slot) DataStore"
  sm_queue :: "'s \<Rightarrow> nat \<Rightarrow> StateChange list"
  sm_taken :: "'s \<Rightarrow> nat \<Rightarrow> 's"
  sm_call :: "Call \<Rightarrow> ('s, 'e, 'i) World \<Rightarrow> (CallError + CallResult) \<times> ('s, 'e, 'i) World"
  sm_tick :: "'f FunctionIndex \<Rightarrow> 'i \<Rightarrow> 's \<times> 'e \<times> TaskRun list \<Rightarrow>
    (string + BehaviorStatus) \<times> 'i \<times> 's \<times> 'e \<times> TaskRun list"
  sm_encode_keys :: "(string \<times> KeyMeta) list \<Rightarrow> Value option"
  sm_encode_methods :: "'f MethodSignature list \<Rightarrow> Value option"

text \<open>
  The device. The streams it owns (\<open>hal_feed\<close>, \<open>inbound\<close>, \<open>hal_keys\<close>) are what they hold
  ready now; what it sent (replies, to the hardware, to each bridge) is recorded.
\<close>

record ('s, 'e, 'i, 'f) Arora =
  ar_world :: "('s, 'e, 'i) World"
  ar_function_index :: "'f FunctionIndex"
  ar_clock :: u64
  ar_hal_feed :: "StateChange list"
  ar_inbound :: "(nat option \<times> Inbound) list"
  ar_hal_keys :: "(Key, KeyMeta) hash_map list"
  ar_hal_stated :: "(Key, KeyMeta) hash_map"
  ar_sensors :: "StateChange list"
  ar_events :: "(nat option \<times> Inbound) list"
  ar_data_requested :: "bool list"
  ar_behavior_error :: "string option"
  ar_store_changes :: Subscription
  ar_replies :: "reply list"
  ar_hal_sent :: "StateChange list"
  ar_bridges_sent :: "StateChange list list"

section \<open>The interpreter cell\<close>

text \<open>
  The body of the interpreter module's functions; \<open>borrowed\<close> says whether the cell is held by a
  tick.
\<close>

definition with_interpreter_value ::
  "bool \<Rightarrow> 'i option \<Rightarrow> ('i \<Rightarrow> (string + Value) \<times> 'i) \<Rightarrow> (CallError + CallResult) \<times> 'i option" where
  "with_interpreter_value borrowed installed operation =
     (if borrowed then (Inl (CallGeneric ''the behavior is being ticked; call between steps''), installed)
      else case installed of
        None \<Rightarrow> (Inl (CallGeneric ''no behavior interpreter is installed''), installed)
      | Some interpreter \<Rightarrow>
          (case operation interpreter of
             (Inl e, interpreter) \<Rightarrow> (Inl (Guest e), Some interpreter)
           | (Inr ret, interpreter) \<Rightarrow> (Inr \<lparr>cr_ret = ret, cr_mutated = []\<rparr>, Some interpreter)))"

definition with_interpreter ::
  "bool \<Rightarrow> 'i option \<Rightarrow> ('i \<Rightarrow> (string + unit) \<times> 'i) \<Rightarrow> (CallError + CallResult) \<times> 'i option" where
  "with_interpreter borrowed installed operation =
     with_interpreter_value borrowed installed
       (\<lambda>i. case operation i of (Inl e, i) \<Rightarrow> (Inl e, i) | (Inr _, i) \<Rightarrow> (Inr Unit, i))"

section \<open>Phase 0: the sweep\<close>

definition sweep_now :: "('s, 'e, 'i, 'f) Arora \<Rightarrow> ('s, 'e, 'i, 'f) Arora" where
  "sweep_now self = self\<lparr>
     ar_sensors := ar_sensors self @ ar_hal_feed self, ar_hal_feed := [],
     ar_events := ar_events self @ ar_inbound self, ar_inbound := []\<rparr>"

text \<open>The derived \<open>PartialEq\<close> of \<open>Option<f64>\<close> and of \<open>KeyMeta\<close>.\<close>

fun f64_opt_eq :: "u64 option \<Rightarrow> u64 option \<Rightarrow> bool" where
  "f64_opt_eq None None \<longleftrightarrow> True"
| "f64_opt_eq (Some a) (Some b) \<longleftrightarrow> \<not> nan64 a \<and> \<not> nan64 b \<and> canon64 a = canon64 b"
| "f64_opt_eq _ _ \<longleftrightarrow> False"

definition key_meta_eq :: "KeyMeta \<Rightarrow> KeyMeta \<Rightarrow> bool" where
  "key_meta_eq a b \<longleftrightarrow> km_ty a = km_ty b \<and> f64_opt_eq (km_min a) (km_min b)
     \<and> f64_opt_eq (km_max a) (km_max b) \<and> km_unit a = km_unit b
     \<and> value_opt_eq (km_default a) (km_default b) \<and> km_description a = km_description b
     \<and> km_editable a = km_editable b"

definition own_or_unstated ::
  "(Key, KeyMeta) hash_map \<Rightarrow> (Key, KeyMeta) hash_map \<Rightarrow> Key \<Rightarrow> bool" where
  "own_or_unstated own stated key =
     (case hm_get own key of
        None \<Rightarrow> True
      | Some m \<Rightarrow> (case hm_get stated key of None \<Rightarrow> False | Some m' \<Rightarrow> key_meta_eq m' m))"

fun describe_hal_keys ::
  "('s, 'slot) DataStore \<Rightarrow> 's \<Rightarrow> (Key, KeyMeta) hash_map list \<Rightarrow> (Key, KeyMeta) hash_map \<Rightarrow>
     's \<times> (Key, KeyMeta) hash_map" where
  "describe_hal_keys D s [] stated = (s, stated)"
| "describe_hal_keys D s (description # rest) stated =
     (if description = [] then describe_hal_keys D s rest stated
      else let own = ds_all_meta D s;
               description = filter (\<lambda>(key, _). own_or_unstated own stated key) description
           in if description = [] then describe_hal_keys D s rest stated
              else case ds_set_meta D s description of
                (Inr _, s) \<Rightarrow> describe_hal_keys D s rest (hm_extend stated description)
              | (Inl _, s) \<Rightarrow> describe_hal_keys D s rest stated)"

section \<open>Phase 1: the clock\<close>

definition TIME :: string where "TIME = ''arora/time''"
definition DT :: string where "DT = ''arora/dt''"
definition PREFIX :: string where "PREFIX = ''arora/''"

definition is_built_in :: "string \<Rightarrow> bool" where
  "is_built_in key = starts_with key PREFIX"

text \<open>A \<open>Duration\<close> is its nanoseconds; \<open>as u64\<close> keeps the low 64 bits of them.\<close>

definition Clock_starting_at :: "nat \<Rightarrow> u64" where
  "Clock_starting_at start = (if start < 2 ^ 64 then of_nat start else - 1)"

definition saturating_add :: "u64 \<Rightarrow> u64 \<Rightarrow> u64" where
  "saturating_add a b = (if unat a + unat b < 2 ^ 64 then a + b else - 1)"

record ClockValues =
  cv_time_ns :: u64
  cv_dt_ns :: u64

definition tick_clock :: "u64 \<Rightarrow> nat \<Rightarrow> ClockValues \<times> u64" where
  "tick_clock clock dt =
     (let dt_ns = of_nat dt; time_ns = saturating_add clock dt_ns
      in (\<lparr>cv_time_ns = time_ns, cv_dt_ns = dt_ns\<rparr>, time_ns))"

definition publish_clock ::
  "('s, 'slot) DataStore \<Rightarrow> 's \<Rightarrow> ClockValues \<Rightarrow> (RuntimeError + unit) \<times> 's" where
  "publish_clock D s clock =
     (case ds_write D s
        \<lparr>sc_set = hm_insert TIME (Some (U64 (cv_time_ns clock)))
                   (hm_insert DT (Some (U64 (cv_dt_ns clock))) (sc_set StateChange_new)),
         sc_unset = sc_unset StateChange_new\<rparr> of
        (Inl e, s) \<Rightarrow> (Inl (StoreFailed e), s)
      | (Inr _, s) \<Rightarrow> (Inr (), s))"

section \<open>Phase 2: sensor readings\<close>

text \<open>One change folded into a coalesced one: the loop bodies of \<open>apply_sensors\<close> and \<open>flush\<close>.\<close>

definition merge_set :: "Key \<times> Value option \<Rightarrow> StateChange \<Rightarrow> StateChange" where
  "merge_set kv merged = merged\<lparr>sc_unset := hs_remove (fst kv) (sc_unset merged),
     sc_set := hm_insert (fst kv) (snd kv) (sc_set merged)\<rparr>"

definition merge_unset :: "Key \<Rightarrow> StateChange \<Rightarrow> StateChange" where
  "merge_unset key merged = merged\<lparr>sc_set := hm_remove key (sc_set merged),
     sc_unset := hs_insert key (sc_unset merged)\<rparr>"

definition merge :: "StateChange \<Rightarrow> StateChange \<Rightarrow> StateChange" where
  "merge change merged =
     fold merge_unset (sc_unset change) (fold merge_set (sc_set change) merged)"

fun apply_sensors ::
  "('s, 'slot) DataStore \<Rightarrow> 's \<Rightarrow> StateChange list \<Rightarrow> StateChange \<Rightarrow>
     (RuntimeError + StateChange) \<times> 's" where
  "apply_sensors D s [] applied = (Inr applied, s)"
| "apply_sensors D s (change # sensors) applied =
     (case ds_write D s change of
        (Inl e, s) \<Rightarrow> (Inl (StoreFailed e), s)
      | (Inr _, s) \<Rightarrow> apply_sensors D s sensors (merge change applied))"

section \<open>Phase 3: bridge events\<close>

definition list_keys :: "('s, 'slot) DataStore \<Rightarrow> 's \<Rightarrow> string option \<Rightarrow> (string \<times> KeyMeta) list" where
  "list_keys D s p =
     (let held = filter (\<lambda>(_, v). v \<noteq> None) (storage (ds_snapshot D s));
          unheld = filter (\<lambda>key. key \<notin> set (hm_keys held)) (hm_keys (ds_all_meta D s));
          listed = held @ map (\<lambda>key. (key, None)) unheld;
          listed = filter (\<lambda>(key, _). case p of None \<Rightarrow> True | Some p \<Rightarrow> starts_with key p) listed;
          metas = ds_meta D s (map fst listed)
      in sort_key fst
           (map (\<lambda>((key, v), m).
              let m = (case m of None \<Rightarrow> KeyMeta_new | Some m \<Rightarrow> m)
              in (key, if km_ty m = None then m\<lparr>km_ty := map_option kind v\<rparr> else m))
            (zip listed metas)))"

definition describe_methods ::
  "'f FunctionIndex \<Rightarrow> string option \<Rightarrow> 'f MethodSignature list" where
  "describe_methods function_index p =
     sort_key (\<lambda>m. (ms_name m, ms_id m))
       (map (\<lambda>f. \<lparr>ms_module_id = mf_module_id f, ms_id = mf_function_id f,
                  ms_name = mf_function_name f, ms_function = mf_function f\<rparr>)
         (filter (\<lambda>f. case p of None \<Rightarrow> True | Some p \<Rightarrow> starts_with (mf_function_name f) p)
           (map snd function_index)))"

definition list_methods :: "'f FunctionIndex \<Rightarrow> string option \<Rightarrow> string list" where
  "list_methods function_index p =
     remdups_adj (sort
       (filter (\<lambda>name. case p of None \<Rightarrow> True | Some p \<Rightarrow> starts_with name p)
         (map mf_function_name (map snd function_index))))"

definition returns :: "Value \<Rightarrow> CallResult" where
  "returns v = \<lparr>cr_ret = v, cr_mutated = []\<rparr>"

text \<open>The check an inbound write passes, and the write.\<close>

definition update_keys :: "StateChange \<Rightarrow> Key list" where
  "update_keys change = hm_keys (sc_set change)
     @ filter (\<lambda>key. \<not> hm_contains (sc_set change) key) (sc_unset change)"

definition refused_keys :: "KeyMeta option list \<Rightarrow> Key list \<Rightarrow> Key list" where
  "refused_keys metas keys = map snd
     (filter (\<lambda>(m, _). \<not> (case m of None \<Rightarrow> False | Some m \<Rightarrow> km_editable m)) (zip metas keys))"

definition ill_typed_keys :: "StateChange \<Rightarrow> KeyMeta option list \<Rightarrow> Key list \<Rightarrow> Key list" where
  "ill_typed_keys change metas keys = map snd
     (filter (\<lambda>(m, key).
        case Option.bind m km_ty of
          None \<Rightarrow> False
        | Some expected \<Rightarrow>
            (case Option.bind (hm_get (sc_set change) key) (\<lambda>v. v) of
               None \<Rightarrow> False
             | Some v \<Rightarrow> \<not> conforms_to v expected)) (zip metas keys))"

definition apply_update ::
  "('s, 'slot) DataStore \<Rightarrow> 's \<Rightarrow> StateChange \<Rightarrow> (command_error + CallResult) \<times> 's" where
  "apply_update D s change =
     (let keys = update_keys change;
          metas = ds_meta D s keys;
          refused = refused_keys metas keys;
          ill_typed = ill_typed_keys change metas keys
      in if refused \<noteq> [] then (Inl (NotAnInput refused), s)
         else if ill_typed \<noteq> [] then (Inl (NotOfDeclaredType ill_typed), s)
         else case ds_write D s change of
           (Inr _, s) \<Rightarrow> (Inr (returns Unit), s)
         | (Inl e, s) \<Rightarrow> (Inl (WriteFailed e), s))"

text \<open>A command's result, and the world after it.\<close>

definition command_result ::
  "('s, 'slot, 'e, 'i, 'f) Seams \<Rightarrow> 'f FunctionIndex \<Rightarrow> BridgeOp \<Rightarrow> ('s, 'e, 'i) World \<Rightarrow>
     (command_error + CallResult) \<times> ('s, 'e, 'i) World" where
  "command_result S function_index op w =
     (case op of
        OpGet keys \<Rightarrow>
          (Inr (returns (ArrayValue (map VOption (ds_read (sm_store S) (w_store w) keys)))), w)
      | OpUpdate change \<Rightarrow>
          (case apply_update (sm_store S) (w_store w) change of
             (r, s) \<Rightarrow> (r, w\<lparr>w_store := s\<rparr>))
      | OpCall call \<Rightarrow>
          (case sm_call S call w of
             (Inl e, w) \<Rightarrow> (Inl (CallFailed e), w)
           | (Inr r, w) \<Rightarrow> (Inr r, w))
      | OpListKeys p \<Rightarrow>
          (case sm_encode_keys S (list_keys (sm_store S) (w_store w) p) of
             Some ret \<Rightarrow> (Inr (returns ret), w)
           | None \<Rightarrow> (Inl EncodeFailed, w))
      | OpListMethods p \<Rightarrow>
          (Inr (returns (ArrayValue (map VString (list_methods function_index p)))), w)
      | OpDescribeMethods p \<Rightarrow>
          (case sm_encode_methods S (describe_methods function_index p) of
             Some ret \<Rightarrow> (Inr (returns ret), w)
           | None \<Rightarrow> (Inl EncodeFailed, w)))"

definition apply_command ::
  "('s, 'slot, 'e, 'i, 'f) Seams \<Rightarrow> 'f FunctionIndex \<Rightarrow> BridgeCommand \<Rightarrow> ('s, 'e, 'i) World \<Rightarrow>
     reply list \<Rightarrow> ('s, 'e, 'i) World \<times> reply list" where
  "apply_command S function_index cmd w replies =
     (case command_result S function_index (bc_op cmd) w of
        (r, w) \<Rightarrow> (w, replies @ [(bc_reply cmd, r)]))"

fun apply_events ::
  "('s, 'slot, 'e, 'i, 'f) Seams \<Rightarrow> 'f FunctionIndex \<Rightarrow> (nat option \<times> Inbound) list \<Rightarrow>
     ('s, 'e, 'i) World \<Rightarrow> reply list \<Rightarrow> bool list \<Rightarrow> ('s, 'e, 'i) World \<times> reply list \<times> bool list" where
  "apply_events S fi [] w replies data_requested = (w, replies, data_requested)"
| "apply_events S fi ((endpoint, event) # events) w replies data_requested =
     (case event of
        InCommand cmd \<Rightarrow>
          (case apply_command S fi cmd w replies of
             (w, replies) \<Rightarrow> apply_events S fi events w replies data_requested)
      | InDeviceInfo _ \<Rightarrow> apply_events S fi events w replies data_requested
      | InDataRequested requested \<Rightarrow>
          apply_events S fi events w replies
            (case endpoint of
               Some i \<Rightarrow> if i < length data_requested then data_requested[i := requested]
                         else data_requested
             | None \<Rightarrow> data_requested))"

section \<open>Phase 4: the behavior\<close>

text \<open>A fault is raised on the standing watch once per distinct message.\<close>

definition raise_error :: "string option \<Rightarrow> string \<Rightarrow> string option" where
  "raise_error standing message = (if standing \<noteq> Some message then Some message else standing)"

definition tick_behavior ::
  "('s, 'slot, 'e, 'i, 'f) Seams \<Rightarrow> 'f FunctionIndex \<Rightarrow> ('s, 'e, 'i) World \<Rightarrow> string option \<Rightarrow>
     ('s, 'e, 'i) World \<times> string option" where
  "tick_behavior S functions w standing =
     (case w_interpreter w of
        None \<Rightarrow> (w, standing)
      | Some behavior \<Rightarrow>
          (case sm_tick S functions behavior (w_store w, w_engine w, w_task_runs w) of
             (outcome, behavior, s, e, runs) \<Rightarrow>
               let w = \<lparr>w_store = s, w_engine = e, w_interpreter = Some behavior, w_task_runs = runs\<rparr>
               in case outcome of
                    Inr BRunning \<Rightarrow> (w, None)
                  | Inr (BDone None) \<Rightarrow> (w\<lparr>w_interpreter := None\<rparr>, None)
                  | Inr (BDone (Some error)) \<Rightarrow>
                      (w\<lparr>w_interpreter := None\<rparr>, raise_error standing error)
                  | Inl error \<Rightarrow> (w, raise_error standing error)))"

section \<open>Phases 5 and 6: the outbound change\<close>

definition flush :: "Subscription \<Rightarrow> StateChange list \<Rightarrow> StateChange \<times> Subscription" where
  "flush changes queue =
     (case drain changes queue of (cs, changes) \<Rightarrow> (fold merge cs StateChange_new, changes))"

definition reported :: "StateChange \<Rightarrow> Key \<Rightarrow> Value option \<Rightarrow> bool" where
  "reported sensor_applied key v =
     (case hm_get (sc_set sensor_applied) key of None \<Rightarrow> False | Some v' \<Rightarrow> value_opt_eq v' v)"

definition write_hal :: "StateChange list \<Rightarrow> StateChange \<Rightarrow> StateChange \<Rightarrow> StateChange list" where
  "write_hal hal out sensor_applied =
     (if \<not> (list_ex (\<lambda>(key, v). case hm_get (sc_set out) key of
                 None \<Rightarrow> False | Some v' \<Rightarrow> value_opt_eq v' v) (sc_set sensor_applied)
            \<or> list_ex (\<lambda>key. key \<in> set (sc_unset out)) (sc_unset sensor_applied))
      then hal @ [out]
      else let for_hal =
             \<lparr>sc_set = filter (\<lambda>(key, v). \<not> reported sensor_applied key v) (sc_set out),
              sc_unset = filter (\<lambda>key. key \<notin> set (sc_unset sensor_applied)) (sc_unset out)\<rparr>
           in if \<not> StateChange_is_empty for_hal then hal @ [for_hal] else hal)"

definition write_bridges ::
  "StateChange list list \<Rightarrow> bool list \<Rightarrow> StateChange \<Rightarrow> StateChange list list" where
  "write_bridges bridges asked out =
     map (\<lambda>(endpoint, sent).
        if (if endpoint < length asked then asked ! endpoint else False) then sent @ [out] else sent)
       (enumerate 0 bridges)"

section \<open>The step\<close>

definition arora_step ::
  "('s, 'slot, 'e, 'i, 'f) Seams \<Rightarrow> ('s, 'e, 'i, 'f) Arora \<Rightarrow> nat \<Rightarrow>
     (RuntimeError + unit) \<times> ('s, 'e, 'i, 'f) Arora" where
  "arora_step S self dt =
     (let self = sweep_now self;
          w = ar_world self;
          (s, stated) = describe_hal_keys (sm_store S) (w_store w) (ar_hal_keys self) (ar_hal_stated self);
          (clock, time_ns) = tick_clock (ar_clock self) dt;
          self = self\<lparr>ar_hal_keys := [], ar_hal_stated := stated, ar_clock := time_ns\<rparr>
      in case publish_clock (sm_store S) s clock of
        (Inl e, s) \<Rightarrow> (Inl e, self\<lparr>ar_world := w\<lparr>w_store := s\<rparr>\<rparr>)
      | (Inr _, s) \<Rightarrow>
        (let sensors = ar_sensors self;
             self = self\<lparr>ar_sensors := []\<rparr>
         in case apply_sensors (sm_store S) s sensors StateChange_new of
           (Inl e, s) \<Rightarrow> (Inl e, self\<lparr>ar_world := w\<lparr>w_store := s\<rparr>\<rparr>)
         | (Inr sensor_applied, s) \<Rightarrow>
           (let (w, replies, requested) =
                  apply_events S (ar_function_index self) (ar_events self) (w\<lparr>w_store := s\<rparr>)
                    (ar_replies self) (ar_data_requested self);
                (w, standing) = tick_behavior S (ar_function_index self) w (ar_behavior_error self);
                (runs, _) = report_task_runs (sm_store S) (w_store w) (w_task_runs w)
                              (ar_function_index self);
                changes = ar_store_changes self;
                (out, changes') = flush changes (sm_queue S (w_store w) (rx changes));
                w = w\<lparr>w_task_runs := runs, w_store := sm_taken S (w_store w) (rx changes)\<rparr>;
                self = self\<lparr>ar_world := w, ar_events := [], ar_replies := replies,
                            ar_data_requested := requested, ar_behavior_error := standing,
                            ar_store_changes := changes'\<rparr>
            in (Inr (),
                if StateChange_is_empty out then self
                else self\<lparr>ar_hal_sent := write_hal (ar_hal_sent self) out sensor_applied,
                          ar_bridges_sent := write_bridges (ar_bridges_sent self) requested out\<rparr>))))"

section \<open>The metronome\<close>

record Metronome =
  mt_period :: nat
  mt_next_due :: "nat option"

definition Metronome_new :: "nat \<Rightarrow> Metronome" where
  "Metronome_new period = \<lparr>mt_period = period, mt_next_due = None\<rparr>"

text \<open>
  \<open>tick\<close> at the instant \<open>now\<close> (in nanoseconds): how long it waits (\<open>None\<close> when it does not
  suspend, \<open>Some 0\<close> when it yields once), the metronome while it waits, and after.
\<close>

definition metronome_tick :: "nat \<Rightarrow> Metronome \<Rightarrow> nat option \<times> Metronome \<times> Metronome" where
  "metronome_tick now self =
     (case mt_next_due self of
        None \<Rightarrow>
          let self' = self\<lparr>mt_next_due := Some (now + mt_period self)\<rparr> in (None, self', self')
      | Some due \<Rightarrow>
          if now < due
          then (Some (due - now), self, self\<lparr>mt_next_due := Some (due + mt_period self)\<rparr>)
          else let self' = self\<lparr>mt_next_due := Some (now + mt_period self)\<rparr>
               in (Some 0, self', self'))"

section \<open>Coalescing\<close>

text \<open>A coalesced change decides each key once.\<close>

definition merged_ok :: "StateChange \<Rightarrow> bool" where
  "merged_ok c \<longleftrightarrow> change_ok c \<and> set (hm_keys (sc_set c)) \<inter> set (sc_unset c) = {}"

lemma hm_keys_insert: "set (hm_keys (hm_insert k v m)) = insert k (set (hm_keys m))"
  by (simp add: hm_insert_def dom_update flip: dom_map_of_conv_image_fst)
    (simp add: update_conv' flip: dom_map_of_conv_image_fst)

lemma hm_keys_remove: "set (hm_keys (hm_remove k m)) = set (hm_keys m) - {k}"
  by (simp flip: dom_map_of_conv_image_fst)

lemma merge_set_ok: "merged_ok m \<Longrightarrow> merged_ok (merge_set kv m)"
  unfolding merged_ok_def merge_set_def
  by (auto simp: hm_keys_insert simp del: set_map)

lemma merge_unset_ok: "merged_ok m \<Longrightarrow> merged_ok (merge_unset k m)"
  unfolding merged_ok_def merge_unset_def
  by (auto simp: hm_keys_remove simp del: set_map)

lemma merge_sets:
  "merged_ok m \<Longrightarrow> hm_ok kvs \<Longrightarrow> merged_ok (fold merge_set kvs m)
    \<and> effect (fold merge_set kvs m) k old =
       (case map_of kvs k of Some v \<Rightarrow> v | None \<Rightarrow> effect m k old)"
proof (induction kvs arbitrary: m)
  case (Cons kv kvs)
  then have "merged_ok (merge_set kv m)" by (simp add: merge_set_ok)
  moreover have "effect (merge_set kv m) k old = (if k = fst kv then snd kv else effect m k old)"
    by (auto simp: effect_def merge_set_def)
  moreover have "map_of kvs (fst kv) = None" using Cons.prems by (simp add: map_of_eq_None_iff)
  ultimately show ?case using Cons by (cases kv) (auto split: option.splits)
qed simp

lemma merge_unsets:
  "merged_ok m \<Longrightarrow> merged_ok (fold merge_unset ks m)
    \<and> effect (fold merge_unset ks m) k old = (if k \<in> set ks then None else effect m k old)"
proof (induction ks arbitrary: m)
  case (Cons k' ks)
  then have "merged_ok (merge_unset k' m)" by (simp add: merge_unset_ok)
  moreover have "effect (merge_unset k' m) k old = (if k = k' then None else effect m k old)"
    by (auto simp: effect_def merge_unset_def)
  ultimately show ?case using Cons by auto
qed simp

lemma merge_facts:
  assumes "merged_ok m" "change_ok c"
  shows "merged_ok (merge c m)" and "effect (merge c m) k old = effect c k (effect m k old)"
proof -
  have 1: "merged_ok (fold merge_set (sc_set c) m)"
    "effect (fold merge_set (sc_set c) m) k old =
      (case map_of (sc_set c) k of Some v \<Rightarrow> v | None \<Rightarrow> effect m k old)"
    using merge_sets assms by auto
  show "merged_ok (merge c m)" "effect (merge c m) k old = effect c k (effect m k old)"
    using merge_unsets [OF 1(1), of "sc_unset c"] 1(2)
    by (auto simp: merge_def effect_def [of c])
qed

lemma merged_new [simp]: "merged_ok StateChange_new" "effect StateChange_new k old = old"
  by (simp_all add: merged_ok_def StateChange_new_def effect_def)

lemma merge_all:
  "merged_ok m \<Longrightarrow> list_all (\<lambda>c. change_ok c) cs \<Longrightarrow> merged_ok (fold merge cs m)
    \<and> effect (fold merge cs m) k old = fold (\<lambda>c. effect c k) cs (effect m k old)"
  by (induction cs arbitrary: m) (auto simp: merge_facts)

lemma state_value_replay:
  "list_all (\<lambda>c. change_ok c) cs \<Longrightarrow>
    state_value (replay cs st) k = fold (\<lambda>c. effect c k) cs (state_value st k)"
  unfolding replay_def by (induction cs arbitrary: st) (auto simp: state_value_apply)

text \<open>
  C30. The one change a step sends out stands for everything the store's feed delivered during the
  step: whatever state a receiver holds, applying the coalesced change leaves every key with the
  value that applying the delivered changes one after the other leaves it with. The coalesced
  change names each key at most once, set or unset, never both.
\<close>

theorem flush_coalesces:
  assumes "list_all (\<lambda>c. change_ok c) (fst (try_iter changes queue))"
  shows "state_value (State_apply st (fst (flush changes queue))) k
      = state_value (replay (fst (try_iter changes queue)) st) k
    \<and> merged_ok (fst (flush changes queue))"
proof -
  let ?cs = "fst (drain changes queue)"
  have ok: "list_all (\<lambda>c. change_ok c) ?cs" using assms by (simp add: try_iter_polls)
  have out: "fst (flush changes queue) = fold merge ?cs StateChange_new"
    by (simp add: flush_def case_prod_unfold)
  have m: "merged_ok (fold merge ?cs StateChange_new)"
    "effect (fold merge ?cs StateChange_new) k old = fold (\<lambda>c. effect c k) ?cs old" for old
    using merge_all [OF merged_new(1) ok] by auto
  then have "change_ok (fold merge ?cs StateChange_new)" by (simp add: merged_ok_def)
  with m ok show ?thesis
    by (simp add: out try_iter_polls state_value_apply state_value_replay)
qed

theorem flush_coalesces_witness:
  "state_value (State_apply State_new (fst (flush (Subscription_new 0)
      [StateChange_set ''a'' (U8 1), \<lparr>sc_set = [(''b'', Some (U8 2))], sc_unset = [''a'']\<rparr>]))) ''a'' = None"
proof -
  let ?q = "[StateChange_set ''a'' (U8 1), \<lparr>sc_set = [(''b'', Some (U8 2))], sc_unset = [''a'']\<rparr>]"
  have "fst (try_iter (Subscription_new 0) ?q) = ?q"
    by (simp add: Subscription_new_def deliver_def)
  with flush_coalesces [of "Subscription_new 0" ?q State_new "''a''"] show ?thesis
    by (simp add: StateChange_set_def replay_def state_value_apply effect_def)
qed

section \<open>What the hardware is told\<close>

text \<open>The outbound change less what the hardware itself reported.\<close>

definition hal_part :: "StateChange \<Rightarrow> StateChange \<Rightarrow> StateChange" where
  "hal_part out sensor_applied =
     \<lparr>sc_set = filter (\<lambda>(key, v). \<not> reported sensor_applied key v) (sc_set out),
      sc_unset = filter (\<lambda>key. key \<notin> set (sc_unset sensor_applied)) (sc_unset out)\<rparr>"

lemma value_opt_eq_sym: "value_opt_eq a b = value_opt_eq b a"
  by (cases a; cases b) (auto simp: value_eq_def)

text \<open>
  C31. The hardware is told exactly the frame's changes that are not its own readings: when some
  outbound key carries the value the hardware reported for it, those keys are left out, and
  nothing is sent when nothing is left; the shortcut that lends the whole change when no reading
  is reported back sends that same part.
\<close>

theorem hal_hears_no_echo:
  assumes "change_ok out" and "change_ok sensor_applied" and "\<not> StateChange_is_empty out"
  shows "write_hal hal out sensor_applied =
    (if StateChange_is_empty (hal_part out sensor_applied) then hal
     else hal @ [hal_part out sensor_applied])"
proof -
  let ?reports = "list_ex (\<lambda>(key, v). case hm_get (sc_set out) key of
      None \<Rightarrow> False | Some v' \<Rightarrow> value_opt_eq v' v) (sc_set sensor_applied)
    \<or> list_ex (\<lambda>key. key \<in> set (sc_unset out)) (sc_unset sensor_applied)"
  have "hal_part out sensor_applied = out" if "\<not> ?reports"
  proof -
    have "\<not> reported sensor_applied k v" if "(k, v) \<in> set (sc_set out)" for k v
    proof (cases "map_of (sc_set sensor_applied) k")
      case (Some v')
      then have "(k, v') \<in> set (sc_set sensor_applied)" by (rule map_of_SomeD)
      moreover have "map_of (sc_set out) k = Some v" using assms(1) that by simp
      ultimately have "\<not> value_opt_eq v v'"
        using \<open>\<not> ?reports\<close> by (fastforce simp: list_ex_iff)
      with Some show ?thesis by (simp add: reported_def value_opt_eq_sym)
    qed (simp add: reported_def)
    moreover have "k \<notin> set (sc_unset sensor_applied)" if "k \<in> set (sc_unset out)" for k
      using that \<open>\<not> ?reports\<close> by (auto simp: list_ex_iff)
    ultimately have "filter (\<lambda>(key, v). \<not> reported sensor_applied key v) (sc_set out) = sc_set out"
      "filter (\<lambda>key. key \<notin> set (sc_unset sensor_applied)) (sc_unset out) = sc_unset out"
      by (auto intro!: filter_True)
    then show ?thesis by (simp add: hal_part_def)
  qed
  with assms(3) show ?thesis by (auto simp: write_hal_def hal_part_def [symmetric] Let_def)
qed

theorem hal_hears_no_echo_witness:
  "write_hal [] \<lparr>sc_set = [(''a'', Some (U8 1)), (''b'', Some (U8 2))], sc_unset = []\<rparr>
      (StateChange_set ''a'' (U8 1))
    = [StateChange_set ''b'' (U8 2)]"
  using hal_hears_no_echo [of "\<lparr>sc_set = [(''a'', Some (U8 1)), (''b'', Some (U8 2))], sc_unset = []\<rparr>"
      "StateChange_set ''a'' (U8 1)" "[]"]
  by (simp add: hal_part_def reported_def StateChange_set_def StateChange_is_empty_def value_eq_def)

section \<open>The cadence\<close>

text \<open>
  The instants at which a caller's ticks complete, when it works for the given times between
  them and every wait lasts exactly as long as asked.
\<close>

fun completions :: "Metronome \<Rightarrow> nat \<Rightarrow> nat list \<Rightarrow> nat list" where
  "completions m now [] = []"
| "completions m now (work # works) =
     (case metronome_tick now m of (wait, _, m) \<Rightarrow>
        let completed = now + (case wait of None \<Rightarrow> 0 | Some d \<Rightarrow> d)
        in completed # completions m (completed + work) works)"

lemma metronome_tick_due:
  assumes "metronome_tick now m = (wait, m', m'')"
  shows "mt_next_due m'' = Some (now + (case wait of None \<Rightarrow> 0 | Some d \<Rightarrow> d) + mt_period m)"
    and "mt_period m'' = mt_period m"
    and "mt_next_due m = Some due \<Longrightarrow> now + (case wait of None \<Rightarrow> 0 | Some d \<Rightarrow> d) = max now due"
  using assms by (auto simp: metronome_tick_def Let_def split: option.splits if_splits)

lemma completions_from:
  "mt_next_due m = Some due \<Longrightarrow> mt_period m = p \<Longrightarrow> i < length works \<Longrightarrow>
     completions m now works ! i =
       (if i = 0 then max now due
        else completions m now works ! (i - 1) + max p (works ! (i - 1)))"
proof (induction works arbitrary: m now i due)
  case (Cons w ws)
  obtain wait m1 m2 where t: "metronome_tick now m = (wait, m1, m2)" by (metis prod_cases3)
  note facts = metronome_tick_due [OF t]
  let ?c = "now + (case wait of None \<Rightarrow> 0 | Some d \<Rightarrow> d)"
  have c: "?c = max now due" using facts(3) Cons.prems(1) by simp
  have head: "completions m now (w # ws) = ?c # completions m2 (?c + w) ws"
    using t by (simp add: Let_def)
  have due: "mt_next_due m2 = Some (?c + p)" "mt_period m2 = p"
    using facts(1,2) Cons.prems(2) by simp_all
  show ?case
  proof (cases i)
    case (Suc j)
    then have j: "j < length ws" using Cons.prems(3) by simp
    from Cons.IH [OF due j, of "?c + w"] show ?thesis
      using Suc by (cases j) (simp_all add: head max_def del: completions.simps)
  qed (simp add: head c del: completions.simps)
qed simp

lemma completions_length [simp]: "length (completions m now works) = length works"
  by (induction works arbitrary: m now) (auto simp: Let_def split: prod.splits)



section \<open>What a remote may write\<close>

definition key_meta :: "('s, 'slot) DataStore \<Rightarrow> 's \<Rightarrow> Key \<Rightarrow> KeyMeta option" where
  "key_meta D s k = hd (ds_meta D s [k])"

text \<open>A key takes a remote's value: it is an input, and the value is of its declared type.\<close>

definition takes :: "KeyMeta option \<Rightarrow> Value option \<Rightarrow> bool" where
  "takes m v \<longleftrightarrow> (\<exists>m'. m = Some m' \<and> km_editable m'
     \<and> (\<forall>ty v'. km_ty m' = Some ty \<longrightarrow> v = Some v' \<longrightarrow> kind v' = ty))"

definition accepts :: "('s, 'slot) DataStore \<Rightarrow> 's \<Rightarrow> StateChange \<Rightarrow> bool" where
  "accepts D s c \<longleftrightarrow> (\<forall>k \<in> set (hm_keys (sc_set c)) \<union> set (sc_unset c).
     takes (key_meta D s k) (Option.bind (map_of (sc_set c) k) (\<lambda>v. v)))"

text \<open>
  What the step asks of the device's store beyond the trait's contract: descriptions are answered
  key by key, and a write changes none of them.
\<close>

locale device_store = data_store D inv names
  for D :: "('s, 'slot) DataStore" and inv names +
  assumes meta_map: "inv s \<Longrightarrow> ds_meta D s ks = map (key_meta D s) ks"
    and meta_write: "inv s \<Longrightarrow> change_ok c \<Longrightarrow> key_meta D (snd (ds_write D s c)) k = key_meta D s k"
    and all_meta_ok: "inv s \<Longrightarrow> hm_ok (ds_all_meta D s)"
begin

lemma update_checked:
  assumes "inv s"
  shows "refused_keys (ds_meta D s (update_keys c)) (update_keys c) = []
     \<and> ill_typed_keys c (ds_meta D s (update_keys c)) (update_keys c) = [] \<longleftrightarrow> accepts D s c"
proof -
  have keys: "set (update_keys c) = set (hm_keys (sc_set c)) \<union> set (sc_unset c)"
    by (auto simp: update_keys_def hm_contains_def)
  have z: "set (zip (map f ks) ks) = (\<lambda>k. (f k, k)) ` set ks" for f :: "Key \<Rightarrow> KeyMeta option" and ks
    by (induction ks) auto
  have "refused_keys (map f ks) ks = [] \<and> ill_typed_keys c (map f ks) ks = [] \<longleftrightarrow>
     (\<forall>k \<in> set ks. takes (f k) (Option.bind (map_of (sc_set c) k) (\<lambda>v. v)))" for f ks
    by (simp add: refused_keys_def ill_typed_keys_def filter_empty_conv z ball_conj_distrib [symmetric])
      (auto simp: takes_def conforms_to_def split: option.splits intro!: ball_cong)
  then show ?thesis using assms by (simp add: meta_map accepts_def keys del: set_map)
qed

lemma apply_update_gate:
  assumes "inv s" "change_ok c"
  shows "accepts D s c \<Longrightarrow> apply_update D s c = (Inr (returns Unit), snd (ds_write D s c))"
    and "\<not> accepts D s c \<Longrightarrow> snd (apply_update D s c) = s \<and> (\<exists>e. fst (apply_update D s c) = Inl e)"
  using update_checked [OF assms(1), of c] write_result [OF assms]
  by (auto simp: apply_update_def Let_def split: prod.splits sum.splits)

lemma apply_update_facts:
  assumes "inv s" "change_ok c"
  shows "inv (snd (apply_update D s c))"
    and "key_meta D (snd (apply_update D s c)) k = key_meta D s k"
    and "ds_value D (snd (apply_update D s c)) k =
      (if accepts D s c then written c k (ds_value D s k) else ds_value D s k)"
proof -
  have s': "snd (apply_update D s c) = (if accepts D s c then snd (ds_write D s c) else s)"
    using apply_update_gate [OF assms] by auto
  show "inv (snd (apply_update D s c))"
    unfolding s' using assms by (simp add: write_inv)
  show "key_meta D (snd (apply_update D s c)) k = key_meta D s k"
    unfolding s' using assms by (simp add: meta_write)
  show "ds_value D (snd (apply_update D s c)) k =
      (if accepts D s c then written c k (ds_value D s k) else ds_value D s k)"
    unfolding s' using assms by (simp add: write_value)
qed

lemma closed_key_kept:
  assumes "inv s" "change_ok c" "\<not> (\<exists>m. key_meta D s k = Some m \<and> km_editable m)"
  shows "ds_value D (snd (apply_update D s c)) k = ds_value D s k"
proof (cases "accepts D s c")
  case True
  with assms(3) have "k \<notin> set (hm_keys (sc_set c)) \<union> set (sc_unset c)"
    unfolding accepts_def takes_def by blast
  then have "k \<notin> set (sc_unset c)" "map_of (sc_set c) k = None"
    by (simp_all add: map_of_eq_None_iff)
  then have "written c k old = old" for old by (simp add: written_def)
  with assms show ?thesis by (simp add: apply_update_facts)
qed (simp add: apply_update_facts assms)

text \<open>The frame's readings, one after the other.\<close>

lemma apply_sensors_facts:
  assumes "inv s" "list_all (\<lambda>c. change_ok c) cs"
  shows "fst (apply_sensors D s cs applied) = Inr (fold merge cs applied)
    \<and> inv (snd (apply_sensors D s cs applied))
    \<and> ds_value D (snd (apply_sensors D s cs applied)) k = fold (\<lambda>c. written c k) cs (ds_value D s k)"
  using assms
proof (induction cs arbitrary: s applied)
  case (Cons c cs)
  then have ok: "inv s" "change_ok c" by auto
  have w: "ds_write D s c = (Inr (), snd (ds_write D s c))"
    using write_result [OF ok] by (simp add: prod_eq_iff)
  from Cons.IH [OF write_inv [OF ok]] Cons.prems(2) show ?case
    by (subst apply_sensors.simps, subst w)+ (simp add: write_value [OF ok])
qed simp

end

lemma meta_simple: "meta s ks = map (\<lambda>k. hd (meta s [k])) ks"
  by (simp add: meta_def)

lemma meta_same: "in_meta s' = in_meta s \<Longrightarrow> in_prefix_meta s' = in_prefix_meta s \<Longrightarrow> meta s' ks = meta s ks"
  by (simp add: meta_def cong: option.case_cong)

lemma write_set_meta:
  "in_meta (fst (write_set kv st)) = in_meta (fst st)"
  "in_prefix_meta (fst (write_set kv st)) = in_prefix_meta (fst st)"
  "in_meta (fst (write_unset k st)) = in_meta (fst st)"
  "in_prefix_meta (fst (write_unset k st)) = in_prefix_meta (fst st)"
  by (auto simp: write_set_def write_unset_def cell_def Let_def split: prod.splits option.splits)

lemma fold_keeps: "(\<And>x st. P (f x st) = P st) \<Longrightarrow> P (fold f xs st) = P st"
  by (induction xs arbitrary: st) simp_all

lemma fold_write_meta:
  "in_meta (fst (fold write_set kvs st)) = in_meta (fst st)"
  "in_prefix_meta (fst (fold write_set kvs st)) = in_prefix_meta (fst st)"
  "in_meta (fst (fold write_unset ks st)) = in_meta (fst st)"
  "in_prefix_meta (fst (fold write_unset ks st)) = in_prefix_meta (fst st)"
  using fold_keeps [of "\<lambda>st. in_meta (fst st)" write_set kvs st]
    fold_keeps [of "\<lambda>st. in_prefix_meta (fst st)" write_set kvs st]
    fold_keeps [of "\<lambda>st. in_meta (fst st)" write_unset ks st]
    fold_keeps [of "\<lambda>st. in_prefix_meta (fst st)" write_unset ks st]
  by (simp_all add: write_set_meta)

lemma store_write_meta:
  "in_meta (snd (store_write s c)) = in_meta s"
  "in_prefix_meta (snd (store_write s c)) = in_prefix_meta s"
  by (simp_all add: store_write_def write_cells_def notify_def fold_write_meta case_prod_unfold)

lemma store_write_meta_same: "meta (snd (store_write s c)) ks = meta s ks"
  by (rule meta_same [OF store_write_meta])

interpretation dev_simple: device_store simple_store store_inv names_key
proof unfold_locales
  fix s k c and ks
  show "ds_meta simple_store s ks = map (key_meta simple_store s) ks"
    unfolding key_meta_def simple_store_sel by (rule meta_simple)
  show "key_meta simple_store (snd (ds_write simple_store s c)) k = key_meta simple_store s k"
    unfolding key_meta_def simple_store_sel by (simp add: store_write_meta_same)
  show "store_inv s \<Longrightarrow> hm_ok (ds_all_meta simple_store s)"
    by (simp add: all_meta_def store_inv_def)
qed

interpretation dev_ns: device_store "NamespacedStore ns simple_store" store_inv
  "\<lambda>s h k. names_key s h (prefixed ns k)" for ns
proof unfold_locales
  fix s k c and ks
  show "ds_meta (NamespacedStore ns simple_store) s ks =
      map (key_meta (NamespacedStore ns simple_store) s) ks"
    using meta_simple [of s "map (prefixed ns) ks"] by (simp add: key_meta_def ns_meta_def comp_def)
  show "key_meta (NamespacedStore ns simple_store) (snd (ds_write (NamespacedStore ns simple_store) s c)) k
      = key_meta (NamespacedStore ns simple_store) s k"
    by (simp add: key_meta_def ns_meta_def ns_write_def store_write_meta_same)
  show "store_inv s \<Longrightarrow> hm_ok (ds_all_meta (NamespacedStore ns simple_store) s)"
    by (simp add: ns_all_meta_def relative_entries_lookup all_meta_def store_inv_def)
qed

end
