(* ===== verification/Runtime_Props.thy ===== *)
theory Runtime_Props
  imports Runtime_Step
begin

text \<open>
  What the device's step guarantees (\<open>crates/arora/src/runtime.rs\<close>): the gate on remote writes,
  the order of the frame's writers, the clock, the listing of keys, and the mirror a remote keeps
  by applying what the steps send it.
\<close>

section \<open>Remote writes\<close>

text \<open>
  C6. A remote's update is all or nothing, and only for inputs: when every key it names is an
  input and every value it sets is of the key's declared type, it is written whole and answered
  with unit; otherwise it is answered with an error and the store is left exactly as it was.
\<close>

theorem remote_update_gate:
  assumes "store_inv s" and "change_ok c"
  shows "if accepts simple_store s c
    then fst (apply_update simple_store s c) = Inr (returns Unit)
      \<and> hd (store_read (snd (apply_update simple_store s c)) [k]) = written c k (hd (store_read s [k]))
    else (\<exists>e. fst (apply_update simple_store s c) = Inl e)
      \<and> snd (apply_update simple_store s c) = s"
proof (cases "accepts simple_store s c")
  case True
  with dev_simple.apply_update_gate(1) [OF assms] assms show ?thesis
    by (simp add: read_values store_write_facts)
next
  case False
  with dev_simple.apply_update_gate(2) [OF assms] show ?thesis by simp
qed

definition sample_device :: Inner where
  "sample_device = snd (set_meta SimpleDataStore_new
     [(''in'', editable (of_type KeyMeta_new TU8)), (''out'', KeyMeta_new)])"

lemma sample_device_inv: "store_inv sample_device"
  by (simp add: sample_device_def set_meta_def SimpleDataStore_new_def store_inv_def hm_extend_def)

lemmas device_eval = accepts_def takes_def key_meta_def meta_def sample_device_def set_meta_def
  SimpleDataStore_new_def hm_extend_def editable_def of_type_def KeyMeta_new_def StateChange_set_def

theorem remote_update_gate_witness:
  "fst (apply_update simple_store sample_device (StateChange_set ''in'' (U8 4))) = Inr (returns Unit)
   \<and> snd (apply_update simple_store sample_device (StateChange_set ''in'' (Boolean True))) = sample_device
   \<and> snd (apply_update simple_store sample_device (StateChange_set ''out'' (U8 4))) = sample_device"
proof (intro conjI)
  have "accepts simple_store sample_device (StateChange_set ''in'' (U8 4))"
    by (simp add: device_eval)
  with remote_update_gate [OF sample_device_inv, of "StateChange_set ''in'' (U8 4)" "''in''"]
  show "fst (apply_update simple_store sample_device (StateChange_set ''in'' (U8 4))) = Inr (returns Unit)"
    by (simp add: StateChange_set_def)
  have "\<not> accepts simple_store sample_device (StateChange_set ''in'' (Boolean True))"
    by (simp add: device_eval)
  with remote_update_gate [OF sample_device_inv, of "StateChange_set ''in'' (Boolean True)" "''in''"]
  show "snd (apply_update simple_store sample_device (StateChange_set ''in'' (Boolean True))) = sample_device"
    by (simp add: StateChange_set_def)
  have "\<not> accepts simple_store sample_device (StateChange_set ''out'' (U8 4))"
    by (simp add: device_eval)
  with remote_update_gate [OF sample_device_inv, of "StateChange_set ''out'' (U8 4)" "''out''"]
  show "snd (apply_update simple_store sample_device (StateChange_set ''out'' (U8 4))) = sample_device"
    by (simp add: StateChange_set_def)
qed

text \<open>The events a phase 3 applies without calling into a module.\<close>

fun calls_nothing :: "Inbound \<Rightarrow> bool" where
  "calls_nothing (InCommand cmd) =
     (case bc_op cmd of OpCall _ \<Rightarrow> False | OpUpdate c \<Rightarrow> change_ok c | _ \<Rightarrow> True)"
| "calls_nothing _ = True"

lemma command_result_store:
  assumes "calls_nothing (InCommand cmd)"
  shows "w_store (snd (command_result S fi (bc_op cmd) w)) =
    (case bc_op cmd of OpUpdate c \<Rightarrow> snd (apply_update (sm_store S) (w_store w) c) | _ \<Rightarrow> w_store w)"
  using assms
  by (auto simp: command_result_def split: BridgeOp.splits prod.splits option.splits)

context device_store
begin

lemma apply_events_closed:
  assumes "sm_store S = D" "inv (w_store w)" "list_all (\<lambda>(_, ev). calls_nothing ev) evs"
    "\<not> (\<exists>m. key_meta D (w_store w) k = Some m \<and> km_editable m)"
  shows "ds_value D (w_store (fst (apply_events S fi evs w replies asked))) k = ds_value D (w_store w) k"
  using assms(2-)
proof (induction evs arbitrary: w replies asked)
  case (Cons ev evs)
  obtain endpoint event where ev: "ev = (endpoint, event)" by (cases ev)
  show ?case
  proof (cases event)
    case (InCommand cmd)
    define w1 where "w1 = snd (command_result S fi (bc_op cmd) w)"
    have c: "calls_nothing (InCommand cmd)" using Cons.prems(2) ev InCommand by simp
    have store: "w_store w1 =
      (case bc_op cmd of OpUpdate c \<Rightarrow> snd (apply_update D (w_store w) c) | _ \<Rightarrow> w_store w)"
      unfolding w1_def by (simp add: command_result_store [OF c] assms(1) split: BridgeOp.split)
    have "inv (w_store w1)" "key_meta D (w_store w1) k = key_meta D (w_store w) k"
      "ds_value D (w_store w1) k = ds_value D (w_store w) k"
      using c Cons.prems unfolding store
      by (auto simp: apply_update_facts(1,2) closed_key_kept split: BridgeOp.splits)
    with Cons.IH [of w1] Cons.prems ev InCommand show ?thesis
      by (auto simp: apply_command_def case_prod_unfold w1_def [symmetric])
  qed (use Cons ev in auto)
qed simp

end

text \<open>
  C7. Whatever the remotes send in a frame, short of a module call, a key that is not an input
  keeps its value: updates in any number and order, mixed with reads, listings and other events,
  never change it.
\<close>

theorem closed_keys_stay:
  assumes "sm_store S = simple_store" and "store_inv (w_store w)"
    and "list_all (\<lambda>(_, event). calls_nothing event) events"
    and "\<forall>m. key_meta simple_store (w_store w) k = Some m \<longrightarrow> \<not> km_editable m"
  shows "hd (store_read (w_store (fst (apply_events S fi events w replies asked))) [k])
    = hd (store_read (w_store w) [k])"
  using dev_simple.apply_events_closed [OF assms(1-3)] assms(4) by (simp add: read_values)

text \<open>
  A concrete set of seams over the hash-map store: the feed is the store's channel, a call
  answers with unit, and the behavior writes one key and keeps running.
\<close>

definition simple_queue :: "Inner \<Rightarrow> nat \<Rightarrow> StateChange list" where
  "simple_queue s r = ch_queue (in_channels s ! r)"

definition simple_taken :: "Inner \<Rightarrow> nat \<Rightarrow> Inner" where
  "simple_taken s r = s\<lparr>in_channels := (in_channels s)[r := (in_channels s ! r)\<lparr>ch_queue := []\<rparr>]\<rparr>"

definition sample_seams :: "(Inner, SimpleSlot, unit, unit, unit) Seams" where
  "sample_seams = \<lparr>sm_store = simple_store, sm_queue = simple_queue, sm_taken = simple_taken,
     sm_call = (\<lambda>_ w. (Inr (returns Unit), w)),
     sm_tick = (\<lambda>_ i (s, e, runs).
       (Inr BRunning, i, snd (store_write s (StateChange_set ''out'' (U8 9))), e, runs)),
     sm_encode_keys = (\<lambda>_. None), sm_encode_methods = (\<lambda>_. None)\<rparr>"

definition sample_world :: "Inner \<Rightarrow> (Inner, unit, unit) World" where
  "sample_world s = \<lparr>w_store = s, w_engine = (), w_interpreter = Some (), w_task_runs = []\<rparr>"

theorem closed_keys_stay_witness:
  "hd (store_read (w_store (fst (apply_events sample_seams []
      [(Some 0, InCommand \<lparr>bc_op = OpUpdate (StateChange_set ''out'' (U8 4)), bc_reply = 0\<rparr>)]
      (sample_world sample_device) [] []))) [''out'']) = None"
proof -
  have "hd (store_read (w_store (fst (apply_events sample_seams []
      [(Some 0, InCommand \<lparr>bc_op = OpUpdate (StateChange_set ''out'' (U8 4)), bc_reply = 0\<rparr>)]
      (sample_world sample_device) [] []))) [''out''])
    = hd (store_read (w_store (sample_world sample_device)) [''out''])"
    using sample_device_inv
    by (intro closed_keys_stay)
      (simp_all add: sample_seams_def sample_world_def StateChange_set_def,
        simp add: device_eval)
  also have "\<dots> = None"
    by (simp add: sample_world_def store_read_def device_eval)
  finally show ?thesis .
qed

end
