(* ===== verification/Runtime_Mirror.thy ===== *)
theory Runtime_Mirror
  imports Runtime_Props
begin

text \<open>
  The device and a remote that follows it: through any step, whatever the hardware, the remotes,
  the modules and the behavior write, a remote that applies the outbound change it is sent holds
  the store's values (\<open>crates/arora/src/runtime.rs\<close> over
  \<open>crates/arora-simple-data-store/src/lib.rs\<close>).
\<close>

section \<open>Operations of the store\<close>

text \<open>
  What code that is handed the store can make of it: any number of its operations. The steps
  leave the observers alone, so they are taken without any.
\<close>

inductive store_ops :: "Inner \<Rightarrow> Inner \<Rightarrow> bool" where
  ops_none: "store_ops s s"
| ops_more: "store_ops s s' \<Longrightarrow> store_step (s', []) (s'', []) \<Longrightarrow> store_ops s s''"

inductive_cases store_step_aloneE: "store_step (s, []) (s', [])"

lemma store_step_observed: "store_step (s, []) (s', []) \<Longrightarrow> store_step (s, obs) (s', obs)"
  by (erule store_step_aloneE) (auto intro: store_step.intros)

text \<open>A store its follower keeps up with: the state of the follower is \<open>M\<close>.\<close>

definition followed :: "Inner \<Rightarrow> Subscription \<Rightarrow> State \<Rightarrow> bool" where
  "followed s sub M \<longleftrightarrow> store_inv s \<and> observes s \<lparr>ob_sub = sub, ob_prefix = [], ob_state = M\<rparr>"

lemma followed_step: "store_step (s, []) (s', []) \<Longrightarrow> followed s sub M \<Longrightarrow> followed s' sub M"
  using system_step [OF store_step_observed, of s s' "[\<lparr>ob_sub = sub, ob_prefix = [], ob_state = M\<rparr>]"]
  by (simp add: followed_def system_inv_def)

lemma followed_ops: "store_ops s s' \<Longrightarrow> followed s sub M \<Longrightarrow> followed s' sub M"
  by (induction rule: store_ops.induct) (auto intro: followed_step)

lemma followed_write: "change_ok c \<Longrightarrow> followed s sub M \<Longrightarrow> followed (snd (store_write s c)) sub M"
  by (rule followed_step) (auto intro: store_step.intros)

lemma followed_set_meta: "hm_ok m \<Longrightarrow> followed s sub M \<Longrightarrow> followed (snd (set_meta s m)) sub M"
  by (rule followed_step) (auto intro: store_step.intros)

lemma followed_inv [dest]: "followed s sub M \<Longrightarrow> store_inv s"
  by (simp add: followed_def)

section \<open>The phases keep the follower\<close>

lemma describe_hal_keys_followed:
  "list_all (\<lambda>m. hm_ok m) ds \<Longrightarrow> followed s sub M \<Longrightarrow>
    followed (fst (describe_hal_keys simple_store s ds stated)) sub M"
proof (induction simple_store s ds stated rule: describe_hal_keys.induct)
  case (2 s description rest stated)
  let ?d = "filter (\<lambda>(key, _). own_or_unstated (all_meta s) stated key) description"
  have "hm_ok ?d" using "2.prems"(1) by simp
  from followed_set_meta [OF this "2.prems"(2)] have "followed (snd (set_meta s ?d)) sub M" .
  with 2 show ?case by (auto simp: set_meta_def Let_def)
qed simp

lemma publish_clock_followed:
  assumes "followed s sub M"
  shows "fst (publish_clock simple_store s cv) = Inr ()"
    and "followed (snd (publish_clock simple_store s cv)) sub M"
proof -
  let ?c = "\<lparr>sc_set = hm_insert TIME (Some (U64 (cv_time_ns cv)))
      (hm_insert DT (Some (U64 (cv_dt_ns cv))) (sc_set StateChange_new)),
    sc_unset = sc_unset StateChange_new\<rparr>"
  have c: "change_ok ?c" by (simp add: StateChange_new_def hm_insert_def)
  have w: "ds_write simple_store s ?c = (Inr (), snd (store_write s ?c))"
    using simple.write_result [OF followed_inv [OF assms] c] by (simp add: prod_eq_iff)
  have eq: "publish_clock simple_store s cv = (Inr (), snd (store_write s ?c))"
    unfolding publish_clock_def w by simp
  show "fst (publish_clock simple_store s cv) = Inr ()" by (simp add: eq)
  show "followed (snd (publish_clock simple_store s cv)) sub M"
    unfolding eq snd_conv by (rule followed_write [OF c assms])
qed

lemma apply_sensors_followed:
  "list_all (\<lambda>c. change_ok c) cs \<Longrightarrow> followed s sub M \<Longrightarrow>
    followed (snd (apply_sensors simple_store s cs applied)) sub M"
proof (induction cs arbitrary: s applied)
  case (Cons c cs)
  then have ok: "change_ok c" "store_inv s" by auto
  have w: "ds_write simple_store s c = (Inr (), snd (store_write s c))"
    using simple.write_result [OF ok(2,1)] by (simp add: prod_eq_iff)
  show ?case
    using Cons.IH [OF _ followed_write [OF ok(1) Cons.prems(2)]] Cons.prems(1)
    by (subst apply_sensors.simps, subst w) simp
qed simp

text \<open>What the engine and the behavior may do to the store.\<close>

definition calls_use_store :: "(Inner, 'slot, 'e, 'i, 'f) Seams \<Rightarrow> bool" where
  "calls_use_store S \<longleftrightarrow>
     (\<forall>call w. store_inv (w_store w) \<longrightarrow> store_ops (w_store w) (w_store (snd (sm_call S call w))))"

definition ticks_use_store :: "(Inner, 'slot, 'e, 'i, 'f) Seams \<Rightarrow> bool" where
  "ticks_use_store S \<longleftrightarrow>
     (\<forall>fi i s e runs. store_inv s \<longrightarrow>
        store_ops s (fst (snd (snd (sm_tick S fi i (s, e, runs))))))"

fun event_ok :: "Inbound \<Rightarrow> bool" where
  "event_ok (InCommand cmd) = (case bc_op cmd of OpUpdate c \<Rightarrow> change_ok c | _ \<Rightarrow> True)"
| "event_ok _ = True"

lemma command_followed:
  assumes "sm_store S = simple_store" "calls_use_store S" "event_ok (InCommand cmd)"
    "followed (w_store w) sub M"
  shows "followed (w_store (snd (command_result S fi (bc_op cmd) w))) sub M"
proof (cases "bc_op cmd")
  case (OpUpdate c)
  then have c: "change_ok c" using assms(3) by simp
  have "followed (snd (apply_update simple_store (w_store w) c)) sub M"
    using dev_simple.apply_update_gate [OF followed_inv [OF assms(4)] c]
      followed_write [OF c assms(4)] assms(4)
    by (cases "accepts simple_store (w_store w) c") simp_all
  with OpUpdate assms(1) show ?thesis by (simp add: command_result_def case_prod_unfold)
next
  case (OpCall call)
  have "followed (w_store (snd (sm_call S call w))) sub M"
    using assms(2,4) by (auto simp: calls_use_store_def intro: followed_ops)
  with OpCall show ?thesis
    by (auto simp: command_result_def split: prod.splits sum.splits)
qed (use assms(4) in \<open>auto simp: command_result_def split: option.splits\<close>)

lemma apply_events_followed:
  assumes "sm_store S = simple_store" "calls_use_store S"
  shows "list_all (\<lambda>(_, ev). event_ok ev) evs \<Longrightarrow> followed (w_store w) sub M \<Longrightarrow>
    followed (w_store (fst (apply_events S fi evs w replies asked))) sub M"
proof (induction evs arbitrary: w replies asked)
  case (Cons ev evs)
  obtain endpoint event where ev: "ev = (endpoint, event)" by (cases ev)
  show ?case
  proof (cases event)
    case (InCommand cmd)
    then have "followed (w_store (snd (command_result S fi (bc_op cmd) w))) sub M"
      using Cons.prems ev by (intro command_followed [OF assms]) auto
    with Cons ev InCommand show ?thesis
      by (simp add: apply_command_def case_prod_unfold)
  qed (use Cons ev in auto)
qed simp

lemma tick_followed:
  assumes "ticks_use_store S" "followed (w_store w) sub M"
  shows "followed (w_store (fst (tick_behavior S fi w standing))) sub M"
proof (cases "w_interpreter w")
  case (Some i)
  obtain r i' s e runs where t: "sm_tick S fi i (w_store w, w_engine w, w_task_runs w) = (r, i', s, e, runs)"
    by (metis prod_cases5)
  have "store_ops (w_store w) s"
    using assms t unfolding ticks_use_store_def by (metis followed_inv fst_conv snd_conv)
  then have "followed s sub M" using assms(2) by (rule followed_ops)
  with Some t show ?thesis
    by (auto simp: tick_behavior_def Let_def split: sum.splits BehaviorStatus.splits option.splits)
qed (use assms(2) in \<open>simp add: tick_behavior_def\<close>)

section \<open>The flush catches the follower up\<close>

lemma try_iter_identity:
  assumes "translation sub = Some \<lparr>translate = (\<lambda>c. c), opened = b\<rparr>"
    "list_all (\<lambda>c. \<not> StateChange_is_empty c) (if b then q else drop 1 q)"
  shows "try_iter sub q =
    (q, sub\<lparr>translation := Some \<lparr>translate = (\<lambda>c. c), opened = b \<or> q \<noteq> []\<rparr>\<rparr>)"
  using assms
proof (induction q arbitrary: sub b)
  case Nil
  then show ?case by (cases sub) simp
next
  case (Cons c q)
  let ?sub = "sub\<lparr>translation := Some \<lparr>translate = (\<lambda>c. c), opened = True\<rparr>\<rparr>"
  have "deliver sub c = (Some c, ?sub)"
    using Cons.prems by (auto simp: deliver_def Let_def)
  moreover have "try_iter ?sub q = (q, ?sub)"
    using Cons.IH [of ?sub True] Cons.prems(2) by (simp split: if_splits)
  ultimately show ?case by simp
qed

lemma observed_state_cong:
  assumes "observes s ob" "\<And>k. state_value M k = state_value (ob_state ob) k"
  shows "observes s (ob\<lparr>ob_state := M\<rparr>)"
  using assms by (auto simp: observes_def Let_def state_value_replay)

lemma flush_followed:
  fixes s sub M
  defines "q \<equiv> simple_queue s (rx sub)"
  assumes "followed s sub M"
  shows "\<And>k. state_value (State_apply M (fst (flush sub q))) k = value_at s k"
    and "followed (simple_taken s (rx sub)) (snd (flush sub q)) (State_apply M (fst (flush sub q)))"
    and "value_at (simple_taken s (rx sub)) = value_at s"
    and "rx (snd (flush sub q)) = rx sub"
proof -
  let ?ob = "\<lparr>ob_sub = sub, ob_prefix = [], ob_state = M\<rparr>"
  from assms(2) have inv: "store_inv s" and obs: "observes s ?ob" by (simp_all add: followed_def)
  from obs obtain b where t: "translation sub = Some \<lparr>translate = (\<lambda>c. c), opened = b\<rparr>"
    and ne: "list_all (\<lambda>c. \<not> StateChange_is_empty c) (if b then q else drop 1 q)"
    and ok: "list_all (\<lambda>c. change_ok c) q"
    and sync: "\<And>k. state_value (replay q M) k = value_at s k"
    and sub: "\<lparr>sub_prefix = [], sub_tx = rx sub\<rparr> \<in> set (in_subscribers s)"
      "ch_alive (in_channels s ! rx sub)"
    unfolding q_def simple_queue_def by (auto simp: observes_def Let_def)
  note it = try_iter_identity [OF t ne]
  then have cs: "fst (try_iter sub q) = q" by simp
  have flush: "snd (flush sub q) = snd (try_iter sub q)"
    by (simp add: flush_def case_prod_unfold try_iter_polls)
  have out: "state_value (State_apply M (fst (flush sub q))) k = state_value (replay q M) k" for k
    using flush_coalesces [of sub q M k] ok cs by simp
  then show "state_value (State_apply M (fst (flush sub q))) k = value_at s k" for k
    by (simp add: sync)
  show v: "value_at (simple_taken s (rx sub)) = value_at s"
    by (simp add: simple_taken_def value_at_def fun_eq_iff)
  show "rx (snd (flush sub q)) = rx sub" by (simp add: flush it)
  have inv': "store_inv (simple_taken s (rx sub))"
    using inv by (simp add: simple_taken_def store_inv_def)
  have len: "rx sub < length (in_channels s)" using observes_bound [OF inv obs] by simp
  have "observes (simple_taken s (rx sub))
      \<lparr>ob_sub = snd (flush sub q), ob_prefix = [], ob_state = State_apply M (fst (flush sub q))\<rparr>"
    using sub len out sync unfolding observes_def v
    by (simp add: flush it Let_def simple_taken_def replay_def)
  with inv' show "followed (simple_taken s (rx sub)) (snd (flush sub q))
      (State_apply M (fst (flush sub q)))"
    by (simp add: followed_def)
qed

section \<open>The step\<close>

lemma write_bridges_nth:
  "j < length bridges \<Longrightarrow> write_bridges bridges asked out ! j =
     bridges ! j @ (if j < length asked \<and> asked ! j then [out] else [])"
  by (simp add: write_bridges_def nth_enumerate_eq)

text \<open>What the seams delivered is well-formed: changes and descriptions are maps.\<close>

definition inputs_ok :: "('s, 'e, 'i, 'f) Arora \<Rightarrow> bool" where
  "inputs_ok ar \<longleftrightarrow> list_all (\<lambda>c. change_ok c) (ar_sensors ar @ ar_hal_feed ar)
     \<and> list_all (\<lambda>m. hm_ok m) (ar_hal_keys ar)
     \<and> list_all (\<lambda>(_, ev). event_ok ev) (ar_events ar @ ar_inbound ar)"


definition sample_arora :: "(Inner, unit, unit, unit) Arora" where
  "sample_arora = (case subscribe sample_device of (sub, s) \<Rightarrow>
     \<lparr>ar_world = sample_world s, ar_function_index = [], ar_clock = 0,
      ar_hal_feed = [StateChange_set ''joint'' (U8 3)], ar_inbound = [], ar_hal_keys = [],
      ar_hal_stated = [], ar_sensors = [], ar_events = [(Some 0, InDataRequested True)],
      ar_data_requested = [False], ar_behavior_error = None, ar_store_changes = sub,
      ar_replies = [], ar_hal_sent = [], ar_bridges_sent = [[]]\<rparr>)"

lemma sample_arora_followed:
  "followed (w_store (ar_world sample_arora)) (ar_store_changes sample_arora) State_new"
proof -
  obtain sub s where s: "subscribe_prefix sample_device [] = (sub, s)" by fastforce
  have "store_inv s" "observes s \<lparr>ob_sub = sub, ob_prefix = [], ob_state = State_new\<rparr>"
    using subscribe_facts [OF sample_device_inv s] by auto
  with s show ?thesis
    by (simp add: followed_def sample_arora_def subscribe_def sample_world_def)
qed

lemma sample_seams_use_store: "calls_use_store sample_seams" "ticks_use_store sample_seams"
proof -
  show "calls_use_store sample_seams"
    by (auto simp: calls_use_store_def sample_seams_def intro: store_ops.intros)
  have "store_ops s (snd (store_write s (StateChange_set ''out'' (U8 9))))" for s
    by (rule ops_more [OF ops_none], rule step_write) (simp add: StateChange_set_def)
  then show "ticks_use_store sample_seams"
    by (simp add: ticks_use_store_def sample_seams_def)
qed


section \<open>The clock\<close>

lemma unat_u64_of_nat: "unat (of_nat n :: u64) = n mod 2 ^ 64"
  by (simp add: unat_of_nat)

lemma unat_max_u64: "unat (- 1 :: u64) = 2 ^ 64 - 1"
  by (simp add: unsigned_minus_1_eq_mask mask_eq_exp_minus_1)

lemma unat_saturating_add: "unat (saturating_add a b) = min (unat a + unat b) (2 ^ 64 - 1)"
proof (cases "unat a + unat b < 2 ^ 64")
  case True
  then have "unat (a + b) = unat a + unat b" by (simp add: unat_add_lem [THEN iffD1])
  with True show ?thesis by (simp add: saturating_add_def)
next
  case False
  then show ?thesis by (simp add: saturating_add_def unat_max_u64)
qed

lemma settle_U64: "settle old (Some (U64 x)) = Some (U64 x)"
proof (cases old)
  case (Some v)
  have "v = U64 x" if "value_eq v (U64 x)" using that
    by (cases v rule: canon.cases) (auto simp: value_eq_def)
  with Some show ?thesis by (auto simp: settle_def)
qed (simp add: settle_def)



section \<open>The listing of keys\<close>

lemma map_fst_sort_key: "map fst (sort_key fst xs) = sort (map fst xs)"
proof -
  have "map fst (insort_key fst x xs) = insort (fst x) (map fst xs)" for x :: "'a::linorder \<times> 'b" and xs
    by (induction xs) auto
  then show ?thesis by (induction xs) simp_all
qed

lemma list_keys_names:
  assumes "store_inv s"
  shows "\<exists>listed. map fst (list_keys simple_store s p) = sort listed \<and> distinct listed
    \<and> set listed = {k. (value_at s k \<noteq> None \<or> k \<in> set (hm_keys (in_meta s)))
        \<and> (case p of None \<Rightarrow> True | Some q \<Rightarrow> starts_with k q)}"
proof -
  define held where "held = filter (\<lambda>(_, v). v \<noteq> None) (storage (snapshot s))"
  define unheld where "unheld = filter (\<lambda>key. key \<notin> set (hm_keys held)) (hm_keys (in_meta s))"
  define under where "under = (\<lambda>k. case p of None \<Rightarrow> True | Some q \<Rightarrow> starts_with k q)"
  define listed where "listed = filter (\<lambda>(key, _). under key) (held @ map (\<lambda>key. (key, None)) unheld)"
  have st: "hm_ok (storage (snapshot s))" using simple.snapshot_ok [OF assms] by simp
  have held_iff: "k \<in> set (hm_keys held) \<longleftrightarrow> value_at s k \<noteq> None" for k
  proof -
    have "value_at s k = Option.bind (map_of (storage (snapshot s)) k) (\<lambda>v. v)"
      using simple.snapshot_value [OF assms, of k] by (simp add: State_get_def)
    moreover have "k \<in> set (hm_keys held) \<longleftrightarrow> (\<exists>v. (k, Some v) \<in> set (storage (snapshot s)))"
      by (force simp: held_def)
    moreover have "(k, Some v) \<in> set (storage (snapshot s)) \<longleftrightarrow> map_of (storage (snapshot s)) k = Some (Some v)" for v
      using st by simp
    ultimately show ?thesis by (auto simp: bind_eq_Some_conv)
  qed
  have d: "distinct (map fst (held @ map (\<lambda>key. (key, None)) unheld))"
    using st assms by (auto simp: held_def unheld_def store_inv_def comp_def)
  have "map fst (list_keys simple_store s p) = map fst (sort_key fst (map (\<lambda>((key, v), m).
      let m = (case m of None \<Rightarrow> KeyMeta_new | Some m \<Rightarrow> m)
      in (key, if km_ty m = None then m\<lparr>km_ty := map_option kind v\<rparr> else m))
    (zip listed (meta s (map fst listed)))))"
    by (simp add: list_keys_def Let_def listed_def held_def unheld_def under_def all_meta_def)
  also have "\<dots> = sort (map fst (map (\<lambda>((key, v), m).
      let m = (case m of None \<Rightarrow> KeyMeta_new | Some m \<Rightarrow> m)
      in (key, if km_ty m = None then m\<lparr>km_ty := map_option kind v\<rparr> else m))
    (zip listed (meta s (map fst listed)))))"
    by (rule map_fst_sort_key)
  also have "map fst (map (\<lambda>((key, v), m).
      let m = (case m of None \<Rightarrow> KeyMeta_new | Some m \<Rightarrow> m)
      in (key, if km_ty m = None then m\<lparr>km_ty := map_option kind v\<rparr> else m))
    (zip listed (meta s (map fst listed)))) = map fst listed"
    by (rule nth_equalityI) (auto simp: meta_def Let_def case_prod_unfold)
  finally have names: "map fst (list_keys simple_store s p) = sort (map fst listed)" .
  have "set (map fst listed) = {k. (value_at s k \<noteq> None \<or> k \<in> set (hm_keys (in_meta s))) \<and> under k}"
  proof -
    have "map fst listed = filter under (hm_keys held @ unheld)"
      by (simp add: listed_def filter_map comp_def case_prod_unfold)
    then have "set (map fst listed) = {k \<in> set (hm_keys held) \<union> set unheld. under k}"
      by (simp only: set_filter set_append)
    also have "set (hm_keys held) \<union> set unheld = set (hm_keys held) \<union> set (hm_keys (in_meta s))"
      by (auto simp: unheld_def simp del: set_map)
    finally show ?thesis by (simp only: held_iff Un_iff)
  qed
  moreover have "distinct (map fst listed)" unfolding listed_def by (rule distinct_map_filter [OF d])
  ultimately show ?thesis
    using names unfolding under_def by (intro exI [of _ "map fst listed"] conjI)
qed

text \<open>
  The listing a device answers with has each key once, in the order of the paths, and has
  exactly the keys under the prefix that hold a value or that the store describes by name.
\<close>

theorem list_keys_complete:
  assumes "store_inv s"
  shows "sorted (map fst (list_keys simple_store s p)) \<and> distinct (map fst (list_keys simple_store s p))
    \<and> set (map fst (list_keys simple_store s p)) =
       {k. (store_read s [k] \<noteq> [None] \<or> k \<in> set (hm_keys (all_meta s)))
         \<and> (case p of None \<Rightarrow> True | Some q \<Rightarrow> starts_with k q)}"
  using list_keys_names [OF assms, of p] by (auto simp: read_values all_meta_def simp del: set_map)

theorem list_keys_complete_witness:
  "set (map fst (list_keys simple_store sample_device (Some ''i''))) = {''in''}"
proof -
  have "store_read sample_device [k] = [None]" for k
    by (simp add: store_read_def sample_device_def set_meta_def SimpleDataStore_new_def)
  moreover have "hm_keys (all_meta sample_device) = [''in'', ''out'']"
    by (simp add: all_meta_def device_eval hm_insert_def)
  ultimately have "set (map fst (list_keys simple_store sample_device (Some ''i''))) =
      {k. k \<in> set [''in'', ''out''] \<and> starts_with k ''i''}"
    using list_keys_complete [OF sample_device_inv, of "Some ''i''"] by (simp del: set_map)
  also have "\<dots> = {''in''}" by (auto simp: starts_with_def)
  finally show ?thesis .
qed

end
