(* ===== verification/Scaffold.thy ===== *)
theory Scaffold
  imports Tree_Load Tasks
begin

text \<open>
  The interpreter's scaffold (\<open>BehaviorTreeInterpreter\<close> of
  \<open>crates/arora-behavior-tree/src/behavior.rs\<close>): one graph under a runner, whose children are the
  main behavior and the task runs; the edits that keep it, and the operations that load, edit,
  spawn and halt. The lowered tree, the traces, the conversion of a call to a value and the lowering
  of detached nodes are parameters. \<open>Uuid::new_v4\<close> is drawn by the caller.
\<close>

section \<open>State\<close>

record Run =
  run_handle :: TaskHandle
  run_decorator :: uuid
  run_detached :: "uuid list"

record ('l, 'r) BehaviorTreeInterpreter =
  bi_graph :: Graph
  bi_runner :: uuid
  bi_main_root :: "uuid option"
  bi_runs :: "Run list"
  bi_finished :: "Run list"
  bi_halted :: "Key list"
  bi_lowered :: "'l option"
  bi_dirty :: bool
  bi_fresh :: "uuid hash_set"
  bi_functions :: function_index
  bi_traces :: 'r
  bi_ticks :: u64
  bi_revision :: u64
  bi_written_revision :: "u64 option"

text \<open>What the errors say is not modelled, only what each refuses.\<close>

datatype InterpreterError =
    DiffRefused GraphError | Unsound CheckError | NotLowered BehaviorTreeError
  | DetachedNotLowered BehaviorTreeError | PartOfDevice uuid | HeldElsewhere uuid
  | ScaffoldPlaced uuid | DecoratorChanged uuid uuid | RunRootRemoved uuid uuid | BelongsToRun uuid
  | CallNotAValue | OtherGraphType | NoRoot | RootNotANode uuid | CallsInterpreter uuid
  | ReadsOutside uuid uuid | NotWritten Key DataError | NotRegistered BehaviorTreeError
  | TreeFailed BehaviorTreeError | NotReported

record ('l, 'r) scaffold_env =
  se_crates :: crates
  se_new_v5 :: "uuid \<Rightarrow> string \<Rightarrow> uuid"
  se_uuid_text :: "uuid \<Rightarrow> string"
  se_call_to_value :: "Call \<Rightarrow> Value option"
  se_lower_detached :: "BehaviorTree \<Rightarrow> function_index \<Rightarrow> BehaviorTreeError + unit"
  se_traces_halt :: "'r \<Rightarrow> uuid \<Rightarrow> Key option \<times> 'r"
  se_arm :: "'r \<Rightarrow> 'l \<Rightarrow> 'l"

type_synonym ('l, 'r, 'a) interpreter_step = "(InterpreterError, ('l, 'r) BehaviorTreeInterpreter, 'a) step"

abbreviation empty_diff :: GraphDiff where
  "empty_diff \<equiv> \<lparr>d_remove = [], d_set = [], d_unbind = [], d_bind = [], d_root = None\<rparr>"

text \<open>\<open>inspect_err\<close> and \<open>?\<close>: on an error, what is undone before it is returned.\<close>

definition act_on_err :: "('s \<Rightarrow> 's) \<Rightarrow> ('e, 's, 'a) step \<Rightarrow> ('e, 's, 'a) step" where
  "act_on_err f m s =
     map_option (\<lambda>(r, s). case r of Inl e \<Rightarrow> (Inl e, f s) | Inr x \<Rightarrow> (Inr x, s)) (m s)"

definition position :: "('a \<Rightarrow> bool) \<Rightarrow> 'a list \<Rightarrow> nat option" where
  "position P xs = (let before = takeWhile (\<lambda>x. \<not> P x) xs in
     if length before < length xs then Some (length before) else None)"

section \<open>What an edit changes\<close>

definition changed_nodes :: "GraphDiff \<Rightarrow> uuid list" where
  "changed_nodes diff =
     map n_id (d_set diff) @ map port_node (d_unbind diff) @ map b_node (d_bind diff)"

definition unbound_by_removal :: "Graph \<Rightarrow> uuid list \<Rightarrow> uuid list" where
  "unbound_by_removal graph remove =
     map n_id (filter (\<lambda>node. list_ex (\<lambda>(_, source). reads_removed remove source) (n_bind node))
       (filter (\<lambda>node. n_id node \<notin> set remove) (g_nodes graph)))"

text \<open>The derived equality of graphs.\<close>

definition node_eq :: "Node \<Rightarrow> Node \<Rightarrow> bool" where
  "node_eq m n \<longleftrightarrow> n_id m = n_id n \<and> n_function m = n_function n
     \<and> list_all2 (\<lambda>(p, s) (q, t). p = q \<and> source_eq s t) (n_bind m) (n_bind n)
     \<and> n_children m = n_children n"

definition graph_eq :: "Graph \<Rightarrow> Graph \<Rightarrow> bool" where
  "graph_eq g h \<longleftrightarrow> g_root g = g_root h \<and> list_all2 node_eq (g_nodes g) (g_nodes h)"

section \<open>The parts of the scaffold\<close>

definition runner_at :: "uuid \<Rightarrow> uuid list \<Rightarrow> Node" where
  "runner_at runner children =
     \<lparr>n_id = runner, n_function = PARALLEL_FUNCTION_ID, n_bind = [], n_children = Some children\<rparr>"

definition BehaviorTreeInterpreter_new :: "uuid \<Rightarrow> 'r \<Rightarrow> ('l, 'r) BehaviorTreeInterpreter" where
  "BehaviorTreeInterpreter_new runner traces =
     \<lparr>bi_graph = \<lparr>g_root = Some runner, g_nodes = [runner_at runner []]\<rparr>,
      bi_runner = runner, bi_main_root = None, bi_runs = [], bi_finished = [], bi_halted = [],
      bi_lowered = None, bi_dirty = True, bi_fresh = [], bi_functions = [], bi_traces = traces,
      bi_ticks = 0, bi_revision = 0, bi_written_revision = None\<rparr>"

definition all_runs :: "('l, 'r) BehaviorTreeInterpreter \<Rightarrow> Run list" where
  "all_runs bi = bi_runs bi @ bi_finished bi"

abbreviation the_list :: "'a option \<Rightarrow> 'a list" where
  "the_list x \<equiv> (case x of None \<Rightarrow> [] | Some y \<Rightarrow> [y])"

definition runner_node :: "('l, 'r) BehaviorTreeInterpreter \<Rightarrow> Node" where
  "runner_node bi = runner_at (bi_runner bi)
     (the_list (bi_main_root bi) @ map run_decorator (bi_runs bi) @ map run_decorator (bi_finished bi))"

definition root_of :: "node_map \<Rightarrow> Run \<Rightarrow> uuid option" where
  "root_of nodes run =
     do { decorator \<leftarrow> hm_get nodes (run_decorator run); children \<leftarrow> n_children decorator;
          if children = [] then None else Some (hd children) }"

definition decorated_by :: "('l, 'r) BehaviorTreeInterpreter \<Rightarrow> uuid \<Rightarrow> Run option" where
  "decorated_by bi i = find (\<lambda>run. run_decorator run = i) (all_runs bi)"

definition nodes_of :: "node_map \<Rightarrow> Run \<Rightarrow> uuid hash_set" where
  "nodes_of nodes run = hs_extend (subtree nodes (run_decorator run)) (run_detached run)"

definition not_main_beside :: "('l, 'r) BehaviorTreeInterpreter \<Rightarrow> Run list \<Rightarrow> uuid hash_set" where
  "not_main_beside bi others =
     (let index = by_id (bi_graph bi);
          nodes = hs_collect (concat (map (nodes_of index) (all_runs bi @ others)));
          nodes = (case bi_main_root bi of
                     None \<Rightarrow> nodes
                   | Some root \<Rightarrow> filter (\<lambda>i. i \<notin> set (reach index [root])) nodes)
      in hs_insert (bi_runner bi) nodes)"

definition not_main :: "('l, 'r) BehaviorTreeInterpreter \<Rightarrow> uuid hash_set" where
  "not_main bi = not_main_beside bi []"

definition main_graph_beside :: "('l, 'r) BehaviorTreeInterpreter \<Rightarrow> Run list \<Rightarrow> Graph" where
  "main_graph_beside bi others =
     \<lparr>g_root = bi_main_root bi,
      g_nodes = filter (\<lambda>node. n_id node \<notin> set (not_main_beside bi others)) (g_nodes (bi_graph bi))\<rparr>"

definition main_graph :: "('l, 'r) BehaviorTreeInterpreter \<Rightarrow> Graph" where
  "main_graph bi = main_graph_beside bi []"

definition revise_since :: "Graph \<Rightarrow> ('l, 'r) BehaviorTreeInterpreter \<Rightarrow> ('l, 'r) BehaviorTreeInterpreter" where
  "revise_since before bi =
     (if graph_eq (main_graph bi) before then bi else bi\<lparr>bi_revision := bi_revision bi + 1\<rparr>)"

text \<open>The nodes something besides \<open>leaving\<close> holds, with what they reach.\<close>

definition held_outside :: "('l, 'r) BehaviorTreeInterpreter \<Rightarrow> uuid hash_set \<Rightarrow> uuid hash_set" where
  "held_outside bi leaving =
     reach (by_id (bi_graph bi))
       (filter (\<lambda>i. i \<noteq> bi_runner bi \<and> i \<notin> set leaving) (map n_id (g_nodes (bi_graph bi)))
        @ the_list (bi_main_root bi))"

section \<open>Edits\<close>

text \<open>
  The tree is built on cells of its own, that are dropped with it; the resolver knows no name.
\<close>

definition scratch_cells :: "unit tree_state" where
  "scratch_cells = \<lparr>ts_heap = (\<lambda>_. None), ts_next = 0, ts_bound = (\<lambda>_. Bound_default), ts_callables = [],
     ts_record = TickRecord_default, ts_world = ()\<rparr>"

definition lowers :: "('l, 'r) scaffold_env \<Rightarrow> Graph \<Rightarrow> (BehaviorTreeError + BehaviorTree) option" where
  "lowers E g = map_option fst
     (build_behavior_tree (se_crates E) (se_new_v5 E) g (\<lambda>_. None) scratch_cells)"

text \<open>The graph a diff leaves, if it may replace the scaffold's; \<open>None\<close> is a panic.\<close>

definition edited ::
  "('l, 'r) scaffold_env \<Rightarrow> ('l, 'r) BehaviorTreeInterpreter \<Rightarrow> GraphDiff \<Rightarrow> bool \<Rightarrow> (InterpreterError + Graph) option" where
  "edited E bi diff detached = Option.bind (graph_apply (bi_graph bi) diff) (\<lambda>r.
     case r of Inl e \<Rightarrow> Some (Inl (DiffRefused e)) | Inr g \<Rightarrow>
       Option.bind (check_acyclic g (bi_runner bi)) (\<lambda>r.
         case r of Inl e \<Rightarrow> Some (Inl (Unsound e)) | Inr _ \<Rightarrow>
           case check_selections g [] of Inl e \<Rightarrow> Some (Inl (Unsound e)) | Inr _ \<Rightarrow>
             Option.bind (lowers E g) (\<lambda>r.
               case r of Inl e \<Rightarrow> Some (Inl (NotLowered e)) | Inr tree \<Rightarrow>
                 if detached
                 then case se_lower_detached E tree (bi_functions bi) of
                        Inl e \<Rightarrow> Some (Inl (DetachedNotLowered e))
                      | Inr _ \<Rightarrow> Some (Inr g)
                 else Some (Inr g))))"

definition edit_lowering ::
  "('l, 'r) scaffold_env \<Rightarrow> GraphDiff \<Rightarrow> bool \<Rightarrow> ('l, 'r, unit) interpreter_step" where
  "edit_lowering E diff detached bi =
     (let changed = changed_nodes diff @ unbound_by_removal (bi_graph bi) (d_remove diff) in
      map_option (\<lambda>r. case r of
          Inl e \<Rightarrow> (Inl e, bi)
        | Inr g \<Rightarrow> (Inr (), bi\<lparr>bi_graph := g, bi_dirty := True, bi_fresh := hs_extend (bi_fresh bi) changed\<rparr>))
        (edited E bi diff detached))"

definition edit :: "('l, 'r) scaffold_env \<Rightarrow> GraphDiff \<Rightarrow> ('l, 'r, unit) interpreter_step" where
  "edit E diff = edit_lowering E diff False"

section \<open>Runs\<close>

definition decorator_node :: "uuid \<Rightarrow> Key \<Rightarrow> uuid \<Rightarrow> Node" where
  "decorator_node decorator status root =
     \<lparr>n_id = decorator, n_function = RUN_STATUS_FUNCTION_ID,
      n_bind = bt_insert RUN_STATUS_OUT_PARAM_ID (SKey status) [(RUN_STATUS_LATCH_PARAM_ID, SValue Unit)],
      n_children = Some [root]\<rparr>"

definition task_handle :: "uuid \<Rightarrow> string \<Rightarrow> TaskHandle" where
  "task_handle task prefix =
     \<lparr>th_id = task, th_stop = encode_halt task, th_status = prefix @ ''/status'',
      th_feedback = [prefix @ ''/feedback''], th_result = [prefix @ ''/result''],
      th_update = [prefix @ ''/update'']\<rparr>"

definition run_prefix :: "('l, 'r) scaffold_env \<Rightarrow> string \<Rightarrow> uuid \<Rightarrow> uuid \<Rightarrow> string" where
  "run_prefix E module function task =
     ''arora/tasks/'' @ module @ ''/'' @ se_uuid_text E function @ ''/'' @ se_uuid_text E task"

definition graft ::
  "('l, 'r) scaffold_env \<Rightarrow> uuid \<Rightarrow> uuid \<Rightarrow> string \<Rightarrow> uuid \<Rightarrow> uuid \<Rightarrow> uuid list \<Rightarrow> Node list \<Rightarrow>
   ('l, 'r, TaskHandle) interpreter_step" where
  "graft E task decorator module function root detached fragment bi =
     (let handle = task_handle task (run_prefix E module function task);
          bi = bi\<lparr>bi_runs := bi_runs bi @ [\<lparr>run_handle = handle, run_decorator = decorator, run_detached = detached\<rparr>]\<rparr>;
          fragment = fragment @ [decorator_node decorator (th_status handle) root, runner_node bi]
      in act_bind
           (act_on_err (\<lambda>bi. bi\<lparr>bi_runs := butlast (bi_runs bi)\<rparr>)
             (edit_lowering E (empty_diff\<lparr>d_set := fragment\<rparr>) True))
           (\<lambda>_. act_return handle) bi)"

text \<open>\<open>at\<close> is the index of a live run.\<close>

definition set_detached :: "nat \<Rightarrow> uuid list \<Rightarrow> ('l, 'r) BehaviorTreeInterpreter \<Rightarrow> ('l, 'r) BehaviorTreeInterpreter" where
  "set_detached at detached bi = bi\<lparr>bi_runs := (bi_runs bi)[at := (bi_runs bi ! at)\<lparr>run_detached := detached\<rparr>]\<rparr>"

definition held_by :: "('l, 'r) BehaviorTreeInterpreter \<Rightarrow> Run \<Rightarrow> uuid hash_set" where
  "held_by bi run = hs_remove (run_decorator run) (nodes_of (by_id (bi_graph bi)) run)"

definition held_besides :: "('l, 'r) BehaviorTreeInterpreter \<Rightarrow> Run \<Rightarrow> uuid hash_set" where
  "held_besides bi run = held_outside bi (hs_insert (run_decorator run) (held_by bi run))"

definition own_graph :: "('l, 'r) BehaviorTreeInterpreter \<Rightarrow> Run \<Rightarrow> uuid option \<Rightarrow> Graph" where
  "own_graph bi run root =
     \<lparr>g_root = root,
      g_nodes = filter (\<lambda>node. n_id node \<in> set (held_by bi run) \<and> n_id node \<notin> set (held_besides bi run))
        (g_nodes (bi_graph bi))\<rparr>"

definition respawn_refused :: "('l, 'r) BehaviorTreeInterpreter \<Rightarrow> Run \<Rightarrow> Graph \<Rightarrow> InterpreterError option" where
  "respawn_refused bi run graph =
     (case find (\<lambda>node. hm_contains (by_id (bi_graph bi)) (n_id node) \<and> n_id node \<notin> set (held_by bi run)) (g_nodes graph) of
        Some node \<Rightarrow> Some (PartOfDevice (n_id node))
      | None \<Rightarrow>
          map_option (\<lambda>node. HeldElsewhere (n_id node))
            (find (\<lambda>node. n_id node \<in> set (held_besides bi run)) (g_nodes graph)))"

definition respawn ::
  "('l, 'r) scaffold_env \<Rightarrow> nat \<Rightarrow> Graph \<Rightarrow> uuid list \<Rightarrow> ('l, 'r, TaskHandle) interpreter_step" where
  "respawn E at graph detached bi =
     (let run = bi_runs bi ! at;
          diff = graph_diff (own_graph bi run (g_root graph)) graph
      in case respawn_refused bi run graph of
           Some e \<Rightarrow> Some (Inl e, bi)
         | None \<Rightarrow>
             if diff \<noteq> empty_diff
             then act_bind (edit_lowering E diff True) (\<lambda>_.
                    act_bind (act_modify (revise_since (main_graph bi) \<circ> set_detached at detached)) (\<lambda>_.
                      act_return (run_handle run))) bi
             else Some (Inr (run_handle run), set_detached at detached bi))"

definition prune :: "('l, 'r) scaffold_env \<Rightarrow> Run list \<Rightarrow> ('l, 'r, unit) interpreter_step" where
  "prune E runs bi =
     (if runs = [] then Some (Inr (), bi)
      else let leaving = hs_extend (reach (by_id (bi_graph bi)) (map run_decorator runs)) (concat (map run_detached runs));
               staying = held_outside bi leaving;
               diff = empty_diff\<lparr>d_remove := filter (\<lambda>i. i \<notin> set staying) leaving, d_set := [runner_node bi]\<rparr>
           in act_bind (edit E diff) (\<lambda>_. act_modify (revise_since (main_graph_beside bi runs))) bi)"

definition prune_finished :: "('l, 'r) scaffold_env \<Rightarrow> ('l, 'r, unit) interpreter_step" where
  "prune_finished E bi = prune E (bi_finished bi) (bi\<lparr>bi_finished := []\<rparr>)"

section \<open>The operations of the interpreter\<close>

definition GRAPH_TYPE :: GraphType where
  "GRAPH_TYPE = \<lparr>gt_name = ''behavior-tree'', gt_version = \<lparr>major = 2, minor = 0\<rparr>\<rparr>"

text \<open>\<open>apply\<close>.\<close>

definition is_scaffold :: "('l, 'r) BehaviorTreeInterpreter \<Rightarrow> uuid \<Rightarrow> bool" where
  "is_scaffold bi i \<longleftrightarrow> i = bi_runner bi \<or> decorated_by bi i \<noteq> None"

definition placed_nodes :: "GraphDiff \<Rightarrow> uuid list" where
  "placed_nodes diff = the_list (d_root diff) @ concat (map listed_children (d_set diff))"

definition removed_run_root :: "('l, 'r) BehaviorTreeInterpreter \<Rightarrow> GraphDiff \<Rightarrow> Run \<Rightarrow> bool" where
  "removed_run_root bi diff run \<longleftrightarrow>
     (case root_of (by_id (bi_graph bi)) run of
        None \<Rightarrow> False
      | Some root \<Rightarrow> root \<in> set (d_remove diff) \<and> root \<notin> set (map n_id (d_set diff)))"

definition edit_refused :: "('l, 'r) BehaviorTreeInterpreter \<Rightarrow> GraphDiff \<Rightarrow> InterpreterError option" where
  "edit_refused bi diff =
     (case find (is_scaffold bi) (placed_nodes diff) of
        Some i \<Rightarrow> Some (ScaffoldPlaced i)
      | None \<Rightarrow>
        (case find (\<lambda>i. decorated_by bi i \<noteq> None) (changed_nodes diff @ d_remove diff) of
           Some i \<Rightarrow> Some (DecoratorChanged i (th_id (run_handle (the (decorated_by bi i)))))
         | None \<Rightarrow>
           (case find (removed_run_root bi diff) (all_runs bi) of
              Some run \<Rightarrow> Some (RunRootRemoved
                (the (root_of (by_id (bi_graph bi)) run)) (th_id (run_handle run)))
            | None \<Rightarrow> None)))"

definition edited_root :: "GraphDiff \<Rightarrow> uuid option \<Rightarrow> uuid option" where
  "edited_root diff main_root =
     (case d_root diff of
        Some root \<Rightarrow> Some root
      | None \<Rightarrow> option_filter (\<lambda>root. root \<notin> set (d_remove diff)) main_root)"

definition apply_edit :: "('l, 'r) scaffold_env \<Rightarrow> GraphDiff \<Rightarrow> ('l, 'r, unit) interpreter_step" where
  "apply_edit E diff bi =
     (case edit_refused bi diff of
        Some e \<Rightarrow> Some (Inl e, bi)
      | None \<Rightarrow>
         let diff = diff\<lparr>d_remove := filter (\<lambda>i. i \<noteq> bi_runner bi) (d_remove diff)\<rparr>;
             before = main_graph bi;
             previous = bi_main_root bi;
             bi = bi\<lparr>bi_main_root := edited_root diff (bi_main_root bi)\<rparr>;
             diff = diff\<lparr>d_root := None, d_set := d_set diff @ [runner_node bi]\<rparr>
         in act_bind (act_on_err (\<lambda>bi. bi\<lparr>bi_main_root := previous\<rparr>) (edit E diff))
              (\<lambda>_. act_modify (revise_since before)) bi)"

definition interpreter_apply :: "('l, 'r) scaffold_env \<Rightarrow> GraphDiff \<Rightarrow> ('l, 'r, unit) interpreter_step" where
  "interpreter_apply E diff = act_bind (prune_finished E) (\<lambda>_. apply_edit E diff)"

text \<open>\<open>load\<close> and \<open>read\<close>.\<close>

definition replaced_main :: "('l, 'r) BehaviorTreeInterpreter \<Rightarrow> Graph \<Rightarrow> uuid list" where
  "replaced_main bi after =
     (let held = hs_collect (concat (map (nodes_of (by_id after)) (all_runs bi)))
      in filter (\<lambda>i. i \<noteq> bi_runner bi \<and> i \<notin> set held) (map n_id (g_nodes (bi_graph bi))))"

definition load_main :: "('l, 'r) scaffold_env \<Rightarrow> Graph \<Rightarrow> ('l, 'r, unit) interpreter_step" where
  "load_main E graph bi =
     (if length (by_id graph) \<noteq> length (g_nodes graph) then Some (Inl (Unsound (listed_twice graph)), bi)
      else case find (\<lambda>node. n_id node \<in> set (not_main bi)) (g_nodes graph) of
        Some node \<Rightarrow> Some (Inl (BelongsToRun (n_id node)), bi)
      | None \<Rightarrow> Option.bind (graph_apply (bi_graph bi) (empty_diff\<lparr>d_set := g_nodes graph\<rparr>)) (\<lambda>r.
          case r of Inl e \<Rightarrow> Some (Inl (DiffRefused e), bi) | Inr after \<Rightarrow>
            let remove = replaced_main bi after;
                previous = bi_main_root bi;
                bi = bi\<lparr>bi_main_root := g_root graph\<rparr>;
                diff = empty_diff\<lparr>d_remove := remove, d_set := g_nodes graph @ [runner_node bi]\<rparr>
            in act_bind (act_on_err (\<lambda>bi. bi\<lparr>bi_main_root := previous\<rparr>) (edit E diff))
                 (\<lambda>_. act_modify (\<lambda>bi. bi\<lparr>bi_revision := bi_revision bi + 1\<rparr>)) bi))"

definition interpreter_load :: "('l, 'r) scaffold_env \<Rightarrow> Graph \<Rightarrow> ('l, 'r, unit) interpreter_step" where
  "interpreter_load E graph = act_bind (prune_finished E) (\<lambda>_. load_main E graph)"

definition interpreter_read :: "('l, 'r) BehaviorTreeInterpreter \<Rightarrow> LoadedBehavior" where
  "interpreter_read bi = \<lparr>lb_revision = bi_revision bi, lb_graph = main_graph bi\<rparr>"

text \<open>\<open>spawn\<close>: the ids drawn are the call node's, the task's and the decorator's.\<close>

definition call_leaf :: "uuid \<Rightarrow> Value \<Rightarrow> Node" where
  "call_leaf call_node call =
     \<lparr>n_id = call_node, n_function = RUN_CALL_FUNCTION_ID, n_bind = [(RUN_CALL_PARAM_ID, SValue call)],
      n_children = None\<rparr>"

definition interpreter_spawn ::
  "('l, 'r) scaffold_env \<Rightarrow> uuid \<Rightarrow> uuid \<Rightarrow> uuid \<Rightarrow> Call \<Rightarrow> RunPolicy \<Rightarrow> ('l, 'r, TaskHandle) interpreter_step" where
  "interpreter_spawn E call_node task decorator call policy =
     (case se_call_to_value E call of
        None \<Rightarrow> act_fail CallNotAValue
      | Some v \<Rightarrow> act_bind (prune_finished E) (\<lambda>_.
          graft E task decorator
            (case call_module_id call of None \<Rightarrow> ''none'' | Some m \<Rightarrow> se_uuid_text E m)
            (call_id call) call_node [] [call_leaf call_node v]))"

text \<open>\<open>spawn_graph\<close>: the checks that need no scaffold, then the run.\<close>

definition reads_outside :: "Graph \<Rightarrow> Node \<Rightarrow> uuid option" where
  "reads_outside graph node =
     map_option fst (find (\<lambda>(_, source).
         case source_port source of None \<Rightarrow> False | Some port \<Rightarrow> port_node port \<notin> set (map n_id (g_nodes graph)))
       (n_bind node))"

definition check_spawned ::
  "('l, 'r) scaffold_env \<Rightarrow> GraphType \<Rightarrow> Graph \<Rightarrow> (InterpreterError + uuid \<times> uuid list) option" where
  "check_spawned E graph_type graph =
     (if \<not> reads GRAPH_TYPE graph_type then Some (Inl OtherGraphType)
      else case g_root graph of
        None \<Rightarrow> Some (Inl NoRoot)
      | Some root \<Rightarrow>
          if graph_node graph root = None then Some (Inl (RootNotANode root))
          else case check_tree graph root of
            Inl e \<Rightarrow> Some (Inl (Unsound e))
          | Inr detached \<Rightarrow>
            (case find (\<lambda>node. is_interpreter_function_id (n_function node)) (g_nodes graph) of
               Some node \<Rightarrow> Some (Inl (CallsInterpreter (n_id node)))
             | None \<Rightarrow>
               (case find (\<lambda>node. reads_outside graph node \<noteq> None) (g_nodes graph) of
                  Some node \<Rightarrow> Some (Inl (ReadsOutside (n_id node) (the (reads_outside graph node))))
                | None \<Rightarrow> map_option (\<lambda>r. case r of Inl e \<Rightarrow> Inl (NotLowered e) | Inr _ \<Rightarrow> Inr (root, detached))
                    (lowers E graph))))"

definition run_graph ::
  "('l, 'r) scaffold_env \<Rightarrow> uuid \<Rightarrow> uuid \<Rightarrow> Graph \<Rightarrow> uuid \<Rightarrow> uuid list \<Rightarrow> ('l, 'r, TaskHandle) interpreter_step" where
  "run_graph E task decorator graph root detached bi =
     (let nodes = by_id (bi_graph bi) in
      case position (\<lambda>run. root_of nodes run = Some root) (bi_runs bi) of
        Some at \<Rightarrow> respawn E at graph detached bi
      | None \<Rightarrow>
          (case find (\<lambda>node. hm_contains nodes (n_id node)) (g_nodes graph) of
             Some node \<Rightarrow> Some (Inl (PartOfDevice (n_id node)), bi)
           | None \<Rightarrow> graft E task decorator (se_uuid_text E INTERPRETER_ID) INTERPRETER_SPAWN_GRAPH
               root detached (g_nodes graph) bi))"

definition interpreter_spawn_graph ::
  "('l, 'r) scaffold_env \<Rightarrow> uuid \<Rightarrow> uuid \<Rightarrow> GraphType \<Rightarrow> Graph \<Rightarrow> RunPolicy \<Rightarrow> ('l, 'r, TaskHandle) interpreter_step" where
  "interpreter_spawn_graph E task decorator graph_type graph policy bi =
     Option.bind (check_spawned E graph_type graph) (\<lambda>r.
       case r of Inl e \<Rightarrow> Some (Inl e, bi) | Inr (root, detached) \<Rightarrow>
         act_bind (prune_finished E) (\<lambda>_. run_graph E task decorator graph root detached) bi)"

definition interpreter_halt :: "('l, 'r) scaffold_env \<Rightarrow> uuid \<Rightarrow> ('l, 'r, unit) interpreter_step" where
  "interpreter_halt E task bi =
     (case se_traces_halt E (bi_traces bi) task of
        (Some status, traces) \<Rightarrow>
          Some (Inr (), bi\<lparr>bi_traces := traces, bi_lowered := map_option (se_arm E traces) (bi_lowered bi),
            bi_halted := bi_halted bi @ [status]\<rparr>)
      | (None, traces) \<Rightarrow>
          let bi = bi\<lparr>bi_traces := traces\<rparr> in
          (case position (\<lambda>run. th_id (run_handle run) = task) (bi_runs bi) of
             None \<Rightarrow> Some (Inr (), bi)
           | Some at \<Rightarrow>
               let run = bi_runs bi ! at;
                   bi = bi\<lparr>bi_runs := take at (bi_runs bi) @ drop (Suc at) (bi_runs bi)\<rparr>
               in act_bind (prune E [run])
                    (\<lambda>_. act_modify (\<lambda>bi. bi\<lparr>bi_halted := bi_halted bi @ [th_status (run_handle run)]\<rparr>)) bi))"

section \<open>The tick\<close>

text \<open>
  The tick has the device's store and engine: the world of a tree's state is the store, and the
  engine's callables are the state's. Registering a tree's ticks, moving state from one lowering to
  the next, ticking the tree and the reports of the traces are parameters.
\<close>

record ('s, 'l, 'r) lowering =
  lo_lower :: "BehaviorTree \<Rightarrow> function_index \<Rightarrow> ('s, 'l) act"
  lo_tree :: "'l \<Rightarrow> BehaviorTree"
  lo_keep_state :: "'l \<Rightarrow> 'l \<Rightarrow> uuid hash_set \<Rightarrow> 's tree_state \<Rightarrow> 's tree_state"
  lo_unregister :: "'l \<Rightarrow> 's tree_state \<Rightarrow> 's tree_state"
  lo_tick :: "'l \<Rightarrow> ('s, Status) act"
  lo_no_traces :: "'r \<Rightarrow> bool"
  lo_restart :: "uuid list \<Rightarrow> 'r \<Rightarrow> 'r"
  lo_keep_returns :: "'l \<Rightarrow> 'r \<Rightarrow> 'r"
  lo_report :: "u64 \<Rightarrow> u64 \<Rightarrow> 'l \<Rightarrow> function_index \<Rightarrow> 'r \<Rightarrow> 's tree_state \<Rightarrow> bool \<times> 'r \<times> 's tree_state"

type_synonym ('s, 'l, 'r, 'a) tick_step =
  "(InterpreterError, ('l, 'r) BehaviorTreeInterpreter \<times> 's tree_state, 'a) step"

definition on_interpreter :: "('l, 'r, 'a) interpreter_step \<Rightarrow> ('s, 'l, 'r, 'a) tick_step" where
  "on_interpreter m = (\<lambda>(bi, ts). map_option (\<lambda>(r, bi). (r, bi, ts)) (m bi))"

text \<open>\<open>write_halts\<close>: what was not written stays to write.\<close>

fun write_halts_from ::
  "('s, 'slot) DataStore \<Rightarrow> Key list \<Rightarrow> 's \<Rightarrow> (InterpreterError + unit) \<times> Key list \<times> 's" where
  "write_halts_from D [] s = (Inr (), [], s)"
| "write_halts_from D (key # keys) s =
     (case ds_write D s (StateChange_set key (value_of_status Failure)) of
        (Inl e, s) \<Rightarrow> (Inl (NotWritten key e), key # keys, s)
      | (Inr _, s) \<Rightarrow> write_halts_from D keys s)"

definition write_halts :: "('s, 'slot) DataStore \<Rightarrow> ('s, 'l, 'r, unit) tick_step" where
  "write_halts D = (\<lambda>(bi, ts). case write_halts_from D (bi_halted bi) (ts_world ts) of (r, keys, s) \<Rightarrow>
     Some (r, bi\<lparr>bi_halted := keys\<rparr>, ts\<lparr>ts_world := s\<rparr>))"

definition BEHAVIOR_REVISION :: Key where
  "BEHAVIOR_REVISION = ''arora/behavior/revision''"

definition write_revision :: "('s, 'slot) DataStore \<Rightarrow> ('s, 'l, 'r, unit) tick_step" where
  "write_revision D = (\<lambda>(bi, ts).
     if bi_written_revision bi = Some (bi_revision bi) then Some (Inr (), bi, ts)
     else case ds_write D (ts_world ts) (StateChange_set BEHAVIOR_REVISION (U64 (bi_revision bi))) of
         (Inl e, s) \<Rightarrow> Some (Inl (NotWritten BEHAVIOR_REVISION e), bi, ts\<lparr>ts_world := s\<rparr>)
       | (Inr _, s) \<Rightarrow> Some (Inr (), bi\<lparr>bi_written_revision := Some (bi_revision bi)\<rparr>, ts\<lparr>ts_world := s\<rparr>))"

definition restarted_nodes :: "('s, 'l, 'r) lowering \<Rightarrow> ('l, 'r) BehaviorTreeInterpreter \<Rightarrow> 'l \<Rightarrow> 'l \<Rightarrow> uuid list" where
  "restarted_nodes T bi previous lowered =
     sort (filter (\<lambda>i. i \<noteq> bi_runner bi \<and> hm_contains (bt_index (lo_tree T previous)) i
                       \<and> hm_contains (bt_index (lo_tree T lowered)) i) (bi_fresh bi))"

text \<open>The new lowering takes over the previous one's state, which is then unregistered.\<close>

definition take_over :: "('s, 'l, 'r) lowering \<Rightarrow> 'l \<Rightarrow> ('s, 'l, 'r, unit) tick_step" where
  "take_over T lowered = (\<lambda>(bi, ts). Some (Inr (),
     (case bi_lowered bi of
        None \<Rightarrow> (bi, ts)
      | Some previous \<Rightarrow>
          (bi\<lparr>bi_lowered := None,
              bi_traces := if lo_no_traces T (bi_traces bi) then bi_traces bi
                else lo_restart T (restarted_nodes T bi previous lowered) (bi_traces bi)\<rparr>,
           lo_unregister T previous (lo_keep_state T lowered previous (bi_fresh bi) ts)))))"

definition relower ::
  "('l, 'r) scaffold_env \<Rightarrow> ('s, 'l, 'r) lowering \<Rightarrow> ('s, 'slot) DataStore \<Rightarrow> function_index \<Rightarrow> ('s, 'l, 'r, unit) tick_step" where
  "relower E T D functions =
     act_bind (on_interpreter (prune_finished E)) (\<lambda>_ (bi, ts).
       case check_selections (bi_graph bi) functions of Inl e \<Rightarrow> Some (Inl (Unsound e), bi, ts) | Inr _ \<Rightarrow>
         Option.bind (build_behavior_tree (se_crates E) (se_new_v5 E) (bi_graph bi) Some ts) (\<lambda>(r, ts).
           case r of Inl e \<Rightarrow> Some (Inl (NotLowered e), bi, ts) | Inr tree \<Rightarrow>
             Option.bind (lo_lower T tree functions ts) (\<lambda>(r, ts).
               case r of Inl e \<Rightarrow> Some (Inl (NotRegistered e), bi, ts) | Inr lowered \<Rightarrow>
                 act_bind (take_over T lowered) (\<lambda>_.
                   act_bind (act_modify (\<lambda>(bi, ts).
                     (bi\<lparr>bi_traces := lo_keep_returns T (se_arm E (bi_traces bi) lowered) (bi_traces bi),
                         bi_fresh := [], bi_lowered := Some (se_arm E (bi_traces bi) lowered),
                         bi_dirty := False, bi_functions := functions\<rparr>, ts))) (\<lambda>_.
                     write_revision D)) (bi, ts))))"

definition is_terminal :: "('s, 'slot) DataStore \<Rightarrow> 's \<Rightarrow> Run \<Rightarrow> bool" where
  "is_terminal D s run \<longleftrightarrow>
     (case ds_read D s [th_status (run_handle run)] of
        [] \<Rightarrow> False
      | v # _ \<Rightarrow> (case Option.bind v status_of_value of
                    Some Success \<Rightarrow> True | Some Failure \<Rightarrow> True | _ \<Rightarrow> False))"

definition sweep_terminal_runs ::
  "('s, 'slot) DataStore \<Rightarrow> 's \<Rightarrow> ('l, 'r) BehaviorTreeInterpreter \<Rightarrow> ('l, 'r) BehaviorTreeInterpreter" where
  "sweep_terminal_runs D s bi =
     (case partition (is_terminal D s) (bi_runs bi) of (finished, live) \<Rightarrow>
        bi\<lparr>bi_runs := live, bi_dirty := bi_dirty bi \<or> finished \<noteq> [], bi_finished := bi_finished bi @ finished\<rparr>)"

text \<open>Ticking the lowered tree, then the traces' reports, whose failure fails the tick at its end.\<close>

definition tick_lowered :: "('s, 'l, 'r) lowering \<Rightarrow> ('s, 'l, 'r, bool) tick_step" where
  "tick_lowered T = (\<lambda>(bi, ts).
     case bi_lowered bi of
       None \<Rightarrow> Some (Inr True, bi, ts)
     | Some lowered \<Rightarrow>
         Option.bind (lo_tick T lowered ts) (\<lambda>(ticked, ts).
           case (if lo_no_traces T (bi_traces bi) then (True, bi_traces bi, ts)
                 else lo_report T (bi_ticks bi) (bi_revision bi) lowered (bi_functions bi) (bi_traces bi) ts) of
             (reported, traces, ts) \<Rightarrow>
               Some (case ticked of Inl e \<Rightarrow> Inl (TreeFailed e) | Inr _ \<Rightarrow> Inr reported,
                     bi\<lparr>bi_traces := traces\<rparr>, ts)))"

definition interpreter_tick ::
  "('l, 'r) scaffold_env \<Rightarrow> ('s, 'l, 'r) lowering \<Rightarrow> ('s, 'slot) DataStore \<Rightarrow> function_index \<Rightarrow> ('s, 'l, 'r, unit) tick_step" where
  "interpreter_tick E T D functions = (\<lambda>(bi, ts).
     act_bind (write_halts D) (\<lambda>_.
     act_bind (write_revision D) (\<lambda>_.
     act_bind (\<lambda>(bi, ts). if bi_dirty bi then relower E T D functions (bi, ts) else Some (Inr (), bi, ts)) (\<lambda>_.
     act_bind (tick_lowered T) (\<lambda>reported.
     act_bind (act_modify (\<lambda>(bi, ts). (sweep_terminal_runs D (ts_world ts) bi, ts))) (\<lambda>_.
       if reported then act_return () else act_fail NotReported)))))
     (bi\<lparr>bi_ticks := bi_ticks bi + 1\<rparr>, ts))"

end
