(* ===== verification/Scaffold_Inv.thy ===== *)
theory Scaffold_Inv
  imports Scaffold
begin

text \<open>
  The scaffold's invariant: one graph rooted at the runner, a parallel node that lists the main
  behavior's root and every run's decorator, with no cycle under it. Every operation keeps it, and
  none panics.
\<close>

section \<open>What an edit leaves\<close>

abbreviation binds_ok :: "Node list \<Rightarrow> bool" where
  "binds_ok \<equiv> list_all (\<lambda>n. bt_ok (n_bind n))"

lemma acyclic_ok:
  "check_acyclic g r = Some (Inr ()) \<longleftrightarrow> r \<in> set (ids (g_nodes g)) \<and> sound_under g r"
proof (cases "r \<in> set (ids (g_nodes g))")
  case True
  from acyclic_decided [OF True] True show ?thesis by auto
next
  case False
  then have "hm_get (by_id g) r = None" unfolding map_of_eq_None_iff keys_by_id .
  with False show ?thesis by (simp add: check_acyclic_def)
qed

lemma lowers_defined: "\<exists>r. lowers E g = Some r"
proof (cases "lower_graph (se_new_v5 E) g")
  case (Inr x)
  obtain nodes names where "x = (nodes, names)" by (cases x)
  moreover obtain r s where "load_behavior_tree_nodes_with (se_crates E) nodes (\<lambda>_. None) names scratch_cells = Some (r, s)"
    using load_ended by blast
  ultimately show ?thesis using Inr by (simp add: lowers_def build_behavior_tree_def act_bind_def act_lift_def)
qed (simp add: lowers_def build_behavior_tree_def act_bind_def act_lift_def act_fail_def)

lemma ids_edited:
  "set (ids (g_nodes (apply_ref g d))) = (set (ids (g_nodes g)) - set (d_remove d)) \<union> set (ids (d_set d))"
  unfolding ids_apply_ref set_ids_fold_put ids_removals by auto

lemma edited_facts:
  assumes g: "graph_ok (bi_graph bi)" and d: "binds_ok (d_set d)"
    and r: "bi_runner bi \<in> set (ids (g_nodes (apply_ref (bi_graph bi) d)))"
  shows "\<exists>r. edited E bi d det = Some r \<and>
    (\<forall>g. r = Inr g \<longrightarrow> g = apply_ref (bi_graph bi) d \<and> graph_ok g \<and> sound_under g (bi_runner bi))"
proof (cases "refused_binding (bi_graph bi) d")
  case (Some b)
  with graph_apply_ref [of "bi_graph bi" d] g show ?thesis by (simp add: edited_def graph_ok_def)
next
  case None
  let ?g = "apply_ref (bi_graph bi) d"
  from None graph_apply_ref [of "bi_graph bi" d] g have a: "graph_apply (bi_graph bi) d = Some (Inr ?g)"
    by (simp add: graph_ok_def)
  from acyclic_decided [OF r] obtain c where c: "check_acyclic ?g (bi_runner bi) = Some c" "c = Inr () \<longleftrightarrow> sound_under ?g (bi_runner bi)"
    by blast
  obtain l where l: "lowers E ?g = Some l" using lowers_defined by blast
  note ok = apply_ref_ok [OF g d]
  show ?thesis
  proof (cases c)
    case (Inr u)
    with c have s: "sound_under ?g (bi_runner bi)" by simp
    show ?thesis
      by (cases "check_selections ?g []"; cases l; cases "se_lower_detached E (projr l) (bi_functions bi)")
        (simp_all add: edited_def a c Inr l ok s)
  qed (simp add: edited_def a c)
qed

text \<open>A graph that replaced the scaffold's, and nothing else of what holds it.\<close>

definition edits_to ::
  "GraphDiff \<Rightarrow> ('l, 'r) BehaviorTreeInterpreter \<Rightarrow> ('l, 'r) BehaviorTreeInterpreter \<Rightarrow> bool" where
  "edits_to d bi bi' \<longleftrightarrow>
     (\<exists>fresh. bi' = bi\<lparr>bi_graph := apply_ref (bi_graph bi) d, bi_dirty := True, bi_fresh := fresh\<rparr>) \<and>
     graph_ok (apply_ref (bi_graph bi) d) \<and> sound_under (apply_ref (bi_graph bi) d) (bi_runner bi)"

lemma edit_facts:
  assumes "graph_ok (bi_graph bi)" "binds_ok (d_set d)"
    "bi_runner bi \<in> set (ids (g_nodes (apply_ref (bi_graph bi) d)))"
  shows "\<exists>r bi'. edit_lowering E d det bi = Some (r, bi') \<and>
    ((\<exists>e. r = Inl e) \<and> bi' = bi \<or> r = Inr () \<and> edits_to d bi bi')"
proof -
  from edited_facts [OF assms] obtain r where r: "edited E bi d det = Some r"
    "\<And>g. r = Inr g \<Longrightarrow> g = apply_ref (bi_graph bi) d \<and> graph_ok g \<and> sound_under g (bi_runner bi)" by blast
  show ?thesis
  proof (cases r)
    case (Inr g)
    with r show ?thesis by (auto simp: edit_lowering_def Let_def edits_to_def)
  qed (simp add: edit_lowering_def r)
qed

lemma node_kept:
  assumes "graph_node g i = Some n" "i \<notin> set (d_remove d)" "i \<notin> set (ids (d_set d))"
  shows "\<exists>b. graph_node (apply_ref g d) i = Some (n\<lparr>n_bind := b\<rparr>)"
proof -
  have "node_at (fold put_node ns nodes) i = node_at nodes i" if "i \<notin> set (ids ns)" for ns nodes
    using that by (induction ns arbitrary: nodes) (auto simp: node_at_put)
  from this [OF assms(3)] have "graph_node (apply_ref g d) i = Some (bound i (d_bind d) (unbound i (d_unbind d) (unread (hs_collect (d_remove d)) n)))"
    using assms(1,2) unfolding graph_node_apply_ref by (simp add: node_at_removals graph_node_def)
  then show ?thesis by (auto simp: bound_def unbound_def unread_def)
qed

lemma node_set_last:
  assumes "d_set d = ns @ [n]"
  shows "\<exists>b. graph_node (apply_ref g d) (n_id n) = Some (n\<lparr>n_bind := b\<rparr>)"
proof -
  have "graph_node (apply_ref g d) (n_id n) = Some (bound (n_id n) (d_bind d) (unbound (n_id n) (d_unbind d) n))"
    unfolding graph_node_apply_ref by (simp add: assms node_at_put)
  then show ?thesis by (auto simp: bound_def unbound_def)
qed

lemma root_kept:
  assumes "d_root d = None" "g_root g = Some r" "r \<notin> set (d_remove d)"
  shows "g_root (apply_ref g d) = Some r"
  using assms by (simp add: apply_ref_def Let_def removals_def)

section \<open>The invariant\<close>

definition listed :: "('l, 'r) BehaviorTreeInterpreter \<Rightarrow> uuid set" where
  "listed bi = set (the_list (bi_main_root bi)) \<union> run_decorator ` set (all_runs bi)"

lemma listed_runner_node: "set (listed_children (runner_node bi)) = listed bi"
  by (auto simp: listed_children_def runner_node_def runner_at_def listed_def all_runs_def)

definition hosts :: "Graph \<Rightarrow> uuid \<Rightarrow> uuid set \<Rightarrow> bool" where
  "hosts g runner cs \<longleftrightarrow> graph_ok g \<and> g_root g = Some runner \<and> sound_under g runner \<and>
     (\<exists>node. graph_node g runner = Some node \<and> n_function node = PARALLEL_FUNCTION_ID \<and> cs \<subseteq> set (listed_children node))"

definition scaffold_ok :: "('l, 'r) BehaviorTreeInterpreter \<Rightarrow> bool" where
  "scaffold_ok bi \<longleftrightarrow> hosts (bi_graph bi) (bi_runner bi) (listed bi) \<and>
     (\<forall>run \<in> set (all_runs bi). bi_runner bi \<notin> set (run_detached run))"

lemma hosts_mono: "hosts g r cs \<Longrightarrow> ds \<subseteq> cs \<Longrightarrow> hosts g r ds"
  unfolding hosts_def by blast

lemma hosts_ids: "hosts g r cs \<Longrightarrow> r \<in> set (ids (g_nodes g))"
  by (auto simp: hosts_def graph_node_def dest: node_at_in node_at_id)

text \<open>What hangs under the runner neither is it nor holds it, and all of it is in the graph.\<close>

lemma child_of_node:
  assumes "graph_ok g" "graph_node g i = Some node"
  shows "children_in (by_id g) i = listed_children node"
  using assms children_in_by_id(1) [of g node] node_at_in [of i "g_nodes g" node] node_at_id [of i "g_nodes g" node]
  by (auto simp: graph_ok_def graph_node_def)

lemma hosted_below:
  assumes h: "hosts g r cs" and c: "c \<in> cs" and i: "(c, i) \<in> (child_rel (by_id g))\<^sup>*"
  shows "i \<noteq> r" "i \<in> set (ids (g_nodes g))"
proof -
  from h obtain node where n: "graph_ok g" "graph_node g r = Some node" "cs \<subseteq> set (listed_children node)" "sound_under g r"
    by (auto simp: hosts_def)
  then have rc: "(r, c) \<in> child_rel (by_id g)" using c child_of_node [OF n(1,2)] by (auto simp: child_rel_iff)
  with i have ri: "(r, i) \<in> (child_rel (by_id g))\<^sup>+" by simp
  moreover have "(r, r) \<notin> (child_rel (by_id g))\<^sup>+"
    using n(4) by (auto simp: sound_under_def set_subtree)
  ultimately show "i \<noteq> r" by blast
  from ri obtain p where p: "(r, p) \<in> (child_rel (by_id g))\<^sup>*" "(p, i) \<in> child_rel (by_id g)"
    by (meson tranclD2)
  with n(4) show "i \<in> set (ids (g_nodes g))" by (auto simp: sound_under_def set_subtree child_rel_iff)
qed

lemma scaffold_nodes_of:
  assumes "scaffold_ok bi" "run \<in> set (all_runs bi)"
  shows "bi_runner bi \<notin> set (nodes_of (by_id (bi_graph bi)) run)"
  using assms hosted_below(1) [of "bi_graph bi" "bi_runner bi" "listed bi" "run_decorator run" "bi_runner bi"]
  by (auto simp: scaffold_ok_def nodes_of_def set_subtree listed_def)

section \<open>Every operation keeps it\<close>

text \<open>An edit that sets the runner anew hosts what the runner lists.\<close>

lemma edit_hosts:
  assumes "graph_ok (bi_graph bi)" "g_root (bi_graph bi) = Some (bi_runner bi)" "bi_runner bi \<notin> set (d_remove d)"
    and "d_root d = None" "d_set d = ns @ [runner_node bi]" "binds_ok ns"
  shows "\<exists>r bi'. edit_lowering E d det bi = Some (r, bi') \<and>
    ((\<exists>e. r = Inl e) \<and> bi' = bi \<or> r = Inr () \<and> edits_to d bi bi' \<and> hosts (bi_graph bi') (bi_runner bi) (listed bi))"
proof -
  let ?g = "apply_ref (bi_graph bi) d"
  have d: "binds_ok (d_set d)" using assms(5,6) by (simp add: runner_node_def runner_at_def)
  obtain b where b: "graph_node ?g (n_id (runner_node bi)) = Some ((runner_node bi)\<lparr>n_bind := b\<rparr>)"
    using node_set_last [OF assms(5)] by blast
  have i: "n_id (runner_node bi) = bi_runner bi" by (simp add: runner_node_def runner_at_def)
  have "bi_runner bi \<in> set (ids (g_nodes ?g))" unfolding ids_edited using assms(5) i by simp
  from edit_facts [OF assms(1) d this, of E det] obtain r bi' where e: "edit_lowering E d det bi = Some (r, bi')"
    "(\<exists>e. r = Inl e) \<and> bi' = bi \<or> r = Inr () \<and> edits_to d bi bi'" by blast
  have "hosts ?g (bi_runner bi) (listed bi)" if "graph_ok ?g" "sound_under ?g (bi_runner bi)"
    unfolding hosts_def
  proof (intro conjI exI)
    show "graph_node ?g (bi_runner bi) = Some ((runner_node bi)\<lparr>n_bind := b\<rparr>)" using b by (simp only: i)
    show "n_function ((runner_node bi)\<lparr>n_bind := b\<rparr>) = PARALLEL_FUNCTION_ID"
      by (simp add: runner_node_def runner_at_def)
    have "listed_children ((runner_node bi)\<lparr>n_bind := b\<rparr>) = listed_children (runner_node bi)"
      by (simp add: listed_children_def)
    then show "listed bi \<subseteq> set (listed_children ((runner_node bi)\<lparr>n_bind := b\<rparr>))"
      using listed_runner_node [of bi] by (simp only: order_refl)
  qed (use that root_kept [OF assms(4,2,3)] in simp_all)
  then have "hosts (bi_graph bi') (bi_runner bi) (listed bi)" if "edits_to d bi bi'"
    using that by (auto simp: edits_to_def)
  with e show ?thesis by blast
qed

lemma edits_to_sel:
  assumes "edits_to d bi bi'"
  shows "bi_runner bi' = bi_runner bi" "bi_main_root bi' = bi_main_root bi" "bi_runs bi' = bi_runs bi"
    "bi_finished bi' = bi_finished bi" "bi_revision bi' = bi_revision bi" "bi_halted bi' = bi_halted bi"
    "bi_graph bi' = apply_ref (bi_graph bi) d" "bi_functions bi' = bi_functions bi" "bi_traces bi' = bi_traces bi"
    "listed bi' = listed bi" "all_runs bi' = all_runs bi"
  using assms by (auto simp: edits_to_def listed_def all_runs_def)

lemma revise_sel [simp]:
  "bi_graph (revise_since g bi) = bi_graph bi" "bi_runner (revise_since g bi) = bi_runner bi"
  "bi_main_root (revise_since g bi) = bi_main_root bi" "bi_runs (revise_since g bi) = bi_runs bi"
  "bi_finished (revise_since g bi) = bi_finished bi" "bi_halted (revise_since g bi) = bi_halted bi"
  "bi_functions (revise_since g bi) = bi_functions bi" "bi_traces (revise_since g bi) = bi_traces bi"
  by (simp_all add: revise_since_def)

text \<open>What the invariant reads of a state.\<close>

lemma scaffold_ok_cong:
  assumes "scaffold_ok bi" "bi_graph bi' = bi_graph bi" "bi_runner bi' = bi_runner bi" "listed bi' \<subseteq> listed bi"
    "\<And>run. run \<in> set (all_runs bi') \<Longrightarrow> run \<in> set (all_runs bi) \<or> bi_runner bi \<notin> set (run_detached run)"
  shows "scaffold_ok bi'"
  using assms hosts_mono [of "bi_graph bi" "bi_runner bi" "listed bi" "listed bi'"]
  unfolding scaffold_ok_def by auto

definition keeps :: "('l, 'r, 'a) interpreter_step \<Rightarrow> ('l, 'r) BehaviorTreeInterpreter \<Rightarrow> bool" where
  "keeps m bi \<longleftrightarrow> (\<exists>r bi'. m bi = Some (r, bi') \<and> scaffold_ok bi')"

definition settles :: "('l, 'r, 'a) interpreter_step \<Rightarrow> ('l, 'r) BehaviorTreeInterpreter \<Rightarrow> bool" where
  "settles m bi \<longleftrightarrow> (\<exists>r bi'. m bi = Some (r, bi') \<and> scaffold_ok bi' \<and> (\<forall>e. r = Inl e \<longrightarrow> bi' = bi))"

lemma settles_keeps: "settles m bi \<Longrightarrow> keeps m bi"
  by (auto simp: settles_def keeps_def)

lemma keeps_bind:
  assumes "\<exists>r bi'. m bi = Some (r, bi') \<and> scaffold_ok bi' \<and> (\<forall>x. r = Inr x \<longrightarrow> keeps (f x) bi')"
  shows "keeps (act_bind m f) bi"
  using assms by (auto simp: keeps_def act_bind_def split: sum.splits)

lemma keeps_simps [simp]:
  "keeps (act_return x) bi \<longleftrightarrow> scaffold_ok bi" "keeps (act_fail e) bi \<longleftrightarrow> scaffold_ok bi"
  "keeps (act_modify f) bi \<longleftrightarrow> scaffold_ok (f bi)"
  by (simp_all add: keeps_def act_defs)

text \<open>
  Pruning: \<open>runs\<close> are no longer in the lists, but the runner still lists them.
\<close>

lemma prune_keeps:
  assumes h: "hosts (bi_graph bi) (bi_runner bi) (listed bi \<union> run_decorator ` set runs)"
    and det: "\<forall>run \<in> set (all_runs bi) \<union> set runs. bi_runner bi \<notin> set (run_detached run)"
  shows "\<exists>r bi'. prune E runs bi = Some (r, bi') \<and> scaffold_ok bi' \<and> bi_runner bi' = bi_runner bi \<and>
    bi_main_root bi' = bi_main_root bi \<and> bi_runs bi' = bi_runs bi \<and> bi_finished bi' = bi_finished bi \<and>
    (\<forall>e. r = Inl e \<longrightarrow> bi' = bi)"
proof -
  have ok: "scaffold_ok bi" using hosts_mono [OF h] det by (auto simp: scaffold_ok_def)
  show ?thesis
  proof (cases "runs = []")
    case True
    with ok show ?thesis by (simp add: prune_def)
  next
    case False
    define leaving where "leaving = hs_extend (reach (by_id (bi_graph bi)) (map run_decorator runs)) (concat (map run_detached runs))"
    define d where "d = \<lparr>d_remove = filter (\<lambda>i. i \<notin> set (held_outside bi leaving)) leaving,
      d_set = [runner_node bi], d_unbind = [], d_bind = [], d_root = None\<rparr>"
    have "bi_runner bi \<notin> set leaving"
      using det hosted_below(1) [OF h] by (auto simp: leaving_def set_reach)
    then have "bi_runner bi \<notin> set (d_remove d)" by (simp add: d_def)
    then obtain r bi' where e: "edit_lowering E d False bi = Some (r, bi')"
      "(\<exists>e. r = Inl e) \<and> bi' = bi \<or> r = Inr () \<and> edits_to d bi bi' \<and> hosts (bi_graph bi') (bi_runner bi) (listed bi)"
      using edit_hosts [of bi d "[]" E False] h by (auto simp: hosts_def d_def)
    have p: "prune E runs bi = act_bind (edit_lowering E d False) (\<lambda>_. act_modify (revise_since (main_graph_beside bi runs))) bi"
      using False by (simp add: prune_def Let_def edit_def flip: leaving_def d_def)
    from e(2) show ?thesis
    proof
      assume "(\<exists>e. r = Inl e) \<and> bi' = bi"
      with e(1) ok show ?thesis by (auto simp: p act_bind_def)
    next
      assume a: "r = Inr () \<and> edits_to d bi bi' \<and> hosts (bi_graph bi') (bi_runner bi) (listed bi)"
      then have s: "bi_runner bi' = bi_runner bi" "listed bi' = listed bi" "all_runs bi' = all_runs bi"
        "bi_main_root bi' = bi_main_root bi" "bi_runs bi' = bi_runs bi" "bi_finished bi' = bi_finished bi"
        by (auto simp: edits_to_sel)
      have "scaffold_ok (revise_since g bi')" for g
        using a det s by (auto simp: scaffold_ok_def listed_def all_runs_def)
      with e(1) a s show ?thesis by (simp add: p act_bind_def act_modify_def)
    qed
  qed
qed

lemma prune_finished_keeps:
  assumes ok: "scaffold_ok bi"
  shows "\<exists>r bi'. prune_finished E bi = Some (r, bi') \<and> scaffold_ok bi' \<and> bi_runner bi' = bi_runner bi \<and>
    bi_main_root bi' = bi_main_root bi \<and> bi_runs bi' = bi_runs bi \<and> bi_finished bi' = [] \<and>
    (\<forall>e. r = Inl e \<longrightarrow> bi' = bi\<lparr>bi_finished := []\<rparr>)"
proof -
  let ?bi = "bi\<lparr>bi_finished := []\<rparr>"
  have "listed ?bi \<union> run_decorator ` set (bi_finished bi) = listed bi" by (auto simp: listed_def all_runs_def)
  then show ?thesis
    using prune_keeps [of ?bi "bi_finished bi" E] ok by (auto simp: prune_finished_def scaffold_ok_def all_runs_def)
qed

lemma keeps_prune_finished:
  assumes "scaffold_ok bi" "\<And>bi'. scaffold_ok bi' \<Longrightarrow> keeps m bi'"
  shows "keeps (act_bind (prune_finished E) (\<lambda>_. m)) bi"
  using prune_finished_keeps [OF assms(1), of E] assms(2) by (intro keeps_bind) blast

text \<open>An edit made while the main root is another, which a refusal puts back.\<close>

lemma rerooted_edit:
  assumes ok: "scaffold_ok bi" and bi1: "bi1 = bi\<lparr>bi_main_root := root\<rparr>"
    and d: "bi_runner bi \<notin> set (d_remove d)" "d_root d = None" "d_set d = ns @ [runner_node bi1]" "binds_ok ns"
  shows "\<exists>r bi'. act_on_err (\<lambda>bi'. bi'\<lparr>bi_main_root := bi_main_root bi\<rparr>) (edit E d) bi1 = Some (r, bi') \<and>
    ((\<exists>e. r = Inl e) \<and> bi' = bi \<or> r = Inr () \<and> edits_to d bi1 bi' \<and> scaffold_ok bi')"
proof -
  have s: "bi_graph bi1 = bi_graph bi" "bi_runner bi1 = bi_runner bi" "all_runs bi1 = all_runs bi"
    by (simp_all add: bi1 all_runs_def)
  from ok have "graph_ok (bi_graph bi1)" "g_root (bi_graph bi1) = Some (bi_runner bi1)"
    by (simp_all add: s scaffold_ok_def hosts_def)
  from edit_hosts [OF this, of d ns E False] d obtain r bi' where e: "edit E d bi1 = Some (r, bi')"
    "(\<exists>e. r = Inl e) \<and> bi' = bi1 \<or> r = Inr () \<and> edits_to d bi1 bi' \<and> hosts (bi_graph bi') (bi_runner bi1) (listed bi1)"
    by (auto simp: s edit_def)
  from e(2) show ?thesis
  proof
    assume "(\<exists>e. r = Inl e) \<and> bi' = bi1"
    with e(1) show ?thesis by (auto simp: act_on_err_def bi1)
  next
    assume a: "r = Inr () \<and> edits_to d bi1 bi' \<and> hosts (bi_graph bi') (bi_runner bi1) (listed bi1)"
    then have "bi_runner bi' = bi_runner bi1" "listed bi' = listed bi1" "all_runs bi' = all_runs bi1"
      by (auto simp: edits_to_sel)
    with a ok have "scaffold_ok bi'" by (simp add: scaffold_ok_def s)
    with e(1) a show ?thesis by (simp add: act_on_err_def)
  qed
qed

lemma apply_edit_settles:
  assumes ok: "scaffold_ok bi" and d: "binds_ok (d_set diff)"
  shows "settles (apply_edit E diff) bi"
proof -
  define rest where "rest = diff\<lparr>d_remove := filter (\<lambda>i. i \<noteq> bi_runner bi) (d_remove diff)\<rparr>"
  define bi1 where "bi1 = bi\<lparr>bi_main_root := edited_root rest (bi_main_root bi)\<rparr>"
  define d1 where "d1 = rest\<lparr>d_root := None, d_set := d_set rest @ [runner_node bi1]\<rparr>"
  have "\<exists>r bi'. act_on_err (\<lambda>bi'. bi'\<lparr>bi_main_root := bi_main_root bi\<rparr>) (edit E d1) bi1 = Some (r, bi') \<and>
    ((\<exists>e. r = Inl e) \<and> bi' = bi \<or> r = Inr () \<and> edits_to d1 bi1 bi' \<and> scaffold_ok bi')"
    by (rule rerooted_edit [OF ok bi1_def, of _ "d_set diff"]) (simp_all add: d1_def rest_def d)
  then obtain r bi' where e: "act_on_err (\<lambda>bi'. bi'\<lparr>bi_main_root := bi_main_root bi\<rparr>) (edit E d1) bi1 = Some (r, bi')"
    "(\<exists>e. r = Inl e) \<and> bi' = bi \<or> r = Inr () \<and> scaffold_ok bi'" by blast
  have "scaffold_ok (revise_since g bi')" if "scaffold_ok bi'" for g
    by (rule scaffold_ok_cong [OF that]) (simp_all add: listed_def all_runs_def)
  with e ok show ?thesis
    by (cases "edit_refused bi diff")
      (auto simp: settles_def apply_edit_def Let_def act_bind_def act_modify_def simp flip: d1_def bi1_def rest_def)
qed

lemma load_main_settles:
  assumes ok: "scaffold_ok bi" and g: "binds_ok (g_nodes graph)"
  shows "settles (load_main E graph) bi"
proof -
  from ok have dist: "distinct (ids (g_nodes (bi_graph bi)))" by (simp add: scaffold_ok_def hosts_def graph_ok_def)
  define after where "after = apply_ref (bi_graph bi) (empty_diff\<lparr>d_set := g_nodes graph\<rparr>)"
  have a: "graph_apply (bi_graph bi) (empty_diff\<lparr>d_set := g_nodes graph\<rparr>) = Some (Inr after)"
    using graph_apply_ref [OF dist, of "empty_diff\<lparr>d_set := g_nodes graph\<rparr>"]
    by (simp add: after_def refused_binding_def Let_def)
  define bi1 where "bi1 = bi\<lparr>bi_main_root := g_root graph\<rparr>"
  define d1 where "d1 = \<lparr>d_remove = replaced_main bi after, d_set = g_nodes graph @ [runner_node bi1],
    d_unbind = [], d_bind = [], d_root = None\<rparr>"
  have "\<exists>r bi'. act_on_err (\<lambda>bi'. bi'\<lparr>bi_main_root := bi_main_root bi\<rparr>) (edit E d1) bi1 = Some (r, bi') \<and>
    ((\<exists>e. r = Inl e) \<and> bi' = bi \<or> r = Inr () \<and> edits_to d1 bi1 bi' \<and> scaffold_ok bi')"
    by (rule rerooted_edit [OF ok bi1_def, of _ "g_nodes graph"]) (simp_all add: d1_def replaced_main_def g)
  then obtain r bi' where e: "act_on_err (\<lambda>bi'. bi'\<lparr>bi_main_root := bi_main_root bi\<rparr>) (edit E d1) bi1 = Some (r, bi')"
    "(\<exists>e. r = Inl e) \<and> bi' = bi \<or> r = Inr () \<and> scaffold_ok bi'" by blast
  have "scaffold_ok (bi'\<lparr>bi_revision := n\<rparr>)" if "scaffold_ok bi'" for n
    by (rule scaffold_ok_cong [OF that]) (simp_all add: listed_def all_runs_def)
  with e ok a show ?thesis
    by (cases "find (\<lambda>node. n_id node \<in> set (not_main bi)) (g_nodes graph)")
      (auto simp: settles_def load_main_def Let_def act_bind_def act_modify_def simp flip: d1_def bi1_def)
qed

lemma graft_keeps:
  assumes ok: "scaffold_ok bi" and g: "binds_ok fragment" and det: "bi_runner bi \<notin> set detached"
  shows "\<exists>r bi'. graft E task decorator module function root detached fragment bi = Some (r, bi') \<and> scaffold_ok bi' \<and>
    ((\<exists>e. r = Inl e) \<and> bi' = bi \<or> (\<exists>h run d. r = Inr h \<and> th_id h = task \<and>
       run = \<lparr>run_handle = h, run_decorator = decorator, run_detached = detached\<rparr> \<and>
       d = empty_diff\<lparr>d_set := fragment @ [decorator_node decorator (th_status h) root,
         runner_node (bi\<lparr>bi_runs := bi_runs bi @ [run]\<rparr>)]\<rparr> \<and>
       edits_to d (bi\<lparr>bi_runs := bi_runs bi @ [run]\<rparr>) bi'))"
proof -
  define h where "h = task_handle task (run_prefix E module function task)"
  define run where "run = \<lparr>run_handle = h, run_decorator = decorator, run_detached = detached\<rparr>"
  define bi1 where "bi1 = bi\<lparr>bi_runs := bi_runs bi @ [run]\<rparr>"
  define d where "d = \<lparr>d_remove = [], d_set = fragment @ [decorator_node decorator (th_status h) root, runner_node bi1],
    d_unbind = [], d_bind = [], d_root = None\<rparr>"
  have s: "bi_graph bi1 = bi_graph bi" "bi_runner bi1 = bi_runner bi" by (simp_all add: bi1_def)
  have "bt_ok (n_bind (decorator_node decorator (th_status h) root))"
    unfolding decorator_node_def by (simp del: bt_insert.simps)
  then have "binds_ok (fragment @ [decorator_node decorator (th_status h) root])" using g by simp
  from edit_hosts [OF _ _ _ _ _ this, of bi1 d E True] ok obtain r bi' where e: "edit_lowering E d True bi1 = Some (r, bi')"
    "(\<exists>e. r = Inl e) \<and> bi' = bi1 \<or> r = Inr () \<and> edits_to d bi1 bi' \<and> hosts (bi_graph bi') (bi_runner bi1) (listed bi1)"
    by (auto simp: s scaffold_ok_def hosts_def d_def)
  have g: "graft E task decorator module function root detached fragment bi =
      act_bind (act_on_err (\<lambda>bi. bi\<lparr>bi_runs := butlast (bi_runs bi)\<rparr>) (edit_lowering E d True)) (\<lambda>_. act_return h) bi1"
    by (simp add: graft_def Let_def bi1_def run_def h_def d_def)
  from e(2) show ?thesis
  proof
    assume "(\<exists>e. r = Inl e) \<and> bi' = bi1"
    moreover have "bi1\<lparr>bi_runs := butlast (bi_runs bi1)\<rparr> = bi" by (simp add: bi1_def)
    ultimately show ?thesis using e(1) ok by (auto simp: g act_bind_def act_on_err_def)
  next
    assume a: "r = Inr () \<and> edits_to d bi1 bi' \<and> hosts (bi_graph bi') (bi_runner bi1) (listed bi1)"
    then have "bi_runner bi' = bi_runner bi1" "listed bi' = listed bi1" "all_runs bi' = all_runs bi1"
      by (auto simp: edits_to_sel)
    then have "scaffold_ok bi'"
      using a ok det by (auto simp: scaffold_ok_def s all_runs_def bi1_def run_def)
    moreover have "graft E task decorator module function root detached fragment bi = Some (Inr h, bi')"
      using e(1) a by (simp add: g act_bind_def act_on_err_def act_return_def)
    moreover have "edits_to d (bi\<lparr>bi_runs := bi_runs bi @ [run]\<rparr>) bi'" using a by (simp add: bi1_def)
    ultimately show ?thesis by (auto simp: run_def d_def bi1_def h_def task_handle_def)
  qed
qed

text \<open>
  A respawn edits the run's own nodes alone: the diff removes some, and sets and rebinds nodes of the
  spawned graph.
\<close>

lemma own_diff:
  assumes "g_root own = Some root" "g_root graph = Some root" "root \<in> set (ids (g_nodes graph))"
    "distinct (ids (g_nodes own))" "distinct (ids (g_nodes graph))"
  shows "d_root (graph_diff own graph) = None" "set (d_remove (graph_diff own graph)) \<subseteq> set (ids (g_nodes own))"
    "set (d_set (graph_diff own graph)) \<subseteq> set (g_nodes graph)"
proof -
  have none: "unrooted own graph = None" using assms(1,2) by (simp add: unrooted_def)
  then show sub: "set (d_remove (graph_diff own graph)) \<subseteq> set (ids (g_nodes own))"
    by (auto simp: graph_diff_sel diff_remove_def)
  have "root \<notin> set (diff_remove own graph)"
  proof (cases "root \<in> set (ids (g_nodes own))")
    case True
    with assms show ?thesis using in_diff_remove(1) [OF assms(4,5) True] by (simp add: stays_def)
  next
    case False
    with sub show ?thesis by (auto simp: graph_diff_sel)
  qed
  with assms show "d_root (graph_diff own graph) = None" by (simp add: graph_diff_sel)
  show "set (d_set (graph_diff own graph)) \<subseteq> set (g_nodes graph)" by (auto simp: graph_diff_sel)
qed

lemma position_Some:
  "position P xs = Some i \<Longrightarrow> i < length xs \<and> P (xs ! i)"
  by (auto simp: position_def Let_def split: if_splits dest: nth_length_takeWhile)

lemma device_contains: "hm_contains (by_id g) i \<longleftrightarrow> i \<in> set (ids (g_nodes g))"
  unfolding hm_contains_iff_set keys_by_id ..

lemma respawn_keeps:
  assumes ok: "scaffold_ok bi" and at: "at < length (bi_runs bi)" and g: "graph_ok graph"
    and root: "g_root graph = Some root" "root \<in> set (ids (g_nodes graph))" and det: "set detached \<subseteq> set (ids (g_nodes graph))"
  shows "\<exists>r bi'. respawn E at graph detached bi = Some (r, bi') \<and> scaffold_ok bi' \<and>
    (\<forall>e. r = Inl e \<longrightarrow> bi' = bi) \<and> (\<forall>h. r = Inr h \<longrightarrow> h = run_handle (bi_runs bi ! at))"
proof -
  define run where "run = bi_runs bi ! at"
  define own where "own = own_graph bi run (g_root graph)"
  define d where "d = graph_diff own graph"
  have run: "run \<in> set (bi_runs bi)" using at by (simp add: run_def)
  then have not_held: "bi_runner bi \<notin> set (held_by bi run)"
    using scaffold_nodes_of [OF ok, of run] by (simp add: held_by_def all_runs_def)
  from ok have gok: "graph_ok (bi_graph bi)" by (simp add: scaffold_ok_def hosts_def)
  from ok have runner: "bi_runner bi \<in> set (ids (g_nodes (bi_graph bi)))"
    unfolding scaffold_ok_def by (blast intro: hosts_ids)
  have step: "respawn E at graph detached bi = (case respawn_refused bi run graph of
      Some e \<Rightarrow> Some (Inl e, bi)
    | None \<Rightarrow> if d \<noteq> empty_diff
        then act_bind (edit_lowering E d True) (\<lambda>_.
               act_bind (act_modify (revise_since (main_graph bi) \<circ> set_detached at detached)) (\<lambda>_.
                 act_return (run_handle run))) bi
        else Some (Inr (run_handle run), set_detached at detached bi))"
    by (simp only: respawn_def Let_def run_def own_def d_def)
  have fresh: "bi_runner bi \<notin> set (ids (g_nodes graph))" if "respawn_refused bi run graph = None"
  proof
    assume "bi_runner bi \<in> set (ids (g_nodes graph))"
    then obtain node where "node \<in> set (g_nodes graph)" "n_id node = bi_runner bi" by auto
    moreover from that have "\<forall>node \<in> set (g_nodes graph).
        \<not> (hm_contains (by_id (bi_graph bi)) (n_id node) \<and> n_id node \<notin> set (held_by bi run))"
      by (auto simp: respawn_refused_def find_None_iff split: option.splits)
    ultimately show False using runner not_held unfolding device_contains by metis
  qed
  have set_detached_ok: "scaffold_ok (set_detached at detached bi')"
    if "scaffold_ok bi'" "bi_runs bi' = bi_runs bi" "bi_runner bi' = bi_runner bi" "bi_runner bi \<notin> set detached" for bi'
  proof (rule scaffold_ok_cong [OF that(1)])
    have "map run_decorator (bi_runs (set_detached at detached bi')) = map run_decorator (bi_runs bi')"
      using at that(2) by (simp add: set_detached_def map_update list_update_same_conv)
    from arg_cong [OF this, of set] show "listed (set_detached at detached bi') \<subseteq> listed bi'"
      by (auto simp: listed_def all_runs_def set_detached_def)
    show "run' \<in> set (all_runs bi') \<or> bi_runner bi' \<notin> set (run_detached run')"
      if "run' \<in> set (all_runs (set_detached at detached bi'))" for run'
      using that at \<open>bi_runs bi' = bi_runs bi\<close> \<open>bi_runner bi' = bi_runner bi\<close> \<open>bi_runner bi \<notin> set detached\<close>
      by (auto simp: all_runs_def set_detached_def dest: set_update_subset_insert [THEN subsetD])
  qed (simp_all add: set_detached_def)
  show ?thesis
  proof (cases "respawn_refused bi run graph")
    case (Some e)
    with ok show ?thesis by (simp add: step)
  next
    case None
    note fresh = fresh [OF None]
    with det have no_runner: "bi_runner bi \<notin> set detached" by blast
    show ?thesis
    proof (cases "d = empty_diff")
      case True
      with None set_detached_ok [OF ok refl refl no_runner] show ?thesis by (simp add: step run_def)
    next
      case other: False
      have own: "g_root own = Some root" "distinct (ids (g_nodes own))" "set (ids (g_nodes own)) \<subseteq> set (held_by bi run)"
        using gok root(1) by (auto simp: own_def own_graph_def graph_ok_def distinct_map_filter)
      from g have gd: "distinct (ids (g_nodes graph))" "binds_ok (g_nodes graph)" by (simp_all add: graph_ok_def)
      note diff = own_diff [OF own(1) root own(2) gd(1), folded d_def]
      have keep: "bi_runner bi \<notin> set (d_remove d)" "bi_runner bi \<notin> set (ids (d_set d))"
        using diff(2,3) own(3) not_held fresh by auto
      have "binds_ok (d_set d)" using diff(3) gd(2) by (auto simp: list_all_iff)
      moreover have "bi_runner bi \<in> set (ids (g_nodes (apply_ref (bi_graph bi) d)))"
        unfolding ids_edited using runner keep by blast
      ultimately obtain r bi' where e: "edit_lowering E d True bi = Some (r, bi')"
        "(\<exists>e. r = Inl e) \<and> bi' = bi \<or> r = Inr () \<and> edits_to d bi bi'"
        using edit_facts [OF gok, of d E True] by blast
      show ?thesis
      proof (cases r)
        case (Inl x)
        with e None other ok show ?thesis by (simp add: step act_bind_def)
      next
        case (Inr u)
        with e have to: "edits_to d bi bi'" by simp
        from ok obtain node where n: "graph_node (bi_graph bi) (bi_runner bi) = Some node"
          "n_function node = PARALLEL_FUNCTION_ID" "listed bi \<subseteq> set (listed_children node)"
          by (auto simp: scaffold_ok_def hosts_def)
        from node_kept [OF n(1) keep] n(2,3) have "\<exists>node. graph_node (apply_ref (bi_graph bi) d) (bi_runner bi) = Some node \<and>
          n_function node = PARALLEL_FUNCTION_ID \<and> listed bi \<subseteq> set (listed_children node)"
          by (auto simp: listed_children_def)
        then have "hosts (bi_graph bi') (bi_runner bi) (listed bi)"
          using to root_kept [OF diff(1) _ keep(1), of "bi_graph bi"] ok
          by (auto simp: edits_to_def hosts_def scaffold_ok_def)
        with ok edits_to_sel [OF to] have ok': "scaffold_ok bi'" by (simp add: scaffold_ok_def)
        with set_detached_ok [OF ok'] edits_to_sel [OF to] no_runner have sd: "scaffold_ok (set_detached at detached bi')" by simp
        have "scaffold_ok (revise_since (main_graph bi) (set_detached at detached bi'))"
          by (rule scaffold_ok_cong [OF sd]) (simp_all add: listed_def all_runs_def)
        with e(1) Inr None other show ?thesis by (simp add: step act_bind_def act_modify_def act_return_def run_def)
      qed
    qed
  qed
qed

text \<open>The checks of a spawned graph, made before the scaffold is touched.\<close>

lemma check_spawned_facts:
  "\<exists>r. check_spawned E graph_type graph = Some r \<and>
     (\<forall>root detached. r = Inr (root, detached) \<longrightarrow> g_root graph = Some root \<and> root \<in> set (ids (g_nodes graph)) \<and>
        tree_with graph root detached)"
proof -
  obtain l where l: "lowers E graph = Some l" using lowers_defined by blast
  have "root \<in> set (ids (g_nodes graph))" if "graph_node graph root \<noteq> None" for root
    using that unfolding graph_node_def by (simp only: node_at_None not_not)
  moreover have "tree_with graph root detached" if "root \<in> set (ids (g_nodes graph))" "check_tree graph root = Inr detached" for root detached
    using tree_decided [OF that(1), of detached] that(2) by simp
  ultimately show ?thesis
    unfolding check_spawned_def l by (auto split: option.splits sum.splits)
qed

lemma tree_detached: "tree_with graph root detached \<Longrightarrow> set detached \<subseteq> set (ids (g_nodes graph))"
  unfolding tree_with_def by blast

lemma run_graph_keeps:
  assumes ok: "scaffold_ok bi" and g: "binds_ok (g_nodes graph)"
    and t: "g_root graph = Some root" "root \<in> set (ids (g_nodes graph))" "tree_with graph root detached"
  shows "\<exists>r bi'. run_graph E task decorator graph root detached bi = Some (r, bi') \<and> scaffold_ok bi' \<and>
    (\<forall>e. r = Inl e \<longrightarrow> bi' = bi)"
proof (cases "position (\<lambda>run. root_of (by_id (bi_graph bi)) run = Some root) (bi_runs bi)")
  case (Some at)
  have "graph_ok graph" using g t(3) by (simp add: graph_ok_def tree_with_def)
  from respawn_keeps [OF ok _ this t(1,2) tree_detached [OF t(3)], of at E] position_Some [OF Some] Some
  show ?thesis by (auto simp: run_graph_def Let_def)
next
  case None
  show ?thesis
  proof (cases "find (\<lambda>node. hm_contains (by_id (bi_graph bi)) (n_id node)) (g_nodes graph)")
    case (Some node)
    with None ok show ?thesis by (simp add: run_graph_def Let_def)
  next
    case none: None
    from ok have "bi_runner bi \<in> set (ids (g_nodes (bi_graph bi)))" unfolding scaffold_ok_def by (blast intro: hosts_ids)
    with none have "bi_runner bi \<notin> set (ids (g_nodes graph))" by (auto simp: find_None_iff device_contains)
    with tree_detached [OF t(3)] have "bi_runner bi \<notin> set detached" by blast
    from graft_keeps [OF ok g this] none None show ?thesis by (simp add: run_graph_def Let_def) blast
  qed
qed

lemma halt_keeps:
  assumes ok: "scaffold_ok bi"
  shows "keeps (interpreter_halt E task) bi"
proof -
  obtain status tr where h: "se_traces_halt E (bi_traces bi) task = (status, tr)" by fastforce
  let ?bi = "bi\<lparr>bi_traces := tr\<rparr>"
  have ok1: "scaffold_ok ?bi" by (rule scaffold_ok_cong [OF ok]) (simp_all add: listed_def all_runs_def)
  have halted: "scaffold_ok (bi'\<lparr>bi_halted := ks\<rparr>)" if "scaffold_ok bi'" for bi' :: "('a, 'b) BehaviorTreeInterpreter" and ks
    by (rule scaffold_ok_cong [OF that]) (simp_all add: listed_def all_runs_def)
  have armed: "scaffold_ok (?bi\<lparr>bi_lowered := l, bi_halted := ks\<rparr>)" for l ks
    by (rule scaffold_ok_cong [OF ok1]) (simp_all add: listed_def all_runs_def)
  show ?thesis
  proof (cases status)
    case (Some key)
    with h armed show ?thesis by (simp add: keeps_def interpreter_halt_def)
  next
    case None
    show ?thesis
    proof (cases "position (\<lambda>run. th_id (run_handle run) = task) (bi_runs bi)")
      case None
      with h \<open>status = None\<close> ok1 show ?thesis by (simp add: keeps_def interpreter_halt_def)
    next
      case (Some at)
      define run where "run = bi_runs bi ! at"
      define bi1 where "bi1 = ?bi\<lparr>bi_runs := take at (bi_runs bi) @ drop (Suc at) (bi_runs bi)\<rparr>"
      from position_Some [OF Some] have at: "at < length (bi_runs bi)" by simp
      have "set (bi_runs bi) = set (take at (bi_runs bi) @ bi_runs bi ! at # drop (Suc at) (bi_runs bi))"
        using id_take_nth_drop [OF at] by (rule arg_cong)
      then have split: "set (bi_runs bi) = set (bi_runs bi1) \<union> {run}"
        unfolding bi1_def run_def by simp
      have "listed bi1 \<union> run_decorator ` set [run] = listed bi"
        using split by (auto simp: listed_def all_runs_def bi1_def)
      moreover have "set (all_runs bi1) \<union> set [run] = set (all_runs bi)" using split by (auto simp: all_runs_def bi1_def)
      moreover have "bi_graph bi1 = bi_graph bi" "bi_runner bi1 = bi_runner bi" by (simp_all add: bi1_def)
      ultimately obtain r bi' where p: "prune E [run] bi1 = Some (r, bi')" "scaffold_ok bi'"
        using prune_keeps [of bi1 "[run]" E] ok by (auto simp: scaffold_ok_def)
      then have "keeps (act_bind (prune E [run])
          (\<lambda>_. act_modify (\<lambda>bi. bi\<lparr>bi_halted := bi_halted bi @ [th_status (run_handle run)]\<rparr>))) bi1"
        using halted by (intro keeps_bind) auto
      then show ?thesis using h \<open>status = None\<close> Some by (simp add: keeps_def interpreter_halt_def Let_def bi1_def run_def)
    qed
  qed
qed

section \<open>Reachable scaffolds\<close>

text \<open>A step of the tick, which also has the device's store and engine.\<close>

definition tick_keeps :: "('s, 'l, 'r, 'a) tick_step \<Rightarrow> bool" where
  "tick_keeps m \<longleftrightarrow> (\<forall>bi ts r bi' ts'. scaffold_ok bi \<longrightarrow> m (bi, ts) = Some (r, bi', ts') \<longrightarrow> scaffold_ok bi')"

lemma tick_keepsD: "tick_keeps m \<Longrightarrow> scaffold_ok bi \<Longrightarrow> m (bi, ts) = Some (r, bi', ts') \<Longrightarrow> scaffold_ok bi'"
  unfolding tick_keeps_def by blast

lemma tick_keepsI:
  "(\<And>bi ts r bi' ts'. scaffold_ok bi \<Longrightarrow> m (bi, ts) = Some (r, bi', ts') \<Longrightarrow> scaffold_ok bi') \<Longrightarrow> tick_keeps m"
  unfolding tick_keeps_def by blast

lemma tick_keeps_bind [intro]:
  "tick_keeps m \<Longrightarrow> (\<And>x. tick_keeps (f x)) \<Longrightarrow> tick_keeps (act_bind m f)"
proof (rule tick_keepsI)
  fix bi ts r bi' ts'
  assume m: "tick_keeps m" and f: "\<And>x. tick_keeps (f x)"
    and ok: "scaffold_ok bi" and b: "act_bind m f (bi, ts) = Some (r, bi', ts')"
  from b obtain r1 bi1 ts1 where 1: "m (bi, ts) = Some (r1, bi1, ts1)"
    by (auto simp: act_bind_def split: Option.bind_splits)
  from tick_keepsD [OF m ok this] have "scaffold_ok bi1" .
  with tick_keepsD [OF f] b 1 show "scaffold_ok bi'" by (cases r1) (auto simp: act_bind_def)
qed

lemma tick_keeps_return [simp]: "tick_keeps (act_return x)" "tick_keeps (act_fail e)"
  by (simp_all add: tick_keeps_def act_return_def act_fail_def)

lemma tick_keeps_modify:
  "(\<And>bi ts. scaffold_ok bi \<Longrightarrow> scaffold_ok (fst (f (bi, ts)))) \<Longrightarrow> tick_keeps (act_modify f)"
  unfolding tick_keeps_def act_modify_def by (metis Pair_inject fst_conv option.inject)

lemma scaffold_ok_same:
  assumes "scaffold_ok bi" "bi_graph bi' = bi_graph bi" "bi_runner bi' = bi_runner bi"
    "bi_main_root bi' = bi_main_root bi" "set (all_runs bi') = set (all_runs bi)"
  shows "scaffold_ok bi'"
  by (rule scaffold_ok_cong [OF assms(1-3)]) (use assms(4,5) in \<open>simp_all add: listed_def\<close>)

lemma sweep_keeps: "scaffold_ok bi \<Longrightarrow> scaffold_ok (sweep_terminal_runs D s bi)"
  by (rule scaffold_ok_same) (auto simp: sweep_terminal_runs_def all_runs_def)

lemma write_halts_keeps: "tick_keeps (write_halts D)"
  unfolding tick_keeps_def write_halts_def
  by (auto simp: all_runs_def split: prod.splits elim!: scaffold_ok_same)

lemma write_revision_keeps: "tick_keeps (write_revision D)"
  unfolding tick_keeps_def write_revision_def
  by (auto simp: all_runs_def split: prod.splits if_splits sum.splits elim!: scaffold_ok_same)

lemma take_over_keeps: "tick_keeps (take_over T lowered)"
  unfolding tick_keeps_def take_over_def
  by (auto simp: all_runs_def split: option.splits elim!: scaffold_ok_same)

lemma tick_lowered_keeps: "tick_keeps (tick_lowered T)"
  unfolding tick_keeps_def tick_lowered_def
  by (auto simp: all_runs_def split: option.splits prod.splits Option.bind_splits if_splits elim!: scaffold_ok_same)

lemma relower_keeps: "tick_keeps (relower E T D functions)"
  unfolding relower_def
proof (rule tick_keeps_bind)
  show "tick_keeps (on_interpreter (prune_finished E))"
    unfolding tick_keeps_def on_interpreter_def
  proof (intro allI impI)
    fix bi ts r bi' ts'
    assume ok: "scaffold_ok bi" and p: "(\<lambda>(bi, ts). map_option (\<lambda>(r, bi). (r, bi, ts)) (prune_finished E bi)) (bi, ts) = Some (r, bi', ts')"
    from prune_finished_keeps [OF ok, of E] p show "scaffold_ok bi'" by auto
  qed
  fix u
  have rest: "tick_keeps (act_bind (take_over T lowered) (\<lambda>_.
      act_bind (act_modify (\<lambda>(bi, ts). (bi\<lparr>bi_traces := f bi, bi_fresh := [], bi_lowered := g bi, bi_dirty := False,
        bi_functions := functions\<rparr>, ts))) (\<lambda>_. write_revision D)))" for lowered f g
    by (intro tick_keeps_bind take_over_keeps tick_keeps_modify write_revision_keeps)
      (auto simp: all_runs_def elim!: scaffold_ok_same)
  show "tick_keeps (\<lambda>(bi, ts).
       case check_selections (bi_graph bi) functions of Inl e \<Rightarrow> Some (Inl (Unsound e), bi, ts) | Inr _ \<Rightarrow>
         Option.bind (build_behavior_tree (se_crates E) (se_new_v5 E) (bi_graph bi) Some ts) (\<lambda>(r, ts).
           case r of Inl e \<Rightarrow> Some (Inl (NotLowered e), bi, ts) | Inr tree \<Rightarrow>
             Option.bind (lo_lower T tree functions ts) (\<lambda>(r, ts).
               case r of Inl e \<Rightarrow> Some (Inl (NotRegistered e), bi, ts) | Inr lowered \<Rightarrow>
                 act_bind (take_over T lowered) (\<lambda>_.
                   act_bind (act_modify (\<lambda>(bi, ts).
                     (bi\<lparr>bi_traces := lo_keep_returns T (se_arm E (bi_traces bi) lowered) (bi_traces bi),
                         bi_fresh := [], bi_lowered := Some (se_arm E (bi_traces bi) lowered),
                         bi_dirty := False, bi_functions := functions\<rparr>, ts))) (\<lambda>_.
                     write_revision D)) (bi, ts))))"
    by (rule tick_keepsI) (auto split: sum.splits Option.bind_splits prod.splits dest: tick_keepsD [OF rest])
qed

lemma ticks_same: "scaffold_ok bi \<Longrightarrow> scaffold_ok (bi\<lparr>bi_ticks := n\<rparr>)"
  by (rule scaffold_ok_same) (simp_all add: all_runs_def)

lemma tick_keeps_interpreter: "tick_keeps (interpreter_tick E T D functions)"
proof -
  have "tick_keeps (\<lambda>(bi, ts). if bi_dirty bi then relower E T D functions (bi, ts) else Some (Inr (), bi, ts))"
    using relower_keeps [of E T D "functions"] unfolding tick_keeps_def by (auto split: if_splits)
  then have "tick_keeps (act_bind (write_halts D) (\<lambda>_.
     act_bind (write_revision D) (\<lambda>_.
     act_bind (\<lambda>(bi, ts). if bi_dirty bi then relower E T D functions (bi, ts) else Some (Inr (), bi, ts)) (\<lambda>_.
     act_bind (tick_lowered T) (\<lambda>reported.
     act_bind (act_modify (\<lambda>(bi, ts). (sweep_terminal_runs D (ts_world ts) bi, ts))) (\<lambda>_.
       if reported then act_return () else act_fail NotReported))))))"
    by (intro tick_keeps_bind write_halts_keeps write_revision_keeps tick_lowered_keeps tick_keeps_modify)
      (auto intro: sweep_keeps)
  note keeps = tick_keepsD [OF this]
  show ?thesis
  proof (rule tick_keepsI)
    fix bi ts r bi' ts'
    assume ok: "scaffold_ok bi" and t: "interpreter_tick E T D functions (bi, ts) = Some (r, bi', ts')"
    from keeps [OF ticks_same [OF ok] t [unfolded interpreter_tick_def prod.case]] show "scaffold_ok bi'" .
  qed
qed

lemma new_ok: "scaffold_ok (BehaviorTreeInterpreter_new runner traces)"
proof -
  let ?g = "\<lparr>g_root = Some runner, g_nodes = [runner_at runner []]\<rparr>"
  have id: "by_id ?g = [(runner, runner_at runner [])]"
    by (simp add: by_id_def hm_collect_def hm_extend_def hm_insert_def runner_at_def)
  have "children_in (by_id ?g) i = []" for i
    unfolding id by (simp add: children_in_def listed_children_def runner_at_def)
  then have "child_rel (by_id ?g) = {}" by (auto simp: child_rel_iff)
  then have "sound_under ?g runner" using \<open>\<And>i. children_in (by_id ?g) i = []\<close> by (simp add: sound_under_def)
  then show ?thesis
    by (simp add: scaffold_ok_def BehaviorTreeInterpreter_new_def hosts_def graph_ok_def runner_at_def graph_node_def
        listed_def all_runs_def)
qed

inductive hosted ::
  "('l, 'r) scaffold_env \<Rightarrow> ('s, 'l, 'r) lowering \<Rightarrow> ('s, 'slot) DataStore \<Rightarrow> ('l, 'r) BehaviorTreeInterpreter \<Rightarrow> bool"
  for E T D where
  start: "hosted E T D (BehaviorTreeInterpreter_new runner traces)"
| load: "hosted E T D bi \<Longrightarrow> binds_ok (g_nodes graph) \<Longrightarrow>
    interpreter_load E graph bi = Some (r, bi') \<Longrightarrow> hosted E T D bi'"
| edit: "hosted E T D bi \<Longrightarrow> binds_ok (d_set diff) \<Longrightarrow>
    interpreter_apply E diff bi = Some (r, bi') \<Longrightarrow> hosted E T D bi'"
| spawn: "hosted E T D bi \<Longrightarrow>
    interpreter_spawn E call_node task decorator call policy bi = Some (h, bi') \<Longrightarrow> hosted E T D bi'"
| spawn_graph: "hosted E T D bi \<Longrightarrow> binds_ok (g_nodes graph) \<Longrightarrow>
    interpreter_spawn_graph E task decorator graph_type graph policy bi = Some (h, bi') \<Longrightarrow> hosted E T D bi'"
| halt: "hosted E T D bi \<Longrightarrow> interpreter_halt E task bi = Some (r, bi') \<Longrightarrow> hosted E T D bi'"
| tick: "hosted E T D bi \<Longrightarrow> interpreter_tick E T D functions (bi, ts) = Some (r, bi', ts') \<Longrightarrow> hosted E T D bi'"

lemma load_keeps: "scaffold_ok bi \<Longrightarrow> binds_ok (g_nodes graph) \<Longrightarrow> keeps (interpreter_load E graph) bi"
  unfolding interpreter_load_def by (intro keeps_prune_finished settles_keeps load_main_settles)

lemma apply_keeps: "scaffold_ok bi \<Longrightarrow> binds_ok (d_set diff) \<Longrightarrow> keeps (interpreter_apply E diff) bi"
  unfolding interpreter_apply_def by (intro keeps_prune_finished settles_keeps apply_edit_settles)

lemma graft_keeps_ok:
  "scaffold_ok bi \<Longrightarrow> binds_ok fragment \<Longrightarrow> bi_runner bi \<notin> set detached \<Longrightarrow>
     keeps (graft E task decorator module function root detached fragment) bi"
  using graft_keeps unfolding keeps_def by blast

lemma spawn_keeps: "scaffold_ok bi \<Longrightarrow> keeps (interpreter_spawn E call_node task decorator call policy) bi"
  unfolding interpreter_spawn_def
  by (cases "se_call_to_value E call") (auto simp: call_leaf_def intro!: keeps_prune_finished graft_keeps_ok)

lemma spawn_graph_keeps:
  assumes "scaffold_ok bi" "binds_ok (g_nodes graph)"
  shows "keeps (interpreter_spawn_graph E task decorator graph_type graph policy) bi"
proof -
  from check_spawned_facts [of E graph_type graph] obtain r where r: "check_spawned E graph_type graph = Some r"
    "\<And>root detached. r = Inr (root, detached) \<Longrightarrow> g_root graph = Some root \<and> root \<in> set (ids (g_nodes graph)) \<and>
        tree_with graph root detached" by blast
  show ?thesis
  proof (cases r)
    case (Inl e)
    with assms r show ?thesis by (simp add: keeps_def interpreter_spawn_graph_def)
  next
    case (Inr x)
    obtain root detached where x: "x = (root, detached)" by (cases x)
    have "keeps (act_bind (prune_finished E) (\<lambda>_. run_graph E task decorator graph root detached)) bi"
    proof (rule keeps_prune_finished [OF assms(1)])
      fix bi' :: "('a, 'b) BehaviorTreeInterpreter"
      assume "scaffold_ok bi'"
      with run_graph_keeps [of bi' graph root detached E task decorator] assms(2) r(2) Inr x
      show "keeps (run_graph E task decorator graph root detached) bi'" by (auto simp: keeps_def)
    qed
    then show ?thesis by (simp add: keeps_def interpreter_spawn_graph_def r(1) Inr x)
  qed
qed

lemma keepsD: "keeps m bi \<Longrightarrow> m bi = Some (r, bi') \<Longrightarrow> scaffold_ok bi'"
  by (auto simp: keeps_def)

lemma hosted_ok: "hosted E T D bi \<Longrightarrow> scaffold_ok bi"
proof (induction rule: hosted.induct)
  case (load bi graph r bi')
  from keepsD [OF load_keeps [OF load(4,2)] load(3)] show ?case .
next
  case (edit bi diff r bi')
  from keepsD [OF apply_keeps [OF edit(4,2)] edit(3)] show ?case .
next
  case (spawn bi call_node task decorator call policy h bi')
  from keepsD [OF spawn_keeps [OF spawn(3)] spawn(2)] show ?case .
next
  case (spawn_graph bi graph task decorator graph_type policy h bi')
  from keepsD [OF spawn_graph_keeps [OF spawn_graph(4,2)] spawn_graph(3)] show ?case .
next
  case (halt bi task r bi')
  from keepsD [OF halt_keeps [OF halt(3)] halt(2)] show ?case .
next
  case (tick bi index ts r bi' ts')
  from tick_keepsD [OF tick_keeps_interpreter tick(3,2)] show ?case .
qed (rule new_ok)

end
