(* ===== verification/Scaffold_Props.thy ===== *)
theory Scaffold_Props
  imports Scaffold_Inv
begin

text \<open>
  What the interpreter's operations promise: one scaffold whatever happens; a refused operation
  changes nothing; a loaded behavior is what is read.
\<close>

section \<open>One scaffold\<close>

text \<open>
  C13. Whatever is loaded, edited, spawned, halted and ticked, in whatever order and however each ends,
  the interpreter's graph stays one scaffold: rooted at the runner, a parallel node whose children
  include the main behavior's root and every run's decorator; under it every child is a node and no
  node is its own descendant. From there no load, edit, spawn or halt panics.
\<close>

theorem scaffold_invariant:
  assumes "hosted E T D bi"
  shows "graph_ok (bi_graph bi) \<and> g_root (bi_graph bi) = Some (bi_runner bi) \<and> sound_under (bi_graph bi) (bi_runner bi) \<and>
    (\<exists>node. graph_node (bi_graph bi) (bi_runner bi) = Some node \<and> n_function node = PARALLEL_FUNCTION_ID \<and>
       set (the_list (bi_main_root bi)) \<union> run_decorator ` set (all_runs bi) \<subseteq> set (listed_children node)) \<and>
    (\<forall>graph. binds_ok (g_nodes graph) \<longrightarrow> interpreter_load E graph bi \<noteq> None \<and>
       interpreter_spawn_graph E task decorator graph_type graph policy bi \<noteq> None) \<and>
    (\<forall>diff. binds_ok (d_set diff) \<longrightarrow> interpreter_apply E diff bi \<noteq> None) \<and>
    interpreter_spawn E call_node task decorator call policy bi \<noteq> None \<and> interpreter_halt E task bi \<noteq> None"
proof -
  note ok = hosted_ok [OF assms]
  have returns: "m bi \<noteq> None" if "keeps m bi" for m :: "('a, 'b, 'x) interpreter_step"
    using that by (auto simp: keeps_def)
  show ?thesis
    using ok unfolding scaffold_ok_def hosts_def listed_def
    by (intro conjI allI impI returns load_keeps [OF ok] spawn_graph_keeps [OF ok] apply_keeps [OF ok]
        spawn_keeps [OF ok] halt_keeps [OF ok]) auto
qed

section \<open>A refused operation\<close>

lemma no_finished: "bi_finished bi = [] \<Longrightarrow> prune_finished E bi = Some (Inr (), bi)"
  by (cases bi) (simp add: prune_finished_def prune_def)

lemma pruned: "bi_finished bi = [] \<Longrightarrow> act_bind (prune_finished E) f bi = f () bi"
  by (simp add: act_bind_def no_finished)

lemma settles_error: "settles m bi \<Longrightarrow> m bi = Some (Inl e, bi') \<Longrightarrow> bi' = bi"
  by (auto simp: settles_def)

lemma graft_error:
  assumes "scaffold_ok bi" "binds_ok fragment" "bi_runner bi \<notin> set detached"
    "graft E task decorator module f root detached fragment bi = Some (Inl e, bi')"
  shows "bi' = bi"
  using graft_keeps [OF assms(1-3), of E task decorator module f root] assms(4) by auto


section \<open>Graphs as their children\<close>

text \<open>Two indexes that agree on a set closed under children reach the same nodes from it.\<close>

lemma reach_within:
  assumes "\<And>i. i \<in> S \<Longrightarrow> set (children_in m i) \<subseteq> S" "x \<in> S" "(x, y) \<in> (child_rel m)\<^sup>*"
  shows "y \<in> S"
  using assms(3,2) by (induction rule: converse_rtrancl_induct) (use assms(1) in \<open>auto simp: child_rel_iff\<close>)

lemma reach_same:
  assumes closed: "\<And>i. i \<in> S \<Longrightarrow> set (children_in m i) \<subseteq> S"
    and same: "\<And>i. i \<in> S \<Longrightarrow> set (children_in m' i) = set (children_in m i)" and x: "x \<in> S"
  shows "(child_rel m')\<^sup>* `` {x} = (child_rel m)\<^sup>* `` {x}"
proof -
  have *: "(x, y) \<in> (child_rel m')\<^sup>* \<and> y \<in> S" if "(x, y) \<in> (child_rel m)\<^sup>*" for y
    using that
  proof (induction rule: rtrancl_induct)
    case (step y z)
    then have "y \<in> S" by blast
    with step(2) closed same have "z \<in> S" "(y, z) \<in> child_rel m" "(y, z) \<in> child_rel m'"
      by (auto simp: child_rel_iff)
    with step(3) show ?case by (meson rtrancl.rtrancl_into_rtrancl)
  qed (use x in simp)
  have "(x, y) \<in> (child_rel m)\<^sup>* \<and> y \<in> S" if "(x, y) \<in> (child_rel m')\<^sup>*" for y
    using that
  proof (induction rule: rtrancl_induct)
    case (step y z)
    then have "y \<in> S" by blast
    with step(2) closed same have "z \<in> S" "(y, z) \<in> child_rel m" "(y, z) \<in> child_rel m'"
      by (auto simp: child_rel_iff)
    with step(3) show ?case by (meson rtrancl.rtrancl_into_rtrancl)
  qed (use x in simp)
  with * show ?thesis by blast
qed

text \<open>The children of a node, by the list of nodes alone, and what an edit makes of them.\<close>

definition kids :: "Node list \<Rightarrow> uuid \<Rightarrow> uuid list" where
  "kids nodes i = (case node_at nodes i of None \<Rightarrow> [] | Some n \<Rightarrow> listed_children n)"

lemma children_kids: "graph_ok g \<Longrightarrow> children_in (by_id g) i = kids (g_nodes g) i"
proof (cases "graph_node g i")
  case None
  assume "graph_ok g"
  from None have "i \<notin> set (ids (g_nodes g))" unfolding graph_node_def node_at_None .
  then have "i \<notin> fst ` set (by_id g)" unfolding keys_by_id .
  from children_in_absent [OF this] None show ?thesis by (simp add: kids_def graph_node_def)
next
  case (Some node)
  assume "graph_ok g"
  from child_of_node [OF this Some] Some show ?thesis by (simp add: kids_def graph_node_def)
qed

lemma kids_append: "kids (A @ B) i = (if i \<in> set (ids A) then kids A i else kids B i)"
proof (cases "node_at A i")
  case None
  then have "i \<notin> set (ids A)" unfolding node_at_None .
  with None show ?thesis by (simp add: kids_def node_at_append)
next
  case (Some n)
  then have "i \<in> set (ids A)" by (metis node_at_None option.distinct(1))
  with Some show ?thesis by (simp add: kids_def node_at_append)
qed

lemma kids_edit: "i \<noteq> j \<Longrightarrow> n_id n = j \<Longrightarrow> kids (edit_node j (\<lambda>_. n) A) i = kids A i"
  unfolding kids_def edit_node_def by (induction A) auto

lemma kids_unread: "kids (map (unread rs) A) i = kids A i"
  by (induction A) (auto simp: kids_def unread_def listed_children_def)

lemma kids_filter: "kids (filter (\<lambda>n. P (n_id n)) A) i = (if P i then kids A i else [])"
  by (induction A) (auto simp: kids_def)

lemma kids_listed: "c \<in> set (kids nodes i) \<Longrightarrow> c \<in> set (concat (map listed_children nodes))"
  by (cases "node_at nodes i") (auto simp: kids_def dest: node_at_in)

lemma removals_nodes: "g_nodes (removals rs g) = map (unread rs) (filter (\<lambda>n. n_id n \<notin> set rs) (g_nodes g))"
  by (simp add: removals_def map_idI)

lemma ids_unread [simp]: "ids (map (unread rs) ns) = ids ns"
  by (simp add: unread_def)

lemma ids_edit_same [simp]: "n_id n = j \<Longrightarrow> ids (edit_node j (\<lambda>_. n) A) = ids A"
  by (auto simp: edit_node_def)

lemma put_new_and_runner:
  assumes "distinct (ids (kept @ ns))" "n_id r \<in> set (ids kept)"
  shows "fold put_node (ns @ [r]) kept = edit_node (n_id r) (\<lambda>_. r) kept @ ns"
proof -
  have "fold put_node (ns @ [r]) kept = put_node r (kept @ ns)" by (simp add: fold_put_new [OF assms(1)])
  moreover have "set (ids kept) \<inter> set (ids ns) = {}" using assms(1) by (simp del: set_map)
  with assms(2) have "n_id r \<notin> set (ids ns)" by blast
  then have "n_id n \<noteq> n_id r" if "n \<in> set ns" for n
  proof -
    from that have "n_id n \<in> set (ids ns)" by simp
    with \<open>n_id r \<notin> set (ids ns)\<close> show ?thesis by metis
  qed
  then have "map (\<lambda>n. if n_id n = n_id r then r else n) ns = ns" by (simp add: map_idI)
  ultimately show ?thesis using assms(2) by (simp add: put_node_def edit_node_def)
qed

lemma plain_edit_nodes:
  assumes "d_unbind d = []" "d_bind d = []"
  shows "g_nodes (apply_ref g d) = fold put_node (d_set d)
    (map (unread (hs_collect (d_remove d))) (filter (\<lambda>n. n_id n \<notin> set (d_remove d)) (g_nodes g)))"
  using assms by (simp add: apply_ref_def Let_def removals_nodes)

text \<open>What a run holds is closed under children, and is the same wherever the children are.\<close>

lemma nodes_of_same:
  assumes g: "graph_ok g" and g': "graph_ok g'"
    and same: "\<And>i. (run_decorator run, i) \<in> (child_rel (by_id g))\<^sup>* \<Longrightarrow> kids (g_nodes g') i = kids (g_nodes g) i"
  shows "set (nodes_of (by_id g') run) = set (nodes_of (by_id g) run)"
proof -
  let ?S = "(child_rel (by_id g))\<^sup>* `` {run_decorator run}"
  have "(child_rel (by_id g'))\<^sup>* `` {run_decorator run} = ?S"
  proof (rule reach_same [of ?S])
    show "set (children_in (by_id g) i) \<subseteq> ?S" if "i \<in> ?S" for i
      using that by (auto simp flip: child_rel_iff)
    show "set (children_in (by_id g') i) = set (children_in (by_id g) i)" if "i \<in> ?S" for i
      using that same by (simp add: children_kids [OF g] children_kids [OF g'])
  qed simp
  then show ?thesis by (simp add: nodes_of_def set_subtree)
qed

lemma set_not_main:
  "set (not_main bi) = insert (bi_runner bi)
     ((\<Union>run \<in> set (all_runs bi). set (nodes_of (by_id (bi_graph bi)) run))
       - (child_rel (by_id (bi_graph bi)))\<^sup>* `` set (the_list (bi_main_root bi)))"
  by (auto simp: not_main_def not_main_beside_def Let_def set_reach split: option.splits)

section \<open>Loading and reading\<close>

lemma runner_id [simp]: "n_id (runner_node bi) = bi_runner bi"
  by (simp add: runner_node_def runner_at_def)

lemma load_main_result:
  assumes ok: "scaffold_ok bi" and g: "binds_ok (g_nodes graph)" and l: "load_main E graph bi = Some (Inr (), bi')"
  defines "after \<equiv> apply_ref (bi_graph bi) (empty_diff\<lparr>d_set := g_nodes graph\<rparr>)"
    and "bi1 \<equiv> bi\<lparr>bi_main_root := g_root graph\<rparr>"
  defines "d \<equiv> empty_diff\<lparr>d_remove := replaced_main bi after, d_set := g_nodes graph @ [runner_node bi1]\<rparr>"
  shows "distinct (ids (g_nodes graph))" "set (ids (g_nodes graph)) \<inter> set (not_main bi) = {}"
    "\<exists>fresh. bi' = bi1\<lparr>bi_graph := apply_ref (bi_graph bi) d, bi_dirty := True, bi_fresh := fresh, bi_revision := bi_revision bi + 1\<rparr>"
    "graph_ok (apply_ref (bi_graph bi) d)" "graph_ok after"
proof -
  from ok have gok: "graph_ok (bi_graph bi)" by (simp add: scaffold_ok_def hosts_def)
  then have dist: "distinct (ids (g_nodes (bi_graph bi)))" by (simp add: graph_ok_def)
  have a: "graph_apply (bi_graph bi) (empty_diff\<lparr>d_set := g_nodes graph\<rparr>) = Some (Inr after)"
    using graph_apply_ref [OF dist, of "empty_diff\<lparr>d_set := g_nodes graph\<rparr>"]
    by (simp add: after_def refused_binding_def Let_def)
  from l show "distinct (ids (g_nodes graph))" by (auto simp: load_main_def by_id_listed_once split: if_splits)
  have none: "find (\<lambda>node. n_id node \<in> set (not_main bi)) (g_nodes graph) = None"
    using l by (auto simp: load_main_def split: if_splits option.splits)
  then show "set (ids (g_nodes graph)) \<inter> set (not_main bi) = {}" by (auto simp: find_None_iff)
  have "d_root d = None" "d_set d = g_nodes graph @ [runner_node bi1]" "bi_runner bi \<notin> set (d_remove d)"
    by (simp_all add: d_def replaced_main_def)
  from rerooted_edit [OF ok bi1_def [THEN meta_eq_to_obj_eq] this(3,1,2) g, of E] obtain r bi2 where
    e: "act_on_err (\<lambda>bi'. bi'\<lparr>bi_main_root := bi_main_root bi\<rparr>) (edit E d) bi1 = Some (r, bi2)"
    "(\<exists>e. r = Inl e) \<and> bi2 = bi \<or> r = Inr () \<and> edits_to d bi1 bi2" by blast
  have step: "load_main E graph bi = act_bind (act_on_err (\<lambda>bi'. bi'\<lparr>bi_main_root := bi_main_root bi\<rparr>) (edit E d))
      (\<lambda>_. act_modify (\<lambda>bi. bi\<lparr>bi_revision := bi_revision bi + 1\<rparr>)) bi1"
    using l none a by (auto simp: load_main_def Let_def bi1_def d_def split: if_splits)
  with l e have r: "edits_to d bi1 bi2" "bi' = bi2\<lparr>bi_revision := bi_revision bi2 + 1\<rparr>"
    by (auto simp: act_bind_def act_modify_def)
  then show "\<exists>fresh. bi' = bi1\<lparr>bi_graph := apply_ref (bi_graph bi) d, bi_dirty := True, bi_fresh := fresh, bi_revision := bi_revision bi + 1\<rparr>"
    "graph_ok (apply_ref (bi_graph bi) d)"
    by (auto simp: edits_to_def bi1_def)
  show "graph_ok after" unfolding after_def using gok g by (intro apply_ref_ok) auto
qed

text \<open>What a run reaches are nodes of the graph other than the runner.\<close>

lemma run_below:
  assumes "scaffold_ok bi" "run \<in> set (all_runs bi)" "(run_decorator run, i) \<in> (child_rel (by_id (bi_graph bi)))\<^sup>*"
  shows "i \<in> set (ids (g_nodes (bi_graph bi))) - {bi_runner bi}" "i \<in> set (nodes_of (by_id (bi_graph bi)) run)"
proof -
  from assms have "hosts (bi_graph bi) (bi_runner bi) (listed bi)" "run_decorator run \<in> listed bi"
    by (auto simp: scaffold_ok_def listed_def)
  from hosted_below [OF this assms(3)] show "i \<in> set (ids (g_nodes (bi_graph bi))) - {bi_runner bi}" by blast
  show "i \<in> set (nodes_of (by_id (bi_graph bi)) run)" using assms(3) by (simp add: nodes_of_def set_subtree)
qed

lemma load_main_reads:
  assumes ok: "scaffold_ok bi" and none: "bi_finished bi = []" and g: "binds_ok (g_nodes graph)"
    and apart: "\<And>run. run \<in> set (bi_runs bi) \<Longrightarrow>
      set (nodes_of (by_id (bi_graph bi)) run) \<inter> set (ids (g_nodes graph)) = {}"
    and closed: "set (the_list (g_root graph)) \<union> set (all_children graph) \<subseteq> set (ids (g_nodes graph))"
    and l: "load_main E graph bi = Some (Inr (), bi')"
  shows "main_graph bi' = graph" "bi_runs bi' = bi_runs bi" "bi_revision bi' = bi_revision bi + 1"
    "\<And>run. run \<in> set (bi_runs bi) \<Longrightarrow>
      set (nodes_of (by_id (bi_graph bi')) run) = set (nodes_of (by_id (bi_graph bi)) run)"
proof -
  define G where "G = bi_graph bi"
  define ns where "ns = g_nodes graph"
  define after where "after = apply_ref G (empty_diff\<lparr>d_set := ns\<rparr>)"
  define bi1 where "bi1 = bi\<lparr>bi_main_root := g_root graph\<rparr>"
  define d where "d = empty_diff\<lparr>d_remove := replaced_main bi after, d_set := ns @ [runner_node bi1]\<rparr>"
  define G' where "G' = apply_ref G d"
  define H where "H = (\<Union>run \<in> set (bi_runs bi). set (nodes_of (by_id G) run))"
  note defs = G_def [symmetric] ns_def [symmetric] after_def [symmetric] bi1_def [symmetric] d_def [symmetric] G'_def [symmetric]
  from load_main_result [OF ok g l, unfolded defs] obtain fresh where res: "distinct (ids ns)"
    "set (ids ns) \<inter> set (not_main bi) = {}" "graph_ok G'" "graph_ok after"
    and bi': "bi' = bi1\<lparr>bi_graph := G', bi_dirty := True, bi_fresh := fresh, bi_revision := bi_revision bi + 1\<rparr>" by blast
  show "bi_runs bi' = bi_runs bi" "bi_revision bi' = bi_revision bi + 1" by (simp_all add: bi' bi1_def)
  from ok have gok: "graph_ok G" by (simp add: scaffold_ok_def hosts_def G_def)
  have runs: "all_runs bi = bi_runs bi" "all_runs bi' = bi_runs bi" by (simp_all add: all_runs_def none bi' bi1_def)
  have runner: "bi_runner bi \<notin> set (ids ns)" using res(2) by (auto simp: set_not_main)
  have below: "i \<in> set (ids (g_nodes G)) - {bi_runner bi} \<and> i \<in> H \<and> i \<notin> set (ids ns)"
    if "run \<in> set (bi_runs bi)" "(run_decorator run, i) \<in> (child_rel (by_id G))\<^sup>*" for run i
    using run_below [OF ok, of run i] apart [of run] that by (auto simp: H_def G_def ns_def runs simp del: set_map)
  have held: "set (nodes_of (by_id after) run) = set (nodes_of (by_id G) run)" if run: "run \<in> set (bi_runs bi)" for run
  proof (rule nodes_of_same [OF gok res(4)])
    fix i assume "(run_decorator run, i) \<in> (child_rel (by_id G))\<^sup>*"
    with below [OF run] have "node_at ns i = None" unfolding node_at_None by blast
    then show "kids (g_nodes after) i = kids (g_nodes G) i"
      by (simp add: kids_def after_def apply_ref_def Let_def removals_def hs_collect_def node_at_puts [OF res(1)])
  qed
  define rs where "rs = hs_collect (replaced_main bi after)"
  define kept where "kept = map (unread rs) (filter (\<lambda>n. n_id n \<notin> set rs) (g_nodes G))"
  have rs: "set rs = set (ids (g_nodes G)) - insert (bi_runner bi) H"
    using held by (auto simp: rs_def replaced_main_def Let_def runs H_def G_def)
  have runner_in: "bi_runner bi \<in> set (ids (g_nodes G))" using ok unfolding scaffold_ok_def G_def by (blast intro: hosts_ids)
  have ids_kept: "set (ids kept) = set (ids (g_nodes G)) \<inter> insert (bi_runner bi) H"
    unfolding kept_def ids_unread using rs by auto
  have "H \<inter> set (ids ns) = {}" using apart by (auto simp: H_def G_def ns_def)
  with runner have disj: "set (ids kept) \<inter> set (ids ns) = {}" unfolding ids_kept by blast
  have "distinct (ids kept)" unfolding kept_def ids_unread using gok by (simp add: graph_ok_def distinct_map_filter)
  with res(1) disj have dist: "distinct (ids (kept @ ns))" by (simp del: set_map)
  have nodes: "g_nodes G' = edit_node (bi_runner bi) (\<lambda>_. runner_node bi1) kept @ ns"
    using put_new_and_runner [OF dist, of "runner_node bi1"] ids_kept runner_in
    by (simp add: G'_def plain_edit_nodes d_def kept_def rs_def bi1_def)
  have kids_run: "kids (g_nodes G') i = kids (g_nodes G) i" if "i \<in> set (ids (g_nodes G))" "i \<in> H" "i \<noteq> bi_runner bi" for i
  proof -
    have "i \<notin> set rs" using rs that by blast
    moreover have "i \<in> set (ids kept)" using that ids_kept by blast
    ultimately show ?thesis
      using that(3) by (simp add: nodes kids_append kids_edit bi1_def del: set_map)
        (simp add: kept_def kids_unread kids_filter [of "\<lambda>i. i \<notin> set rs"])
  qed
  show held': "set (nodes_of (by_id (bi_graph bi')) run) = set (nodes_of (by_id (bi_graph bi)) run)"
    if run: "run \<in> set (bi_runs bi)" for run
    using nodes_of_same [OF gok res(3), of run] kids_run below [OF run] by (simp add: bi' G_def)
  have "kids (g_nodes G') i = kids ns i" if "i \<in> set (ids ns)" for i
  proof -
    have "i \<notin> set (ids (edit_node (bi_runner bi) (\<lambda>_. runner_node bi1) kept))" using that disj by (simp add: bi1_def del: set_map) blast
    then show ?thesis by (simp only: nodes kids_append if_False)
  qed
  then have ns_closed: "set (children_in (by_id G') i) \<subseteq> set (ids ns)" if "i \<in> set (ids ns)" for i
    using that closed kids_listed [of _ ns i] by (auto simp: children_kids [OF res(3)] all_children_def ns_def simp del: set_map)
  have main: "i \<in> set (ids ns)" if "r \<in> set (the_list (g_root graph))" "(r, i) \<in> (child_rel (by_id G'))\<^sup>*" for r i
    using reach_within [OF ns_closed _ that(2)] that(1) closed by (auto simp: ns_def)
  have not: "set (not_main bi') = insert (bi_runner bi) (H - (child_rel (by_id G'))\<^sup>* `` set (the_list (g_root graph)))"
    using held' by (simp add: set_not_main runs H_def) (simp add: bi' bi1_def G_def)
  have "n_id n \<in> set (not_main bi')" if "n \<in> set (edit_node (bi_runner bi) (\<lambda>_. runner_node bi1) kept)" for n
  proof -
    have "n_id n \<in> set (ids (edit_node (bi_runner bi) (\<lambda>_. runner_node bi1) kept))" using that by simp
    then have n: "n_id n \<in> set (ids kept)" by (simp add: bi1_def del: set_map)
    with disj have "n_id n \<notin> set (ids ns)" by blast
    then have "n_id n \<notin> (child_rel (by_id G'))\<^sup>* `` set (the_list (g_root graph))" using main by blast
    with n [unfolded ids_kept] show ?thesis unfolding not by blast
  qed
  moreover have "n_id n \<notin> set (not_main bi')" if "n \<in> set ns" for n
  proof -
    from that have n: "n_id n \<in> set (ids ns)" by simp
    with runner have "n_id n \<noteq> bi_runner bi" by metis
    moreover from n \<open>H \<inter> set (ids ns) = {}\<close> have "n_id n \<notin> H" by (metis IntI empty_iff)
    ultimately show ?thesis unfolding not by simp
  qed
  ultimately have "filter (\<lambda>n. n_id n \<notin> set (not_main bi')) (g_nodes G') = ns"
    by (simp add: nodes)
  then show "main_graph bi' = graph"
    by (simp add: main_graph_def main_graph_beside_def not_main_def [symmetric] ns_def) (simp add: bi' bi1_def)
qed


section \<open>A device\<close>

text \<open>
  A sample device: standard buffers, calls that all encode, no trace. Its lowerings are no more than
  the runner's node, ticked to a success.
\<close>

definition sample_env :: "(unit, unit) scaffold_env" where
  "sample_env = \<lparr>se_crates = std_crates, se_new_v5 = (\<lambda>_ name. of_nat (length name)), se_uuid_text = (\<lambda>_. ''id''),
     se_call_to_value = (\<lambda>_. Some Unit), se_lower_detached = (\<lambda>_ _. Inr ()),
     se_traces_halt = (\<lambda>r _. (None, r)), se_arm = (\<lambda>_ l. l)\<rparr>"

definition sample_lowering :: "('s, unit, unit) lowering" where
  "sample_lowering = \<lparr>lo_lower = (\<lambda>_ _. act_return ()),
     lo_tree = (\<lambda>_. \<lparr>bt_root = \<lparr>tn_id = 1, tn_function = PARALLEL_FUNCTION_ID, tn_arguments = [], tn_children = Some []\<rparr>,
       bt_index = [], bt_variables = [], bt_cells = [], bt_outputs = [], bt_detached = [], bt_bindings = [], bt_names = []\<rparr>),
     lo_keep_state = (\<lambda>_ _ _ ts. ts), lo_unregister = (\<lambda>_ ts. ts), lo_tick = (\<lambda>_. act_return Success),
     lo_no_traces = (\<lambda>_. True), lo_restart = (\<lambda>_ r. r), lo_keep_returns = (\<lambda>_ r. r),
     lo_report = (\<lambda>_ _ _ _ r ts. (True, r, ts))\<rparr>"

definition sample_node :: "uuid \<Rightarrow> uuid \<Rightarrow> uuid list option \<Rightarrow> Node" where
  "sample_node i f children = \<lparr>n_id = i, n_function = f, n_bind = [], n_children = children\<rparr>"

definition sample_behavior :: Graph where
  "sample_behavior = \<lparr>g_root = Some 2,
     g_nodes = [sample_node 2 SEQ_FUNCTION_ID (Some [3, 4]), sample_node 3 SUCCEED_FUNCTION_ID None,
       sample_node 4 FAIL_FUNCTION_ID None]\<rparr>"

definition sample_run :: Graph where
  "sample_run = \<lparr>g_root = Some 5, g_nodes =
     [\<lparr>n_id = 5, n_function = SEQ_STAR_FUNCTION_ID, n_bind = [(SEQ_STAR_CURRENT_INDEX_PARAM_ID, SValue Unit)],
        n_children = Some [6]\<rparr>, sample_node 6 FAIL_FUNCTION_ID None]\<rparr>"

definition sample_next :: Graph where
  "sample_next = \<lparr>g_root = Some 3, g_nodes = [sample_node 3 SUCCEED_FUNCTION_ID None]\<rparr>"

text \<open>The device once the behavior is loaded, and once the run is spawned beside it.\<close>

definition sample_loaded :: "(unit, unit) BehaviorTreeInterpreter" where
  "sample_loaded = (BehaviorTreeInterpreter_new 1 ())\<lparr>
     bi_graph := \<lparr>g_root = Some 1, g_nodes = runner_at 1 [2] # g_nodes sample_behavior\<rparr>,
     bi_main_root := Some 2, bi_fresh := [1, 4, 3, 2], bi_revision := 1\<rparr>"

definition sample_handle :: TaskHandle where
  "sample_handle = task_handle 7 ''arora/tasks/id/id/id''"

definition sample_spawned :: "(unit, unit) BehaviorTreeInterpreter" where
  "sample_spawned = sample_loaded\<lparr>
     bi_graph := \<lparr>g_root = Some 1, g_nodes = runner_at 1 [2, 8] # g_nodes sample_behavior @ g_nodes sample_run
       @ [decorator_node 8 (th_status sample_handle) 5]\<rparr>,
     bi_runs := [\<lparr>run_handle = sample_handle, run_decorator = 8, run_detached = []\<rparr>],
     bi_fresh := [8, 6, 5, 1, 4, 3, 2]\<rparr>"

lemma sample_behavior_loads: "interpreter_load sample_env sample_behavior (BehaviorTreeInterpreter_new 1 ()) = Some (Inr (), sample_loaded)"
  by code_simp

lemma sample_spawns:
  "interpreter_spawn_graph sample_env 7 8 GRAPH_TYPE sample_run Concurrent sample_loaded = Some (Inr sample_handle, sample_spawned)"
  by code_simp

lemma step_result: "map_option fst x = Some r \<Longrightarrow> x = Some (r, snd (the x))"
  by (cases x) auto

lemma samples_hosted: "hosted sample_env sample_lowering D sample_loaded" "hosted sample_env sample_lowering D sample_spawned"
proof -
  have "binds_ok (g_nodes sample_behavior)" "binds_ok (g_nodes sample_run)" by code_simp+
  with hosted.load [OF hosted.start _ sample_behavior_loads, of sample_lowering D]
    hosted.spawn_graph [OF _ _ sample_spawns, of sample_lowering D]
  show "hosted sample_env sample_lowering D sample_loaded" "hosted sample_env sample_lowering D sample_spawned"
    by blast+
qed

lemma sample_finished: "bi_finished sample_loaded = []" "bi_finished sample_spawned = []"
  by code_simp+

theorem scaffold_invariant_witness:
  "graph_ok (bi_graph sample_spawned) \<and> sound_under (bi_graph sample_spawned) (bi_runner sample_spawned) \<and>
     interpreter_halt sample_env 7 sample_spawned \<noteq> None"
  using scaffold_invariant [OF samples_hosted(2) [of simple_store]] by blast



end
