(* ===== verification/Scaffold_Runs.thy ===== *)
theory Scaffold_Runs
  imports Scaffold_Props
begin

text \<open>
  The runs of the interpreter: a run leaves the main behavior as it was, starts once, and leaves no
  trace when it is halted. The last section shows a halt that loses its run.
\<close>

section \<open>A run beside the rest\<close>

text \<open>
  A run's own nodes: the nodes its root reaches, and its detached ones, that name no other as a child.
\<close>

definition own_fragment :: "Node list \<Rightarrow> uuid \<Rightarrow> uuid list \<Rightarrow> bool" where
  "own_fragment ns root detached \<longleftrightarrow> distinct (ids ns) \<and> root \<in> set (ids ns) \<and>
     set (concat (map listed_children ns)) \<subseteq> set (ids ns) \<and>
     (child_rel (by_id \<lparr>g_root = Some root, g_nodes = ns\<rparr>))\<^sup>* `` {root} \<union> set detached = set (ids ns)"

lemma tree_fragment:
  assumes "tree_with graph root detached" "g_root graph = Some root" "root \<in> set (ids (g_nodes graph))"
  shows "own_fragment (g_nodes graph) root detached"
proof -
  have same: "\<lparr>g_root = Some root, g_nodes = g_nodes graph\<rparr> = graph" using assms(2) by (cases graph) simp
  from assms(1) have t: "distinct (ids (g_nodes graph))" "set (all_children graph) \<subseteq> set (ids (g_nodes graph))"
    "set (ids (g_nodes graph)) = set (subtree (by_id graph) root) \<union> set detached"
    unfolding tree_with_def by blast+
  from t(3) have "(child_rel (by_id graph))\<^sup>* `` {root} \<union> set detached = set (ids (g_nodes graph))"
    by (simp only: set_subtree)
  then show ?thesis
    unfolding own_fragment_def same using t(1,2) assms(3) unfolding all_children_def by blast
qed

lemma leaf_fragment: "own_fragment [call_leaf i v] i []"
proof -
  have "by_id \<lparr>g_root = Some i, g_nodes = [call_leaf i v]\<rparr> = [(i, call_leaf i v)]"
    by (simp add: by_id_def hm_collect_def hm_extend_def hm_insert_def call_leaf_def)
  then have "child_rel (by_id \<lparr>g_root = Some i, g_nodes = [call_leaf i v]\<rparr>) = {}"
    by (auto simp: child_rel_iff children_in_def listed_children_def call_leaf_def split: if_splits)
  then show ?thesis unfolding own_fragment_def by (simp add: call_leaf_def listed_children_def)
qed

text \<open>The interpreter once a run is grafted.\<close>

definition run_nodes :: "Run \<Rightarrow> Node list \<Rightarrow> uuid \<Rightarrow> Node list" where
  "run_nodes run ns root = ns @ [decorator_node (run_decorator run) (th_status (run_handle run)) root]"

definition grafted ::
  "('l, 'r) BehaviorTreeInterpreter \<Rightarrow> Run \<Rightarrow> Node list \<Rightarrow> uuid \<Rightarrow> ('l, 'r) BehaviorTreeInterpreter \<Rightarrow> bool" where
  "grafted bi run ns root bi' \<longleftrightarrow> scaffold_ok bi \<and> scaffold_ok bi' \<and> bi_finished bi = [] \<and> binds_ok ns \<and>
     own_fragment ns root (run_detached run) \<and> distinct (ids (g_nodes (bi_graph bi) @ run_nodes run ns root)) \<and>
     (\<exists>fresh. bi' = bi\<lparr>bi_runs := bi_runs bi @ [run],
        bi_graph := \<lparr>g_root = Some (bi_runner bi),
          g_nodes = edit_node (bi_runner bi) (\<lambda>_. runner_node (bi\<lparr>bi_runs := bi_runs bi @ [run]\<rparr>)) (g_nodes (bi_graph bi))
            @ run_nodes run ns root\<rparr>,
        bi_dirty := True, bi_fresh := fresh\<rparr>)"

lemma graft_grafted:
  assumes ok: "scaffold_ok bi" and none: "bi_finished bi = []" and b: "binds_ok ns" and f: "own_fragment ns root detached"
    and new: "set (ids ns) \<inter> set (ids (g_nodes (bi_graph bi))) = {}" "decorator \<notin> set (ids (g_nodes (bi_graph bi))) \<union> set (ids ns)"
    and g: "graft E task decorator module f root detached ns bi = Some (Inr h, bi')"
  shows "grafted bi \<lparr>run_handle = h, run_decorator = decorator, run_detached = detached\<rparr> ns root bi'"
proof -
  have runner: "bi_runner bi \<in> set (ids (g_nodes (bi_graph bi)))" using ok unfolding scaffold_ok_def by (blast intro: hosts_ids)
  with new(1) f have "bi_runner bi \<notin> set detached" unfolding own_fragment_def by blast
  from graft_keeps [OF ok b this, of E task decorator module f root] g obtain run d where
    run: "run = \<lparr>run_handle = h, run_decorator = decorator, run_detached = detached\<rparr>" and ok': "scaffold_ok bi'"
    and d: "d = empty_diff\<lparr>d_set := ns @ [decorator_node decorator (th_status h) root,
         runner_node (bi\<lparr>bi_runs := bi_runs bi @ [run]\<rparr>)]\<rparr>"
    and to: "edits_to d (bi\<lparr>bi_runs := bi_runs bi @ [run]\<rparr>) bi'" by auto
  let ?bi = "bi\<lparr>bi_runs := bi_runs bi @ [run]\<rparr>"
  from ok have gok: "graph_ok (bi_graph bi)" "g_root (bi_graph bi) = Some (bi_runner bi)"
    by (simp_all add: scaffold_ok_def hosts_def)
  have set: "d_set d = run_nodes run ns root @ [runner_node ?bi]" by (simp add: d run_nodes_def run)
  have ids_new: "ids (run_nodes run ns root) = ids ns @ [decorator]" by (simp add: run_nodes_def decorator_node_def run)
  have dist: "distinct (ids (g_nodes (bi_graph bi) @ run_nodes run ns root))"
    using gok(1) f new unfolding map_append ids_new by (auto simp: own_fragment_def graph_ok_def simp del: set_map)
  have nodes: "g_nodes (apply_ref (bi_graph bi) d) =
      edit_node (bi_runner bi) (\<lambda>_. runner_node ?bi) (g_nodes (bi_graph bi)) @ run_nodes run ns root"
    using put_new_and_runner [OF dist, of "runner_node ?bi"] runner
    by (simp add: apply_ref_def Let_def removals_def hs_collect_def set) (simp add: d)
  moreover have "g_root (apply_ref (bi_graph bi) d) = Some (bi_runner bi)"
    by (rule root_kept) (use gok in \<open>simp_all add: d\<close>)
  ultimately have ref: "apply_ref (bi_graph bi) d = \<lparr>g_root = Some (bi_runner bi),
      g_nodes = edit_node (bi_runner bi) (\<lambda>_. runner_node ?bi) (g_nodes (bi_graph bi)) @ run_nodes run ns root\<rparr>"
    by (cases "apply_ref (bi_graph bi) d") simp
  have "bi_graph ?bi = bi_graph bi" by simp
  with to have "\<exists>fresh. bi' = ?bi\<lparr>bi_graph := apply_ref (bi_graph bi) d, bi_dirty := True, bi_fresh := fresh\<rparr>"
    unfolding edits_to_def by (simp only:)
  then have "\<exists>fresh. bi' = bi\<lparr>bi_runs := bi_runs bi @ [run],
        bi_graph := \<lparr>g_root = Some (bi_runner bi),
          g_nodes = edit_node (bi_runner bi) (\<lambda>_. runner_node ?bi) (g_nodes (bi_graph bi)) @ run_nodes run ns root\<rparr>,
        bi_dirty := True, bi_fresh := fresh\<rparr>"
    unfolding ref .
  moreover have "run_detached run = detached" by (simp add: run)
  ultimately have "grafted bi run ns root bi'" using ok ok' none b f dist unfolding grafted_def by blast
  then show ?thesis unfolding run .
qed

lemma grafted_sel:
  assumes "grafted bi run ns root bi'"
  shows "g_nodes (bi_graph bi') = edit_node (bi_runner bi) (\<lambda>_. runner_node (bi\<lparr>bi_runs := bi_runs bi @ [run]\<rparr>)) (g_nodes (bi_graph bi))
      @ run_nodes run ns root"
    "bi_runs bi' = bi_runs bi @ [run]" "bi_finished bi' = []" "bi_finished bi = []" "bi_runner bi' = bi_runner bi"
    "bi_main_root bi' = bi_main_root bi" "bi_revision bi' = bi_revision bi" "bi_functions bi' = bi_functions bi"
    "bi_halted bi' = bi_halted bi" "bi_traces bi' = bi_traces bi"
    "graph_ok (bi_graph bi)" "graph_ok (bi_graph bi')" "scaffold_ok bi" "scaffold_ok bi'"
  using assms by (auto simp: grafted_def scaffold_ok_def hosts_def)

lemma run_nodes_ids [simp]: "ids (run_nodes run ns root) = ids ns @ [run_decorator run]"
  by (simp add: run_nodes_def decorator_node_def)

lemma grafted_apart:
  assumes "grafted bi run ns root bi'"
  shows "set (ids ns) \<inter> set (ids (g_nodes (bi_graph bi))) = {}" "run_decorator run \<notin> set (ids (g_nodes (bi_graph bi)))"
    "run_decorator run \<notin> set (ids ns)" "bi_runner bi \<in> set (ids (g_nodes (bi_graph bi)))"
proof -
  from assms have "distinct (ids (g_nodes (bi_graph bi)) @ ids ns @ [run_decorator run])"
    unfolding grafted_def map_append run_nodes_ids by blast
  then show "set (ids ns) \<inter> set (ids (g_nodes (bi_graph bi))) = {}" "run_decorator run \<notin> set (ids (g_nodes (bi_graph bi)))"
    "run_decorator run \<notin> set (ids ns)" by (auto simp del: set_map)
  show "bi_runner bi \<in> set (ids (g_nodes (bi_graph bi)))"
    using grafted_sel(13) [OF assms] unfolding scaffold_ok_def by (blast intro: hosts_ids)
qed

lemma grafted_kids:
  assumes g: "grafted bi run ns root bi'"
  shows "i \<in> set (ids (g_nodes (bi_graph bi))) \<Longrightarrow> i \<noteq> bi_runner bi \<Longrightarrow>
      kids (g_nodes (bi_graph bi')) i = kids (g_nodes (bi_graph bi)) i"
    "i \<in> set (ids ns) \<Longrightarrow> kids (g_nodes (bi_graph bi')) i = kids ns i"
    "kids (g_nodes (bi_graph bi')) (run_decorator run) = [root]"
proof -
  note apart = grafted_apart [OF g]
  have old: "ids (edit_node (bi_runner bi) (\<lambda>_. runner_node (bi\<lparr>bi_runs := bi_runs bi @ [run]\<rparr>)) (g_nodes (bi_graph bi)))
      = ids (g_nodes (bi_graph bi))" by simp
  show "kids (g_nodes (bi_graph bi')) i = kids (g_nodes (bi_graph bi)) i"
    if "i \<in> set (ids (g_nodes (bi_graph bi)))" "i \<noteq> bi_runner bi"
    unfolding grafted_sel(1) [OF g] kids_append old using that by (simp add: kids_edit del: set_map)
  show "kids (g_nodes (bi_graph bi')) i = kids ns i" if i: "i \<in> set (ids ns)"
  proof -
    from i apart(1) have "i \<notin> set (ids (g_nodes (bi_graph bi)))" by blast
    with i show ?thesis unfolding grafted_sel(1) [OF g] kids_append old run_nodes_def by (simp only: if_True if_False)
  qed
  show "kids (g_nodes (bi_graph bi')) (run_decorator run) = [root]"
    unfolding grafted_sel(1) [OF g] kids_append old run_nodes_def using apart(2,3)
    by (simp only: if_False) (simp add: kids_def decorator_node_def listed_children_def)
qed

text \<open>What was there reaches what it did; the run reaches its own nodes.\<close>

lemma grafted_old:
  assumes g: "grafted bi run ns root bi'" and c: "c \<in> listed bi"
  shows "(child_rel (by_id (bi_graph bi')))\<^sup>* `` {c} = (child_rel (by_id (bi_graph bi)))\<^sup>* `` {c}"
    "(child_rel (by_id (bi_graph bi)))\<^sup>* `` {c} \<subseteq> set (ids (g_nodes (bi_graph bi))) - {bi_runner bi}"
proof -
  let ?S = "(child_rel (by_id (bi_graph bi)))\<^sup>* `` {c}"
  from grafted_sel(13) [OF g] have h: "hosts (bi_graph bi) (bi_runner bi) (listed bi)" by (simp add: scaffold_ok_def)
  from hosted_below [OF h c] show sub: "?S \<subseteq> set (ids (g_nodes (bi_graph bi))) - {bi_runner bi}" by blast
  show "(child_rel (by_id (bi_graph bi')))\<^sup>* `` {c} = ?S"
  proof (rule reach_same [of ?S])
    show "set (children_in (by_id (bi_graph bi)) i) \<subseteq> ?S" if "i \<in> ?S" for i
      using that by (auto simp flip: child_rel_iff)
    show "set (children_in (by_id (bi_graph bi')) i) = set (children_in (by_id (bi_graph bi)) i)" if "i \<in> ?S" for i
    proof -
      from that sub have "i \<in> set (ids (g_nodes (bi_graph bi)))" "i \<noteq> bi_runner bi" by blast+
      from grafted_kids(1) [OF g this] show ?thesis using grafted_sel(11,12) [OF g] by (simp add: children_kids)
    qed
  qed simp
qed

lemma grafted_new:
  assumes g: "grafted bi run ns root bi'"
  shows "set (nodes_of (by_id (bi_graph bi')) run) = insert (run_decorator run) (set (ids ns))"
proof -
  let ?own = "\<lparr>g_root = Some root, g_nodes = ns\<rparr>"
  from g have f: "own_fragment ns root (run_detached run)" and b: "binds_ok ns" by (simp_all add: grafted_def)
  then have ok: "graph_ok ?own" by (simp add: graph_ok_def own_fragment_def)
  have kids_ns: "set (kids ns i) \<subseteq> set (ids ns)" for i
    using f kids_listed [of _ ns i] unfolding own_fragment_def by blast
  have root: "(child_rel (by_id (bi_graph bi')))\<^sup>* `` {root} = (child_rel (by_id ?own))\<^sup>* `` {root}"
  proof (rule reach_same [of "set (ids ns)"])
    show "set (children_in (by_id ?own) i) \<subseteq> set (ids ns)" if "i \<in> set (ids ns)" for i
      using kids_ns by (simp add: children_kids [OF ok])
    show "set (children_in (by_id (bi_graph bi')) i) = set (children_in (by_id ?own) i)" if "i \<in> set (ids ns)" for i
      using grafted_kids(2) [OF g that] by (simp add: children_kids [OF ok] children_kids [OF grafted_sel(12) [OF g]])
  qed (use f in \<open>simp add: own_fragment_def\<close>)
  have dec: "(run_decorator run, i) \<in> child_rel (by_id (bi_graph bi')) \<longleftrightarrow> i = root" for i
    using grafted_kids(3) [OF g] by (simp add: child_rel_iff children_kids [OF grafted_sel(12) [OF g]])
  have "(child_rel (by_id (bi_graph bi')))\<^sup>* `` {run_decorator run} =
      insert (run_decorator run) ((child_rel (by_id (bi_graph bi')))\<^sup>* `` {root})"
    using dec by (auto elim: converse_rtranclE intro: converse_rtrancl_into_rtrancl)
  with root f show ?thesis unfolding nodes_of_def own_fragment_def by (auto simp: set_subtree)
qed

lemma grafted_main:
  assumes g: "grafted bi run ns root bi'"
  shows "main_graph bi' = main_graph bi"
proof -
  let ?r = "child_rel (by_id (bi_graph bi))" and ?r' = "child_rel (by_id (bi_graph bi'))"
  note sel = grafted_sel [OF g] and apart = grafted_apart [OF g]
  have runs: "set (all_runs bi') = insert run (set (all_runs bi))" by (simp add: all_runs_def sel)
  have main: "?r'\<^sup>* `` set (the_list (bi_main_root bi')) = ?r\<^sup>* `` set (the_list (bi_main_root bi))"
    "?r\<^sup>* `` set (the_list (bi_main_root bi)) \<subseteq> set (ids (g_nodes (bi_graph bi))) - {bi_runner bi}"
    using grafted_old [OF g] by (cases "bi_main_root bi"; simp add: sel listed_def del: set_map)+
  have old: "set (nodes_of (by_id (bi_graph bi')) run') = set (nodes_of (by_id (bi_graph bi)) run')"
    if "run' \<in> set (all_runs bi)" for run'
    using grafted_old(1) [OF g, of "run_decorator run'"] that by (simp add: nodes_of_def set_subtree listed_def)
  have not: "set (not_main bi') = set (not_main bi) \<union> insert (run_decorator run) (set (ids ns))"
  proof -
    have "insert (run_decorator run) (set (ids ns)) \<inter> ?r\<^sup>* `` set (the_list (bi_main_root bi)) = {}"
      using main(2) apart(1,2) by blast
    then show ?thesis unfolding set_not_main runs main(1) sel(5) using old grafted_new [OF g] by auto
  qed
  have "filter (\<lambda>n. n_id n \<notin> set (not_main bi')) (run_nodes run ns root) = []"
  proof (rule filter_False)
    show "\<forall>n \<in> set (run_nodes run ns root). \<not> n_id n \<notin> set (not_main bi')"
    proof
      fix n assume "n \<in> set (run_nodes run ns root)"
      then have "n_id n \<in> set (ids (run_nodes run ns root))" unfolding list.set_map by (rule imageI)
      then show "\<not> n_id n \<notin> set (not_main bi')" unfolding not run_nodes_ids by auto
    qed
  qed
  moreover have "filter (\<lambda>n. n_id n \<notin> set (not_main bi')) (edit_node (bi_runner bi) (\<lambda>_. r) nodes) =
      filter (\<lambda>n. n_id n \<notin> set (not_main bi)) nodes"
    if "n_id r = bi_runner bi" "set (ids nodes) \<subseteq> set (ids (g_nodes (bi_graph bi)))" for r nodes
    using that(2)
  proof (induction nodes)
    case (Cons n nodes)
    have runner: "bi_runner bi \<in> set (not_main bi)" by (simp add: set_not_main)
    from Cons(2) have "n_id n \<in> set (ids (g_nodes (bi_graph bi)))" by auto
    then have "n_id n \<notin> set (ids ns)" "n_id n \<noteq> run_decorator run"
      using apart(1,2) by (metis IntI empty_iff, metis)
    then have same: "n_id n \<in> set (not_main bi') \<longleftrightarrow> n_id n \<in> set (not_main bi)" by (simp add: not del: set_map)
    have "bi_runner bi \<in> set (not_main bi')" using runner unfolding not by (rule UnI1)
    moreover from Cons(2) have "set (ids nodes) \<subseteq> set (ids (g_nodes (bi_graph bi)))" by simp
    note Cons(1) [OF this]
    ultimately show ?case using runner that(1) same by (simp add: edit_node_def)
  qed (simp add: edit_node_def)
  ultimately show ?thesis
    by (simp add: main_graph_def main_graph_beside_def sel flip: not_main_def)
qed

text \<open>A graph spawned under a root no live run has is grafted.\<close>

lemma find_none: "find P xs = None \<longleftrightarrow> (\<forall>x \<in> set xs. \<not> P x)"
  by (auto simp: find_None_iff)

lemma position_None: "(\<And>x. x \<in> set xs \<Longrightarrow> \<not> P x) \<Longrightarrow> position P xs = None"
  by (simp add: position_def Let_def takeWhile_eq_all_conv [THEN iffD2])

lemma position_last: "(\<And>x. x \<in> set xs \<Longrightarrow> \<not> P x) \<Longrightarrow> P y \<Longrightarrow> position P (xs @ [y]) = Some (length xs)"
  by (simp add: position_def Let_def takeWhile_append2)

lemma spawned_graph:
  assumes ok: "scaffold_ok bi" and none: "bi_finished bi = []" and b: "binds_ok (g_nodes graph)"
    and root: "\<And>run. run \<in> set (bi_runs bi) \<Longrightarrow> root_of (by_id (bi_graph bi)) run \<noteq> g_root graph"
    and dec: "decorator \<notin> set (ids (g_nodes (bi_graph bi))) \<union> set (ids (g_nodes graph))"
    and s: "interpreter_spawn_graph E task decorator graph_type graph policy bi = Some (Inr h, bi')"
  shows "\<exists>root detached. check_spawned E graph_type graph = Some (Inr (root, detached)) \<and> g_root graph = Some root \<and>
    th_id h = task \<and> tree_with graph root detached \<and>
    grafted bi \<lparr>run_handle = h, run_decorator = decorator, run_detached = detached\<rparr> (g_nodes graph) root bi'"
proof -
  from s obtain root detached where c: "check_spawned E graph_type graph = Some (Inr (root, detached))"
    and r: "run_graph E task decorator graph root detached bi = Some (Inr h, bi')"
    by (auto simp: interpreter_spawn_graph_def pruned [OF none] split: Option.bind_splits sum.splits)
  from check_spawned_facts [of E graph_type graph] c have t: "g_root graph = Some root" "root \<in> set (ids (g_nodes graph))"
    "tree_with graph root detached" by auto
  have "position (\<lambda>run. root_of (by_id (bi_graph bi)) run = Some root) (bi_runs bi) = None"
    by (rule position_None) (use root t(1) in auto)
  with r have new: "find (\<lambda>node. hm_contains (by_id (bi_graph bi)) (n_id node)) (g_nodes graph) = None"
    and g: "graft E task decorator (se_uuid_text E INTERPRETER_ID) INTERPRETER_SPAWN_GRAPH root detached (g_nodes graph) bi = Some (Inr h, bi')"
    by (auto simp: run_graph_def Let_def split: option.splits)
  have apart: "set (ids (g_nodes graph)) \<inter> set (ids (g_nodes (bi_graph bi))) = {}"
    using new unfolding find_none device_contains by auto
  have "th_id h = task"
  proof -
    have "bi_runner bi \<in> set (ids (g_nodes (bi_graph bi)))" using ok unfolding scaffold_ok_def by (blast intro: hosts_ids)
    with apart tree_detached [OF t(3)] have "bi_runner bi \<notin> set detached" by blast
    from graft_keeps [OF ok b this, of E task decorator "se_uuid_text E INTERPRETER_ID" INTERPRETER_SPAWN_GRAPH root] g
    show ?thesis by auto
  qed
  with c t graft_grafted [OF ok none b tree_fragment [OF t(3,1,2)] apart dec g] show ?thesis by blast
qed


text \<open>
  Nothing else names the run's nodes as children: not even a node no tree holds, whose children may be
  anything.
\<close>

definition unnamed :: "('l, 'r) BehaviorTreeInterpreter \<Rightarrow> uuid set \<Rightarrow> bool" where
  "unnamed bi new \<longleftrightarrow> (\<forall>i \<in> set (ids (g_nodes (bi_graph bi))) - {bi_runner bi}.
     set (children_in (by_id (bi_graph bi)) i) \<inter> insert (bi_runner bi) new = {})"

lemma grafted_outside:
  assumes g: "grafted bi run ns root bi'" and u: "unnamed bi (insert (run_decorator run) (set (ids ns)))"
    and same: "bi_graph b = bi_graph bi'" "bi_runner b = bi_runner bi" "bi_main_root b = bi_main_root bi"
    and leaving: "set leaving = insert (run_decorator run) (set (ids ns))"
  shows "set (held_outside b leaving) \<inter> insert (run_decorator run) (set (ids ns)) = {}"
proof -
  let ?new = "insert (run_decorator run) (set (ids ns))" and ?ids = "set (ids (g_nodes (bi_graph bi)))"
  let ?S = "- insert (bi_runner bi) ?new"
  note sel = grafted_sel [OF g] and apart = grafted_apart [OF g]
  have ids': "set (ids (g_nodes (bi_graph bi'))) = ?ids \<union> ?new"
    using sel(1) by (simp del: set_map)
  have closed: "set (children_in (by_id (bi_graph bi')) i) \<subseteq> ?S" if i: "i \<in> ?S" for i
  proof (cases "i \<in> ?ids")
    case True
    with i have "set (children_in (by_id (bi_graph bi)) i) \<inter> insert (bi_runner bi) ?new = {}"
      using u unfolding unnamed_def by blast
    moreover have "children_in (by_id (bi_graph bi')) i = children_in (by_id (bi_graph bi)) i"
      using grafted_kids(1) [OF g True] i sel(11,12) by (simp add: children_kids)
    ultimately show ?thesis by auto
  next
    case False
    with i ids' have "i \<notin> set (ids (g_nodes (bi_graph bi')))" by blast
    then have "i \<notin> fst ` set (by_id (bi_graph bi'))" unfolding keys_by_id .
    then show ?thesis by (simp add: children_in_absent)
  qed
  have main: "set (the_list (bi_main_root bi)) \<subseteq> ?S"
  proof
    fix r assume "r \<in> set (the_list (bi_main_root bi))"
    then have "r \<in> listed bi" by (simp add: listed_def)
    from grafted_old(2) [OF g this] have "r \<in> ?ids - {bi_runner bi}" by blast
    with apart(1,2) show "r \<in> ?S" by blast
  qed
  have start: "set (filter (\<lambda>i. i \<noteq> bi_runner b \<and> i \<notin> set leaving) (map n_id (g_nodes (bi_graph b))) @ the_list (bi_main_root b)) \<subseteq> ?S"
    using main unfolding same leaving by auto
  have "set (held_outside b leaving) \<subseteq> ?S"
  proof
    fix i assume "i \<in> set (held_outside b leaving)"
    then obtain r where "r \<in> ?S" "(r, i) \<in> (child_rel (by_id (bi_graph bi')))\<^sup>*"
      using start unfolding held_outside_def set_reach same by blast
    from reach_within [OF closed this] show "i \<in> ?S" .
  qed
  then show ?thesis by blast
qed

lemma root_of_children:
  "root_of nodes run = (case children_in nodes (run_decorator run) of [] \<Rightarrow> None | c # _ \<Rightarrow> Some c)"
  by (auto simp: root_of_def children_in_def listed_children_def split: option.splits list.splits)

lemma grafted_roots:
  assumes g: "grafted bi run ns root bi'" and old: "\<And>run. run \<in> set (bi_runs bi) \<Longrightarrow> root_of (by_id (bi_graph bi)) run \<noteq> Some root"
  shows "position (\<lambda>run. root_of (by_id (bi_graph bi')) run = Some root) (bi_runs bi') = Some (length (bi_runs bi))"
proof -
  note sel = grafted_sel [OF g]
  have "root_of (by_id (bi_graph bi')) run' \<noteq> Some root" if "run' \<in> set (bi_runs bi)" for run'
  proof -
    from that have "run_decorator run' \<in> listed bi" by (simp add: listed_def all_runs_def)
    from grafted_old(2) [OF g this] have "run_decorator run' \<in> set (ids (g_nodes (bi_graph bi)))"
      "run_decorator run' \<noteq> bi_runner bi" by blast+
    from grafted_kids(1) [OF g this] sel(11,12) old [OF that] show ?thesis
      by (simp add: root_of_children children_kids)
  qed
  moreover have "root_of (by_id (bi_graph bi')) run = Some root"
    using grafted_kids(3) [OF g] sel(12) by (simp add: root_of_children children_kids)
  ultimately show ?thesis unfolding sel(2) by (intro position_last) auto
qed

text \<open>
  C17. A run is known by its root: spawning the graph of a run again answers the run's own handle and
  changes nothing at all, neither the graph nor the state a tick would rebuild. The graph's constants
  are equal to themselves, as all but NaN are.
\<close>

theorem spawn_again_changes_nothing:
  assumes h: "hosted E T D bi" and none: "bi_finished bi = []" and b: "binds_ok (g_nodes graph)"
    and root: "\<And>run. run \<in> set (bi_runs bi) \<Longrightarrow> root_of (by_id (bi_graph bi)) run \<noteq> g_root graph"
    and dec: "decorator \<notin> set (ids (g_nodes (bi_graph bi))) \<union> set (ids (g_nodes graph))"
    and u: "unnamed bi (insert decorator (set (ids (g_nodes graph))))"
    and nan: "list_all (\<lambda>n. list_all (\<lambda>(p, s). source_eq s s) (n_bind n)) (g_nodes graph)"
    and s: "interpreter_spawn_graph E task decorator graph_type graph policy bi = Some (Inr h', bi')"
  shows "interpreter_spawn_graph E task' decorator' graph_type graph policy' bi' = Some (Inr h', bi')"
proof -
  from spawned_graph [OF hosted_ok [OF h] none b root dec s] obtain r detached where
    c: "check_spawned E graph_type graph = Some (Inr (r, detached))" and gr: "g_root graph = Some r"
    and t: "tree_with graph r detached"
    and g: "grafted bi \<lparr>run_handle = h', run_decorator = decorator, run_detached = detached\<rparr> (g_nodes graph) r bi'" by blast
  define run where "run = \<lparr>run_handle = h', run_decorator = decorator, run_detached = detached\<rparr>"
  note g = g [folded run_def]
  note sel = grafted_sel [OF g] and apart = grafted_apart [OF g]
  have dec_run: "run_decorator run = decorator" by (simp add: run_def)
  have pos: "position (\<lambda>run. root_of (by_id (bi_graph bi')) run = Some r) (bi_runs bi') = Some (length (bi_runs bi))"
    by (rule grafted_roots [OF g]) (use root gr in auto)
  have at: "bi_runs bi' ! length (bi_runs bi) = run" by (simp add: sel(2))
  have held: "set (held_by bi' run) = set (ids (g_nodes graph))"
    using grafted_new [OF g] apart(3) by (simp add: held_by_def del: set_map)
  have leaving: "set (hs_insert (run_decorator run) (held_by bi' run)) = insert (run_decorator run) (set (ids (g_nodes graph)))"
    by (simp add: held del: set_map)
  have besides: "set (held_besides bi' run) \<inter> set (ids (g_nodes graph)) = {}"
    using grafted_outside [OF g _ refl sel(5,6) leaving] u unfolding held_besides_def dec_run by blast
  have "respawn_refused bi' run graph = None"
  proof -
    have "find (\<lambda>node. hm_contains (by_id (bi_graph bi')) (n_id node) \<and> n_id node \<notin> set (held_by bi' run)) (g_nodes graph) = None"
      unfolding find_none held by simp
    moreover have "find (\<lambda>node. n_id node \<in> set (held_besides bi' run)) (g_nodes graph) = None"
      using besides unfolding find_none by auto
    ultimately show ?thesis by (simp add: respawn_refused_def)
  qed
  moreover have "own_graph bi' run (g_root graph) = graph"
  proof -
    have keep: "filter (\<lambda>n. n_id n \<in> set (held_by bi' run) \<and> n_id n \<notin> set (held_besides bi' run)) (g_nodes graph) = g_nodes graph"
      using besides unfolding held by (intro filter_True) auto
    have "filter (\<lambda>n. n_id n \<in> set (held_by bi' run) \<and> n_id n \<notin> set (held_besides bi' run)) nodes = []"
      if "set (ids nodes) \<inter> set (ids (g_nodes graph)) = {}" for nodes
      using that unfolding held by (intro filter_False) auto
    note drop = this
    have "set (ids [decorator_node (run_decorator run) (th_status (run_handle run)) r]) \<inter> set (ids (g_nodes graph)) = {}"
      using apart(3) by (simp add: decorator_node_def del: set_map)
    note drop_dec = drop [OF this]
    have "set (ids (edit_node (bi_runner bi) (\<lambda>_. runner_node (bi\<lparr>bi_runs := bi_runs bi @ [run]\<rparr>)) (g_nodes (bi_graph bi))))
        \<inter> set (ids (g_nodes graph)) = {}"
      using apart(1) by (simp add: Int_commute del: set_map)
    note drop_old = drop [OF this]
    show ?thesis
      unfolding own_graph_def sel(1) run_nodes_def filter_append keep drop_dec drop_old by simp
  qed
  moreover have "graph_diff graph graph = empty_diff"
    by (rule diff_self) (use t b nan in \<open>simp_all add: graph_ok_def tree_with_def\<close>)
  moreover have "set_detached (length (bi_runs bi)) detached bi' = bi'"
  proof -
    have "(bi_runs bi')[length (bi_runs bi) := run] = bi_runs bi'" unfolding sel(2) by simp
    moreover have "run\<lparr>run_detached := detached\<rparr> = run" by (simp add: run_def)
    ultimately show ?thesis unfolding set_detached_def at by simp
  qed
  ultimately have "respawn E (length (bi_runs bi)) graph detached bi' = Some (Inr h', bi')"
    by (simp add: respawn_def Let_def at) (simp add: run_def)
  then show ?thesis
    by (simp add: interpreter_spawn_graph_def c pruned [OF sel(3)] run_graph_def Let_def pos)
qed

section \<open>Every graph was lowered\<close>

text \<open>
  Each edit lowers its graph before the graph takes the scaffold's place, so the graph of a reachable
  interpreter can be lowered. \<open>checked\<close> is what an edit checks besides the cycles.
\<close>

definition checked :: "('l, 'r) scaffold_env \<Rightarrow> Graph \<Rightarrow> bool" where
  "checked E g \<longleftrightarrow> check_selections g [] = Inr () \<and> (\<exists>tree. lowers E g = Some (Inr tree))"

definition fine :: "('l, 'r) scaffold_env \<Rightarrow> (('e + 'a) \<times> ('l, 'r) BehaviorTreeInterpreter) option \<Rightarrow> bool" where
  "fine E x \<longleftrightarrow> (\<forall>r bi. x = Some (r, bi) \<longrightarrow> checked E (bi_graph bi))"

lemma fineD: "fine E x \<Longrightarrow> x = Some (r, bi) \<Longrightarrow> checked E (bi_graph bi)"
  unfolding fine_def by blast

lemma fine_simps [simp]: "fine E None" "fine E (Some (r, bi)) = checked E (bi_graph bi)"
  "fine E (act_fail e bi) = checked E (bi_graph bi)" "fine E (act_return x bi) = checked E (bi_graph bi)"
  "fine E (act_modify f bi) = checked E (bi_graph (f bi))"
  by (simp_all add: fine_def act_fail_def act_return_def act_modify_def)

lemma fine_bind: "fine E (m bi) \<Longrightarrow> (\<And>x bi'. checked E (bi_graph bi') \<Longrightarrow> fine E (f x bi')) \<Longrightarrow> fine E (act_bind m f bi)"
  by (auto simp: fine_def act_bind_def split: Option.bind_splits sum.splits)

lemma fine_on_err: "fine E (m bi) \<Longrightarrow> (\<And>bi. bi_graph (f bi) = bi_graph bi) \<Longrightarrow> fine E (act_on_err f m bi)"
  by (cases "m bi") (auto simp: fine_def act_on_err_def split: sum.splits)

lemma fine_edit: "checked E (bi_graph bi) \<Longrightarrow> fine E (edit_lowering E d det bi)"
  by (auto simp: fine_def edit_lowering_def Let_def edited_def checked_def split: Option.bind_splits sum.splits if_splits)

lemma revised_graph [simp]: "bi_graph (revise_since before bi) = bi_graph bi"
  by (simp add: revise_since_def)

lemma detached_graph [simp]: "bi_graph (set_detached at ds bi) = bi_graph bi"
  by (simp add: set_detached_def)

lemma fine_prune: "checked E (bi_graph bi) \<Longrightarrow> fine E (prune E runs bi)"
  unfolding prune_def Let_def edit_def by (auto intro!: fine_bind fine_edit)

lemma fine_pruned:
  "checked E (bi_graph bi) \<Longrightarrow> (\<And>bi. checked E (bi_graph bi) \<Longrightarrow> fine E (f () bi)) \<Longrightarrow> fine E (act_bind (prune_finished E) f bi)"
  by (rule fine_bind) (auto simp: prune_finished_def intro!: fine_prune)

lemma fine_graft: "checked E (bi_graph bi) \<Longrightarrow> fine E (graft E task decorator m f root det ns bi)"
  unfolding graft_def Let_def by (auto intro!: fine_bind fine_on_err fine_edit)

lemma fine_respawn: "checked E (bi_graph bi) \<Longrightarrow> fine E (respawn E at graph det bi)"
  unfolding respawn_def Let_def by (auto intro!: fine_bind fine_edit split: option.splits)

lemma fine_load: "checked E (bi_graph bi) \<Longrightarrow> fine E (load_main E graph bi)"
  unfolding load_main_def Let_def edit_def
  by (auto intro!: fine_bind fine_on_err fine_edit split: option.splits Option.bind_split sum.splits)

lemma fine_apply: "checked E (bi_graph bi) \<Longrightarrow> fine E (apply_edit E diff bi)"
  unfolding apply_edit_def Let_def edit_def
  by (auto intro!: fine_bind fine_on_err fine_edit split: option.splits)

lemma fine_spawn_graph: "checked E (bi_graph bi) \<Longrightarrow> fine E (interpreter_spawn_graph E task decorator t graph policy bi)"
  unfolding interpreter_spawn_graph_def run_graph_def Let_def
  by (auto intro!: fine_pruned fine_respawn fine_graft split: option.splits Option.bind_split sum.splits)

lemma fine_halt: "checked E (bi_graph bi) \<Longrightarrow> fine E (interpreter_halt E task bi)"
  unfolding interpreter_halt_def Let_def
  by (auto intro!: fine_bind fine_prune split: option.splits prod.splits)

text \<open>The tick edits the graph only where it prunes finished runs.\<close>

definition fine_tick :: "('l, 'r) scaffold_env \<Rightarrow> ('s, 'l, 'r, 'a) tick_step \<Rightarrow> bool" where
  "fine_tick E m \<longleftrightarrow> (\<forall>bi ts r bi' ts'. m (bi, ts) = Some (r, bi', ts') \<longrightarrow> checked E (bi_graph bi) \<longrightarrow> checked E (bi_graph bi'))"

lemma fine_tickD: "fine_tick E m \<Longrightarrow> m (bi, ts) = Some (r, bi', ts') \<Longrightarrow> checked E (bi_graph bi) \<Longrightarrow> checked E (bi_graph bi')"
  unfolding fine_tick_def by blast

lemma fine_tick_bind: "fine_tick E m \<Longrightarrow> (\<And>x. fine_tick E (f x)) \<Longrightarrow> fine_tick E (act_bind m f)"
  unfolding fine_tick_def act_bind_def by (auto split: Option.bind_splits sum.splits) blast+

lemma fine_tick_return: "fine_tick E (act_return x)" "fine_tick E (act_fail e)"
  by (simp_all add: fine_tick_def act_return_def act_fail_def)

lemma fine_tick_modify: "(\<And>bi ts. bi_graph (fst (f (bi, ts))) = bi_graph bi) \<Longrightarrow> fine_tick E (act_modify f)"
  unfolding fine_tick_def act_modify_def by (metis Pair_inject fst_conv option.inject)

lemma fine_tick_parts:
  "fine_tick E (write_halts D)" "fine_tick E (write_revision D)" "fine_tick E (take_over T lowered)" "fine_tick E (tick_lowered T)"
  by (auto simp: fine_tick_def write_halts_def write_revision_def take_over_def tick_lowered_def
      split: prod.splits if_splits sum.splits option.splits Option.bind_splits)

lemma fine_tick_pruned: "fine_tick E (on_interpreter (prune_finished E))"
  by (auto simp: fine_tick_def on_interpreter_def prune_finished_def dest!: fineD [OF fine_prune, rotated])

lemma fine_relower: "fine_tick E (relower E T D functions)"
proof -
  have "fine_tick E (act_bind (take_over T lowered) (\<lambda>_.
      act_bind (act_modify (\<lambda>(bi, ts). (bi\<lparr>bi_traces := f bi, bi_fresh := [], bi_lowered := g bi, bi_dirty := False,
        bi_functions := functions\<rparr>, ts))) (\<lambda>_. write_revision D)))" for lowered f g
    by (intro fine_tick_bind fine_tick_parts fine_tick_modify) auto
  note rest = fine_tickD [OF this]
  show ?thesis
    unfolding relower_def
    by (intro fine_tick_bind fine_tick_pruned) (auto simp: fine_tick_def split: sum.splits Option.bind_splits dest: rest)
qed

lemma fine_interpreter_tick: "fine_tick E (interpreter_tick E T D functions)"
proof -
  have "fine_tick E (\<lambda>(bi, ts). if bi_dirty bi then relower E T D functions (bi, ts) else Some (Inr (), bi, ts))"
    using fine_relower [of E T D "functions"] unfolding fine_tick_def by auto
  then have "fine_tick E (act_bind (write_halts D) (\<lambda>_. act_bind (write_revision D) (\<lambda>_.
     act_bind (\<lambda>(bi, ts). if bi_dirty bi then relower E T D functions (bi, ts) else Some (Inr (), bi, ts)) (\<lambda>_.
     act_bind (tick_lowered T) (\<lambda>reported.
     act_bind (act_modify (\<lambda>(bi, ts). (sweep_terminal_runs D (ts_world ts) bi, ts))) (\<lambda>_.
       if reported then act_return () else act_fail NotReported))))))"
    by (intro fine_tick_bind fine_tick_parts fine_tick_modify) (auto simp: sweep_terminal_runs_def fine_tick_return)
  then show ?thesis unfolding interpreter_tick_def fine_tick_def by auto
qed

lemma new_checked: "checked E (bi_graph (BehaviorTreeInterpreter_new runner traces))"
proof -
  have "case lowers E \<lparr>g_root = Some runner, g_nodes = [runner_at runner []]\<rparr> of Some (Inr _) \<Rightarrow> True | _ \<Rightarrow> False"
    by code_simp
  moreover have "check_selections \<lparr>g_root = Some runner, g_nodes = [runner_at runner []]\<rparr> [] = Inr ()" by code_simp
  ultimately show ?thesis
    by (auto simp: checked_def BehaviorTreeInterpreter_new_def split: option.splits sum.splits)
qed

lemma hosted_checked: "hosted E T D bi \<Longrightarrow> checked E (bi_graph bi)"
proof (induction rule: hosted.induct)
  case (start runner traces)
  show ?case by (rule new_checked)
next
  case (load bi graph r bi')
  show ?case
    by (rule fineD [OF _ load(3) [unfolded interpreter_load_def]]) (auto intro: fine_pruned fine_load load(4))
next
  case (edit bi diff r bi')
  show ?case
    by (rule fineD [OF _ edit(3) [unfolded interpreter_apply_def]]) (auto intro: fine_pruned fine_apply edit(4))
next
  case (spawn bi call_node task decorator call policy h bi')
  have "fine E (interpreter_spawn E call_node task decorator call policy bi)"
    unfolding interpreter_spawn_def using spawn(3) by (auto intro!: fine_pruned fine_graft split: option.splits)
  from fineD [OF this spawn(2)] show ?case .
next
  case (spawn_graph bi graph task decorator graph_type policy h bi')
  from fineD [OF fine_spawn_graph [OF spawn_graph(4)] spawn_graph(3)] show ?case .
next
  case (halt bi task r bi')
  from fineD [OF fine_halt [OF halt(3)] halt(2)] show ?case .
next
  case (tick bi index ts r bi' ts')
  from fine_tickD [OF fine_interpreter_tick tick(2,3)] show ?case .
qed

section \<open>A halted run\<close>

lemma edit_node_twice: "n_id m = i \<Longrightarrow> edit_node i f (edit_node i (\<lambda>_. m) nodes) = edit_node i (\<lambda>_. f m) nodes"
  by (auto simp: edit_node_def)

lemma edit_node_same:
  assumes "distinct (ids nodes)" "node_at nodes i = Some m"
  shows "edit_node i (\<lambda>_. m) nodes = nodes"
proof -
  have "(if n_id n = i then m else n) = n" if "n \<in> set nodes" for n
    using node_at_mem [OF assms(1) that] assms(2) by auto
  then show ?thesis unfolding edit_node_def by (rule map_idI)
qed

lemma unread_same: "list_all (\<lambda>(p, s). \<not> reads_removed rs s) (n_bind n) \<Longrightarrow> unread rs n = n"
  by (cases n) (auto simp: unread_def list_all_iff intro!: filter_True)

text \<open>Nothing of the device reads what one of the nodes outputs or takes.\<close>

definition unread_by :: "('l, 'r) BehaviorTreeInterpreter \<Rightarrow> uuid list \<Rightarrow> bool" where
  "unread_by bi new \<longleftrightarrow>
     list_all (\<lambda>n. list_all (\<lambda>(p, s). \<not> reads_removed new s) (n_bind n)) (g_nodes (bi_graph bi))"

lemma reads_removed_set: "set xs = set ys \<Longrightarrow> reads_removed xs s = reads_removed ys s"
  by (simp add: reads_removed_def split: option.split)

text \<open>Removing what was grafted leaves the graph as it was before.\<close>

lemma ungrafted:
  assumes g: "grafted bi run ns root bi'" and node: "graph_node (bi_graph bi) (bi_runner bi) = Some (runner_node bi)"
    and unread: "unread_by bi rem" and rem: "set rem = insert (run_decorator run) (set (ids ns))"
  shows "apply_ref (bi_graph bi') (empty_diff\<lparr>d_remove := rem, d_set := [runner_node bi]\<rparr>) = bi_graph bi"
proof -
  note sel = grafted_sel [OF g] and apart = grafted_apart [OF g]
  let ?rs = "hs_collect rem" and ?old = "g_nodes (bi_graph bi)"
  let ?edited = "edit_node (bi_runner bi) (\<lambda>_. runner_node (bi\<lparr>bi_runs := bi_runs bi @ [run]\<rparr>)) ?old"
  have rs: "set ?rs = insert (run_decorator run) (set (ids ns))" by (simp add: rem del: set_map)
  from sel(13) have root: "g_root (bi_graph bi) = Some (bi_runner bi)" by (simp add: scaffold_ok_def hosts_def)
  from g have root': "g_root (bi_graph bi') = Some (bi_runner bi)" by (auto simp: grafted_def)
  have nonempty: "?rs \<noteq> []" using rs by (metis insert_not_empty set_empty)
  have runner: "bi_runner bi \<notin> set ?rs" using apart(1,2,4) unfolding rs by (metis IntI empty_iff insert_iff)
  have keep: "n_id n \<notin> set ?rs \<and> unread ?rs n = n" if "n \<in> set ?edited" for n
  proof -
    have "ids ?edited = ids ?old" by simp
    moreover have "n_id n \<in> set (ids ?edited)" using that unfolding list.set_map by (rule imageI)
    ultimately have id: "n_id n \<in> set (ids ?old)" by (simp only:)
    have "n \<in> set ?old \<or> n = runner_node (bi\<lparr>bi_runs := bi_runs bi @ [run]\<rparr>)"
      using that by (auto simp: edit_node_def split: if_splits)
    then have "unread ?rs n = n"
    proof
      assume "n \<in> set ?old"
      with unread have "list_all (\<lambda>(p, s). \<not> reads_removed ?rs s) (n_bind n)"
        using reads_removed_set [of ?rs rem] by (auto simp: unread_by_def list_all_iff)
      then show ?thesis by (rule unread_same)
    qed (simp add: runner_node_def runner_at_def unread_def)
    with id apart(1,2) show ?thesis unfolding rs by (metis IntI empty_iff insert_iff)
  qed
  have "n_id n \<in> set ?rs" if "n \<in> set (run_nodes run ns root)" for n
  proof -
    from that have "n_id n \<in> set (ids (run_nodes run ns root))" unfolding list.set_map by (rule imageI)
    then show ?thesis unfolding rs run_nodes_ids by auto
  qed
  then have "filter (\<lambda>n. n_id n \<notin> set ?rs) (g_nodes (bi_graph bi')) = ?edited"
    unfolding sel(1) filter_append using keep by (simp add: filter_id_conv filter_empty_conv)
  then have removed: "removals ?rs (bi_graph bi') = \<lparr>g_root = Some (bi_runner bi), g_nodes = ?edited\<rparr>"
    using nonempty root' runner keep by (simp add: removals_def map_idI)
  have "put_node (runner_node bi) ?edited = edit_node (bi_runner bi) (\<lambda>_. runner_node bi) ?edited"
    using apart(4) by (simp add: put_node_def del: set_map)
  also have "\<dots> = edit_node (bi_runner bi) (\<lambda>_. runner_node bi) ?old"
    by (rule edit_node_twice) simp
  also have "\<dots> = ?old"
    by (rule edit_node_same) (use sel(11) node in \<open>simp_all add: graph_ok_def graph_node_def\<close>)
  finally show ?thesis
    by (cases "bi_graph bi") (use root in \<open>simp add: apply_ref_def Let_def removed\<close>)
qed

lemma checked_edits:
  assumes c: "checked E (apply_ref (bi_graph bi) d)" and g: "graph_ok (bi_graph bi)" "d_bind d = []"
    and s: "sound_under (apply_ref (bi_graph bi) d) (bi_runner bi)"
    and r: "bi_runner bi \<in> set (ids (g_nodes (apply_ref (bi_graph bi) d)))"
  shows "\<exists>fresh. edit E d bi = Some (Inr (), bi\<lparr>bi_graph := apply_ref (bi_graph bi) d, bi_dirty := True, bi_fresh := fresh\<rparr>)"
proof -
  have "refused_binding (bi_graph bi) d = None" by (simp add: refused_binding_def g(2))
  with graph_apply_ref [of "bi_graph bi" d] g(1) have a: "graph_apply (bi_graph bi) d = Some (Inr (apply_ref (bi_graph bi) d))"
    by (simp add: graph_ok_def)
  from acyclic_decided [OF r] s have "check_acyclic (apply_ref (bi_graph bi) d) (bi_runner bi) = Some (Inr ())" by auto
  with a c show ?thesis by (auto simp: edit_def edit_lowering_def Let_def edited_def checked_def)
qed


section \<open>A halt that loses its run\<close>

lemma edit_error: "edit E d bi = Some (Inl e, bi') \<Longrightarrow> bi' = bi"
  by (cases "edited E bi d False") (auto simp: edit_def edit_lowering_def Let_def split: sum.splits)

lemma prune_error: "prune E runs bi = Some (Inl e, bi') \<Longrightarrow> bi' = bi"
  by (auto simp: prune_def Let_def act_bind_def act_modify_def dest: edit_error
      split: if_splits Option.bind_splits sum.splits)

lemma position_splits:
  assumes "position P xs = Some i"
  shows "P (xs ! i) \<and> xs = take i xs @ xs ! i # drop (Suc i) xs"
  using position_Some [OF assms] id_take_nth_drop by blast

text \<open>
  C19. A halt that fails loses its run: the run has left the list of runs, while the graph still holds
  its decorator and its nodes, as it did, and its status is not to be written. Nothing answers to the
  run's id any more.
\<close>

theorem halt_loses_run:
  assumes "interpreter_halt E task bi = Some (Inl e, bi')"
  shows "\<exists>before run after. bi_runs bi = before @ run # after \<and> th_id (run_handle run) = task \<and>
    bi_runs bi' = before @ after \<and> bi_graph bi' = bi_graph bi \<and> bi_halted bi' = bi_halted bi"
proof -
  obtain status traces where t: "se_traces_halt E (bi_traces bi) task = (status, traces)" by fastforce
  with assms have none: "status = None" by (cases status) (auto simp: interpreter_halt_def)
  with assms t obtain at where at: "position (\<lambda>run. th_id (run_handle run) = task) (bi_runs bi) = Some at"
    by (auto simp: interpreter_halt_def Let_def split: option.splits)
  let ?run = "bi_runs bi ! at"
  define bi1 where "bi1 = bi\<lparr>bi_traces := traces, bi_runs := take at (bi_runs bi) @ drop (Suc at) (bi_runs bi)\<rparr>"
  from assms have "prune E [?run] bi1 = Some (Inl e, bi')"
    by (auto simp: interpreter_halt_def t none at Let_def bi1_def act_bind_def act_modify_def
        split: Option.bind_splits sum.splits)
  then have "bi' = bi1" by (rule prune_error)
  moreover note position_splits [OF at]
  ultimately show ?thesis
    by (intro exI [of _ "take at (bi_runs bi)"] exI [of _ ?run] exI [of _ "drop (Suc at) (bi_runs bi)"]) (simp add: bi1_def)
qed

text \<open>The behavior compares the run's resume index with a constant.\<close>

definition sample_watch :: GraphDiff where
  "sample_watch = empty_diff\<lparr>d_set :=
     [sample_node 2 SEQ_FUNCTION_ID (Some [3, 4, 9]),
      \<lparr>n_id = 9, n_function = EQUAL_FUNCTION_ID,
        n_bind = [(EQUAL_A_PARAM_ID, SPort (MkPort 5 SEQ_STAR_CURRENT_INDEX_PARAM_ID)),
          (EQUAL_B_PARAM_ID, SValue Unit)],
        n_children = None\<rparr>]\<rparr>"

definition sample_watched :: "(unit, unit) BehaviorTreeInterpreter" where
  "sample_watched = sample_spawned\<lparr>
     bi_graph := \<lparr>g_root = Some 1, g_nodes =
         runner_at 1 [2, 8] # sample_node 2 SEQ_FUNCTION_ID (Some [3, 4, 9]) # tl (g_nodes sample_behavior) @ g_nodes sample_run
         @ [decorator_node 8 (th_status sample_handle) 5, last (d_set sample_watch)]\<rparr>,
     bi_fresh := [9, 8, 6, 5, 1, 4, 3, 2], bi_revision := 2\<rparr>"

lemma sample_watches: "interpreter_apply sample_env sample_watch sample_spawned = Some (Inr (), sample_watched)"
  by code_simp

lemma sample_halt:
  "interpreter_halt sample_env 7 sample_watched = Some (Inl (NotLowered InconsistentTreeError), sample_watched\<lparr>bi_runs := []\<rparr>)"
  by code_simp

theorem halt_loses_run_witness:
  "hosted sample_env sample_lowering simple_store sample_watched \<and> length (bi_runs sample_watched) = 1 \<and>
   (\<exists>bi' e. interpreter_halt sample_env 7 sample_watched = Some (Inl e, bi') \<and> length (bi_runs bi') = 0 \<and>
      8 \<in> set (children_in (by_id (bi_graph bi')) 1) \<and> bi_halted bi' = [])"
proof -
  have "binds_ok (d_set sample_watch)" by code_simp
  from hosted.edit [OF samples_hosted(2) this sample_watches]
  have "hosted sample_env sample_lowering simple_store sample_watched" .
  moreover from halt_loses_run [OF sample_halt] have "bi_halted (sample_watched\<lparr>bi_runs := []\<rparr>) = bi_halted sample_watched" by blast
  moreover have "bi_halted sample_watched = []" "length (bi_runs sample_watched) = 1" "8 \<in> set (children_in (by_id (bi_graph sample_watched)) 1)"
    by code_simp+
  ultimately show ?thesis
    by (intro conjI exI [of _ "sample_watched\<lparr>bi_runs := []\<rparr>"] exI [of _ "NotLowered InconsistentTreeError"])
      (simp_all add: sample_halt)
qed

section \<open>The runs of the sample device\<close>

lemma sample_run_facts: "binds_ok (g_nodes sample_run)" "bi_runs sample_loaded = []"
  "8 \<notin> set (ids (g_nodes (bi_graph sample_loaded))) \<union> set (ids (g_nodes sample_run))"
  "unread_by sample_loaded (8 # ids (g_nodes sample_run))"
  "graph_node (bi_graph sample_loaded) (bi_runner sample_loaded) = Some (runner_node sample_loaded)"
  "list_all (\<lambda>n. list_all (\<lambda>(p, s). source_eq s s) (n_bind n)) (g_nodes sample_run)"
  by code_simp+

lemma sample_unnamed: "unnamed sample_loaded (insert 8 (set (ids (g_nodes sample_run))))"
proof -
  have "list_all (\<lambda>i. i = bi_runner sample_loaded \<or>
      list_all (\<lambda>c. c \<notin> insert (bi_runner sample_loaded) (insert 8 (set (ids (g_nodes sample_run)))))
        (children_in (by_id (bi_graph sample_loaded)) i)) (ids (g_nodes (bi_graph sample_loaded)))"
    by code_simp
  then show ?thesis unfolding unnamed_def list_all_iff by blast
qed


theorem spawn_again_changes_nothing_witness:
  "interpreter_spawn_graph sample_env 70 80 GRAPH_TYPE sample_run Concurrent sample_spawned = Some (Inr sample_handle, sample_spawned)"
  by (rule spawn_again_changes_nothing [OF samples_hosted(1) [of simple_store] sample_finished(1) sample_run_facts(1) _
        sample_run_facts(3) sample_unnamed sample_run_facts(6) sample_spawns]) (simp add: sample_run_facts(2))


end
