(* ===== verification/Low_Types.thy ===== *)
theory Low_Types
  imports Arguments
begin

text \<open>
  Runtime types (\<open>crates/arora-types/src/ty/low.rs\<close>): what a type's id stands for, the default value
  of a type, and whether a value is of a type. The fields of a structure and the variants of an
  enumeration are kept in an \<open>IndexMap\<close>: entries with distinct keys, in the order they were inserted.
  A variant (\<open>EnumerationValue\<close>) has the two fields of a structure's field, and is one here.
\<close>

section \<open>Types\<close>

type_synonym ('k, 'v) index_map = "('k \<times> 'v) list"

definition im_insert :: "'k \<Rightarrow> 'v \<Rightarrow> ('k, 'v) index_map \<Rightarrow> ('k, 'v) index_map" where
  "im_insert k v m =
     (if k \<in> fst ` set m then map (\<lambda>(k', v'). if k' = k then (k', v) else (k', v')) m else m @ [(k, v)])"

record LowField =
  lf_name :: string
  lf_type_ref :: TypeRef

record LowStructure =
  ls_fields :: "(uuid, LowField) index_map"

record LowEnumeration =
  le_values :: "(uuid, LowField) index_map"

datatype TypeKind = KStructure LowStructure | KEnumeration LowEnumeration | KPrimitive TypeRef

record LowType =
  lt_name :: string
  lt_id :: uuid
  lt_description :: string
  lt_kind :: TypeKind

type_synonym TypeRegistry = "(uuid, LowType) hash_map"

definition from_fields :: "(uuid \<times> LowField) list \<Rightarrow> LowStructure" where
  "from_fields entries = \<lparr>ls_fields = fold (\<lambda>(k, v). im_insert k v) entries []\<rparr>"

fun ref_dependencies :: "TypeRef \<Rightarrow> uuid hash_set" where
  "ref_dependencies (Scalar i) = [i]"
| "ref_dependencies (Array i) = [i]"
| "ref_dependencies (FixedArray i n) = [i]"
| "ref_dependencies (TMap k v) = hs_insert v [k]"
| "ref_dependencies (TOptionOf i) = [i]"

definition fields_dependencies :: "(uuid, LowField) index_map \<Rightarrow> uuid hash_set" where
  "fields_dependencies entries = fold (\<lambda>(_, field) deps. hs_extend deps (ref_dependencies (lf_type_ref field))) entries []"

fun type_dependencies :: "TypeKind \<Rightarrow> uuid hash_set" where
  "type_dependencies (KStructure s) = fields_dependencies (ls_fields s)"
| "type_dependencies (KEnumeration e) = fields_dependencies (le_values e)"
| "type_dependencies (KPrimitive _) = []"

section \<open>Default values\<close>

text \<open>
  A default record of key-values draws its own id, an argument here: in a type's default, one per field.
\<close>

definition default_fixed_array :: "uuid \<Rightarrow> nat \<Rightarrow> Value" where
  "default_fixed_array i len =
    (if i = BOOLEAN_ID then ArrayBoolean (replicate len False)
     else if i = U8_ID then ArrayU8 (replicate len 0)
     else if i = U16_ID then ArrayU16 (replicate len 0)
     else if i = U32_ID then ArrayU32 (replicate len 0)
     else if i = U64_ID then ArrayU64 (replicate len 0)
     else if i = I8_ID then ArrayI8 (replicate len 0)
     else if i = I16_ID then ArrayI16 (replicate len 0)
     else if i = I32_ID then ArrayI32 (replicate len 0)
     else if i = I64_ID then ArrayI64 (replicate len 0)
     else if i = F32_ID then ArrayF32 (replicate len 0)
     else if i = F64_ID then ArrayF64 (replicate len 0)
     else if i = STRING_ID then ArrayString (replicate len [])
     else ArrayStructure i [])"

definition default_scalar :: "uuid \<Rightarrow> uuid \<Rightarrow> Value" where
  "default_scalar drawn i =
    (if i = UNIT_ID then Unit
     else if i = BOOLEAN_ID then Boolean False
     else if i = I8_ID then I8 0
     else if i = I16_ID then I16 0
     else if i = I32_ID then I32 0
     else if i = I64_ID then I64 0
     else if i = U8_ID then U8 0
     else if i = U16_ID then U16 0
     else if i = U32_ID then U32 0
     else if i = U64_ID then U64 0
     else if i = F32_ID then F32 0
     else if i = F64_ID then F64 0
     else if i = STRING_ID then VString []
     else if i = OPTION_ID then VOption None
     else if i = ARRAY_BOOLEAN_ID then ArrayBoolean []
     else if i = ARRAY_U8_ID then ArrayU8 []
     else if i = ARRAY_U16_ID then ArrayU16 []
     else if i = ARRAY_U32_ID then ArrayU32 []
     else if i = ARRAY_U64_ID then ArrayU64 []
     else if i = ARRAY_I8_ID then ArrayI8 []
     else if i = ARRAY_I16_ID then ArrayI16 []
     else if i = ARRAY_I32_ID then ArrayI32 []
     else if i = ARRAY_I64_ID then ArrayI64 []
     else if i = ARRAY_F32_ID then ArrayF32 []
     else if i = ARRAY_F64_ID then ArrayF64 []
     else if i = ARRAY_STRING_ID then ArrayString []
     else if i = ARRAY_VALUE_ID then ArrayValue []
     else if i = KEY_VALUE_ID then KeyValue (KeyValue_new_with_id drawn)
     else if i = UUID_ID then VUuid 0
     else Structure (MkStructure i []))"

definition default_array :: "uuid \<Rightarrow> Value" where
  "default_array i =
    (if i = BOOLEAN_ID then ArrayBoolean []
     else if i = U8_ID then ArrayU8 []
     else if i = U16_ID then ArrayU16 []
     else if i = U32_ID then ArrayU32 []
     else if i = U64_ID then ArrayU64 []
     else if i = I8_ID then ArrayI8 []
     else if i = I16_ID then ArrayI16 []
     else if i = I32_ID then ArrayI32 []
     else if i = I64_ID then ArrayI64 []
     else if i = F32_ID then ArrayF32 []
     else if i = F64_ID then ArrayF64 []
     else if i = STRING_ID then ArrayString []
     else ArrayStructure i [])"

fun default_for_type_ref :: "uuid \<Rightarrow> TypeRef \<Rightarrow> Value" where
  "default_for_type_ref drawn (Scalar i) = default_scalar drawn i"
| "default_for_type_ref drawn (Array i) = default_array i"
| "default_for_type_ref drawn (FixedArray i len) = default_fixed_array i len"
| "default_for_type_ref drawn (TMap _ _) = KeyValue (KeyValue_new_with_id drawn)"
| "default_for_type_ref drawn (TOptionOf _) = VOption None"

definition default_value :: "(uuid \<Rightarrow> uuid) \<Rightarrow> LowType \<Rightarrow> Value" where
  "default_value drawn ty =
     (case lt_kind ty of
        KPrimitive ref \<Rightarrow> default_for_type_ref (drawn (lt_id ty)) ref
      | KStructure structure \<Rightarrow> Structure (MkStructure (lt_id ty)
          (map (\<lambda>(i, field). StructureField i (default_for_type_ref (drawn i) (lf_type_ref field))) (ls_fields structure)))
      | KEnumeration enumeration \<Rightarrow>
         (case le_values enumeration of
            (variant_id, variant) # _ \<Rightarrow>
              Enumeration (MkEnumeration (lt_id ty) variant_id (default_for_type_ref (drawn variant_id) (lf_type_ref variant)))
          | [] \<Rightarrow> Enumeration (MkEnumeration (lt_id ty) 0 Unit)))"

section \<open>Validation\<close>

text \<open>What an error says is not modelled, only what it refuses.\<close>

datatype validation_error =
    NotAStructure | OtherStructure | FieldsDiffer | NotAnEnumeration | OtherEnumeration | NoSuchVariant
  | NotAMap | NotAnOption | OtherLength nat nat | NotAnArray | OtherScalar | OtherArray

text \<open>\<open>array_len\<close>, of any array.\<close>

fun array_length :: "Value \<Rightarrow> nat option" where
  "array_length (ArrayBoolean v) = Some (length v)"
| "array_length (ArrayU8 v) = Some (length v)"
| "array_length (ArrayU16 v) = Some (length v)"
| "array_length (ArrayU32 v) = Some (length v)"
| "array_length (ArrayU64 v) = Some (length v)"
| "array_length (ArrayI8 v) = Some (length v)"
| "array_length (ArrayI16 v) = Some (length v)"
| "array_length (ArrayI32 v) = Some (length v)"
| "array_length (ArrayI64 v) = Some (length v)"
| "array_length (ArrayF32 v) = Some (length v)"
| "array_length (ArrayF64 v) = Some (length v)"
| "array_length (ArrayString v) = Some (length v)"
| "array_length (ArrayValue v) = Some (length v)"
| "array_length (ArrayStructure _ elements) = Some (length elements)"
| "array_length (ArrayEnumeration _ elements) = Some (length elements)"
| "array_length _ = None"

definition validate_scalar :: "Value \<Rightarrow> uuid \<Rightarrow> validation_error + unit" where
  "validate_scalar v i =
    (let valid =
      (if i = UNIT_ID then (case v of Unit \<Rightarrow> True | _ \<Rightarrow> False)
       else if i = BOOLEAN_ID then (case v of Boolean _ \<Rightarrow> True | _ \<Rightarrow> False)
       else if i = I8_ID then (case v of I8 _ \<Rightarrow> True | _ \<Rightarrow> False)
       else if i = I16_ID then (case v of I16 _ \<Rightarrow> True | _ \<Rightarrow> False)
       else if i = I32_ID then (case v of I32 _ \<Rightarrow> True | _ \<Rightarrow> False)
       else if i = I64_ID then (case v of I64 _ \<Rightarrow> True | _ \<Rightarrow> False)
       else if i = U8_ID then (case v of U8 _ \<Rightarrow> True | _ \<Rightarrow> False)
       else if i = U16_ID then (case v of U16 _ \<Rightarrow> True | _ \<Rightarrow> False)
       else if i = U32_ID then (case v of U32 _ \<Rightarrow> True | _ \<Rightarrow> False)
       else if i = U64_ID then (case v of U64 _ \<Rightarrow> True | _ \<Rightarrow> False)
       else if i = F32_ID then (case v of F32 _ \<Rightarrow> True | _ \<Rightarrow> False)
       else if i = F64_ID then (case v of F64 _ \<Rightarrow> True | _ \<Rightarrow> False)
       else if i = STRING_ID then (case v of VString _ \<Rightarrow> True | _ \<Rightarrow> False)
       else if i = OPTION_ID then (case v of VOption _ \<Rightarrow> True | _ \<Rightarrow> False)
       else if i = ARRAY_BOOLEAN_ID then (case v of ArrayBoolean _ \<Rightarrow> True | _ \<Rightarrow> False)
       else if i = ARRAY_U8_ID then (case v of ArrayU8 _ \<Rightarrow> True | _ \<Rightarrow> False)
       else if i = ARRAY_U16_ID then (case v of ArrayU16 _ \<Rightarrow> True | _ \<Rightarrow> False)
       else if i = ARRAY_U32_ID then (case v of ArrayU32 _ \<Rightarrow> True | _ \<Rightarrow> False)
       else if i = ARRAY_U64_ID then (case v of ArrayU64 _ \<Rightarrow> True | _ \<Rightarrow> False)
       else if i = ARRAY_I8_ID then (case v of ArrayI8 _ \<Rightarrow> True | _ \<Rightarrow> False)
       else if i = ARRAY_I16_ID then (case v of ArrayI16 _ \<Rightarrow> True | _ \<Rightarrow> False)
       else if i = ARRAY_I32_ID then (case v of ArrayI32 _ \<Rightarrow> True | _ \<Rightarrow> False)
       else if i = ARRAY_I64_ID then (case v of ArrayI64 _ \<Rightarrow> True | _ \<Rightarrow> False)
       else if i = ARRAY_F32_ID then (case v of ArrayF32 _ \<Rightarrow> True | _ \<Rightarrow> False)
       else if i = ARRAY_F64_ID then (case v of ArrayF64 _ \<Rightarrow> True | _ \<Rightarrow> False)
       else if i = ARRAY_STRING_ID then (case v of ArrayString _ \<Rightarrow> True | _ \<Rightarrow> False)
       else if i = ARRAY_VALUE_ID then (case v of ArrayValue _ \<Rightarrow> True | _ \<Rightarrow> False)
       else if i = KEY_VALUE_ID then (case v of KeyValue _ \<Rightarrow> True | _ \<Rightarrow> False)
       else if i = UUID_ID then (case v of VUuid _ \<Rightarrow> True | _ \<Rightarrow> False)
       else (case v of Structure s \<Rightarrow> st_id s = i | Enumeration e \<Rightarrow> en_id e = i | _ \<Rightarrow> False))
     in if valid then Inr () else Inl OtherScalar)"

definition validate_array :: "Value \<Rightarrow> uuid \<Rightarrow> validation_error + unit" where
  "validate_array v i =
    (let valid =
      (if i = BOOLEAN_ID then (case v of ArrayBoolean _ \<Rightarrow> True | _ \<Rightarrow> False)
       else if i = U8_ID then (case v of ArrayU8 _ \<Rightarrow> True | _ \<Rightarrow> False)
       else if i = U16_ID then (case v of ArrayU16 _ \<Rightarrow> True | _ \<Rightarrow> False)
       else if i = U32_ID then (case v of ArrayU32 _ \<Rightarrow> True | _ \<Rightarrow> False)
       else if i = U64_ID then (case v of ArrayU64 _ \<Rightarrow> True | _ \<Rightarrow> False)
       else if i = I8_ID then (case v of ArrayI8 _ \<Rightarrow> True | _ \<Rightarrow> False)
       else if i = I16_ID then (case v of ArrayI16 _ \<Rightarrow> True | _ \<Rightarrow> False)
       else if i = I32_ID then (case v of ArrayI32 _ \<Rightarrow> True | _ \<Rightarrow> False)
       else if i = I64_ID then (case v of ArrayI64 _ \<Rightarrow> True | _ \<Rightarrow> False)
       else if i = F32_ID then (case v of ArrayF32 _ \<Rightarrow> True | _ \<Rightarrow> False)
       else if i = F64_ID then (case v of ArrayF64 _ \<Rightarrow> True | _ \<Rightarrow> False)
       else if i = STRING_ID then (case v of ArrayString _ \<Rightarrow> True | _ \<Rightarrow> False)
       else (case v of ArrayStructure j _ \<Rightarrow> j = i | ArrayEnumeration j _ \<Rightarrow> j = i | _ \<Rightarrow> False))
     in if valid then Inr () else Inl OtherArray)"

definition validate_fixed_array :: "Value \<Rightarrow> uuid \<Rightarrow> nat \<Rightarrow> validation_error + unit" where
  "validate_fixed_array v i len =
     (case validate_array v i of Inl e \<Rightarrow> Inl e | Inr _ \<Rightarrow>
       (case array_length v of
          Some actual \<Rightarrow> if actual = len then Inr () else Inl (OtherLength len actual)
        | None \<Rightarrow> Inl NotAnArray))"

fun validate_type_ref :: "Value \<Rightarrow> TypeRef \<Rightarrow> validation_error + unit" where
  "validate_type_ref v (Scalar i) = validate_scalar v i"
| "validate_type_ref v (Array i) = validate_array v i"
| "validate_type_ref v (FixedArray i len) = validate_fixed_array v i len"
| "validate_type_ref v (TMap _ _) = (case v of KeyValue _ \<Rightarrow> Inr () | _ \<Rightarrow> Inl NotAMap)"
| "validate_type_ref v (TOptionOf i) =
     (case v of VOption None \<Rightarrow> Inr () | VOption (Some inner) \<Rightarrow> validate_scalar inner i | _ \<Rightarrow> Inl NotAnOption)"

text \<open>The fields of a value, each against its own type; an absent one is the panic of \<open>expect\<close>.\<close>

fun validate_fields ::
  "(uuid, LowField) index_map \<Rightarrow> Value StructureField list \<Rightarrow> (validation_error + unit) option" where
  "validate_fields entries [] = Some (Inr ())"
| "validate_fields entries (f # fs) =
     (case map_of entries (sf_id f) of
        None \<Rightarrow> None
      | Some expected \<Rightarrow>
          (case validate_type_ref (sf_value f) (lf_type_ref expected) of
             Inl e \<Rightarrow> Some (Inl e)
           | Inr _ \<Rightarrow> validate_fields entries fs))"

definition validate :: "Value \<Rightarrow> LowType \<Rightarrow> (validation_error + unit) option" where
  "validate v ty =
     (case lt_kind ty of
        KPrimitive ref \<Rightarrow> Some (validate_type_ref v ref)
      | KStructure structure \<Rightarrow>
         (case v of
            Structure actual \<Rightarrow>
              if st_id actual \<noteq> lt_id ty then Some (Inl OtherStructure)
              else let expected_ids = hs_collect (map fst (ls_fields structure));
                       actual_ids = hs_collect (map sf_id (st_fields actual))
                   in if set expected_ids \<noteq> set actual_ids \<or> length (st_fields actual) \<noteq> length expected_ids
                      then Some (Inl FieldsDiffer)
                      else validate_fields (ls_fields structure) (st_fields actual)
          | _ \<Rightarrow> Some (Inl NotAStructure))
      | KEnumeration enumeration \<Rightarrow>
         (case v of
            Enumeration actual \<Rightarrow>
              if en_id actual \<noteq> lt_id ty then Some (Inl OtherEnumeration)
              else (case map_of (le_values enumeration) (en_variant_id actual) of
                      None \<Rightarrow> Some (Inl NoSuchVariant)
                    | Some expected \<Rightarrow> Some (validate_type_ref (en_value actual) (lf_type_ref expected)))
          | _ \<Rightarrow> Some (Inl NotAnEnumeration)))"

section \<open>Defaults validate\<close>

text \<open>
  The types whose default is of the type: a fixed array holds primitives, or nothing, and an enumeration
  has a variant.
\<close>

definition ELEMENT_IDS :: "uuid list" where
  "ELEMENT_IDS = [BOOLEAN_ID, U8_ID, U16_ID, U32_ID, U64_ID, I8_ID, I16_ID, I32_ID, I64_ID, F32_ID, F64_ID, STRING_ID]"

fun ref_defaults :: "TypeRef \<Rightarrow> bool" where
  "ref_defaults (FixedArray i len) \<longleftrightarrow> len = 0 \<or> i \<in> set ELEMENT_IDS"
| "ref_defaults _ \<longleftrightarrow> True"

fun kind_defaults :: "TypeKind \<Rightarrow> bool" where
  "kind_defaults (KPrimitive ref) \<longleftrightarrow> ref_defaults ref"
| "kind_defaults (KStructure st) \<longleftrightarrow> list_all (\<lambda>(_, field). ref_defaults (lf_type_ref field)) (ls_fields st)"
| "kind_defaults (KEnumeration en) \<longleftrightarrow>
     (case le_values en of [] \<Rightarrow> False | (_, variant) # _ \<Rightarrow> ref_defaults (lf_type_ref variant))"

lemma default_scalar_valid: "validate_scalar (default_scalar drawn i) i = Inr ()"
  unfolding default_scalar_def by (auto simp: validate_scalar_def split: if_split)

lemma default_array_valid: "validate_array (default_array i) i = Inr ()"
  unfolding default_array_def by (auto simp: validate_array_def split: if_split)

lemma default_fixed_array_valid:
  "validate_fixed_array (default_fixed_array i len) i len = Inr () \<longleftrightarrow> len = 0 \<or> i \<in> set ELEMENT_IDS"
  unfolding default_fixed_array_def
  by (auto simp: validate_fixed_array_def validate_array_def ELEMENT_IDS_def split: if_split)

lemma default_ref_valid: "validate_type_ref (default_for_type_ref drawn ref) ref = Inr () \<longleftrightarrow> ref_defaults ref"
  by (cases ref) (simp_all add: default_scalar_valid default_array_valid default_fixed_array_valid)

lemma default_fields_valid:
  assumes "\<forall>(i, field)\<in>set xs. map_of entries i = Some field"
  shows "validate_fields entries (map (\<lambda>(i, field). StructureField i (default_for_type_ref (drawn i) (lf_type_ref field))) xs) =
       Some (Inr ()) \<longleftrightarrow> list_all (\<lambda>(_, field). ref_defaults (lf_type_ref field)) xs"
  using assms
proof (induction xs)
  case (Cons x xs)
  obtain i field where x: "x = (i, field)" by (cases x)
  then show ?case
    using Cons default_ref_valid [of "drawn i" "lf_type_ref field"] by (auto split: sum.splits)
qed simp



end
