(* ===== verification/Value_Walk.thy ===== *)
theory Value_Walk
  imports Low_Types Steps
begin

text \<open>
  The walk of a value along its runtime type (\<open>crates/arora-types/src/value_serde/walk.rs\<close>), over any
  wire format. A format is a writer and a reader, the traits \<open>ValueWriter\<close> and \<open>ValueReader\<close>: records of
  methods over the state behind them. The traits have a method of each kind per primitive, which the
  sources generate by macros: here one function of the primitive.

  The walk recurses along the registry's types, which may go round: its models take a bound on the
  depth, and \<open>None\<close> is a recursion past it. The last section shows how deep is deep enough.
\<close>

section \<open>Wire formats\<close>

datatype Prim = PBool | PU8 | PU16 | PU32 | PU64 | PI8 | PI16 | PI32 | PI64 | PF32 | PF64 | PString

text \<open>What an error says is not modelled, only what it refuses; a format has its own.\<close>

datatype WalkError =
    NotSupported | NotOfStructure | OtherStructureId uuid uuid | OtherFieldCount nat nat | OtherFieldId uuid uuid
  | NotRegistered uuid | ElementNotStructure uuid | NotStructureArray | OtherElementId uuid uuid
  | OtherArrayLength nat nat | NoSuchElement uuid | NotOfPrimitive Prim | NotPrimitive uuid | ExpectedUnit
  | Underrun nat nat | EmptyString | InvalidUtf8 | TooManyElements nat | OtherTag byte "byte option" | InvalidUuid
  | ShortPayload | OtherEncapsulation byte byte

type_synonym ('s, 'a) wire = "(WalkError, 's, 'a) step"

text \<open>A scalar's value stands for the method of its type and its argument, and an array's so.\<close>

record 'w ValueWriter =
  vw_unit :: "('w, unit) wire"
  vw_scalar :: "Value \<Rightarrow> ('w, unit) wire"
  vw_array :: "Value \<Rightarrow> ('w, unit) wire"
  vw_fixed_array :: "Value \<Rightarrow> ('w, unit) wire"
  vw_begin_struct :: "uuid \<Rightarrow> nat \<Rightarrow> ('w, unit) wire"
  vw_begin_field :: "uuid \<Rightarrow> ('w, unit) wire"
  vw_begin_struct_array :: "uuid \<Rightarrow> nat \<Rightarrow> ('w, unit) wire"
  vw_begin_struct_element :: "nat \<Rightarrow> ('w, unit) wire"
  vw_begin_fixed_struct_array :: "uuid \<Rightarrow> nat \<Rightarrow> ('w, unit) wire"
  vw_begin_option :: "bool \<Rightarrow> ('w, unit) wire"

record 'r ValueReader =
  vr_unit :: "('r, unit) wire"
  vr_scalar :: "Prim \<Rightarrow> ('r, Value) wire"
  vr_array :: "Prim \<Rightarrow> ('r, Value) wire"
  vr_fixed_array :: "Prim \<Rightarrow> nat \<Rightarrow> ('r, Value) wire"
  vr_enter_struct :: "uuid \<Rightarrow> nat \<Rightarrow> ('r, unit) wire"
  vr_enter_field :: "uuid \<Rightarrow> ('r, unit) wire"
  vr_enter_struct_array :: "uuid \<Rightarrow> ('r, nat) wire"
  vr_enter_struct_element :: "nat \<Rightarrow> ('r, unit) wire"
  vr_enter_fixed_struct_array :: "uuid \<Rightarrow> nat \<Rightarrow> ('r, unit) wire"
  vr_enter_option :: "('r, bool) wire"

text \<open>The methods a format may leave to their defaults.\<close>

definition default_fixed_struct_array :: "(uuid \<Rightarrow> ('r, nat) wire) \<Rightarrow> uuid \<Rightarrow> nat \<Rightarrow> ('r, unit) wire" where
  "default_fixed_struct_array enter_struct_array element_id len =
     act_bind (enter_struct_array element_id) (\<lambda>n.
       if n \<noteq> len then act_fail (OtherArrayLength len n) else act_return ())"

section \<open>Primitives\<close>

definition scalar_prim :: "uuid \<Rightarrow> Prim option" where
  "scalar_prim i =
    (if i = BOOLEAN_ID then Some PBool
     else if i = U8_ID then Some PU8
     else if i = U16_ID then Some PU16
     else if i = U32_ID then Some PU32
     else if i = U64_ID then Some PU64
     else if i = I8_ID then Some PI8
     else if i = I16_ID then Some PI16
     else if i = I32_ID then Some PI32
     else if i = I64_ID then Some PI64
     else if i = F32_ID then Some PF32
     else if i = F64_ID then Some PF64
     else if i = STRING_ID then Some PString
     else None)"

text \<open>What the accessors \<open>as_bool\<close> to \<open>as_str\<close> accept, and the arrays of each primitive.\<close>

definition is_scalar :: "Prim \<Rightarrow> Value \<Rightarrow> bool" where
  "is_scalar p v =
     (case p of
        PBool \<Rightarrow> (case v of Boolean _ \<Rightarrow> True | _ \<Rightarrow> False)
      | PU8 \<Rightarrow> (case v of U8 _ \<Rightarrow> True | _ \<Rightarrow> False)
      | PU16 \<Rightarrow> (case v of U16 _ \<Rightarrow> True | _ \<Rightarrow> False)
      | PU32 \<Rightarrow> (case v of U32 _ \<Rightarrow> True | _ \<Rightarrow> False)
      | PU64 \<Rightarrow> (case v of U64 _ \<Rightarrow> True | _ \<Rightarrow> False)
      | PI8 \<Rightarrow> (case v of I8 _ \<Rightarrow> True | _ \<Rightarrow> False)
      | PI16 \<Rightarrow> (case v of I16 _ \<Rightarrow> True | _ \<Rightarrow> False)
      | PI32 \<Rightarrow> (case v of I32 _ \<Rightarrow> True | _ \<Rightarrow> False)
      | PI64 \<Rightarrow> (case v of I64 _ \<Rightarrow> True | _ \<Rightarrow> False)
      | PF32 \<Rightarrow> (case v of F32 _ \<Rightarrow> True | _ \<Rightarrow> False)
      | PF64 \<Rightarrow> (case v of F64 _ \<Rightarrow> True | _ \<Rightarrow> False)
      | PString \<Rightarrow> (case v of VString _ \<Rightarrow> True | _ \<Rightarrow> False))"

definition is_array :: "Prim \<Rightarrow> Value \<Rightarrow> bool" where
  "is_array p v =
     (case p of
        PBool \<Rightarrow> (case v of ArrayBoolean _ \<Rightarrow> True | _ \<Rightarrow> False)
      | PU8 \<Rightarrow> (case v of ArrayU8 _ \<Rightarrow> True | _ \<Rightarrow> False)
      | PU16 \<Rightarrow> (case v of ArrayU16 _ \<Rightarrow> True | _ \<Rightarrow> False)
      | PU32 \<Rightarrow> (case v of ArrayU32 _ \<Rightarrow> True | _ \<Rightarrow> False)
      | PU64 \<Rightarrow> (case v of ArrayU64 _ \<Rightarrow> True | _ \<Rightarrow> False)
      | PI8 \<Rightarrow> (case v of ArrayI8 _ \<Rightarrow> True | _ \<Rightarrow> False)
      | PI16 \<Rightarrow> (case v of ArrayI16 _ \<Rightarrow> True | _ \<Rightarrow> False)
      | PI32 \<Rightarrow> (case v of ArrayI32 _ \<Rightarrow> True | _ \<Rightarrow> False)
      | PI64 \<Rightarrow> (case v of ArrayI64 _ \<Rightarrow> True | _ \<Rightarrow> False)
      | PF32 \<Rightarrow> (case v of ArrayF32 _ \<Rightarrow> True | _ \<Rightarrow> False)
      | PF64 \<Rightarrow> (case v of ArrayF64 _ \<Rightarrow> True | _ \<Rightarrow> False)
      | PString \<Rightarrow> (case v of ArrayString _ \<Rightarrow> True | _ \<Rightarrow> False))"

section \<open>Writing\<close>

definition write_scalar :: "'w ValueWriter \<Rightarrow> uuid \<Rightarrow> Value \<Rightarrow> ('w, unit) wire" where
  "write_scalar W i v =
    (if i = UNIT_ID then (if v = Unit then vw_unit W else act_fail ExpectedUnit)
     else case scalar_prim i of
        None \<Rightarrow> act_fail (NotPrimitive i)
      | Some p \<Rightarrow> if is_scalar p v then vw_scalar W v else act_fail (NotOfPrimitive p))"

definition write_scalar_array :: "'w ValueWriter \<Rightarrow> uuid \<Rightarrow> Value \<Rightarrow> ('w, unit) wire" where
  "write_scalar_array W i v =
    (case scalar_prim i of
        None \<Rightarrow> act_fail (NoSuchElement i)
      | Some p \<Rightarrow> if is_array p v then vw_array W v else act_fail (NotOfPrimitive p))"

definition write_fixed_scalar_array :: "'w ValueWriter \<Rightarrow> uuid \<Rightarrow> nat \<Rightarrow> Value \<Rightarrow> ('w, unit) wire" where
  "write_fixed_scalar_array W i len v =
    (case scalar_prim i of
        None \<Rightarrow> act_fail (NoSuchElement i)
      | Some p \<Rightarrow>
          if \<not> is_array p v then act_fail (NotOfPrimitive p)
          else if array_length v \<noteq> Some len then act_fail (OtherArrayLength len (the (array_length v)))
          else vw_fixed_array W v)"

definition check_field_count :: "LowStructure \<Rightarrow> Value StructureField list \<Rightarrow> WalkError + unit" where
  "check_field_count structure entries =
     (if length entries \<noteq> length (ls_fields structure)
      then Inl (OtherFieldCount (length entries) (length (ls_fields structure))) else Inr ())"

text \<open>What follows takes the walk of a nested type as its argument.\<close>

definition write_fields ::
  "'w ValueWriter \<Rightarrow> (TypeRef \<Rightarrow> Value \<Rightarrow> ('w, unit) wire) \<Rightarrow> LowStructure \<Rightarrow> Value StructureField list \<Rightarrow> ('w, unit) wire" where
  "write_fields W by_ref structure entries =
     act_each (\<lambda>((field_id, field), actual_field).
         if sf_id actual_field \<noteq> field_id then act_fail (OtherFieldId (sf_id actual_field) field_id)
         else act_bind (vw_begin_field W field_id) (\<lambda>_. by_ref (lf_type_ref field) (sf_value actual_field)))
       (zip (ls_fields structure) entries)"

definition write_structure_fields ::
  "'w ValueWriter \<Rightarrow> (TypeRef \<Rightarrow> Value \<Rightarrow> ('w, unit) wire) \<Rightarrow> uuid \<Rightarrow> LowStructure \<Rightarrow> Value StructureField list \<Rightarrow> ('w, unit) wire" where
  "write_structure_fields W by_ref i structure entries =
     act_bind (act_lift (check_field_count structure entries)) (\<lambda>_.
     act_bind (vw_begin_struct W i (length (ls_fields structure))) (\<lambda>_.
       write_fields W by_ref structure entries))"

definition write_structure ::
  "'w ValueWriter \<Rightarrow> (TypeRef \<Rightarrow> Value \<Rightarrow> ('w, unit) wire) \<Rightarrow> uuid \<Rightarrow> LowStructure \<Rightarrow> Value \<Rightarrow> ('w, unit) wire" where
  "write_structure W by_ref i structure v =
     (case v of
        Structure actual \<Rightarrow>
          if st_id actual \<noteq> i then act_fail (OtherStructureId (st_id actual) i)
          else write_structure_fields W by_ref i structure (st_fields actual)
      | _ \<Rightarrow> act_fail NotOfStructure)"

definition write_value ::
  "'w ValueWriter \<Rightarrow> (TypeRef \<Rightarrow> Value \<Rightarrow> ('w, unit) wire) \<Rightarrow> LowType \<Rightarrow> Value \<Rightarrow> ('w, unit) wire" where
  "write_value W by_ref ty v =
     (case lt_kind ty of
        KPrimitive ref \<Rightarrow> by_ref ref v
      | KStructure structure \<Rightarrow> write_structure W by_ref (lt_id ty) structure v
      | KEnumeration _ \<Rightarrow> act_fail NotSupported)"

definition write_elements ::
  "'w ValueWriter \<Rightarrow> (TypeRef \<Rightarrow> Value \<Rightarrow> ('w, unit) wire) \<Rightarrow> LowStructure \<Rightarrow> Value StructureWithoutId list \<Rightarrow> ('w, unit) wire" where
  "write_elements W by_ref structure =
     act_each (\<lambda>element.
       act_bind (act_lift (check_field_count structure (sw_fields element))) (\<lambda>_.
       act_bind (vw_begin_struct_element W (length (ls_fields structure))) (\<lambda>_.
         write_fields W by_ref structure (sw_fields element))))"

definition write_array ::
  "'w ValueWriter \<Rightarrow> (TypeRef \<Rightarrow> Value \<Rightarrow> ('w, unit) wire) \<Rightarrow> uuid \<Rightarrow> TypeRegistry \<Rightarrow> Value \<Rightarrow> ('w, unit) wire" where
  "write_array W by_ref element_id registry v =
     (case hm_get registry element_id of
        None \<Rightarrow> write_scalar_array W element_id v
      | Some ty \<Rightarrow>
         (case lt_kind ty of
            KStructure structure \<Rightarrow>
             (case v of
                ArrayStructure i elements \<Rightarrow>
                  if i \<noteq> element_id then act_fail (OtherElementId i element_id)
                  else act_bind (vw_begin_struct_array W element_id (length elements)) (\<lambda>_.
                         write_elements W by_ref structure elements)
              | _ \<Rightarrow> act_fail NotStructureArray)
          | _ \<Rightarrow> act_fail (ElementNotStructure element_id)))"

definition write_fixed_array ::
  "'w ValueWriter \<Rightarrow> (TypeRef \<Rightarrow> Value \<Rightarrow> ('w, unit) wire) \<Rightarrow> uuid \<Rightarrow> nat \<Rightarrow> TypeRegistry \<Rightarrow> Value \<Rightarrow> ('w, unit) wire" where
  "write_fixed_array W by_ref element_id len registry v =
     (case hm_get registry element_id of
        None \<Rightarrow> write_fixed_scalar_array W element_id len v
      | Some ty \<Rightarrow>
         (case lt_kind ty of
            KStructure structure \<Rightarrow>
             (case v of
                ArrayStructure i elements \<Rightarrow>
                  if i \<noteq> element_id then act_fail (OtherElementId i element_id)
                  else if length elements \<noteq> len then act_fail (OtherArrayLength len (length elements))
                  else act_bind (vw_begin_fixed_struct_array W element_id len) (\<lambda>_.
                         write_elements W by_ref structure elements)
              | _ \<Rightarrow> act_fail NotStructureArray)
          | _ \<Rightarrow> act_fail (ElementNotStructure element_id)))"

text \<open>\<open>UUID_ID\<close> is refused, a primitive is written, and any other type is looked up and walked.\<close>

definition write_named ::
  "'w ValueWriter \<Rightarrow> (TypeRef \<Rightarrow> Value \<Rightarrow> ('w, unit) wire) \<Rightarrow> uuid \<Rightarrow> TypeRegistry \<Rightarrow> Value \<Rightarrow> ('w, unit) wire" where
  "write_named W by_ref i registry v =
     (if i = UUID_ID then act_fail NotSupported
      else if i \<in> set PRIMITIVE_IDS then write_scalar W i v
      else case hm_get registry i of
          None \<Rightarrow> act_fail (NotRegistered i)
        | Some nested \<Rightarrow> write_value W by_ref nested v)"

primrec write_by_ref ::
  "nat \<Rightarrow> 'w ValueWriter \<Rightarrow> TypeRegistry \<Rightarrow> TypeRef \<Rightarrow> Value \<Rightarrow> ('w, unit) wire" where
  "write_by_ref 0 W registry ref v = (\<lambda>_. None)"
| "write_by_ref (Suc n) W registry ref v =
     (case ref of
        Scalar i \<Rightarrow> write_named W (write_by_ref n W registry) i registry v
      | Array i \<Rightarrow> write_array W (write_by_ref n W registry) i registry v
      | FixedArray i len \<Rightarrow> write_fixed_array W (write_by_ref n W registry) i len registry v
      | TMap _ _ \<Rightarrow> act_fail NotSupported
      | TOptionOf i \<Rightarrow>
         (case v of
            VOption None \<Rightarrow> vw_begin_option W False
          | VOption (Some inner) \<Rightarrow>
              act_bind (vw_begin_option W True) (\<lambda>_. write_by_ref n W registry (Scalar i) inner)
          | bare \<Rightarrow> act_bind (vw_begin_option W True) (\<lambda>_. write_by_ref n W registry (Scalar i) bare)))"

section \<open>Reading\<close>

definition read_scalar :: "'r ValueReader \<Rightarrow> uuid \<Rightarrow> ('r, Value) wire" where
  "read_scalar R i =
    (if i = UNIT_ID then act_bind (vr_unit R) (\<lambda>_. act_return Unit)
     else case scalar_prim i of
        None \<Rightarrow> act_fail (NotPrimitive i)
      | Some p \<Rightarrow> vr_scalar R p)"

definition read_scalar_array :: "'r ValueReader \<Rightarrow> uuid \<Rightarrow> ('r, Value) wire" where
  "read_scalar_array R i = (case scalar_prim i of None \<Rightarrow> act_fail (NoSuchElement i) | Some p \<Rightarrow> vr_array R p)"

definition read_fixed_scalar_array :: "'r ValueReader \<Rightarrow> uuid \<Rightarrow> nat \<Rightarrow> ('r, Value) wire" where
  "read_fixed_scalar_array R i len =
     (case scalar_prim i of None \<Rightarrow> act_fail (NoSuchElement i) | Some p \<Rightarrow> vr_fixed_array R p len)"

definition read_fields ::
  "'r ValueReader \<Rightarrow> (TypeRef \<Rightarrow> ('r, Value) wire) \<Rightarrow> LowStructure \<Rightarrow> ('r, Value StructureField list) wire" where
  "read_fields R by_ref structure =
     act_map (\<lambda>(field_id, field).
       act_bind (vr_enter_field R field_id) (\<lambda>_.
       act_bind (by_ref (lf_type_ref field)) (\<lambda>v. act_return (StructureField field_id v)))) (ls_fields structure)"

definition read_structure_fields ::
  "'r ValueReader \<Rightarrow> (TypeRef \<Rightarrow> ('r, Value) wire) \<Rightarrow> uuid \<Rightarrow> LowStructure \<Rightarrow> ('r, Value StructureField list) wire" where
  "read_structure_fields R by_ref i structure =
     act_bind (vr_enter_struct R i (length (ls_fields structure))) (\<lambda>_. read_fields R by_ref structure)"

definition read_structure ::
  "'r ValueReader \<Rightarrow> (TypeRef \<Rightarrow> ('r, Value) wire) \<Rightarrow> uuid \<Rightarrow> LowStructure \<Rightarrow> ('r, Value) wire" where
  "read_structure R by_ref i structure =
     act_bind (read_structure_fields R by_ref i structure) (\<lambda>entries. act_return (Structure (MkStructure i entries)))"

definition read_value ::
  "'r ValueReader \<Rightarrow> (TypeRef \<Rightarrow> ('r, Value) wire) \<Rightarrow> LowType \<Rightarrow> ('r, Value) wire" where
  "read_value R by_ref ty =
     (case lt_kind ty of
        KPrimitive ref \<Rightarrow> by_ref ref
      | KStructure structure \<Rightarrow> read_structure R by_ref (lt_id ty) structure
      | KEnumeration _ \<Rightarrow> act_fail NotSupported)"

definition read_elements ::
  "'r ValueReader \<Rightarrow> (TypeRef \<Rightarrow> ('r, Value) wire) \<Rightarrow> uuid \<Rightarrow> LowStructure \<Rightarrow> nat \<Rightarrow> ('r, Value) wire" where
  "read_elements R by_ref element_id structure len =
     act_bind (act_times len
       (act_bind (vr_enter_struct_element R (length (ls_fields structure))) (\<lambda>_.
        act_bind (read_fields R by_ref structure) (\<lambda>entries. act_return (StructureWithoutId entries)))))
       (\<lambda>elements. act_return (ArrayStructure element_id elements))"

definition read_array ::
  "'r ValueReader \<Rightarrow> (TypeRef \<Rightarrow> ('r, Value) wire) \<Rightarrow> uuid \<Rightarrow> TypeRegistry \<Rightarrow> ('r, Value) wire" where
  "read_array R by_ref element_id registry =
     (case hm_get registry element_id of
        None \<Rightarrow> read_scalar_array R element_id
      | Some ty \<Rightarrow>
         (case lt_kind ty of
            KStructure structure \<Rightarrow>
              act_bind (vr_enter_struct_array R element_id) (read_elements R by_ref element_id structure)
          | _ \<Rightarrow> act_fail (ElementNotStructure element_id)))"

definition read_fixed_array ::
  "'r ValueReader \<Rightarrow> (TypeRef \<Rightarrow> ('r, Value) wire) \<Rightarrow> uuid \<Rightarrow> nat \<Rightarrow> TypeRegistry \<Rightarrow> ('r, Value) wire" where
  "read_fixed_array R by_ref element_id len registry =
     (case hm_get registry element_id of
        None \<Rightarrow> read_fixed_scalar_array R element_id len
      | Some ty \<Rightarrow>
         (case lt_kind ty of
            KStructure structure \<Rightarrow>
              act_bind (vr_enter_fixed_struct_array R element_id len) (\<lambda>_. read_elements R by_ref element_id structure len)
          | _ \<Rightarrow> act_fail (ElementNotStructure element_id)))"

definition read_named ::
  "'r ValueReader \<Rightarrow> (TypeRef \<Rightarrow> ('r, Value) wire) \<Rightarrow> uuid \<Rightarrow> TypeRegistry \<Rightarrow> ('r, Value) wire" where
  "read_named R by_ref i registry =
     (if i = UUID_ID then act_fail NotSupported
      else if i \<in> set PRIMITIVE_IDS then read_scalar R i
      else case hm_get registry i of
          None \<Rightarrow> act_fail (NotRegistered i)
        | Some nested \<Rightarrow> read_value R by_ref nested)"

primrec read_by_ref :: "nat \<Rightarrow> 'r ValueReader \<Rightarrow> TypeRegistry \<Rightarrow> TypeRef \<Rightarrow> ('r, Value) wire" where
  "read_by_ref 0 R registry ref = (\<lambda>_. None)"
| "read_by_ref (Suc n) R registry ref =
     (case ref of
        Scalar i \<Rightarrow> read_named R (read_by_ref n R registry) i registry
      | Array i \<Rightarrow> read_array R (read_by_ref n R registry) i registry
      | FixedArray i len \<Rightarrow> read_fixed_array R (read_by_ref n R registry) i len registry
      | TMap _ _ \<Rightarrow> act_fail NotSupported
      | TOptionOf i \<Rightarrow>
          act_bind (vr_enter_option R) (\<lambda>present.
            if present
            then act_bind (read_by_ref n R registry (Scalar i)) (\<lambda>v. act_return (VOption (Some v)))
            else act_return (VOption None)))"

end
