(* ===== verification/Wire_Format.thy ===== *)
theory Wire_Format
  imports Value_Walk
begin

text \<open>
  What the walk of a value promises over any wire format that keeps its methods' promises: a value
  that was written reads back, and over a registry without cycles the walk comes to an end.
\<close>

section \<open>What comes back\<close>

text \<open>
  The value a written value reads back as: where the type declares an option, a bare value comes back
  as a present one. It goes along the types as the walk does.
\<close>

definition framed_fields ::
  "(TypeRef \<Rightarrow> Value \<Rightarrow> Value) \<Rightarrow> LowStructure \<Rightarrow> Value StructureField list \<Rightarrow> Value StructureField list" where
  "framed_fields by_ref structure entries =
     map (\<lambda>((i, field), f). StructureField i (by_ref (lf_type_ref field) (sf_value f))) (zip (ls_fields structure) entries)"

definition framed_value :: "(TypeRef \<Rightarrow> Value \<Rightarrow> Value) \<Rightarrow> LowType \<Rightarrow> Value \<Rightarrow> Value" where
  "framed_value by_ref ty v =
     (case lt_kind ty of
        KPrimitive ref \<Rightarrow> by_ref ref v
      | KStructure structure \<Rightarrow>
         (case v of Structure s \<Rightarrow> Structure (MkStructure (st_id s) (framed_fields by_ref structure (st_fields s))) | _ \<Rightarrow> v)
      | KEnumeration _ \<Rightarrow> v)"

definition framed_array :: "(TypeRef \<Rightarrow> Value \<Rightarrow> Value) \<Rightarrow> uuid \<Rightarrow> TypeRegistry \<Rightarrow> Value \<Rightarrow> Value" where
  "framed_array by_ref i registry v =
     (case hm_get registry i of
        None \<Rightarrow> v
      | Some ty \<Rightarrow>
         (case lt_kind ty of
            KStructure structure \<Rightarrow>
             (case v of
                ArrayStructure j es \<Rightarrow>
                  ArrayStructure j (map (\<lambda>e. StructureWithoutId (framed_fields by_ref structure (sw_fields e))) es)
              | _ \<Rightarrow> v)
          | _ \<Rightarrow> v))"

definition framed_named :: "(TypeRef \<Rightarrow> Value \<Rightarrow> Value) \<Rightarrow> uuid \<Rightarrow> TypeRegistry \<Rightarrow> Value \<Rightarrow> Value" where
  "framed_named by_ref i registry v =
     (if i \<in> set PRIMITIVE_IDS then v
      else case hm_get registry i of None \<Rightarrow> v | Some ty \<Rightarrow> framed_value by_ref ty v)"

primrec framed :: "nat \<Rightarrow> TypeRegistry \<Rightarrow> TypeRef \<Rightarrow> Value \<Rightarrow> Value" where
  "framed 0 registry ref v = v"
| "framed (Suc n) registry ref v =
     (case ref of
        Scalar i \<Rightarrow> framed_named (framed n registry) i registry v
      | Array i \<Rightarrow> framed_array (framed n registry) i registry v
      | FixedArray i len \<Rightarrow> framed_array (framed n registry) i registry v
      | TMap _ _ \<Rightarrow> v
      | TOptionOf i \<Rightarrow>
         (case v of
            VOption None \<Rightarrow> VOption None
          | VOption (Some inner) \<Rightarrow> VOption (Some (framed n registry (Scalar i) inner))
          | bare \<Rightarrow> VOption (Some (framed n registry (Scalar i) bare))))"

text \<open>What a count of 32 bits can carry, and strings with their terminator.\<close>

definition storable_string :: "string \<Rightarrow> bool" where
  "storable_string s \<longleftrightarrow> utf8_string s \<and> length s + 1 < 2 ^ 32"

fun storable :: "Value \<Rightarrow> bool" where
  "storable (VString s) \<longleftrightarrow> storable_string s"
| "storable (ArrayString ss) \<longleftrightarrow> length ss < 2 ^ 32 \<and> list_all storable_string ss"
| "storable (Structure s) \<longleftrightarrow> length (st_fields s) < 2 ^ 32 \<and> list_all (\<lambda>f. storable (sf_value f)) (st_fields s)"
| "storable (ArrayStructure i es) \<longleftrightarrow>
     length es < 2 ^ 32 \<and>
     list_all (\<lambda>e. length (sw_fields e) < 2 ^ 32 \<and> list_all (\<lambda>f. storable (sf_value f)) (sw_fields e)) es"
| "storable (VOption None) \<longleftrightarrow> True"
| "storable (VOption (Some v)) \<longleftrightarrow> storable v"
| "storable v \<longleftrightarrow> (case array_length v of None \<Rightarrow> True | Some n \<Rightarrow> n < 2 ^ 32)"

text \<open>The elements of an array, each as the scalar it is: what the methods for arrays loop over.\<close>

definition array_items :: "Value \<Rightarrow> Value list" where
  "array_items v =
     (case v of
        ArrayBoolean xs \<Rightarrow> map Boolean xs
      | ArrayU8 xs \<Rightarrow> map U8 xs
      | ArrayU16 xs \<Rightarrow> map U16 xs
      | ArrayU32 xs \<Rightarrow> map U32 xs
      | ArrayU64 xs \<Rightarrow> map U64 xs
      | ArrayI8 xs \<Rightarrow> map I8 xs
      | ArrayI16 xs \<Rightarrow> map I16 xs
      | ArrayI32 xs \<Rightarrow> map I32 xs
      | ArrayI64 xs \<Rightarrow> map I64 xs
      | ArrayF32 xs \<Rightarrow> map F32 xs
      | ArrayF64 xs \<Rightarrow> map F64 xs
      | ArrayString xs \<Rightarrow> map VString xs
      | _ \<Rightarrow> [])"

definition gathered :: "Prim \<Rightarrow> Value list \<Rightarrow> Value" where
  "gathered p items =
     (case p of
        PBool \<Rightarrow> ArrayBoolean (map (\<lambda>v. case v of Boolean x \<Rightarrow> x | _ \<Rightarrow> False) items)
      | PU8 \<Rightarrow> ArrayU8 (map (\<lambda>v. case v of U8 x \<Rightarrow> x | _ \<Rightarrow> 0) items)
      | PU16 \<Rightarrow> ArrayU16 (map (\<lambda>v. case v of U16 x \<Rightarrow> x | _ \<Rightarrow> 0) items)
      | PU32 \<Rightarrow> ArrayU32 (map (\<lambda>v. case v of U32 x \<Rightarrow> x | _ \<Rightarrow> 0) items)
      | PU64 \<Rightarrow> ArrayU64 (map (\<lambda>v. case v of U64 x \<Rightarrow> x | _ \<Rightarrow> 0) items)
      | PI8 \<Rightarrow> ArrayI8 (map (\<lambda>v. case v of I8 x \<Rightarrow> x | _ \<Rightarrow> 0) items)
      | PI16 \<Rightarrow> ArrayI16 (map (\<lambda>v. case v of I16 x \<Rightarrow> x | _ \<Rightarrow> 0) items)
      | PI32 \<Rightarrow> ArrayI32 (map (\<lambda>v. case v of I32 x \<Rightarrow> x | _ \<Rightarrow> 0) items)
      | PI64 \<Rightarrow> ArrayI64 (map (\<lambda>v. case v of I64 x \<Rightarrow> x | _ \<Rightarrow> 0) items)
      | PF32 \<Rightarrow> ArrayF32 (map (\<lambda>v. case v of F32 x \<Rightarrow> x | _ \<Rightarrow> 0) items)
      | PF64 \<Rightarrow> ArrayF64 (map (\<lambda>v. case v of F64 x \<Rightarrow> x | _ \<Rightarrow> 0) items)
      | PString \<Rightarrow> ArrayString (map (\<lambda>v. case v of VString x \<Rightarrow> x | _ \<Rightarrow> []) items))"

lemma items_array:
  assumes "is_array p v"
  shows "gathered p (array_items v) = v" "array_length v = Some (length (array_items v))"
  using assms by (auto simp: is_array_def gathered_def array_items_def comp_def split: Prim.splits Value.splits)

lemma items_scalar:
  assumes "is_array p v" "storable v" "x \<in> set (array_items v)"
  shows "is_scalar p x \<and> storable x"
  using assms by (auto simp: is_array_def is_scalar_def array_items_def list_all_iff split: Prim.splits Value.splits)

lemma storable_length: "is_array p v \<Longrightarrow> storable v \<Longrightarrow> length (array_items v) < 2 ^ 32"
  by (auto simp: is_array_def array_items_def split: Prim.splits Value.splits)

section \<open>A write and a read that correspond\<close>

text \<open>
  \<open>at w rest\<close> is the reader that has taken \<open>w\<close> and has \<open>rest\<close> left. A write and a read correspond
  when the read, started where the write started, returns what was written and stops where the write
  stopped, whatever follows.
\<close>

definition carries ::
  "(byte list \<Rightarrow> byte list \<Rightarrow> 'r) \<Rightarrow> (byte list, unit) wire \<Rightarrow> ('r, 'a) wire \<Rightarrow> 'a \<Rightarrow> bool" where
  "carries at wr rd x \<longleftrightarrow>
     (\<forall>w. \<exists>bs. wr w = Some (Inr (), w @ bs) \<and>
        (\<forall>rest. rd (at w (bs @ rest)) = Some (Inr x, at (w @ bs) rest)))"

lemma carriesE:
  assumes "carries at wr rd x"
  obtains bs where "wr w = Some (Inr (), w @ bs)"
    "\<And>rest. rd (at w (bs @ rest)) = Some (Inr x, at (w @ bs) rest)"
  using assms unfolding carries_def by blast

lemma carries_return [simp]: "carries at (act_return ()) (act_return x) x"
  by (auto simp: carries_def act_defs intro: exI [of _ "[]"])

lemma carries_bind:
  assumes "carries at wa ra x" "carries at wb (rb x) y"
  shows "carries at (act_bind wa (\<lambda>_. wb)) (act_bind ra rb) y"
  unfolding carries_def
proof
  fix w :: "byte list"
  obtain bs1 where 1: "wa w = Some (Inr (), w @ bs1)"
    "\<And>rest. ra (at w (bs1 @ rest)) = Some (Inr x, at (w @ bs1) rest)"
    using carriesE [OF assms(1), of w] by blast
  obtain bs2 where 2: "wb (w @ bs1) = Some (Inr (), (w @ bs1) @ bs2)"
    "\<And>rest. rb x (at (w @ bs1) (bs2 @ rest)) = Some (Inr y, at ((w @ bs1) @ bs2) rest)"
    using carriesE [OF assms(2), of "w @ bs1"] by blast
  show "\<exists>bs. act_bind wa (\<lambda>_. wb) w = Some (Inr (), w @ bs) \<and>
     (\<forall>rest. act_bind ra rb (at w (bs @ rest)) = Some (Inr y, at (w @ bs) rest))"
    using 1 2 by (intro exI [of _ "bs1 @ bs2"]) (simp add: act_bind_def)
qed

lemma carries_end: "carries at wa ra x \<Longrightarrow> rb x = act_return y \<Longrightarrow> carries at wa (act_bind ra rb) y"
  using carries_bind [of at wa ra x "act_return ()" rb y]
  by (simp add: old.unit.exhaust act_bind_return [unfolded act_return_def [abs_def]])

lemma carries_pure: "carries at wa ra x \<Longrightarrow> carries at wa (act_bind ra (\<lambda>x. act_return (f x))) (f x)"
  by (rule carries_end) simp_all

lemma carries_times:
  "(\<And>x. x \<in> set xs \<Longrightarrow> carries at (f x) g (h x)) \<Longrightarrow>
   carries at (act_each f xs) (act_times (length xs) g) (map h xs)"
  by (induction xs) (auto intro!: carries_bind carries_pure)

lemma carries_zip:
  "length xs = length ys \<Longrightarrow>
   (\<And>x y. (x, y) \<in> set (zip xs ys) \<Longrightarrow> carries at (f (x, y)) (g x) (h (x, y))) \<Longrightarrow>
   carries at (act_each f (zip xs ys)) (act_map g xs) (map h (zip xs ys))"
  by (induction xs ys rule: list_induct2) (auto intro!: carries_bind carries_pure)

text \<open>A write that succeeds from some state, and so every part of it.\<close>

definition writes :: "(byte list, unit) wire \<Rightarrow> bool" where
  "writes m \<longleftrightarrow> (\<exists>w w'. m w = Some (Inr (), w'))"

lemma writes_bind: "writes (act_bind m f) \<Longrightarrow> writes m \<and> writes (f ())"
  by (auto simp: writes_def act_bind_Inr)

lemma writes_fail [simp]: "\<not> writes (act_fail e)" "\<not> writes (\<lambda>_. None)"
  by (simp_all add: writes_def act_fail_def)

lemma writes_check: "writes (act_bind (act_lift r) f) \<Longrightarrow> r = Inr () \<and> writes (f ())"
  by (cases r) auto

lemma writes_each: "writes (act_each f xs) \<Longrightarrow> x \<in> set xs \<Longrightarrow> writes (f x)"
  by (induction xs) (auto dest: writes_bind)

lemma check_field_count_ok: "check_field_count structure entries = Inr () \<longleftrightarrow> length entries = length (ls_fields structure)"
  by (simp add: check_field_count_def)

lemma writes_counted:
  "writes (act_bind (act_lift (check_field_count structure items)) (\<lambda>_. act_bind m (\<lambda>_. f))) \<Longrightarrow>
   length items = length (ls_fields structure) \<and> writes f"
  by (cases "check_field_count structure items") (auto simp: check_field_count_ok [symmetric] writes_def act_bind_Inr act_fail_def)

section \<open>A wire format\<close>

text \<open>
  What the walk relies on: each method of the writer and the reader's method for it correspond, over
  the values the format can carry.
\<close>

locale wire_format =
  fixes W :: "byte list ValueWriter" and R :: "'r ValueReader" and at :: "byte list \<Rightarrow> byte list \<Rightarrow> 'r"
  assumes unit: "carries at (vw_unit W) (vr_unit R) ()"
    and scalar: "is_scalar p v \<Longrightarrow> storable v \<Longrightarrow> carries at (vw_scalar W v) (vr_scalar R p) v"
    and array: "is_array p v \<Longrightarrow> storable v \<Longrightarrow> carries at (vw_array W v) (vr_array R p) v"
    and fixed_array:
      "is_array p v \<Longrightarrow> storable v \<Longrightarrow> array_length v = Some n \<Longrightarrow>
       carries at (vw_fixed_array W v) (vr_fixed_array R p n) v"
    and struct: "n < 2 ^ 32 \<Longrightarrow> carries at (vw_begin_struct W i n) (vr_enter_struct R i n) ()"
    and field: "carries at (vw_begin_field W i) (vr_enter_field R i) ()"
    and struct_array: "n < 2 ^ 32 \<Longrightarrow> carries at (vw_begin_struct_array W i n) (vr_enter_struct_array R i) n"
    and struct_element: "n < 2 ^ 32 \<Longrightarrow> carries at (vw_begin_struct_element W n) (vr_enter_struct_element R n) ()"
    and fixed_struct_array:
      "n < 2 ^ 32 \<Longrightarrow> carries at (vw_begin_fixed_struct_array W i n) (vr_enter_fixed_struct_array R i n) ()"
    and option: "carries at (vw_begin_option W b) (vr_enter_option R) b"
begin

lemma carries_scalar: "storable v \<Longrightarrow> writes (write_scalar W i v) \<Longrightarrow> carries at (write_scalar W i v) (read_scalar R i) v"
  using carries_pure [OF unit, where f = "\<lambda>_. Unit"]
  by (auto simp: write_scalar_def read_scalar_def scalar split: if_splits option.splits)

lemma carries_scalar_array:
  "storable v \<Longrightarrow> writes (write_scalar_array W i v) \<Longrightarrow> carries at (write_scalar_array W i v) (read_scalar_array R i) v"
  by (auto simp: write_scalar_array_def read_scalar_array_def array split: if_splits option.splits)

lemma carries_fixed_scalar_array:
  "storable v \<Longrightarrow> writes (write_fixed_scalar_array W i n v) \<Longrightarrow>
   carries at (write_fixed_scalar_array W i n v) (read_fixed_scalar_array R i n) v"
  by (auto simp: write_fixed_scalar_array_def read_fixed_scalar_array_def fixed_array split: if_splits option.splits)

lemma carries_fields:
  assumes "\<And>ref v. storable v \<Longrightarrow> writes (bw ref v) \<Longrightarrow> carries at (bw ref v) (br ref) (fr ref v)"
    and "length items = length (ls_fields structure)" "list_all (\<lambda>f. storable (sf_value f)) items"
    and "writes (write_fields W bw structure items)"
  shows "carries at (write_fields W bw structure items) (read_fields R br structure) (framed_fields fr structure items)"
proof -
  have ok: "sf_id y = fst x \<and> writes (bw (lf_type_ref (snd x)) (sf_value y)) \<and> storable (sf_value y)"
    if "(x, y) \<in> set (zip (ls_fields structure) items)" for x y
    using writes_each [OF assms(4) [unfolded write_fields_def] that] assms(3) that
    by (auto simp: list_all_iff split: if_splits prod.splits dest: set_zip_rightD writes_bind)
  show ?thesis
    unfolding write_fields_def read_fields_def framed_fields_def
    by (rule carries_zip)
      (use assms(2) in \<open>auto dest!: ok intro!: carries_bind [OF field] carries_pure assms(1)\<close>)
qed

lemma carries_value:
  assumes bw: "\<And>ref v. storable v \<Longrightarrow> writes (bw ref v) \<Longrightarrow> carries at (bw ref v) (br ref) (fr ref v)"
    and "storable v" "writes (write_value W bw ty v)"
  shows "carries at (write_value W bw ty v) (read_value R br ty) (framed_value fr ty v)"
proof (cases "lt_kind ty")
  case (KStructure st)
  then obtain s where v: "v = Structure s"
    using assms(3) by (cases v) (simp_all add: write_value_def write_structure_def)
  then have id: "st_id s = lt_id ty"
    using assms(3) KStructure by (auto simp: write_value_def write_structure_def split: if_splits)
  then have ok: "length (st_fields s) = length (ls_fields st)" "writes (write_fields W bw st (st_fields s))"
    using assms(3) KStructure v
    by (auto simp: write_value_def write_structure_def write_structure_fields_def dest!: writes_counted)
  then show ?thesis
    using assms(2) KStructure v id
    by (auto simp: write_value_def write_structure_def write_structure_fields_def read_value_def read_structure_def
        read_structure_fields_def framed_value_def check_field_count_def act_bind_assoc
        intro!: carries_bind [OF struct] carries_pure carries_fields bw)
qed (use assms in \<open>auto simp: write_value_def read_value_def framed_value_def\<close>)

lemma carries_elements:
  assumes bw: "\<And>ref v. storable v \<Longrightarrow> writes (bw ref v) \<Longrightarrow> carries at (bw ref v) (br ref) (fr ref v)"
    and "storable (ArrayStructure i es)" "writes (write_elements W bw structure es)"
  shows "carries at (write_elements W bw structure es) (read_elements R br j structure (length es))
     (ArrayStructure j (map (\<lambda>e. StructureWithoutId (framed_fields fr structure (sw_fields e))) es))"
  unfolding write_elements_def read_elements_def
proof (rule carries_pure, rule carries_times)
  fix e assume e: "e \<in> set es"
  have "writes (act_bind (act_lift (check_field_count structure (sw_fields e))) (\<lambda>_.
       act_bind (vw_begin_struct_element W (length (ls_fields structure))) (\<lambda>_. write_fields W bw structure (sw_fields e))))"
    using writes_each [OF assms(3) [unfolded write_elements_def] e] .
  then have ok: "length (sw_fields e) = length (ls_fields structure)" "writes (write_fields W bw structure (sw_fields e))"
    by (auto dest!: writes_counted)
  then show "carries at (act_bind (act_lift (check_field_count structure (sw_fields e))) (\<lambda>_.
       act_bind (vw_begin_struct_element W (length (ls_fields structure))) (\<lambda>_. write_fields W bw structure (sw_fields e))))
     (act_bind (vr_enter_struct_element R (length (ls_fields structure))) (\<lambda>_. act_bind (read_fields R br structure)
       (\<lambda>entries. act_return (StructureWithoutId entries))))
     (StructureWithoutId (framed_fields fr structure (sw_fields e)))"
    using assms(2) e
    by (auto simp: check_field_count_def list_all_iff intro!: carries_bind [OF struct_element] carries_pure carries_fields bw)
qed

lemma carries_array:
  assumes bw: "\<And>ref v. storable v \<Longrightarrow> writes (bw ref v) \<Longrightarrow> carries at (bw ref v) (br ref) (fr ref v)"
    and "storable v" "writes (write_array W bw i registry v)"
  shows "carries at (write_array W bw i registry v) (read_array R br i registry) (framed_array fr i registry v)"
proof (cases "hm_get registry i")
  case None
  then show ?thesis
    using assms by (simp add: write_array_def read_array_def framed_array_def carries_scalar_array)
next
  case (Some ty)
  then obtain st where st: "lt_kind ty = KStructure st"
    using assms(3) by (cases "lt_kind ty") (simp_all add: write_array_def)
  then obtain j es where v: "v = ArrayStructure j es"
    using assms(3) Some by (cases v) (simp_all add: write_array_def)
  then have ok: "j = i" "writes (write_elements W bw st es)"
    using assms(3) Some st by (auto simp: write_array_def split: if_splits dest: writes_bind)
  then show ?thesis
    using assms(2) Some st v
    by (auto simp: write_array_def read_array_def framed_array_def intro!: carries_bind [OF struct_array] carries_elements bw)
qed

lemma carries_fixed_array:
  assumes bw: "\<And>ref v. storable v \<Longrightarrow> writes (bw ref v) \<Longrightarrow> carries at (bw ref v) (br ref) (fr ref v)"
    and "storable v" "writes (write_fixed_array W bw i n registry v)"
  shows "carries at (write_fixed_array W bw i n registry v) (read_fixed_array R br i n registry) (framed_array fr i registry v)"
proof (cases "hm_get registry i")
  case None
  then show ?thesis
    using assms by (simp add: write_fixed_array_def read_fixed_array_def framed_array_def carries_fixed_scalar_array)
next
  case (Some ty)
  then obtain st where st: "lt_kind ty = KStructure st"
    using assms(3) by (cases "lt_kind ty") (simp_all add: write_fixed_array_def)
  then obtain j es where v: "v = ArrayStructure j es"
    using assms(3) Some by (cases v) (simp_all add: write_fixed_array_def)
  then have ok: "j = i" "length es = n" "writes (write_elements W bw st es)"
    using assms(3) Some st by (auto simp: write_fixed_array_def split: if_splits dest: writes_bind)
  then show ?thesis
    using assms(2) Some st v
    by (auto simp: write_fixed_array_def read_fixed_array_def framed_array_def
        intro!: carries_bind [OF fixed_struct_array] carries_elements bw)
qed

lemma carries_named:
  assumes bw: "\<And>ref v. storable v \<Longrightarrow> writes (bw ref v) \<Longrightarrow> carries at (bw ref v) (br ref) (fr ref v)"
    and "storable v" "writes (write_named W bw i registry v)"
  shows "carries at (write_named W bw i registry v) (read_named R br i registry) (framed_named fr i registry v)"
  using assms
  by (auto simp: write_named_def read_named_def framed_named_def split: if_splits option.splits
      intro!: carries_scalar carries_value [where br = br and fr = fr])

text \<open>The walk: what it wrote without an error, it reads back.\<close>

theorem walk_carries:
  "storable v \<Longrightarrow> writes (write_by_ref n W registry ref v) \<Longrightarrow>
   carries at (write_by_ref n W registry ref v) (read_by_ref n R registry ref) (framed n registry ref v)"
proof (induction n arbitrary: ref v)
  case (Suc n)
  have present: "carries at (act_bind (vw_begin_option W True) (\<lambda>_. write_by_ref n W registry (Scalar i) x))
       (read_by_ref (Suc n) R registry (TOptionOf i)) (VOption (Some (framed n registry (Scalar i) x)))"
    if "storable x" "writes (act_bind (vw_begin_option W True) (\<lambda>_. write_by_ref n W registry (Scalar i) x))" for i x
    using Suc.IH [OF that(1)] that(2) by (auto intro!: carries_bind [OF option] carries_pure dest!: writes_bind)
  show ?case
  proof (cases ref)
    case (TOptionOf i)
    have "carries at (vw_begin_option W False) (read_by_ref (Suc n) R registry (TOptionOf i)) (VOption None)"
      by (simp add: carries_end [OF option])
    then show ?thesis
      using TOptionOf Suc.prems present [of _ i]
      by (auto split: Value.splits option.splits simp del: read_by_ref.simps)
  qed (use Suc in \<open>auto intro!: carries_named carries_array carries_fixed_array\<close>)
qed simp

end

section \<open>How deep is deep enough\<close>

text \<open>
  Types without cycles have a rank above that of every type they name. \<open>ref_need\<close> is a bound on the
  depth of the walk along a type reference.
\<close>

fun kind_refs :: "TypeKind \<Rightarrow> TypeRef list" where
  "kind_refs (KStructure st) = map (lf_type_ref \<circ> snd) (ls_fields st)"
| "kind_refs (KEnumeration _) = []"
| "kind_refs (KPrimitive ref) = [ref]"

definition ranked :: "(uuid \<Rightarrow> nat) \<Rightarrow> TypeRegistry \<Rightarrow> bool" where
  "ranked rank registry \<longleftrightarrow>
     (\<forall>(i, ty)\<in>set registry. \<forall>ref\<in>set (kind_refs (lt_kind ty)). \<forall>j\<in>set (ref_dependencies ref).
        hm_get registry j \<noteq> None \<longrightarrow> rank j < rank i)"

definition id_need :: "(uuid \<Rightarrow> nat) \<Rightarrow> TypeRegistry \<Rightarrow> uuid \<Rightarrow> nat" where
  "id_need rank registry i = (if hm_get registry i = None then 1 else 2 * rank i + 3)"

fun ref_need :: "(uuid \<Rightarrow> nat) \<Rightarrow> TypeRegistry \<Rightarrow> TypeRef \<Rightarrow> nat" where
  "ref_need rank registry (TMap _ _) = 1"
| "ref_need rank registry (TOptionOf i) = Suc (id_need rank registry i)"
| "ref_need rank registry (Scalar i) = id_need rank registry i"
| "ref_need rank registry (Array i) = id_need rank registry i"
| "ref_need rank registry (FixedArray i len) = id_need rank registry i"

definition kind_need :: "(uuid \<Rightarrow> nat) \<Rightarrow> TypeRegistry \<Rightarrow> TypeKind \<Rightarrow> nat" where
  "kind_need rank registry k = fold (\<lambda>ref. max (ref_need rank registry ref)) (kind_refs k) 0"

lemma fold_max_le: "fold (\<lambda>x. max (f x)) xs b \<le> (n :: nat) \<longleftrightarrow> b \<le> n \<and> (\<forall>x\<in>set xs. f x \<le> n)"
  by (induction xs arbitrary: b) auto

lemma kind_need_le: "kind_need rank registry k \<le> n \<longleftrightarrow> (\<forall>ref\<in>set (kind_refs k). ref_need rank registry ref \<le> n)"
  by (simp add: kind_need_def fold_max_le)

lemma nested_need:
  assumes "ranked rank registry" "hm_get registry i = Some ty" "ref \<in> set (kind_refs (lt_kind ty))"
  shows "ref_need rank registry ref < id_need rank registry i"
proof -
  have lower: "id_need rank registry j + 1 < id_need rank registry i" if "j \<in> set (ref_dependencies ref)" for j
  proof -
    have "(i, ty) \<in> set registry" using assms(2) by (simp add: map_of_SomeD)
    then have "hm_get registry j \<noteq> None \<Longrightarrow> rank j < rank i"
      using assms(1,3) that unfolding ranked_def by blast
    then show ?thesis using assms(2) by (auto simp: id_need_def)
  qed
  have "1 < id_need rank registry i" using assms(2) by (simp add: id_need_def)
  with lower show ?thesis by (cases ref) (auto dest: Suc_lessD)
qed

lemma ref_need_pos: "0 < ref_need rank registry ref"
  by (cases ref) (auto simp: id_need_def)

locale ending_reader =
  fixes R :: "'r ValueReader"
  assumes unit_ends: "act_ends (vr_unit R)"
    and scalar_ends: "act_ends (vr_scalar R p)"
    and array_ends: "act_ends (vr_array R p)"
    and fixed_array_ends: "act_ends (vr_fixed_array R p n)"
    and struct_ends: "act_ends (vr_enter_struct R i n)"
    and field_ends: "act_ends (vr_enter_field R i)"
    and struct_array_ends: "act_ends (vr_enter_struct_array R i)"
    and struct_element_ends: "act_ends (vr_enter_struct_element R n)"
    and fixed_struct_array_ends: "act_ends (vr_enter_fixed_struct_array R i n)"
    and option_ends: "act_ends (vr_enter_option R)"
begin

lemma scalars_end: "act_ends (read_scalar R i)" "act_ends (read_scalar_array R i)" "act_ends (read_fixed_scalar_array R i n)"
  by (auto simp: read_scalar_def read_scalar_array_def read_fixed_scalar_array_def unit_ends scalar_ends array_ends
      fixed_array_ends split: option.splits intro!: act_ends_bind)

lemma fields_end:
  "(\<And>ref. ref \<in> set (kind_refs (KStructure st)) \<Longrightarrow> act_ends (br ref)) \<Longrightarrow> act_ends (read_fields R br st)"
  unfolding read_fields_def by (rule act_ends_map) (force intro!: act_ends_bind simp: field_ends)

lemma value_ends:
  assumes "\<And>ref. ref \<in> set (kind_refs (lt_kind ty)) \<Longrightarrow> act_ends (br ref)"
  shows "act_ends (read_value R br ty)"
  using assms fields_end [of _ br]
  by (auto simp: read_value_def read_structure_def read_structure_fields_def struct_ends
      split: TypeKind.splits intro!: act_ends_bind)

lemma arrays_end:
  assumes "\<And>ty ref. hm_get registry i = Some ty \<Longrightarrow> ref \<in> set (kind_refs (lt_kind ty)) \<Longrightarrow> act_ends (br ref)"
  shows "act_ends (read_array R br i registry)" "act_ends (read_fixed_array R br i n registry)"
  using assms fields_end [of _ br]
  by (auto simp: read_array_def read_fixed_array_def read_elements_def scalars_end struct_array_ends
      fixed_struct_array_ends struct_element_ends
      split: option.splits TypeKind.splits intro!: act_ends_bind act_ends_times)

theorem walk_ends:
  "ranked rank registry \<Longrightarrow> ref_need rank registry ref \<le> n \<Longrightarrow> act_ends (read_by_ref n R registry ref)"
proof (induction n arbitrary: ref)
  case 0
  then show ?case using ref_need_pos [of rank registry ref] by simp
next
  case (Suc n)
  have nested: "act_ends (read_by_ref n R registry ref')"
    if "hm_get registry i = Some ty" "ref' \<in> set (kind_refs (lt_kind ty))" "id_need rank registry i \<le> Suc n" for i ty ref'
    using Suc.IH [OF Suc.prems(1)] nested_need [OF Suc.prems(1) that(1,2)] that(3) by simp
  show ?case
  proof (cases ref)
    case (Scalar i)
    then show ?thesis
      using Suc.prems(2) nested
      by (auto simp: read_named_def scalars_end split: option.splits intro!: value_ends)
  next
    case (TOptionOf i)
    then show ?thesis
      using Suc.prems by (auto intro!: act_ends_bind option_ends Suc.IH)
  qed (use Suc.prems(2) nested in \<open>auto intro!: arrays_end\<close>)
qed

end

end
