(* ===== verification/Cdr.thy ===== *)
theory Cdr
  imports Wire_Format
begin

text \<open>
  ROS 2's CDR (\<open>crates/arora-msgs-ros2/src/cdr.rs\<close>), a wire format of the walk: positional,
  every primitive aligned to its size from the start of the payload's body, which follows a header of
  four bytes. The macros write one method per primitive: here one function of the primitive, whose
  arrays go through the scalar's method as theirs do.
\<close>

section \<open>Writing\<close>

type_synonym CdrWriter = "byte list"

text \<open>The loop of \<open>align\<close>, called with 2, 4 and 8.\<close>

function cdr_align :: "nat \<Rightarrow> CdrWriter \<Rightarrow> CdrWriter" where
  "cdr_align n body = (if n = 0 \<or> length body mod n = 0 then body else cdr_align n (body @ [0]))"
  by auto

termination
  by (relation "measure (\<lambda>(n, body). (n - length body mod n) mod n)") (auto simp: mod_Suc intro!: diff_less_mono2)

definition cdr_put :: "byte list \<Rightarrow> (CdrWriter, unit) wire" where
  "cdr_put bytes = act_modify (\<lambda>body. body @ bytes)"

definition cdr_put_aligned :: "nat \<Rightarrow> byte list \<Rightarrow> (CdrWriter, unit) wire" where
  "cdr_put_aligned n bytes = act_bind (act_modify (cdr_align n)) (\<lambda>_. cdr_put bytes)"

definition cdr_put_sequence_len :: "nat \<Rightarrow> (CdrWriter, unit) wire" where
  "cdr_put_sequence_len len = cdr_put_aligned 4 (le_bytes 4 (word_of_nat len :: u32))"

definition cdr_write_string :: "string \<Rightarrow> (CdrWriter, unit) wire" where
  "cdr_write_string s =
     act_bind (act_modify (cdr_align 4)) (\<lambda>_.
     act_bind (cdr_put (le_bytes 4 (word_of_nat (length (str_bytes s) + 1) :: u32))) (\<lambda>_.
     act_bind (cdr_put (str_bytes s)) (\<lambda>_. cdr_put [0])))"

text \<open>Only a scalar has a method.\<close>

definition cdr_write_scalar :: "Value \<Rightarrow> (CdrWriter, unit) wire" where
  "cdr_write_scalar v =
     (case v of
        Boolean b \<Rightarrow> cdr_put [if b then 1 else 0]
      | U8 x \<Rightarrow> cdr_put [x]
      | U16 x \<Rightarrow> cdr_put_aligned 2 (le_bytes 2 x)
      | U32 x \<Rightarrow> cdr_put_aligned 4 (le_bytes 4 x)
      | U64 x \<Rightarrow> cdr_put_aligned 8 (le_bytes 8 x)
      | I8 x \<Rightarrow> cdr_put [x]
      | I16 x \<Rightarrow> cdr_put_aligned 2 (le_bytes 2 x)
      | I32 x \<Rightarrow> cdr_put_aligned 4 (le_bytes 4 x)
      | I64 x \<Rightarrow> cdr_put_aligned 8 (le_bytes 8 x)
      | F32 x \<Rightarrow> cdr_put_aligned 4 (le_bytes 4 x)
      | F64 x \<Rightarrow> cdr_put_aligned 8 (le_bytes 8 x)
      | VString s \<Rightarrow> cdr_write_string s
      | _ \<Rightarrow> (\<lambda>_. None))"

definition cdr_write_fixed_array :: "Value \<Rightarrow> (CdrWriter, unit) wire" where
  "cdr_write_fixed_array v = act_each cdr_write_scalar (array_items v)"

definition cdr_write_array :: "Value \<Rightarrow> (CdrWriter, unit) wire" where
  "cdr_write_array v = act_bind (cdr_put_sequence_len (length (array_items v))) (\<lambda>_. cdr_write_fixed_array v)"

definition cdr_writer :: "CdrWriter ValueWriter" where
  "cdr_writer = \<lparr>vw_unit = act_return (), vw_scalar = cdr_write_scalar, vw_array = cdr_write_array,
     vw_fixed_array = cdr_write_fixed_array,
     vw_begin_struct = (\<lambda>_ _. act_return ()),
     vw_begin_field = (\<lambda>_. act_return ()),
     vw_begin_struct_array = (\<lambda>_ len. cdr_put_sequence_len len),
     vw_begin_struct_element = (\<lambda>_. act_return ()),
     vw_begin_fixed_struct_array = (\<lambda>_ _. act_return ()),
     vw_begin_option = (\<lambda>present. cdr_put_sequence_len (if present then 1 else 0))\<rparr>"

section \<open>Reading\<close>

record CdrReader =
  cr_body :: "byte list"
  cr_pos :: nat

function cdr_align_pos :: "nat \<Rightarrow> nat \<Rightarrow> nat" where
  "cdr_align_pos n pos = (if n = 0 \<or> pos mod n = 0 then pos else cdr_align_pos n (pos + 1))"
  by auto

termination
  by (relation "measure (\<lambda>(n, pos). (n - pos mod n) mod n)") (auto simp: mod_Suc intro!: diff_less_mono2)

definition cdr_take :: "nat \<Rightarrow> (CdrReader, byte list) wire" where
  "cdr_take n r =
     (if cr_pos r + n > length (cr_body r) then act_fail (Underrun n (cr_pos r)) r
      else act_return (take n (drop (cr_pos r) (cr_body r))) (r\<lparr>cr_pos := cr_pos r + n\<rparr>))"

definition cdr_take_aligned :: "nat \<Rightarrow> nat \<Rightarrow> (CdrReader, byte list) wire" where
  "cdr_take_aligned n align = act_bind (act_modify (cr_pos_update (cdr_align_pos align))) (\<lambda>_. cdr_take n)"

definition cdr_take_sequence_len :: "(CdrReader, nat) wire" where
  "cdr_take_sequence_len = act_bind (cdr_take_aligned 4 4) (\<lambda>bs. act_return (unat (le_word bs :: u32)))"

definition cdr_read_string :: "(CdrReader, string) wire" where
  "cdr_read_string =
     act_bind (cdr_take_aligned 4 4) (\<lambda>bs.
     let len = unat (le_word bs :: u32) in
     if len = 0 then act_fail EmptyString
     else act_bind (cdr_take len) (\<lambda>bytes.
       case from_utf8 (take (len - 1) bytes) of None \<Rightarrow> act_fail InvalidUtf8 | Some s \<Rightarrow> act_return s))"

definition cdr_read_scalar :: "Prim \<Rightarrow> (CdrReader, Value) wire" where
  "cdr_read_scalar p =
     (case p of
        PBool \<Rightarrow> act_bind (cdr_take 1) (\<lambda>bs. act_return (Boolean (hd bs \<noteq> 0)))
      | PU8 \<Rightarrow> act_bind (cdr_take 1) (\<lambda>bs. act_return (U8 (hd bs)))
      | PU16 \<Rightarrow> act_bind (cdr_take_aligned 2 2) (\<lambda>bs. act_return (U16 (le_word bs)))
      | PU32 \<Rightarrow> act_bind (cdr_take_aligned 4 4) (\<lambda>bs. act_return (U32 (le_word bs)))
      | PU64 \<Rightarrow> act_bind (cdr_take_aligned 8 8) (\<lambda>bs. act_return (U64 (le_word bs)))
      | PI8 \<Rightarrow> act_bind (cdr_take 1) (\<lambda>bs. act_return (I8 (hd bs)))
      | PI16 \<Rightarrow> act_bind (cdr_take_aligned 2 2) (\<lambda>bs. act_return (I16 (le_word bs)))
      | PI32 \<Rightarrow> act_bind (cdr_take_aligned 4 4) (\<lambda>bs. act_return (I32 (le_word bs)))
      | PI64 \<Rightarrow> act_bind (cdr_take_aligned 8 8) (\<lambda>bs. act_return (I64 (le_word bs)))
      | PF32 \<Rightarrow> act_bind (cdr_take_aligned 4 4) (\<lambda>bs. act_return (F32 (le_word bs)))
      | PF64 \<Rightarrow> act_bind (cdr_take_aligned 8 8) (\<lambda>bs. act_return (F64 (le_word bs)))
      | PString \<Rightarrow> act_bind cdr_read_string (\<lambda>s. act_return (VString s)))"

definition cdr_read_fixed_array :: "Prim \<Rightarrow> nat \<Rightarrow> (CdrReader, Value) wire" where
  "cdr_read_fixed_array p len =
     act_bind (act_times len (cdr_read_scalar p)) (\<lambda>items. act_return (gathered p items))"

definition cdr_read_array :: "Prim \<Rightarrow> (CdrReader, Value) wire" where
  "cdr_read_array p = act_bind cdr_take_sequence_len (cdr_read_fixed_array p)"

definition cdr_enter_option :: "(CdrReader, bool) wire" where
  "cdr_enter_option =
     act_bind cdr_take_sequence_len (\<lambda>count.
       if count = 0 then act_return False
       else if count = 1 then act_return True
       else act_fail (TooManyElements count))"

definition cdr_reader :: "CdrReader ValueReader" where
  "cdr_reader = \<lparr>vr_unit = act_return (), vr_scalar = cdr_read_scalar, vr_array = cdr_read_array,
     vr_fixed_array = cdr_read_fixed_array,
     vr_enter_struct = (\<lambda>_ _. act_return ()),
     vr_enter_field = (\<lambda>_. act_return ()),
     vr_enter_struct_array = (\<lambda>_. cdr_take_sequence_len),
     vr_enter_struct_element = (\<lambda>_. act_return ()),
     vr_enter_fixed_struct_array = (\<lambda>_ _. act_return ()),
     vr_enter_option = cdr_enter_option\<rparr>"

section \<open>Payloads\<close>

definition CDR_LE_HEADER :: "byte list" where
  "CDR_LE_HEADER = [0, 1, 0, 0]"

definition cdr_encode :: "nat \<Rightarrow> LowType \<Rightarrow> TypeRegistry \<Rightarrow> Value \<Rightarrow> (WalkError + byte list) option" where
  "cdr_encode n ty registry v =
     map_option (\<lambda>(r, body). case r of Inl e \<Rightarrow> Inl e | Inr _ \<Rightarrow> Inr (CDR_LE_HEADER @ body))
       (write_value cdr_writer (write_by_ref n cdr_writer registry) ty v [])"

definition cdr_decode :: "nat \<Rightarrow> LowType \<Rightarrow> TypeRegistry \<Rightarrow> byte list \<Rightarrow> (WalkError + Value) option" where
  "cdr_decode n ty registry bytes =
     (if length bytes < 4 then Some (Inl ShortPayload)
      else if take 2 bytes \<noteq> take 2 CDR_LE_HEADER then Some (Inl (OtherEncapsulation (bytes ! 0) (bytes ! 1)))
      else map_option fst (read_value cdr_reader (read_by_ref n cdr_reader registry) ty
             \<lparr>cr_body = drop 4 bytes, cr_pos = 0\<rparr>))"

section \<open>The format keeps its promises\<close>

definition cdr_at :: "byte list \<Rightarrow> byte list \<Rightarrow> CdrReader" where
  "cdr_at w rest = \<lparr>cr_body = w @ rest, cr_pos = length w\<rparr>"

declare cdr_align.simps [simp del] cdr_align_pos.simps [simp del]

text \<open>The two loops add the same bytes.\<close>

lemma cdr_align_appends: "\<exists>m. cdr_align n w = w @ replicate m 0 \<and> cdr_align_pos n (length w) = length w + m"
proof (induction n w rule: cdr_align.induct)
  case (1 n w)
  show ?case
  proof (cases "n = 0 \<or> length w mod n = 0")
    case True
    then show ?thesis by (intro exI [of _ 0]) (simp add: cdr_align.simps cdr_align_pos.simps)
  next
    case False
    then obtain m where "cdr_align n (w @ [0]) = (w @ [0]) @ replicate m 0"
      "cdr_align_pos n (length (w @ [0])) = length (w @ [0]) + m"
      using 1 [OF False] by blast
    then show ?thesis
      using False by (intro exI [of _ "Suc m"]) (simp add: cdr_align.simps [of n w] cdr_align_pos.simps [of n "length w"])
  qed
qed

lemma carries_align: "carries cdr_at (act_modify (cdr_align n)) (act_modify (cr_pos_update (cdr_align_pos n))) ()"
  unfolding carries_def
proof
  fix w :: "byte list"
  obtain m where "cdr_align n w = w @ replicate m 0" "cdr_align_pos n (length w) = length w + m"
    using cdr_align_appends by blast
  then show "\<exists>bs. act_modify (cdr_align n) w = Some (Inr (), w @ bs) \<and>
     (\<forall>rest. act_modify (cr_pos_update (cdr_align_pos n)) (cdr_at w (bs @ rest)) = Some (Inr (), cdr_at (w @ bs) rest))"
    by (intro exI [of _ "replicate m 0"]) (simp add: act_modify_def cdr_at_def)
qed

lemma carries_put: "n = length bs \<Longrightarrow> carries cdr_at (cdr_put bs) (cdr_take n) bs"
  by (auto simp: carries_def cdr_put_def cdr_take_def cdr_at_def act_defs)

lemma carries_put_aligned: "n = length bs \<Longrightarrow> carries cdr_at (cdr_put_aligned k bs) (cdr_take_aligned n k) bs"
  unfolding cdr_put_aligned_def cdr_take_aligned_def by (intro carries_bind [OF carries_align] carries_put)

lemma carries_sequence_len: "len < 2 ^ 32 \<Longrightarrow> carries cdr_at (cdr_put_sequence_len len) cdr_take_sequence_len len"
  unfolding cdr_put_sequence_len_def cdr_take_sequence_len_def
  by (rule carries_end [OF carries_put_aligned]) (simp_all add: unat_of_nat take_bit_nat_eq_self)

lemma carries_string: "storable_string s \<Longrightarrow> carries cdr_at (cdr_write_string s) cdr_read_string s"
proof -
  assume s: "storable_string s"
  let ?len = "word_of_nat (length (str_bytes s) + 1) :: u32"
  have len: "unat (word_of_nat (Suc (length s)) :: u32) = Suc (length s)"
    using s by (simp only: unat_of_nat storable_string_def) (simp add: take_bit_nat_eq_self)
  have bytes: "carries cdr_at (act_bind (cdr_put (str_bytes s)) (\<lambda>_. cdr_put [0])) (cdr_take (Suc (length s))) (str_bytes s @ [0])"
    using carries_put [of "Suc (length s)" "str_bytes s @ [0]"]
    by (simp add: carries_def cdr_put_def act_defs)
  have "carries cdr_at (act_bind (cdr_put_aligned 4 (le_bytes 4 ?len)) (\<lambda>_. act_bind (cdr_put (str_bytes s)) (\<lambda>_. cdr_put [0])))
     cdr_read_string s"
    unfolding cdr_read_string_def
    by (rule carries_bind [OF carries_put_aligned])
      (use s in \<open>auto simp: len Let_def storable_string_def simp del: of_nat_add of_nat_Suc split: option.splits intro!: carries_end [OF bytes]\<close>)
  then show ?thesis by (simp add: cdr_write_string_def cdr_put_aligned_def act_bind_assoc)
qed

lemma carries_cdr_scalar:
  assumes "is_scalar p v" "storable v"
  shows "carries cdr_at (cdr_write_scalar v) (cdr_read_scalar p) v"
  using assms
  by (auto simp: is_scalar_def cdr_write_scalar_def cdr_read_scalar_def split: Prim.splits Value.splits
      intro!: carries_end [OF carries_put] carries_end [OF carries_put_aligned] carries_end [OF carries_string])

lemma carries_cdr_fixed_array:
  assumes "is_array p v" "storable v" "array_length v = Some n"
  shows "carries cdr_at (cdr_write_fixed_array v) (cdr_read_fixed_array p n) v"
proof -
  have "carries cdr_at (act_each cdr_write_scalar (array_items v)) (act_times (length (array_items v)) (cdr_read_scalar p))
     (map (\<lambda>x. x) (array_items v))"
    by (rule carries_times) (use items_scalar [OF assms(1,2)] in \<open>auto intro: carries_cdr_scalar\<close>)
  then show ?thesis
    using items_array [OF assms(1)] assms(3)
    by (auto simp: cdr_write_fixed_array_def cdr_read_fixed_array_def intro!: carries_end)
qed

lemma carries_cdr_array:
  assumes "is_array p v" "storable v"
  shows "carries cdr_at (cdr_write_array v) (cdr_read_array p) v"
  unfolding cdr_write_array_def cdr_read_array_def
  using assms items_array(2) [OF assms(1)]
  by (intro carries_bind [OF carries_sequence_len] carries_cdr_fixed_array storable_length)

lemma carries_cdr_option: "carries cdr_at (cdr_put_sequence_len (if b then 1 else 0)) cdr_enter_option b"
  unfolding cdr_enter_option_def by (rule carries_end [OF carries_sequence_len]) simp_all

interpretation cdr: wire_format cdr_writer cdr_reader cdr_at
  by unfold_locales
    (simp_all add: cdr_writer_def cdr_reader_def carries_cdr_scalar carries_cdr_array carries_cdr_fixed_array
      carries_sequence_len carries_cdr_option)

lemma take_ends: "act_ends (cdr_take n)" "act_ends (cdr_take_aligned n k)" "act_ends cdr_take_sequence_len"
proof -
  show take: "act_ends (cdr_take n)" for n by (simp add: act_ends_def cdr_take_def act_defs)
  then show "act_ends (cdr_take_aligned n k)" for n k by (auto simp: cdr_take_aligned_def intro!: act_ends_bind)
  then show "act_ends cdr_take_sequence_len" by (auto simp: cdr_take_sequence_len_def intro!: act_ends_bind)
qed

lemma cdr_scalar_ends: "act_ends (cdr_read_scalar p)"
  by (cases p) (auto simp: cdr_read_scalar_def cdr_read_string_def Let_def take_ends split: option.splits intro!: act_ends_bind)

interpretation cdr_end: ending_reader cdr_reader
  by unfold_locales
    (auto simp: cdr_reader_def cdr_scalar_ends cdr_read_array_def cdr_read_fixed_array_def cdr_enter_option_def take_ends
      intro!: act_ends_bind act_ends_times)

section \<open>Properties\<close>

lemma encoded_payload:
  assumes "cdr_encode n ty registry v = Some (Inr bytes)"
  obtains body where "bytes = CDR_LE_HEADER @ body"
    "write_value cdr_writer (write_by_ref n cdr_writer registry) ty v [] = Some (Inr (), body)"
proof -
  obtain r body where written: "write_value cdr_writer (write_by_ref n cdr_writer registry) ty v [] = Some (r, body)"
    "(case r of Inl e \<Rightarrow> Inl e | Inr _ \<Rightarrow> Inr (CDR_LE_HEADER @ body)) = Inr bytes"
    using assms by (auto simp: cdr_encode_def)
  then show thesis using that by (cases r) auto
qed

lemma header_length [simp]: "length CDR_LE_HEADER = 4"
  by (simp add: CDR_LE_HEADER_def)

text \<open>
  C9. A value that encodes against a type decodes, against the same type, to the same value: bare
  values where the type declares an option come back present. The bound on the depth is that of the
  encoding. Strings and counts are within the 32 bits of their lengths.
\<close>

theorem cdr_round_trip:
  assumes "cdr_encode n ty registry v = Some (Inr bytes)" "storable v"
  shows "cdr_decode n ty registry bytes = Some (Inr (framed_value (framed n registry) ty v))"
proof -
  obtain body where bytes: "bytes = CDR_LE_HEADER @ body"
    and body: "write_value cdr_writer (write_by_ref n cdr_writer registry) ty v [] = Some (Inr (), body)"
    using encoded_payload [OF assms(1)] .
  have "writes (write_value cdr_writer (write_by_ref n cdr_writer registry) ty v)"
    using body unfolding writes_def by blast
  then have "carries cdr_at (write_value cdr_writer (write_by_ref n cdr_writer registry) ty v)
     (read_value cdr_reader (read_by_ref n cdr_reader registry) ty) (framed_value (framed n registry) ty v)"
    using assms(2) by (intro cdr.carries_value cdr.walk_carries)
  from carriesE [OF this, of "[]"]
  have "read_value cdr_reader (read_by_ref n cdr_reader registry) ty (cdr_at [] body) =
     Some (Inr (framed_value (framed n registry) ty v), cdr_at body [])"
    using body by (metis Pair_inject append.right_neutral append_self_conv2 option.inject)
  then show ?thesis
    by (simp add: bytes cdr_decode_def cdr_at_def)
qed

definition time_type :: LowType where
  "time_type = \<lparr>lt_name = ''Time'', lt_id = 1000, lt_description = [], lt_kind = KStructure \<lparr>ls_fields =
     [(1001, \<lparr>lf_name = ''sec'', lf_type_ref = Scalar I32_ID\<rparr>), (1002, \<lparr>lf_name = ''nanosec'', lf_type_ref = Scalar U32_ID\<rparr>)]\<rparr>\<rparr>"

definition header_type :: LowType where
  "header_type = \<lparr>lt_name = ''Header'', lt_id = 2000, lt_description = [], lt_kind = KStructure \<lparr>ls_fields =
     [(2001, \<lparr>lf_name = ''frame_id'', lf_type_ref = Scalar STRING_ID\<rparr>), (2002, \<lparr>lf_name = ''stamp'', lf_type_ref = Scalar 1000\<rparr>),
      (2003, \<lparr>lf_name = ''rate'', lf_type_ref = TOptionOf F64_ID\<rparr>)]\<rparr>\<rparr>"

definition header_value :: Value where
  "header_value = Structure (MkStructure 2000 [StructureField 2001 (VString ''map''),
     StructureField 2002 (Structure (MkStructure 1000 [StructureField 1001 (I32 7), StructureField 1002 (U32 9)])),
     StructureField 2003 (F64 5)])"

theorem cdr_round_trip_witness:
  "cdr_decode 3 header_type [(1000, time_type)]
     [0, 1, 0, 0, 4, 0, 0, 0, 109, 97, 112, 0, 7, 0, 0, 0, 9, 0, 0, 0, 1, 0, 0, 0, 0, 0, 0, 0, 5, 0, 0, 0, 0, 0, 0, 0] =
   Some (Inr (framed_value (framed 3 [(1000, time_type)]) header_type header_value))"
  by (rule cdr_round_trip [of 3 header_type "[(1000, time_type)]" header_value], code_simp)
    (simp add: header_value_def storable_string_def utf8_string_def)



end
