(* ===== verification/Checked_Buffers.thy ===== *)
theory Checked_Buffers
  imports Wire_Format Froto_Value
begin

text \<open>
  The Arora Buffer as a wire format of the walk (\<open>crates/arora-buffers/src/froto_checked_value.rs\<close>):
  the buffer's writer and reader behind the methods of the walk. The format describes itself, so the
  reader consumes each tag and checks it against the type the walk asks for.
\<close>

section \<open>Writing\<close>

text \<open>A call of the buffer's writer or reader, which only a panic stops.\<close>

definition buf_put :: "(BufferWriter \<Rightarrow> BufferWriter option) \<Rightarrow> (BufferWriter, unit) wire" where
  "buf_put put w = map_option (\<lambda>w. (Inr (), w)) (put w)"

definition buf_get :: "(BufferReader \<Rightarrow> ('a \<times> BufferReader) option) \<Rightarrow> (BufferReader, 'a) wire" where
  "buf_get get r = map_option (\<lambda>(x, r). (Inr x, r)) (get r)"

text \<open>Only a scalar, and an array of scalars, has a method.\<close>

definition checked_write_scalar :: "crates \<Rightarrow> Value \<Rightarrow> (BufferWriter, unit) wire" where
  "checked_write_scalar E v =
     (case v of
        Boolean x \<Rightarrow> buf_put (add_boolean E x)
      | U8 x \<Rightarrow> buf_put (add_u8 E x)
      | U16 x \<Rightarrow> buf_put (add_u16 E x)
      | U32 x \<Rightarrow> buf_put (add_u32 E x)
      | U64 x \<Rightarrow> buf_put (add_u64 E x)
      | I8 x \<Rightarrow> buf_put (add_i8 E x)
      | I16 x \<Rightarrow> buf_put (add_i16 E x)
      | I32 x \<Rightarrow> buf_put (add_i32 E x)
      | I64 x \<Rightarrow> buf_put (add_i64 E x)
      | F32 x \<Rightarrow> buf_put (add_f32 E x)
      | F64 x \<Rightarrow> buf_put (add_f64 E x)
      | VString x \<Rightarrow> buf_put (add_string E x)
      | _ \<Rightarrow> (\<lambda>_. None))"

definition checked_write_bulk ::
  "crates \<Rightarrow> byte \<Rightarrow> ('a list \<Rightarrow> BufferWriter \<Rightarrow> BufferWriter option) \<Rightarrow> 'a list \<Rightarrow> (BufferWriter, unit) wire" where
  "checked_write_bulk E tag bulk v =
     act_bind (buf_put (add_array_primitive E tag (word_of_nat (length v)))) (\<lambda>_. buf_put (bulk v))"

definition checked_write_array :: "crates \<Rightarrow> Value \<Rightarrow> (BufferWriter, unit) wire" where
  "checked_write_array E v =
     (case v of
        ArrayBoolean xs \<Rightarrow> checked_write_bulk E TYPE_BOOLEAN (add_boolean_raw_bulk E) xs
      | ArrayU8 xs \<Rightarrow> checked_write_bulk E TYPE_U8 (add_u8_raw_bulk E) xs
      | ArrayU16 xs \<Rightarrow> checked_write_bulk E TYPE_U16 (add_u16_raw_bulk E) xs
      | ArrayU32 xs \<Rightarrow> checked_write_bulk E TYPE_U32 (add_u32_raw_bulk E) xs
      | ArrayU64 xs \<Rightarrow> checked_write_bulk E TYPE_U64 (add_u64_raw_bulk E) xs
      | ArrayI8 xs \<Rightarrow> checked_write_bulk E TYPE_I8 (add_i8_raw_bulk E) xs
      | ArrayI16 xs \<Rightarrow> checked_write_bulk E TYPE_I16 (add_i16_raw_bulk E) xs
      | ArrayI32 xs \<Rightarrow> checked_write_bulk E TYPE_I32 (add_i32_raw_bulk E) xs
      | ArrayI64 xs \<Rightarrow> checked_write_bulk E TYPE_I64 (add_i64_raw_bulk E) xs
      | ArrayF32 xs \<Rightarrow> checked_write_bulk E TYPE_F32 (add_f32_raw_bulk E) xs
      | ArrayF64 xs \<Rightarrow> checked_write_bulk E TYPE_F64 (add_f64_raw_bulk E) xs
      | ArrayString xs \<Rightarrow>
          act_bind (buf_put (add_array_primitive E TYPE_STRING (word_of_nat (length xs)))) (\<lambda>_.
            act_each (\<lambda>s. buf_put (add_string_raw E s)) xs)
      | _ \<Rightarrow> (\<lambda>_. None))"

definition checked_begin_struct :: "crates \<Rightarrow> uuid \<Rightarrow> nat \<Rightarrow> (BufferWriter, unit) wire" where
  "checked_begin_struct E i field_count = buf_put (begin_structure E (as_bytes E i) (word_of_nat field_count))"

definition checked_begin_field :: "crates \<Rightarrow> uuid \<Rightarrow> (BufferWriter, unit) wire" where
  "checked_begin_field E i = buf_put (add_structure_field E (as_bytes E i))"

definition checked_begin_struct_array :: "crates \<Rightarrow> uuid \<Rightarrow> nat \<Rightarrow> (BufferWriter, unit) wire" where
  "checked_begin_struct_array E element_id len =
     buf_put (add_array_structure E (as_bytes E element_id) (word_of_nat len))"

definition checked_begin_struct_element :: "crates \<Rightarrow> nat \<Rightarrow> (BufferWriter, unit) wire" where
  "checked_begin_struct_element E field_count = buf_put (begin_structure_raw E (word_of_nat field_count))"

definition checked_begin_option :: "crates \<Rightarrow> bool \<Rightarrow> (BufferWriter, unit) wire" where
  "checked_begin_option E present = buf_put (if present then add_option_some E else add_option_none E)"

text \<open>Fixed arrays are left to their defaults, the methods for arrays of any length.\<close>

definition checked_writer :: "crates \<Rightarrow> BufferWriter ValueWriter" where
  "checked_writer E = \<lparr>vw_unit = buf_put (add_unit E), vw_scalar = checked_write_scalar E, vw_array = checked_write_array E,
     vw_fixed_array = checked_write_array E,
     vw_begin_struct = checked_begin_struct E,
     vw_begin_field = checked_begin_field E,
     vw_begin_struct_array = checked_begin_struct_array E,
     vw_begin_struct_element = checked_begin_struct_element E,
     vw_begin_fixed_struct_array = checked_begin_struct_array E,
     vw_begin_option = checked_begin_option E\<rparr>"

section \<open>Reading\<close>

definition expect_tag :: "crates \<Rightarrow> byte \<Rightarrow> (BufferReader, unit) wire" where
  "expect_tag E expected r =
     (case next_type E r of
        Some (tag, r) \<Rightarrow> if tag = expected then act_return () r else act_fail (OtherTag expected (Some tag)) r
      | None \<Rightarrow> act_fail (OtherTag expected None) r)"

definition uuid_from :: "crates \<Rightarrow> byte list \<Rightarrow> (BufferReader, uuid) wire" where
  "uuid_from E bytes = (case from_slice E bytes of Some u \<Rightarrow> act_return u | None \<Rightarrow> act_fail InvalidUuid)"

definition prim_tag :: "Prim \<Rightarrow> byte" where
  "prim_tag p =
     (case p of
        PBool \<Rightarrow> TYPE_BOOLEAN | PU8 \<Rightarrow> TYPE_U8 | PU16 \<Rightarrow> TYPE_U16 | PU32 \<Rightarrow> TYPE_U32 | PU64 \<Rightarrow> TYPE_U64
      | PI8 \<Rightarrow> TYPE_I8 | PI16 \<Rightarrow> TYPE_I16 | PI32 \<Rightarrow> TYPE_I32 | PI64 \<Rightarrow> TYPE_I64
      | PF32 \<Rightarrow> TYPE_F32 | PF64 \<Rightarrow> TYPE_F64 | PString \<Rightarrow> TYPE_STRING)"

text \<open>The \<open>get\<close> of each primitive, which its scalar method and the loop of its array method call.\<close>

definition prim_get :: "crates \<Rightarrow> Prim \<Rightarrow> (BufferReader, Value) wire" where
  "prim_get E p =
     (case p of
        PBool \<Rightarrow> act_bind (buf_get (get_boolean E)) (\<lambda>x. act_return (Boolean x))
      | PU8 \<Rightarrow> act_bind (buf_get (reader_u8 E)) (\<lambda>x. act_return (U8 x))
      | PU16 \<Rightarrow> act_bind (buf_get (reader_u16 E)) (\<lambda>x. act_return (U16 x))
      | PU32 \<Rightarrow> act_bind (buf_get (reader_u32 E)) (\<lambda>x. act_return (U32 x))
      | PU64 \<Rightarrow> act_bind (buf_get (reader_u64 E)) (\<lambda>x. act_return (U64 x))
      | PI8 \<Rightarrow> act_bind (buf_get (reader_i8 E)) (\<lambda>x. act_return (I8 x))
      | PI16 \<Rightarrow> act_bind (buf_get (reader_i16 E)) (\<lambda>x. act_return (I16 x))
      | PI32 \<Rightarrow> act_bind (buf_get (reader_i32 E)) (\<lambda>x. act_return (I32 x))
      | PI64 \<Rightarrow> act_bind (buf_get (reader_i64 E)) (\<lambda>x. act_return (I64 x))
      | PF32 \<Rightarrow> act_bind (buf_get (reader_f32 E)) (\<lambda>x. act_return (F32 x))
      | PF64 \<Rightarrow> act_bind (buf_get (reader_f64 E)) (\<lambda>x. act_return (F64 x))
      | PString \<Rightarrow> act_bind (buf_get (get_string E)) (\<lambda>x. act_return (VString x)))"

definition checked_read_scalar :: "crates \<Rightarrow> Prim \<Rightarrow> (BufferReader, Value) wire" where
  "checked_read_scalar E p = act_bind (expect_tag E (prim_tag p)) (\<lambda>_. prim_get E p)"

definition checked_enter_scalar_array :: "crates \<Rightarrow> byte \<Rightarrow> (BufferReader, nat) wire" where
  "checked_enter_scalar_array E expected_tag =
     act_bind (expect_tag E TYPE_ARRAY) (\<lambda>_.
     act_bind (buf_get (get_array E)) (\<lambda>(tag, count).
       if tag \<noteq> expected_tag then act_fail (OtherTag expected_tag (Some tag)) else act_return (unat count)))"

definition checked_read_items :: "crates \<Rightarrow> Prim \<Rightarrow> nat \<Rightarrow> (BufferReader, Value) wire" where
  "checked_read_items E p len = act_bind (act_times len (prim_get E p)) (\<lambda>items. act_return (gathered p items))"

definition checked_read_array :: "crates \<Rightarrow> Prim \<Rightarrow> (BufferReader, Value) wire" where
  "checked_read_array E p =
     act_bind (checked_enter_scalar_array E (prim_tag p)) (\<lambda>len.
       if p = PString then checked_read_items E p len
       else act_bind (\<lambda>r. map_option (\<lambda>r. (Inr (), r)) (reader_align r)) (\<lambda>_. checked_read_items E p len))"

definition checked_enter_struct :: "crates \<Rightarrow> uuid \<Rightarrow> nat \<Rightarrow> (BufferReader, unit) wire" where
  "checked_enter_struct E expected_id field_count =
     act_bind (expect_tag E TYPE_STRUCTURE) (\<lambda>_.
     act_bind (buf_get (get_structure E)) (\<lambda>(bytes, count).
     act_bind (uuid_from E bytes) (\<lambda>i.
       if i \<noteq> expected_id then act_fail (OtherStructureId i expected_id)
       else if unat count \<noteq> field_count then act_fail (OtherFieldCount (unat count) field_count)
       else act_return ())))"

definition checked_enter_option :: "crates \<Rightarrow> (BufferReader, bool) wire" where
  "checked_enter_option E = act_bind (expect_tag E TYPE_OPTION) (\<lambda>_. buf_get (get_option_presence E))"

definition checked_enter_field :: "crates \<Rightarrow> uuid \<Rightarrow> (BufferReader, unit) wire" where
  "checked_enter_field E expected_id =
     act_bind (buf_get (get_structure_field E)) (\<lambda>bytes.
     act_bind (uuid_from E bytes) (\<lambda>i.
       if i \<noteq> expected_id then act_fail (OtherFieldId i expected_id) else act_return ()))"

definition checked_enter_struct_array :: "crates \<Rightarrow> uuid \<Rightarrow> (BufferReader, nat) wire" where
  "checked_enter_struct_array E element_id =
     act_bind (expect_tag E TYPE_ARRAY) (\<lambda>_.
     act_bind (buf_get (get_array E)) (\<lambda>(tag, count).
       if tag \<noteq> TYPE_STRUCTURE then act_fail (OtherTag TYPE_STRUCTURE (Some tag))
       else act_bind (buf_get (get_uuid E)) (\<lambda>bytes.
            act_bind (uuid_from E bytes) (\<lambda>i.
              if i \<noteq> element_id then act_fail (OtherElementId i element_id) else act_return (unat count)))))"

definition checked_enter_struct_element :: "crates \<Rightarrow> nat \<Rightarrow> (BufferReader, unit) wire" where
  "checked_enter_struct_element E field_count =
     act_bind (buf_get (get_structure_raw E)) (\<lambda>count.
       if unat count \<noteq> field_count then act_fail (OtherFieldCount (unat count) field_count) else act_return ())"

definition checked_reader :: "crates \<Rightarrow> BufferReader ValueReader" where
  "checked_reader E = \<lparr>vr_unit = expect_tag E TYPE_UNIT, vr_scalar = checked_read_scalar E, vr_array = checked_read_array E,
     vr_fixed_array = (\<lambda>p _. checked_read_array E p),
     vr_enter_struct = checked_enter_struct E,
     vr_enter_field = checked_enter_field E,
     vr_enter_struct_array = checked_enter_struct_array E,
     vr_enter_struct_element = checked_enter_struct_element E,
     vr_enter_fixed_struct_array = default_fixed_struct_array (checked_enter_struct_array E),
     vr_enter_option = checked_enter_option E\<rparr>"

section \<open>Buffers\<close>

text \<open>A new writer, the walk, and \<open>finish\<close>; and a reader over the finished buffer.\<close>

definition checked_write :: "crates \<Rightarrow> nat \<Rightarrow> LowType \<Rightarrow> TypeRegistry \<Rightarrow> Value \<Rightarrow> (WalkError + byte list) option" where
  "checked_write E n ty registry v =
     (case write_value (checked_writer E) (write_by_ref n (checked_writer E) registry) ty v (BufferWriter_new E) of
        None \<Rightarrow> None
      | Some (Inl e, w) \<Rightarrow> Some (Inl e)
      | Some (Inr _, w) \<Rightarrow> map_option Inr (finalize w))"

definition checked_read :: "crates \<Rightarrow> nat \<Rightarrow> LowType \<Rightarrow> TypeRegistry \<Rightarrow> byte list \<Rightarrow> (WalkError + Value) option" where
  "checked_read E n ty registry buffer =
     (case BufferReader_new buffer of
        None \<Rightarrow> None
      | Some r \<Rightarrow> map_option fst (read_value (checked_reader E) (read_by_ref n (checked_reader E) registry) ty r))"

section \<open>The format keeps its promises\<close>

lemma buf_put_bind: "act_bind (buf_put f) (\<lambda>_. buf_put g) = buf_put (\<lambda>w. Option.bind (f w) g)"
  by (auto simp: fun_eq_iff act_bind_def buf_put_def split: Option.bind_splits)

lemma buf_put_then: "buf_put (\<lambda>w. g (f w)) = act_bind (buf_put (\<lambda>w. Some (f w))) (\<lambda>_. buf_put g)"
  by (simp add: buf_put_bind)

lemma buf_put_each: "act_each (\<lambda>x. buf_put (f x)) xs = buf_put (foldM f xs)"
proof (induction xs)
  case Nil
  then show ?case by (simp add: fun_eq_iff buf_put_def act_return_def)
next
  case (Cons x xs)
  have "foldM f (x # xs) = (\<lambda>w. Option.bind (f x w) (foldM f xs))" by (simp add: fun_eq_iff)
  then show ?case using Cons.IH by (simp add: buf_put_bind)
qed

lemma foldM_map: "foldM f (map g xs) = foldM (\<lambda>x. f (g x)) xs"
proof
  show "foldM f (map g xs) s = foldM (\<lambda>x. f (g x)) xs s" for s
    by (induction xs arbitrary: s) (auto split: Option.bind_splits)
qed

lemma carries_buf: "codec wr rd x \<Longrightarrow> carries reader_at (buf_put wr) (buf_get rd) x"
  by (fastforce simp: codec_def carries_def buf_put_def buf_get_def)

definition buf_align :: "(BufferReader, unit) wire" where
  "buf_align r = map_option (\<lambda>r. (Inr (), r)) (reader_align r)"

text \<open>The raw write of a scalar, which the loops over arrays call.\<close>

definition prim_put :: "crates \<Rightarrow> Value \<Rightarrow> BufferWriter \<Rightarrow> BufferWriter option" where
  "prim_put E v =
     (case v of
        Boolean x \<Rightarrow> add_boolean_raw E x | U8 x \<Rightarrow> add_u8_raw E x | U16 x \<Rightarrow> add_u16_raw E x | U32 x \<Rightarrow> add_u32_raw E x
      | U64 x \<Rightarrow> add_u64_raw E x | I8 x \<Rightarrow> add_i8_raw E x | I16 x \<Rightarrow> add_i16_raw E x | I32 x \<Rightarrow> add_i32_raw E x
      | I64 x \<Rightarrow> add_i64_raw E x | F32 x \<Rightarrow> add_f32_raw E x | F64 x \<Rightarrow> add_f64_raw E x | VString x \<Rightarrow> add_string_raw E x
      | _ \<Rightarrow> Some)"

lemmas adds = add_boolean_def add_u8_def add_u16_def add_u32_def add_u64_def add_i8_def add_i16_def add_i32_def
  add_i64_def add_f32_def add_f64_def add_string_def

lemmas bulks = add_boolean_raw_bulk_def add_u8_raw_bulk_def add_u16_raw_bulk_def add_u32_raw_bulk_def add_u64_raw_bulk_def
  add_i8_raw_bulk_def add_i16_raw_bulk_def add_i32_raw_bulk_def add_i64_raw_bulk_def add_f32_raw_bulk_def add_f64_raw_bulk_def

lemma write_scalar_parts:
  "is_scalar p v \<Longrightarrow>
   checked_write_scalar E v = act_bind (buf_put (\<lambda>w. Some (put_u8 E w (prim_tag p)))) (\<lambda>_. buf_put (prim_put E v))"
  by (auto simp: is_scalar_def checked_write_scalar_def prim_tag_def prim_put_def buf_put_bind adds [abs_def]
      split: Prim.splits Value.splits)

lemma write_array_parts:
  "is_array p v \<Longrightarrow>
   checked_write_array E v =
     act_bind (buf_put (add_array_primitive E (prim_tag p) (word_of_nat (length (array_items v))))) (\<lambda>_.
       if p = PString then act_each (\<lambda>x. buf_put (prim_put E x)) (array_items v)
       else act_bind (buf_put (\<lambda>w. Some (writer_align E w))) (\<lambda>_. act_each (\<lambda>x. buf_put (prim_put E x)) (array_items v)))"
  by (cases p; cases v)
    (simp_all add: is_array_def checked_write_array_def checked_write_bulk_def array_items_def prim_tag_def prim_put_def
      buf_put_each foldM_map buf_put_bind bulks [abs_def])

context buffer_crates
begin

lemma carries_tag: "carries reader_at (buf_put (\<lambda>w. Some (put_u8 E w t))) (expect_tag E t) ()"
  unfolding carries_def
proof
  fix w
  obtain bs where "put_u8 E w t = w @ bs" "\<And>rest. next_type E (reader_at w (bs @ rest)) = Some (t, reader_at (w @ bs) rest)"
    using codecE [OF codec_next_type, of w] by (metis option.inject)
  then show "\<exists>bs. buf_put (\<lambda>w. Some (put_u8 E w t)) w = Some (Inr (), w @ bs) \<and>
     (\<forall>rest. expect_tag E t (reader_at w (bs @ rest)) = Some (Inr (), reader_at (w @ bs) rest))"
    by (intro exI [of _ bs]) (simp add: buf_put_def expect_tag_def act_return_def)
qed

lemma carries_buf_align: "carries reader_at (buf_put (\<lambda>w. Some (writer_align E w))) buf_align ()"
proof -
  have "codec (\<lambda>w. Some (writer_align E w)) (\<lambda>r. Option.bind (reader_align r) (\<lambda>r. Some ((), r))) ()"
    using codec_aligned [OF codec_return] .
  moreover have "buf_get (\<lambda>r. Option.bind (reader_align r) (\<lambda>r. Some ((), r))) = buf_align"
    by (auto simp: fun_eq_iff buf_get_def buf_align_def split: Option.bind_splits)
  ultimately show ?thesis by (metis carries_buf)
qed

lemma carries_prim: "is_scalar p x \<Longrightarrow> storable x \<Longrightarrow> carries reader_at (buf_put (prim_put E x)) (prim_get E p) x"
  by (auto simp: is_scalar_def prim_put_def prim_get_def storable_string_def split: Prim.splits Value.splits
      intro!: carries_end [OF carries_buf] codec_boolean codec_u8 codec_u16 codec_u32 codec_u64
        codec_i8 codec_i16 codec_i32 codec_i64 codec_f32 codec_f64 codec_str)

lemma carries_checked_scalar:
  "is_scalar p v \<Longrightarrow> storable v \<Longrightarrow> carries reader_at (checked_write_scalar E v) (checked_read_scalar E p) v"
  unfolding checked_read_scalar_def by (simp add: write_scalar_parts carries_bind [OF carries_tag] carries_prim)

text \<open>The head of an array: its tag, then the tag and the number of its elements.\<close>

lemma codec_head:
  "codec (\<lambda>w. Some (put_u32_le E (put_u8 E w t) n)) (get_array E) (t, n)"
  unfolding get_array_def [abs_def]
  by (rule codec_after [OF codec_put_u8, where wb = "\<lambda>w. Some (put_u32_le E w n)"])
    (rule codec_map [OF codec_put_u32])

lemma carries_head:
  assumes "rb (t, n) = act_return y"
  shows "carries reader_at (buf_put (add_array_primitive E t n)) (act_bind (expect_tag E TYPE_ARRAY) (\<lambda>_. act_bind (buf_get (get_array E)) rb)) y"
  unfolding add_array_primitive_def [abs_def]
  using carries_bind [OF carries_tag [of TYPE_ARRAY] carries_end [OF carries_buf [OF codec_head], of rb t n y]] assms
  by (simp add: buf_put_bind)

lemma carries_checked_array:
  assumes "is_array p v" "storable v"
  shows "carries reader_at (checked_write_array E v) (checked_read_array E p) v"
proof -
  have "carries reader_at (act_each (\<lambda>x. buf_put (prim_put E x)) (array_items v))
     (act_times (length (array_items v)) (prim_get E p)) (map (\<lambda>x. x) (array_items v))"
    by (rule carries_times) (use items_scalar [OF assms] in \<open>auto intro: carries_prim\<close>)
  then have items: "carries reader_at (act_each (\<lambda>x. buf_put (prim_put E x)) (array_items v))
     (checked_read_items E p (length (array_items v))) v"
    using items_array [OF assms(1)] by (auto simp: checked_read_items_def intro!: carries_end)
  have n: "unat (word_of_nat (length (array_items v)) :: u32) = length (array_items v)"
    using storable_length [OF assms] by (rule unat_count)
  have "carries reader_at (buf_put (add_array_primitive E (prim_tag p) (word_of_nat (length (array_items v)))))
     (checked_enter_scalar_array E (prim_tag p)) (length (array_items v))"
    unfolding checked_enter_scalar_array_def by (rule carries_head) (simp add: n)
  then show ?thesis
    unfolding checked_read_array_def write_array_parts [OF assms(1)] buf_align_def [symmetric, abs_def]
    by (rule carries_bind) (use items in \<open>auto intro!: carries_bind [OF carries_buf_align]\<close>)
qed

lemma codec_count: "n < 2 ^ 32 \<Longrightarrow> unat (word_of_nat n :: u32) = n"
  by (rule unat_count)

lemma codec_structure_head:
  "codec (\<lambda>w. Option.bind (put_id E (as_bytes E i) w) (begin_structure_raw E n)) (get_structure E) (as_bytes E i, n)"
  unfolding get_structure_def [abs_def] get_structure_raw_def [abs_def]
  by (rule codec_bind [OF codec_id]) (simp add: begin_structure_raw_def [abs_def] codec_map [OF codec_put_u32])

lemma uuid_from_as_bytes [simp]: "uuid_from E (as_bytes E i) = act_return i"
  by (simp add: uuid_from_def from_as_bytes)

lemma carries_checked_struct: "n < 2 ^ 32 \<Longrightarrow> carries reader_at (checked_begin_struct E i n) (checked_enter_struct E i n) ()"
  unfolding checked_begin_struct_def checked_enter_struct_def begin_structure_def [abs_def]
  by (subst buf_put_then [where f = "\<lambda>w. put_u8 E w TYPE_STRUCTURE"])
    (rule carries_bind [OF carries_tag carries_end [OF carries_buf [OF codec_structure_head]]], simp add: codec_count)

lemma carries_checked_field: "carries reader_at (checked_begin_field E i) (checked_enter_field E i) ()"
  unfolding checked_begin_field_def checked_enter_field_def add_structure_field_def [abs_def] get_structure_field_def [abs_def]
  by (rule carries_end [OF carries_buf [OF codec_id]]) simp

lemma carries_checked_struct_array:
  "n < 2 ^ 32 \<Longrightarrow> carries reader_at (checked_begin_struct_array E i n) (checked_enter_struct_array E i) n"
proof -
  assume n: "n < 2 ^ 32"
  have head: "checked_begin_struct_array E i n =
     act_bind (buf_put (\<lambda>w. Some (put_u8 E w TYPE_ARRAY))) (\<lambda>_.
     act_bind (buf_put (\<lambda>w. Some (put_u32_le E (put_u8 E w TYPE_STRUCTURE) (word_of_nat n)))) (\<lambda>_.
       buf_put (put_id E (as_bytes E i))))"
    by (simp add: checked_begin_struct_array_def add_array_structure_def [abs_def] buf_put_bind)
  show ?thesis
    unfolding head checked_enter_struct_array_def
    by (rule carries_bind [OF carries_tag], rule carries_bind [OF carries_buf [OF codec_head]])
      (simp add: get_uuid_def [abs_def] carries_end [OF carries_buf [OF codec_id]] codec_count [OF n])
qed

lemma carries_checked_element:
  "n < 2 ^ 32 \<Longrightarrow> carries reader_at (checked_begin_struct_element E n) (checked_enter_struct_element E n) ()"
  unfolding checked_begin_struct_element_def checked_enter_struct_element_def begin_structure_raw_def [abs_def]
    get_structure_raw_def [abs_def]
  by (rule carries_end [OF carries_buf [OF codec_put_u32]]) (simp add: codec_count)

lemma carries_checked_option: "carries reader_at (checked_begin_option E b) (checked_enter_option E) b"
proof -
  have head: "checked_begin_option E b =
     act_bind (buf_put (\<lambda>w. Some (put_u8 E w TYPE_OPTION))) (\<lambda>_. buf_put (add_boolean_raw E b))"
    by (simp add: checked_begin_option_def buf_put_bind add_option_some_def [abs_def] add_option_none_def [abs_def]
        add_boolean_raw_def [abs_def])
  have "get_option_presence E = get_boolean E"
    by (simp add: fun_eq_iff get_option_presence_def get_boolean_def)
  then show ?thesis
    unfolding head checked_enter_option_def by (simp add: carries_bind [OF carries_tag] carries_buf [OF codec_boolean])
qed

lemma carries_checked_unit: "carries reader_at (buf_put (add_unit E)) (expect_tag E TYPE_UNIT) ()"
  using carries_tag [of TYPE_UNIT] by (simp add: add_unit_def [abs_def])

end

sublocale buffer_crates \<subseteq> checked: wire_format "checked_writer E" "checked_reader E" reader_at
  by unfold_locales
    (simp_all add: checked_writer_def checked_reader_def default_fixed_struct_array_def
      carries_checked_unit carries_checked_scalar carries_checked_array carries_checked_struct carries_checked_field
      carries_checked_struct_array carries_checked_element carries_checked_option carries_end [OF carries_checked_struct_array])

section \<open>The same bytes as the other serialization\<close>

lemma act_each_cong: "(\<And>x. x \<in> set xs \<Longrightarrow> f x = g x) \<Longrightarrow> act_each f xs = act_each g xs"
  by (induction xs) auto

lemma scalar_serializes:
  "writes (write_scalar (checked_writer E) i v) \<Longrightarrow> write_scalar (checked_writer E) i v = buf_put (serialize_to_writer E v)"
proof -
  have "is_scalar p v \<Longrightarrow> checked_write_scalar E v = buf_put (serialize_to_writer E v)" for p
    by (cases v) (simp_all add: is_scalar_def checked_write_scalar_def fun_eq_iff buf_put_def split: Prim.splits)
  then show "writes (write_scalar (checked_writer E) i v) \<Longrightarrow> write_scalar (checked_writer E) i v = buf_put (serialize_to_writer E v)"
    by (auto simp: write_scalar_def checked_writer_def fun_eq_iff buf_put_def split: if_splits option.splits)
qed

lemma bulk_serializes: "is_array p v \<Longrightarrow> checked_write_array E v = buf_put (serialize_to_writer E v)"
  by (cases v)
    (simp_all add: is_array_def checked_write_array_def checked_write_bulk_def buf_put_each buf_put_bind
      fun_eq_iff buf_put_def split: Prim.splits)

lemma scalar_array_serializes:
  "writes (write_scalar_array (checked_writer E) i v) \<Longrightarrow>
     write_scalar_array (checked_writer E) i v = buf_put (serialize_to_writer E v)"
  "writes (write_fixed_scalar_array (checked_writer E) i n v) \<Longrightarrow>
     write_fixed_scalar_array (checked_writer E) i n v = buf_put (serialize_to_writer E v)"
  by (auto simp: write_scalar_array_def write_fixed_scalar_array_def checked_writer_def bulk_serializes
      split: if_splits option.splits)

abbreviation serialize_fields :: "crates \<Rightarrow> Value StructureField list \<Rightarrow> BufferWriter \<Rightarrow> BufferWriter option" where
  "serialize_fields E \<equiv> foldM (\<lambda>field w. Option.bind (add_structure_field E (as_bytes E (sf_id field)) w)
     (serialize_to_writer E (sf_value field)))"

lemma fields_serialize:
  assumes "\<And>ref v. writes (bw ref v) \<Longrightarrow> bw ref v = buf_put (serialize_to_writer E (fr ref v))"
    and "writes (write_fields (checked_writer E) bw st items)"
  shows "write_fields (checked_writer E) bw st items = buf_put (serialize_fields E (framed_fields fr st items))"
proof -
  have ok: "sf_id y = fst x \<and> writes (bw (lf_type_ref (snd x)) (sf_value y))" if "(x, y) \<in> set (zip (ls_fields st) items)" for x y
    using writes_each [OF assms(2) [unfolded write_fields_def] that]
    by (auto split: if_splits prod.splits dest: writes_bind)
  have eq: "sf_id y = fst x \<and> bw (lf_type_ref (snd x)) (sf_value y) = buf_put (serialize_to_writer E (fr (lf_type_ref (snd x)) (sf_value y)))"
    if "(x, y) \<in> set (zip (ls_fields st) items)" for x y
    using ok [OF that] assms(1) by blast
  show ?thesis
    unfolding write_fields_def framed_fields_def foldM_map buf_put_each [symmetric]
    by (rule act_each_cong)
      (auto dest!: eq simp: buf_put_bind checked_writer_def checked_begin_field_def)
qed

lemma framed_fields_length: "length items = length (ls_fields st) \<Longrightarrow> length (framed_fields fr st items) = length (ls_fields st)"
  by (simp add: framed_fields_def)

lemma serialize_structure:
  "serialize_to_writer E (Structure s) = (\<lambda>w. Option.bind (begin_structure E (as_bytes E (st_id s)) (word_of_nat (length (st_fields s))) w)
     (serialize_fields E (st_fields s)))"
  by (simp add: fun_eq_iff)

lemma value_serializes:
  assumes bw: "\<And>ref v. writes (bw ref v) \<Longrightarrow> bw ref v = buf_put (serialize_to_writer E (fr ref v))"
    and "writes (write_value (checked_writer E) bw ty v)"
  shows "write_value (checked_writer E) bw ty v = buf_put (serialize_to_writer E (framed_value fr ty v))"
proof (cases "lt_kind ty")
  case (KStructure st)
  then obtain s where v: "v = Structure s"
    using assms(2) by (cases v) (simp_all add: write_value_def write_structure_def)
  then have id: "st_id s = lt_id ty"
    using assms(2) KStructure by (auto simp: write_value_def write_structure_def split: if_splits)
  then have ok: "length (st_fields s) = length (ls_fields st)" "writes (write_fields (checked_writer E) bw st (st_fields s))"
    using assms(2) KStructure v
    by (auto simp: write_value_def write_structure_def write_structure_fields_def dest!: writes_counted)
  have "vw_begin_struct (checked_writer E) i n = buf_put (begin_structure E (as_bytes E i) (word_of_nat n))" for i n
    by (simp add: checked_writer_def checked_begin_struct_def)
  with ok(1) fields_serialize [OF bw ok(2)] KStructure v id show ?thesis
    by (simp add: write_value_def write_structure_def write_structure_fields_def framed_value_def check_field_count_def
        framed_fields_length buf_put_bind serialize_structure)
qed (use assms in \<open>auto simp: write_value_def framed_value_def\<close>)

lemma serialize_structures:
  "serialize_to_writer E (ArrayStructure i es) = (\<lambda>w. Option.bind (add_array_structure E (as_bytes E i) (word_of_nat (length es)) w)
     (foldM (\<lambda>e w. Option.bind (begin_structure_raw E (word_of_nat (length (sw_fields e))) w) (serialize_fields E (sw_fields e))) es))"
  "serialize_to_writer E (VOption (Some v)) = (\<lambda>w. Option.bind (add_option_some E w) (serialize_to_writer E v))"
  "serialize_to_writer E (VOption None) = add_option_none E"
  by (simp_all add: fun_eq_iff)

lemma elements_serialize:
  assumes bw: "\<And>ref v. writes (bw ref v) \<Longrightarrow> bw ref v = buf_put (serialize_to_writer E (fr ref v))"
    and "writes (write_elements (checked_writer E) bw st es)"
  shows "act_bind (checked_begin_struct_array E i (length es)) (\<lambda>_. write_elements (checked_writer E) bw st es) =
     buf_put (serialize_to_writer E (ArrayStructure i (map (\<lambda>e. StructureWithoutId (framed_fields fr st (sw_fields e))) es)))"
proof -
  have "write_elements (checked_writer E) bw st es = act_each (\<lambda>e. buf_put (\<lambda>w.
      Option.bind (begin_structure_raw E (word_of_nat (length (framed_fields fr st (sw_fields e)))) w)
        (serialize_fields E (framed_fields fr st (sw_fields e))))) es"
    unfolding write_elements_def
  proof (rule act_each_cong)
    fix e assume "e \<in> set es"
    then have ok: "length (sw_fields e) = length (ls_fields st)" "writes (write_fields (checked_writer E) bw st (sw_fields e))"
      using writes_each [OF assms(2) [unfolded write_elements_def]] by (auto dest!: writes_counted)
    have "vw_begin_struct_element (checked_writer E) n = buf_put (begin_structure_raw E (word_of_nat n))" for n
      by (simp add: checked_writer_def checked_begin_struct_element_def)
    with ok(1) fields_serialize [OF bw ok(2)] show "act_bind (act_lift (check_field_count st (sw_fields e))) (\<lambda>_.
         act_bind (vw_begin_struct_element (checked_writer E) (length (ls_fields st))) (\<lambda>_.
           write_fields (checked_writer E) bw st (sw_fields e))) =
       buf_put (\<lambda>w. Option.bind (begin_structure_raw E (word_of_nat (length (framed_fields fr st (sw_fields e)))) w)
         (serialize_fields E (framed_fields fr st (sw_fields e))))"
      by (simp add: check_field_count_def framed_fields_length buf_put_bind)
  qed
  then show ?thesis
    by (simp add: buf_put_each checked_begin_struct_array_def buf_put_bind foldM_map serialize_structures)
qed

lemma array_serializes:
  assumes bw: "\<And>ref v. writes (bw ref v) \<Longrightarrow> bw ref v = buf_put (serialize_to_writer E (fr ref v))"
  shows "writes (write_array (checked_writer E) bw i registry v) \<Longrightarrow>
      write_array (checked_writer E) bw i registry v = buf_put (serialize_to_writer E (framed_array fr i registry v))"
    and "writes (write_fixed_array (checked_writer E) bw i n registry v) \<Longrightarrow>
      write_fixed_array (checked_writer E) bw i n registry v = buf_put (serialize_to_writer E (framed_array fr i registry v))"
proof -
  have heads: "vw_begin_struct_array (checked_writer E) = checked_begin_struct_array E"
    "vw_begin_fixed_struct_array (checked_writer E) = checked_begin_struct_array E"
    by (simp_all add: checked_writer_def)
  note parts = write_array_def write_fixed_array_def framed_array_def scalar_array_serializes heads
  show "writes (write_array (checked_writer E) bw i registry v) \<Longrightarrow>
      write_array (checked_writer E) bw i registry v = buf_put (serialize_to_writer E (framed_array fr i registry v))"
    using elements_serialize [OF bw]
    by (auto simp: parts split: option.splits TypeKind.splits Value.splits if_splits dest: writes_bind
        simp del: serialize_to_writer.simps)
  show "writes (write_fixed_array (checked_writer E) bw i n registry v) \<Longrightarrow>
      write_fixed_array (checked_writer E) bw i n registry v = buf_put (serialize_to_writer E (framed_array fr i registry v))"
    using elements_serialize [OF bw]
    by (auto simp: parts split: option.splits TypeKind.splits Value.splits if_splits dest: writes_bind
        simp del: serialize_to_writer.simps)
qed

lemma walk_serializes:
  "writes (write_by_ref n (checked_writer E) registry ref v) \<Longrightarrow>
   write_by_ref n (checked_writer E) registry ref v = buf_put (serialize_to_writer E (framed n registry ref v))"
proof (induction n arbitrary: ref v)
  case (Suc n)
  have present: "act_bind (vw_begin_option (checked_writer E) True) (\<lambda>_. write_by_ref n (checked_writer E) registry (Scalar i) x) =
      buf_put (serialize_to_writer E (VOption (Some (framed n registry (Scalar i) x))))"
    if "writes (act_bind (vw_begin_option (checked_writer E) True) (\<lambda>_. write_by_ref n (checked_writer E) registry (Scalar i) x))"
    for i x
  proof -
    have "vw_begin_option (checked_writer E) True = buf_put (add_option_some E)"
      by (simp add: checked_writer_def checked_begin_option_def)
    then show ?thesis
      using Suc.IH [of "Scalar i" x] writes_bind [OF that] by (simp add: buf_put_bind serialize_structures(2))
  qed
  have absent: "vw_begin_option (checked_writer E) False = buf_put (serialize_to_writer E (VOption None))"
    by (simp add: checked_writer_def checked_begin_option_def serialize_structures(3))
  show ?case
  proof (cases ref)
    case (Scalar i)
    then show ?thesis
      using Suc scalar_serializes [of E i v] value_serializes [OF Suc.IH]
      by (auto simp: write_named_def framed_named_def split: if_splits option.splits)
  next
    case (TOptionOf i)
    then show ?thesis
      using Suc.prems present [of i] absent
      by (auto split: Value.splits option.splits simp del: serialize_to_writer.simps)
  qed (use Suc array_serializes [OF Suc.IH] in auto)
qed simp

section \<open>Properties\<close>

lemma written_walk:
  assumes "checked_write E n ty registry v = Some (Inr buffer)"
  obtains w where "write_value (checked_writer E) (write_by_ref n (checked_writer E) registry) ty v (BufferWriter_new E) = Some (Inr (), w)"
    "finalize w = Some buffer"
proof -
  obtain r w where walk: "write_value (checked_writer E) (write_by_ref n (checked_writer E) registry) ty v (BufferWriter_new E) = Some (r, w)"
    using assms by (auto simp: checked_write_def split: option.splits)
  with assms that show thesis by (cases r) (auto simp: checked_write_def)
qed

text \<open>
  C11. A value written through the walk into an Arora Buffer gives, byte for byte, the buffer the
  untyped serialization gives for the value as its type frames it: bare values where the type declares
  an option are present ones.
\<close>

theorem walk_writes_serialization:
  assumes "checked_write E n ty registry v = Some (Inr buffer)"
  shows "serialize E (framed_value (framed n registry) ty v) = Some buffer"
proof -
  obtain w where w: "write_value (checked_writer E) (write_by_ref n (checked_writer E) registry) ty v (BufferWriter_new E) = Some (Inr (), w)"
    "finalize w = Some buffer"
    using written_walk [OF assms] .
  then have "writes (write_value (checked_writer E) (write_by_ref n (checked_writer E) registry) ty v)"
    unfolding writes_def by blast
  then have "write_value (checked_writer E) (write_by_ref n (checked_writer E) registry) ty v =
      buf_put (serialize_to_writer E (framed_value (framed n registry) ty v))"
    by (rule value_serializes [rotated]) (rule walk_serializes)
  with w show ?thesis by (simp add: serialize_def buf_put_def)
qed

definition point_type :: LowType where
  "point_type = \<lparr>lt_name = ''Point'', lt_id = 48, lt_description = [], lt_kind = KStructure \<lparr>ls_fields =
     [(49, \<lparr>lf_name = ''x'', lf_type_ref = Scalar I32_ID\<rparr>), (50, \<lparr>lf_name = ''rate'', lf_type_ref = TOptionOf U8_ID\<rparr>)]\<rparr>\<rparr>"

definition shape_type :: LowType where
  "shape_type = \<lparr>lt_name = ''Shape'', lt_id = 64, lt_description = [], lt_kind = KStructure \<lparr>ls_fields =
     [(65, \<lparr>lf_name = ''points'', lf_type_ref = Array 48\<rparr>), (66, \<lparr>lf_name = ''flags'', lf_type_ref = FixedArray BOOLEAN_ID 2\<rparr>)]\<rparr>\<rparr>"

definition shape_value :: Value where
  "shape_value = Structure (MkStructure 64
     [StructureField 65 (ArrayStructure 48 [StructureWithoutId [StructureField 49 (I32 7), StructureField 50 (U8 3)]]),
      StructureField 66 (ArrayBoolean [True, False])])"

definition framed_shape :: Value where
  "framed_shape = Structure (MkStructure 64
     [StructureField 65 (ArrayStructure 48 [StructureWithoutId [StructureField 49 (I32 7), StructureField 50 (VOption (Some (U8 3)))]]),
      StructureField 66 (ArrayBoolean [True, False])])"

definition shape_buffer :: "byte list" where
  "shape_buffer = (case checked_write std_crates 3 shape_type [(48, point_type)] shape_value of Some (Inr b) \<Rightarrow> b | _ \<Rightarrow> [])"

lemma shape_written: "checked_write std_crates 3 shape_type [(48, point_type)] shape_value = Some (Inr shape_buffer)"
  by code_simp

lemma shape_framed: "framed_value (framed 3 [(48, point_type)]) shape_type shape_value = framed_shape"
  by code_simp

theorem walk_writes_serialization_witness: "serialize std_crates framed_shape = Some shape_buffer"
  using walk_writes_serialization [OF shape_written] unfolding shape_framed .

context buffer_crates
begin

lemma checked_reads_back:
  assumes "checked_write E n ty registry v = Some (Inr buffer)" "storable v"
  shows "checked_read E n ty registry buffer = Some (Inr (framed_value (framed n registry) ty v))"
proof -
  let ?wr = "write_value (checked_writer E) (write_by_ref n (checked_writer E) registry) ty v"
  obtain w where w: "?wr (BufferWriter_new E) = Some (Inr (), w)" "finalize w = Some buffer"
    using written_walk [OF assms(1)] .
  then have "writes ?wr" unfolding writes_def by blast
  then have "carries reader_at ?wr (read_value (checked_reader E) (read_by_ref n (checked_reader E) registry) ty)
     (framed_value (framed n registry) ty v)"
    using assms(2) by (intro checked.carries_value checked.walk_carries)
  from carriesE [OF this, of "BufferWriter_new E"] obtain bs where "?wr (BufferWriter_new E) = Some (Inr (), BufferWriter_new E @ bs)"
    and read: "\<And>rest. read_value (checked_reader E) (read_by_ref n (checked_reader E) registry) ty (reader_at (BufferWriter_new E) (bs @ rest)) =
      Some (Inr (framed_value (framed n registry) ty v), reader_at (BufferWriter_new E @ bs) rest)"
    by blast
  with w have bs: "w = BufferWriter_new E @ bs" by simp
  have "buffer = le_bytes 4 (word_of_nat (4 + length bs) :: u32) @ bs" "BufferReader_new buffer = Some (reader_at (BufferWriter_new E) bs)"
    using w(2) by (auto simp: bs finalize_def BufferWriter_new_def puts BufferReader_new_def reader_at_def)
  with read [of "[]"] show ?thesis by (simp add: checked_read_def)
qed

text \<open>A fixed array is read as an array of any length.\<close>

lemma any_length_read:
  assumes "is_array p v" "storable v" "scalar_prim i = Some p"
    and "checked_write E (Suc 0) \<lparr>lt_name = name, lt_id = j, lt_description = text, lt_kind = KPrimitive (Array i)\<rparr> [] v = Some (Inr buffer)"
  shows "checked_read E (Suc 0) \<lparr>lt_name = name, lt_id = j, lt_description = text, lt_kind = KPrimitive (FixedArray i len)\<rparr> [] buffer = Some (Inr v)"
  using checked_reads_back [OF assms(4,2)] assms(1,3)
  by (auto simp: checked_read_def framed_value_def framed_array_def read_value_def read_array_def read_fixed_array_def
      read_scalar_array_def read_fixed_scalar_array_def checked_reader_def split: option.splits)

end

text \<open>
  C12. A value written through the walk into an Arora Buffer reads back through the walk, against the
  same type, as the value its type frames it to be.
\<close>

theorem checked_round_trip:
  assumes "buffer_crates E" "checked_write E n ty registry v = Some (Inr buffer)" "storable v"
  shows "checked_read E n ty registry buffer = Some (Inr (framed_value (framed n registry) ty v))"
  using buffer_crates.checked_reads_back [OF assms] .

theorem checked_round_trip_witness:
  "checked_read std_crates 3 shape_type [(48, point_type)] shape_buffer = Some (Inr framed_shape)"
  using checked_round_trip [OF std.buffer_crates_axioms shape_written] unfolding shape_framed
  by (simp add: shape_value_def)

text \<open>
  The buffer's reader does not check the length of a fixed array of scalars: an array written as
  one of any length reads as a fixed array of any other.
\<close>

theorem fixed_length_unchecked:
  assumes "buffer_crates E" "is_array p v" "storable v" "scalar_prim i = Some p"
    and "checked_write E (Suc 0) \<lparr>lt_name = name, lt_id = j, lt_description = text, lt_kind = KPrimitive (Array i)\<rparr> [] v = Some (Inr buffer)"
  shows "checked_read E (Suc 0) \<lparr>lt_name = name, lt_id = j, lt_description = text, lt_kind = KPrimitive (FixedArray i len)\<rparr> [] buffer = Some (Inr v)"
  using buffer_crates.any_length_read [OF assms] .

definition bytes_buffer :: "byte list" where
  "bytes_buffer = (case checked_write std_crates (Suc 0)
       \<lparr>lt_name = [], lt_id = 1, lt_description = [], lt_kind = KPrimitive (Array U8_ID)\<rparr> [] (ArrayU8 [7, 8, 9]) of
     Some (Inr b) \<Rightarrow> b | _ \<Rightarrow> [])"

theorem fixed_length_unchecked_witness:
  "checked_read std_crates (Suc 0) \<lparr>lt_name = [], lt_id = 1, lt_description = [], lt_kind = KPrimitive (FixedArray U8_ID 2)\<rparr> []
     bytes_buffer = Some (Inr (ArrayU8 [7, 8, 9]))"
  by (rule fixed_length_unchecked [of _ PU8], rule std.buffer_crates_axioms, code_simp, simp, code_simp, code_simp)

end
