(* ===== verification/Vfs.thy ===== *)
theory Vfs
  imports Steps
begin

text \<open>
  The virtual file system (\<open>crates/arora-vfs/src/lib.rs\<close>): a tree of directories and files in memory.
  A path is the list of its components; one that is not Unicode is \<open>None\<close>. An operation that answers a
  mutable reference changes the tree only where it says, and answers the entry the reference is to.
  Writing the tree to a disk (\<open>sync\<close>) is not modelled.
\<close>

section \<open>Entries\<close>

datatype Entry = File "byte list" | Directory "(string \<times> Entry) list"

type_synonym Directory = "(string, Entry) hash_map"

type_synonym Path = "string option list"

datatype VfsError = AlreadyExists string | NotFound Path | InvalidPath | EmptyPath | NoFileName | ParentNotDirectory Path

type_synonym 'a vfs = "(VfsError, Directory, 'a) step"

definition new_directory :: Entry where
  "new_directory = Directory []"

section \<open>Operations\<close>

text \<open>\<open>get\<close> and \<open>get_mut\<close> are \<open>hm_get\<close>. The loop of \<open>get_mut_at_path\<close>, from an entry on.\<close>

fun get_from :: "Entry \<Rightarrow> Path \<Rightarrow> Entry option" where
  "get_from entry [] = Some entry"
| "get_from (Directory d) (Some n # path) =
     (case hm_get d n of None \<Rightarrow> None | Some entry \<Rightarrow> get_from entry path)"
| "get_from _ _ = None"

fun get_at_path :: "Directory \<Rightarrow> Path \<Rightarrow> Entry option" where
  "get_at_path d [] = None"
| "get_at_path d (None # path) = None"
| "get_at_path d (Some n # path) =
     (case hm_get d n of None \<Rightarrow> None | Some entry \<Rightarrow> get_from entry path)"

definition vfs_insert :: "string \<Rightarrow> Entry \<Rightarrow> Entry vfs" where
  "vfs_insert name entry d =
     (case hm_get d name of
        Some _ \<Rightarrow> act_fail (AlreadyExists name) d
      | None \<Rightarrow> act_return entry (hm_insert name entry d))"

text \<open>An operation on the directory a mutable reference at a path is to, within the whole tree.\<close>

fun on_directory :: "Path \<Rightarrow> 'a vfs \<Rightarrow> 'a vfs" where
  "on_directory [] m d = m d"
| "on_directory (Some n # path) m d =
     (case hm_get d n of
        Some (Directory d') \<Rightarrow> map_option (\<lambda>(r, d''). (r, hm_insert n (Directory d'') d)) (on_directory path m d')
      | _ \<Rightarrow> None)"
| "on_directory (None # path) m d = None"

text \<open>\<open>Path::file_name\<close> is the last component, and \<open>Path::parent\<close> the others: of one component, the empty path.\<close>

definition insert_at_path :: "Path \<Rightarrow> Entry \<Rightarrow> Entry vfs" where
  "insert_at_path path entry d =
     (if path = [] then act_fail NoFileName d
      else case last path of
          None \<Rightarrow> act_fail InvalidPath d
        | Some name \<Rightarrow>
           (case get_at_path d (butlast path) of
              None \<Rightarrow> act_fail (NotFound path) d
            | Some (Directory _) \<Rightarrow> on_directory (butlast path) (vfs_insert name entry) d
            | Some (File _) \<Rightarrow> act_fail (ParentNotDirectory path) d))"

definition get_mut_or_insert :: "string \<Rightarrow> Entry \<Rightarrow> Directory \<Rightarrow> Entry \<times> Directory" where
  "get_mut_or_insert name fresh d =
     (case hm_get d name of Some entry \<Rightarrow> (entry, d) | None \<Rightarrow> (fresh, hm_insert name fresh d))"

definition vfs_remove :: "string \<Rightarrow> Directory \<Rightarrow> Directory" where
  "vfs_remove name d = hm_remove name d"

text \<open>
  \<open>ensure_directories\<close>: the first component, then its loop over the rest, inside the entry the last
  one answered. What is inserted stays when a later component is refused. The panic of \<open>expect\<close> is \<open>None\<close>.
\<close>

fun ensure_from :: "Entry \<Rightarrow> Path \<Rightarrow> ((VfsError + unit) \<times> Entry) option" where
  "ensure_from (Directory d) [] = Some (Inr (), Directory d)"
| "ensure_from (File data) [] = None"
| "ensure_from entry (None # path) = Some (Inl InvalidPath, entry)"
| "ensure_from (File data) (Some n # path) = Some (Inl (AlreadyExists n), File data)"
| "ensure_from (Directory d) (Some n # path) =
     (let (entry, d) = get_mut_or_insert n new_directory d in
      map_option (\<lambda>(r, entry). (r, Directory (hm_insert n entry d))) (ensure_from entry path))"

fun ensure_directories :: "Path \<Rightarrow> unit vfs" where
  "ensure_directories [] d = act_fail EmptyPath d"
| "ensure_directories (None # path) d = act_fail InvalidPath d"
| "ensure_directories (Some n # path) d =
     (let (entry, d) = get_mut_or_insert n new_directory d in
      map_option (\<lambda>(r, entry). (r, hm_insert n entry d)) (ensure_from entry path))"

text \<open>\<open>list_all_mut\<close>: the files, with their paths' components.\<close>

fun list_entry :: "string list \<Rightarrow> Entry \<Rightarrow> (string list \<times> Entry) list" where
  "list_entry path (Directory d) = concat (map (\<lambda>(name, entry). list_entry (path @ [name]) entry) d)"
| "list_entry path (File data) = [(path, File data)]"

definition list_all_mut :: "Directory \<Rightarrow> (string list \<times> Entry) list" where
  "list_all_mut d = list_entry [] (Directory d)"

text \<open>\<open>merge_with\<close>: the entries of the one, merged with the other's of the same name, then the rest of the other's.\<close>

fun merge_with :: "Directory \<Rightarrow> Directory \<Rightarrow> Directory option"
  and merge_entry :: "Entry \<Rightarrow> Entry \<Rightarrow> Entry option"
  and merge_entries :: "Directory \<Rightarrow> Directory \<Rightarrow> Directory \<Rightarrow> Directory option" where
  "merge_with d other =
     map_option (\<lambda>entries. fold (\<lambda>(name, entry) entries. if hm_contains d name then entries else hm_insert name entry entries) other entries)
       (merge_entries d other [])"
| "merge_entry (File _) other = None"
| "merge_entry (Directory d) (File _) = None"
| "merge_entry (Directory d) (Directory other) = map_option Directory (merge_with d other)"
| "merge_entries [] other entries = Some entries"
| "merge_entries ((name, entry) # rest) other entries =
     (case hm_get other name of
        None \<Rightarrow> merge_entries rest other (hm_insert name entry entries)
      | Some other_entry \<Rightarrow>
         (case merge_entry entry other_entry of
            None \<Rightarrow> None
          | Some merged \<Rightarrow> merge_entries rest other (hm_insert name merged entries)))"

section \<open>What a tree holds\<close>

text \<open>What stands at a path: a file's bytes, or a directory. Names are distinct in every directory of a tree.\<close>

fun entry_kind :: "Entry \<Rightarrow> byte list + unit" where
  "entry_kind (File data) = Inl data"
| "entry_kind (Directory _) = Inr ()"

definition kind_from :: "Entry \<Rightarrow> Path \<Rightarrow> (byte list + unit) option" where
  "kind_from entry path = map_option entry_kind (get_from entry path)"

definition kind_at :: "Directory \<Rightarrow> Path \<Rightarrow> (byte list + unit) option" where
  "kind_at d path = map_option entry_kind (get_at_path d path)"

fun tree_ok :: "Entry \<Rightarrow> bool" where
  "tree_ok (File _) \<longleftrightarrow> True"
| "tree_ok (Directory d) \<longleftrightarrow> hm_ok d \<and> list_all (\<lambda>(_, entry). tree_ok entry) d"

lemma get_at_path_from: "get_at_path d path = (if path = [] then None else get_from (Directory d) path)"
  by (cases "(d, path)" rule: get_at_path.cases) auto

lemma kind_at_from: "path \<noteq> [] \<Longrightarrow> kind_at d path = kind_from (Directory d) path"
  by (simp add: kind_at_def kind_from_def get_at_path_from)

lemma kind_from_simps [simp]:
  "kind_from entry [] = Some (entry_kind entry)"
  "kind_from (File data) (c # path) = None"
  "kind_from (Directory d) (None # path) = None"
  "kind_from (Directory d) (Some n # path) = Option.bind (hm_get d n) (\<lambda>entry. kind_from entry path)"
  by (auto simp: kind_from_def split: option.splits)

text \<open>An inserted directory is empty: nothing but it is found in it.\<close>

lemma kind_from_new [simp]: "kind_from (Directory []) q = (if q = [] then Some (Inr ()) else None)"
  by (cases q; cases "hd q") auto

lemma entry_kind_cases: "entry_kind entry = Inl data \<longleftrightarrow> entry = File data" "entry_kind entry = Inr () \<longleftrightarrow> (\<exists>d. entry = Directory d)"
  by (cases entry; simp)+

lemma tree_ok_child: "tree_ok (Directory d) \<Longrightarrow> hm_get d n = Some entry \<Longrightarrow> tree_ok entry"
  by (auto simp: list_all_iff dest: map_of_SomeD)

section \<open>Listing\<close>

lemma list_entry_exact:
  "tree_ok entry \<Longrightarrow>
   (p, x) \<in> set (list_entry base entry) \<longleftrightarrow>
     (\<exists>q data. p = base @ q \<and> x = File data \<and> kind_from entry (map Some q) = Some (Inl data))"
proof (induction base entry arbitrary: p rule: list_entry.induct)
  case (1 base d)
  have "(p, x) \<in> set (list_entry base (Directory d)) \<longleftrightarrow>
      (\<exists>n entry. hm_get d n = Some entry \<and> (p, x) \<in> set (list_entry (base @ [n]) entry))"
    using 1 by (auto intro: map_of_is_SomeI dest: map_of_SomeD)
  also have "\<dots> \<longleftrightarrow> (\<exists>n entry q data. hm_get d n = Some entry \<and> p = base @ n # q \<and> x = File data \<and>
      kind_from entry (map Some q) = Some (Inl data))"
  proof -
    have "(p, x) \<in> set (list_entry (base @ [n]) entry) \<longleftrightarrow>
        (\<exists>q data. p = base @ n # q \<and> x = File data \<and> kind_from entry (map Some q) = Some (Inl data))"
      if "hm_get d n = Some entry" for n entry
      using 1(1) [OF map_of_SomeD [OF that] refl] tree_ok_child [OF 1(2) that] by auto
    then show ?thesis by blast
  qed
  also have "\<dots> \<longleftrightarrow> (\<exists>q data. p = base @ q \<and> x = File data \<and> kind_from (Directory d) (map Some q) = Some (Inl data))"
  proof safe
    fix q data assume "kind_from (Directory d) (map Some q) = Some (Inl data)"
    then show "\<exists>n entry q' data'. hm_get d n = Some entry \<and> base @ q = base @ n # q' \<and> File data = File data' \<and>
        kind_from entry (map Some q') = Some (Inl data')"
      by (cases q) (auto split: Option.bind_splits)
  next
    fix n entry q data
    assume "hm_get d n = Some entry" "kind_from entry (map Some q) = Some (Inl data)"
    then show "\<exists>q' data'. base @ n # q = base @ q' \<and> File data = File data' \<and>
        kind_from (Directory d) (map Some q') = Some (Inl data')"
      by (intro exI [of _ "n # q"]) simp
  qed
  finally show ?case .
next
  case (2 base data)
  have "kind_from (File data) (map Some q) = Some (Inl data') \<longleftrightarrow> q = [] \<and> data' = data" for q data'
    by (cases q) auto
  then show ?case by auto
qed

text \<open>
  The listing of a tree is exactly its files, each under its path.
\<close>

theorem list_all_exact:
  assumes "tree_ok (Directory d)"
  shows "(path, x) \<in> set (list_all_mut d) \<longleftrightarrow> (\<exists>data. x = File data \<and> kind_at d (map Some path) = Some (Inl data))"
  using list_entry_exact [OF assms, of path x "[]"]
  by (cases "path = []") (auto simp: list_all_mut_def kind_at_from simp del: list_entry.simps, simp add: kind_at_def)

theorem list_all_exact_witness:
  "(([''a'', ''b''], File [1]) \<in> set (list_all_mut [(''a'', Directory [(''b'', File [1])])]))"
  by (subst list_all_exact) (simp_all add: kind_at_def)

section \<open>Making directories\<close>

text \<open>A path that \<open>ensure_directories\<close> can take: no component that is not Unicode, no file on the way.\<close>

definition file_on :: "Entry \<Rightarrow> Path \<Rightarrow> bool" where
  "file_on entry path \<longleftrightarrow> (\<exists>p q data. path = p @ q \<and> kind_from entry p = Some (Inl data))"

lemma file_on_simps [simp]:
  "file_on (File data) path" "\<not> file_on (Directory d) []"
  "file_on (Directory d) (Some n # path) \<longleftrightarrow> (\<exists>entry. hm_get d n = Some entry \<and> file_on entry path)"
proof -
  show "file_on (File data) path" unfolding file_on_def by (intro exI [of _ "[]"] exI [of _ path] exI [of _ data]) simp
  show "\<not> file_on (Directory d) []" by (simp add: file_on_def)
  show "file_on (Directory d) (Some n # path) \<longleftrightarrow> (\<exists>entry. hm_get d n = Some entry \<and> file_on entry path)"
    unfolding file_on_def
    by (auto simp: Cons_eq_append_conv split: Option.bind_splits) (metis append_Cons bind.bind_lunit kind_from_simps(4))+
qed

lemma no_file_on_new [simp]: "\<not> file_on (Directory []) path"
  by (auto simp: file_on_def)

lemma ensure_from_file:
  "None \<notin> set path \<Longrightarrow> ensure_from entry path = None \<longleftrightarrow> (\<exists>data. kind_from entry path = Some (Inl data))"
proof (induction entry path rule: ensure_from.induct)
  case (5 d n path)
  then show ?case
    by (cases "hm_get d n") (auto simp: get_mut_or_insert_def new_directory_def)
qed auto

lemma ensure_from_ok:
  "None \<notin> set path \<Longrightarrow> (\<exists>entry'. ensure_from entry path = Some (Inr (), entry')) \<longleftrightarrow> \<not> file_on entry path"
proof (induction entry path rule: ensure_from.induct)
  case (5 d n path)
  then show ?case
    by (cases "hm_get d n") (auto simp: get_mut_or_insert_def new_directory_def)
qed auto

lemma ensure_from_step:
  assumes "ensure_from (Directory d) (Some n # path) = Some (Inr (), entry')"
  obtains sub where "ensure_from (case hm_get d n of None \<Rightarrow> new_directory | Some child \<Rightarrow> child) path = Some (Inr (), sub)"
    "\<And>q. kind_from entry' (Some m # q) = (if m = n then kind_from sub q else kind_from (Directory d) (Some m # q))"
    "entry_kind entry' = Inr ()"
  using assms by (auto simp: get_mut_or_insert_def split: option.splits)

lemma ensure_from_kinds:
  "None \<notin> set path \<Longrightarrow> ensure_from entry path = Some (Inr (), entry') \<Longrightarrow>
   kind_from entry' q = (if \<exists>r. path = q @ r then Some (Inr ()) else kind_from entry q)"
proof (induction path arbitrary: entry entry' q)
  case Nil
  then show ?case by (cases entry; cases q) auto
next
  case (Cons c path)
  then obtain n d where c: "c = Some n" "entry = Directory d"
    by (cases c; cases entry) auto
  show ?case
  proof (cases q)
    case Nil
    then show ?thesis
      using Cons.prems(2) c by (auto simp: get_mut_or_insert_def split: option.splits)
  next
    case (Cons k q')
    note q = this
    show ?thesis
    proof (cases k)
      case None
      then show ?thesis
        using Cons.prems(2) c q by (auto simp: get_mut_or_insert_def split: option.splits)
    next
      case (Some m)
      obtain sub where sub: "ensure_from (case hm_get d n of None \<Rightarrow> new_directory | Some child \<Rightarrow> child) path = Some (Inr (), sub)"
        "kind_from entry' (Some m # q') = (if m = n then kind_from sub q' else kind_from (Directory d) (Some m # q'))"
        using ensure_from_step [OF Cons.prems(2) [unfolded c], of m] by metis
      show ?thesis
        using Cons.IH [OF _ sub(1), of q'] Cons.prems(1) sub(2) c q Some
        by (auto simp: new_directory_def split: option.splits)
    qed
  qed
qed

lemma ensure_is_ensure_from:
  "path \<noteq> [] \<Longrightarrow> ensure_directories path d = map_option (\<lambda>(r, entry). (r, case entry of Directory d \<Rightarrow> d | File _ \<Rightarrow> []))
     (ensure_from (Directory d) path)"
  by (cases "(path, d)" rule: ensure_directories.cases)
    (auto simp: act_fail_def Let_def option.map_comp comp_def split_def)



section \<open>Inserting\<close>

lemma on_directory_insert:
  assumes "on_directory path (vfs_insert name entry) d = Some (r, d')"
  shows "(case r of
       Inl e \<Rightarrow> e = AlreadyExists name \<and> kind_from (Directory d) (path @ [Some name]) \<noteq> None
     | Inr e \<Rightarrow> e = entry \<and> kind_from (Directory d) (path @ [Some name]) = None \<and>
         get_from (Directory d') (path @ [Some name]) = Some entry) \<and>
     (\<forall>q. (\<nexists>q'. q = path @ Some name # q') \<or> r \<noteq> Inr entry \<longrightarrow> kind_from (Directory d') q = kind_from (Directory d) q)"
  using assms
proof (induction path arbitrary: d d')
  case Nil
  have "kind_from (Directory (hm_insert name entry d)) q = kind_from (Directory d) q" if "\<nexists>q'. q = Some name # q'" for q
    using that by (cases q; cases "hd q") auto
  then show ?case
    using Nil by (auto simp: vfs_insert_def act_defs kind_from_def split: option.splits)
next
  case (Cons c path)
  then obtain n child child' where c: "c = Some n" "hm_get d n = Some (Directory child)"
    "on_directory path (vfs_insert name entry) child = Some (r, child')" "d' = hm_insert n (Directory child') d"
    by (cases c) (auto split: option.splits Entry.splits)
  have "kind_from (Directory d') q = kind_from (Directory d) q" if "(\<nexists>q'. q = (c # path) @ Some name # q') \<or> r \<noteq> Inr entry" for q
    using Cons.IH [OF c(3)] that c by (cases q; cases "hd q") auto
  then show ?case
    using Cons.IH [OF c(3)] c by (auto simp: kind_from_def split: sum.splits)
qed

lemma on_directory_reaches:
  "get_from (Directory d) path = Some (Directory e) \<Longrightarrow> (\<And>d. m d \<noteq> None) \<Longrightarrow> \<exists>r d'. on_directory path m d = Some (r, d')"
proof (induction path arbitrary: d)
  case (Cons c path)
  obtain n child where c: "c = Some n" "hm_get d n = Some child" "get_from child path = Some (Directory e)"
    using Cons.prems(1) by (cases c) (auto split: option.splits)
  then obtain f where "child = Directory f" by (cases child; cases path) auto
  with Cons.IH [of f] c Cons.prems(2) show ?case by auto
qed (use not_None_eq in force)

definition room_at :: "Directory \<Rightarrow> Path \<Rightarrow> string \<Rightarrow> bool" where
  "room_at d path name \<longleftrightarrow> kind_at d path = Some (Inr ()) \<and> kind_at d (path @ [Some name]) = None"

lemma vfs_insert_answers: "vfs_insert name entry d \<noteq> None"
  by (simp add: vfs_insert_def act_defs split: option.splits)



text \<open>At the top, of one component, nothing can be inserted: the parent of such a path is the empty path.\<close>

theorem insert_at_top_refused: "insert_at_path [Some name] entry d = Some (Inl (NotFound [Some name]), d)"
  by (simp add: insert_at_path_def act_fail_def)

section \<open>Merging\<close>

lemma merge_rest:
  "hm_ok other \<Longrightarrow>
   hm_get (fold (\<lambda>(name, entry) entries. if hm_contains d name then entries else hm_insert name entry entries) other acc) n =
     (if hm_contains d n then hm_get acc n else case hm_get other n of None \<Rightarrow> hm_get acc n | Some e \<Rightarrow> Some e)"
proof (induction other arbitrary: acc)
  case (Cons x other)
  then show ?case
    by (cases x) (auto split: option.splits dest: map_of_SomeD intro: rev_image_eqI)
qed simp

lemma merge_entries_get:
  "hm_ok es \<Longrightarrow> merge_entries es other acc = Some r \<Longrightarrow>
   hm_get r n = (case hm_get es n of None \<Rightarrow> hm_get acc n | Some e \<Rightarrow>
     (case hm_get other n of None \<Rightarrow> Some e | Some e' \<Rightarrow> merge_entry e e'))"
proof (induction es arbitrary: acc)
  case (Cons x es)
  then show ?case
    by (cases x) (auto split: option.splits dest: map_of_SomeD intro: rev_image_eqI)
qed simp

lemma merge_entries_None:
  "merge_entries es other acc = None \<longleftrightarrow>
   (\<exists>(n, e)\<in>set es. \<exists>e'. hm_get other n = Some e' \<and> merge_entry e e' = None)"
proof (induction es arbitrary: acc)
  case (Cons x es)
  obtain n e where x: "x = (n, e)" by (cases x)
  show ?case
  proof (cases "hm_get other n")
    case (Some e')
    then show ?thesis by (cases "merge_entry e e'") (simp_all add: x Cons.IH)
  qed (simp add: x Cons.IH)
qed simp

lemma merge_with_get:
  assumes "hm_ok d" "hm_ok other" "merge_with d other = Some r"
  shows "hm_get r n = (case hm_get d n of None \<Rightarrow> hm_get other n | Some e \<Rightarrow>
     (case hm_get other n of None \<Rightarrow> Some e | Some e' \<Rightarrow> merge_entry e e'))"
proof -
  obtain acc where acc: "merge_entries d other [] = Some acc"
    "r = fold (\<lambda>(name, entry) entries. if hm_contains d name then entries else hm_insert name entry entries) other acc"
    using assms(3) by auto
  have "hm_contains d n \<longleftrightarrow> hm_get d n \<noteq> None" by (auto simp: hm_contains_def map_of_eq_None_iff)
  then show ?thesis
    unfolding acc(2) merge_rest [OF assms(2)] merge_entries_get [OF assms(1) acc(1)] by (auto split: option.splits)
qed

lemma merge_with_some:
  "merge_with d other = Some r \<Longrightarrow> hm_get d n = Some e \<Longrightarrow> hm_get other n = Some e' \<Longrightarrow> merge_entry e e' \<noteq> None"
proof
  assume some: "merge_with d other = Some r" "hm_get d n = Some e" "hm_get other n = Some e'" and "merge_entry e e' = None"
  then have "merge_entries d other [] = None"
    unfolding merge_entries_None by (blast dest: map_of_SomeD)
  with some(1) show False by simp
qed

text \<open>Two trees that hold directories, both, wherever they both hold something.\<close>

definition mergeable :: "Entry \<Rightarrow> Entry \<Rightarrow> bool" where
  "mergeable e e' \<longleftrightarrow> (\<forall>q k k'. kind_from e q = Some k \<and> kind_from e' q = Some k' \<longrightarrow> k = Inr () \<and> k' = Inr ())"

lemma mergeable_simps:
  "\<not> mergeable (File data) e" "\<not> mergeable (Directory d) (File data)"
  "mergeable (Directory d) (Directory d') \<longleftrightarrow>
     (\<forall>n e e'. hm_get d n = Some e \<and> hm_get d' n = Some e' \<longrightarrow> mergeable e e')"
proof -
  show "\<not> mergeable (File data) e" unfolding mergeable_def by (auto intro!: exI [of _ "[]"])
  show "\<not> mergeable (Directory d) (File data)" unfolding mergeable_def by (auto intro!: exI [of _ "[]"])
  show "mergeable (Directory d) (Directory d') \<longleftrightarrow> (\<forall>n e e'. hm_get d n = Some e \<and> hm_get d' n = Some e' \<longrightarrow> mergeable e e')"
  proof
    assume m: "mergeable (Directory d) (Directory d')"
    show "\<forall>n e e'. hm_get d n = Some e \<and> hm_get d' n = Some e' \<longrightarrow> mergeable e e'"
    proof (intro allI impI)
      fix n e e' assume "hm_get d n = Some e \<and> hm_get d' n = Some e'"
      then show "mergeable e e'"
        using m unfolding mergeable_def by (metis bind.bind_lunit kind_from_simps(4))
    qed
  next
    assume m: "\<forall>n e e'. hm_get d n = Some e \<and> hm_get d' n = Some e' \<longrightarrow> mergeable e e'"
    show "mergeable (Directory d) (Directory d')"
      unfolding mergeable_def
    proof (intro allI impI)
      fix q k k' assume "kind_from (Directory d) q = Some k \<and> kind_from (Directory d') q = Some k'"
      then show "k = Inr () \<and> k' = Inr ()"
        using m by (cases q; cases "hd q") (auto simp: mergeable_def split: Option.bind_splits)
    qed
  qed
qed

lemma merge_entry_None:
  "tree_ok e \<Longrightarrow> merge_entry e e' = None \<longleftrightarrow> \<not> mergeable e e'"
proof (induction e arbitrary: e')
  case (Directory d)
  show ?case
  proof (cases e')
    case (Directory d')
    have "merge_entry (Directory d) e' = None \<longleftrightarrow>
      (\<exists>(n, e)\<in>set d. \<exists>x. hm_get d' n = Some x \<and> merge_entry e x = None)"
      using Directory by (simp add: merge_entries_None)
    also have "\<dots> \<longleftrightarrow> (\<exists>n e x. hm_get d n = Some e \<and> hm_get d' n = Some x \<and> merge_entry e x = None)"
      using Directory.prems by (fastforce dest: map_of_SomeD)
    also have "\<dots> \<longleftrightarrow> (\<exists>n e x. hm_get d n = Some e \<and> hm_get d' n = Some x \<and> \<not> mergeable e x)"
    proof -
      have "merge_entry e x = None \<longleftrightarrow> \<not> mergeable e x" if "hm_get d n = Some e" for n e x
        using Directory.IH [of "(n, e)" e x] tree_ok_child [OF Directory.prems that] map_of_SomeD [OF that] by auto
      then show ?thesis by blast
    qed
    finally show ?thesis using Directory by (auto simp: mergeable_simps)
  qed (simp add: mergeable_simps)
qed (simp add: mergeable_simps)

lemma merge_entry_kinds:
  "tree_ok e \<Longrightarrow> tree_ok e' \<Longrightarrow> merge_entry e e' = Some m \<Longrightarrow>
   kind_from m q = (case kind_from e q of None \<Rightarrow> kind_from e' q | Some k \<Rightarrow> Some k)"
proof (induction q arbitrary: e e' m)
  case Nil
  then show ?case by (cases e; cases e') auto
next
  case (Cons c q)
  then obtain d d' r where e: "e = Directory d" "e' = Directory d'" "m = Directory r" "merge_with d d' = Some r"
    by (cases e; cases e') (auto simp del: merge_with.simps)
  have ok: "hm_ok d" "hm_ok d'" using Cons.prems e by auto
  show ?case
  proof (cases c)
    case (Some n)
    note get = merge_with_get [OF ok e(4), of n]
    have step: "kind_from (Directory x) (c # q) = Option.bind (hm_get x n) (\<lambda>e. kind_from e q)" for x
      by (simp add: Some)
    show ?thesis
    proof (cases "hm_get d n")
      case None
      then show ?thesis using get by (simp add: e step)
    next
      case d: (Some x)
      show ?thesis
      proof (cases "hm_get d' n")
        case None
        then show ?thesis using get d by (cases "kind_from x q") (simp_all add: e step)
      next
        case d': (Some x')
        then obtain y where y: "merge_entry x x' = Some y"
          using merge_with_some [OF e(4) d] by auto
        have "tree_ok x" "tree_ok x'"
          using Cons.prems(1,2) tree_ok_child d d' unfolding e by blast+
        from Cons.IH [OF this y] show ?thesis
          using get d d' y by (cases "kind_from x q") (simp_all add: e step)
      qed
    qed
  qed (simp add: e)
qed

text \<open>
  C33. Merging two trees panics exactly when some path holds something in both that is not a directory in
  both; otherwise the merge holds, at every path, what the one tree holds, and where that holds nothing
  what the other does.
\<close>

theorem merge_is_union:
  assumes "tree_ok (Directory d)" "tree_ok (Directory other)"
  shows "(merge_with d other = None \<longleftrightarrow> \<not> mergeable (Directory d) (Directory other)) \<and>
    (\<forall>m q. merge_with d other = Some m \<longrightarrow>
       kind_at m q = (case kind_at d q of None \<Rightarrow> kind_at other q | Some k \<Rightarrow> Some k))"
proof (intro conjI allI impI)
  show "merge_with d other = None \<longleftrightarrow> \<not> mergeable (Directory d) (Directory other)"
    using merge_entry_None [OF assms(1), of "Directory other"] by (simp del: merge_with.simps)
  fix m q assume "merge_with d other = Some m"
  then have "kind_from (Directory m) q = (case kind_from (Directory d) q of None \<Rightarrow> kind_from (Directory other) q | Some k \<Rightarrow> Some k)"
    using merge_entry_kinds [OF assms, of "Directory m" q] by (simp del: merge_with.simps)
  then show "kind_at m q = (case kind_at d q of None \<Rightarrow> kind_at other q | Some k \<Rightarrow> Some k)"
    by (cases "q = []"; cases "kind_from (Directory d) q") (simp_all add: kind_at_def [of _ "[]"] kind_at_from)
qed

theorem merge_is_union_witness:
  "merge_with [(''a'', Directory [(''b'', File [1])])] [(''a'', Directory [(''b'', File [2])])] = None"
  using merge_is_union [of "[(''a'', Directory [(''b'', File [1])])]" "[(''a'', Directory [(''b'', File [2])])]"]
  by (simp add: mergeable_simps del: merge_with.simps)

end
