(* ===== verification/Spec2Isabelle.thy ===== *)
theory Spec2Isabelle
  imports Tree_Props Tree_Load Graph_Checks Runtime_Mirror Scaffold_Runs Cdr Checked_Buffers Vfs
begin

text \<open>
  A verification library for the Arora SDK: the runtime of a device that keeps its state in a
  key-value store, ticks a behavior over it, and serves hardware and remotes. All files named
  below are under \<open>src/crates/\<close>.

  \<^bold>\<open>Parts of the program and where they are modelled.\<close>

  \<^item> \<open>Prelude\<close>: the standard-library operations the sources use (hash maps and sets, UTF-8,
    little-endian bytes, string splitting) and loops that may stop.
  \<^item> \<open>Values\<close>: \<open>arora-types/src/value.rs\<close>, \<open>keyvalue.rs\<close>, \<open>ty/mod.rs\<close>. The value type with its
    constructors, its kinds and type ids, its equality, arrays and their elements, and key-value
    records. Shown: arrays are taken apart into what they were built from; equality does not see
    the order of a record's fields; item lists are maps.
  \<^item> \<open>Keys\<close>: \<open>arora-types/src/data/state.rs\<close>. Keys and their parts, selection into a value by a
    key's attributes, states and changes to them.
  \<^item> \<open>Data_Store\<close>: \<open>arora-types/src/data/store.rs\<close>. Key descriptions, prefixes, subscriptions and
    the \<open>DataStore\<close> trait: a record of methods over the state behind them. The locale
    \<open>data_store\<close> is the trait's contract.
  \<^item> \<open>Simple_Store\<close>: \<open>arora-simple-data-store/src/lib.rs\<close>. The cells live in a heap because slots
    alias them, and channels are explicit. Shown: the contract (an interpretation of
    \<open>data_store\<close>), that slots are their keys' cells, that echoes are silent, and, by rule
    induction over the interleavings of operations, that observers converge to the store.
  \<^item> \<open>Namespaced_Store\<close>: \<open>arora-simple-data-store/src/namespaced.rs\<close>. A view over any store; the
    sublocale shows that a view of a store that keeps the contract keeps it.
  \<^item> \<open>Buffers\<close>: \<open>arora-buffers/src/format.rs\<close>, \<open>writer.rs\<close>, \<open>reader.rs\<close>. The byte format. The
    crates \<open>bytes\<close> and \<open>uuid\<close> are the record \<open>crates\<close>, what the code relies on of them is the
    locale \<open>buffer_crates\<close>, interpreted on their documented behaviour.
  \<^item> \<open>Froto_Value\<close>: \<open>arora-buffers/src/froto_value.rs\<close>. Values to bytes and back.
  \<^item> \<open>Well_Formed\<close>: \<open>arora-buffers/src/well_formed.rs\<close>. The walk that decides whether a foreign
    buffer can be read; shown safe for the reader and complete for the writer.
  \<^item> \<open>Arguments\<close>: \<open>arora-engine/src/arguments.rs\<close>, the check of a call's arguments against a guest
    module's header. It reads tags in place; shown to decide what the decoded value's type says,
    and never to read outside the buffer.
  \<^item> \<open>Low_Types\<close>: \<open>arora-types/src/ty/low.rs\<close>. Runtime types, their default values and validation;
    shown: the defaults that validate are those of the types without fixed arrays of anything but
    primitives, and without an enumeration that has no variant.
  \<^item> \<open>Value_Walk\<close>, \<open>Wire_Format\<close>: \<open>arora-types/src/value_serde/walk.rs\<close>. Writing and reading a value
    along its runtime type, over a wire format: the traits \<open>ValueWriter\<close> and \<open>ValueReader\<close> are records of
    methods, what the walk relies on of them is the locale \<open>wire_format\<close>. Shown inside it: what the
    walk wrote, it reads back, as its type frames it; and, of a reader whose methods end
    (\<open>ending_reader\<close>), that the walk ends over types without cycles.
  \<^item> \<open>Cdr\<close>: \<open>arora-msgs-ros2/src/cdr.rs\<close>, ROS 2's CDR, the first wire format: positional, aligned.
  \<^item> \<open>Checked_Buffers\<close>: \<open>arora-buffers/src/froto_checked_value.rs\<close>, the Arora Buffer as the second:
    self-describing, and byte for byte what \<open>Froto_Value\<close> writes.
  \<^item> \<open>Vfs\<close>: \<open>arora-vfs/src/lib.rs\<close>. A tree of directories and files; what stands at a path after an
    insertion, after making directories and after a merge, and when these panic.
  \<^item> \<open>Steps\<close>: stateful code that returns a \<open>Result\<close>, as steps, with their sequence and their loops.
  \<^item> \<open>Graph_Model\<close>: \<open>arora-behavior/src/graph.rs\<close>. The behavior graph, its edition and the diff
    between two graphs; the indexed edit is shown to be an index-free reference edit.
  \<^item> \<open>Calls\<close>, \<open>Record_Types\<close>: the calls and the module records a tree's calls speak of
    (\<open>arora-types/src/call.rs\<close>, \<open>arora-engine/src/call.rs\<close>, \<open>arora-types/src/record/\<close>).
  \<^item> \<open>Tree_Cells\<close>, \<open>Tree_Store\<close>, \<open>Tree_Expr\<close>, \<open>Tree_Nodes\<close>, \<open>Tree_Tick\<close>, \<open>Tree_Props\<close>: the behavior
    tree of \<open>arora-behavior-tree/src/\<close>: its variables' cells (\<open>variable.rs\<close>), the expressions its
    nodes' arguments are (\<open>schema.rs\<close>), the native and data nodes (\<open>nodes.rs\<close>, \<open>core_nodes.rs\<close>,
    \<open>scatter.rs\<close>) and the tick of any node (\<open>behavior_tree.rs\<close>). A cell bound to a store key is a
    slot; the locale \<open>slot_host\<close> is what cells ask of the store behind the slots, and every data
    store that keeps its contract is shown to give it. Shown: what the control nodes tick and
    answer, that a resumable sequence goes on where it stopped, and that a run that ended stays
    ended.
  \<^item> \<open>Graph_Checks\<close>: the checks of \<open>arora-behavior-tree/src/behavior.rs\<close> a graph passes before it
    is run, each shown to decide the shape it asks for.
  \<^item> \<open>Tree_Load\<close>: a graph's lowering to tree nodes (\<open>arora-behavior-tree/src/graph.rs\<close>) and the
    loading of those into a tree (\<open>load_behavior_tree_nodes_with\<close>); shown to end, to give every
    argument a cell, and to share cells as the arguments read.
  \<^item> \<open>Tasks\<close>: task runs as data (\<open>arora-behavior/src/task.rs\<close>) and the ids and the halting call of
    the interpreter's module (\<open>interpreter_module.rs\<close>).
  \<^item> \<open>Scaffold\<close>, \<open>Scaffold_Inv\<close>, \<open>Scaffold_Props\<close>, \<open>Scaffold_Runs\<close>: the interpreter of
    \<open>arora-behavior-tree/src/behavior.rs\<close>, which hosts one graph: a runner, the main behavior under
    it, and a decorator per task run. Its state is a record, and load, apply, read, spawn,
    spawn\_graph, halt and tick are steps on it. \<open>hosted\<close> is the states any sequence of them reaches.
    Shown: the graph stays one acyclic scaffold, and no operation panics on it; a refused operation
    changes nothing; a loaded behavior is read back as it was; a run leaves the behavior alone,
    starts once, and leaves no trace when it is halted; and a halt that fails loses its run.
    Parameters of the model: the lowered tree with its tick (\<open>lowering\<close>), the traces, the
    lowering of detached nodes, and the value a call converts to. The ids drawn at random are
    arguments.
  \<^item> \<open>Runtime_Step\<close>, \<open>Runtime_Props\<close>, \<open>Runtime_Mirror\<close>: \<open>arora/src/runtime.rs\<close> with the command and event types
    of \<open>arora-bridge/src/lib.rs\<close>. The phases of a device's step in their order, and what they
    guarantee; the locale \<open>device_store\<close> extends the store's contract by what the step asks of
    key descriptions, and is interpreted on the hash-map store and on views of it.

  \<^bold>\<open>Conventions.\<close> A \<open>HashMap\<close> is a list of entries with distinct keys, in the order some iteration
  visits them; theorems speak of lookups. A \<open>String\<close> is its UTF-8 bytes. Signed integers and
  floats are their bits. A \<open>Result\<close> is a sum with the error on the left; a panic is \<open>None\<close>; the
  texts of errors and logs are not modelled. A method on \<open>&mut self\<close> returns the new state. Each
  operation of a shared store is one step, and interleavings are sequences of steps.

  \<^bold>\<open>Bounds.\<close> The deserializer and the checking walk recurse on the input; their models take a bound
  on the recursion depth, and so does the tick of a tree. The deserializer is given the length of its buffer, shown to be always
  enough; the checking walk's bound is the source's own \<open>MAX_DEPTH\<close>. The walk along types recurses on the
  types of a registry, which may go round: its model takes a bound too, and the ranks of types
  without cycles give one that is enough (\<open>kind_need\<close>).

  \<^bold>\<open>Not modelled.\<close> The engine's executors (foreign runtimes), network and hardware I/O, disk writes, code
  generators, floating-point node libraries, the terminal interface, and the serde derives. Of the
  modelled files: the unsafe bulk readers of the buffer reader, \<open>Display\<close> texts, and the select
  loop of \<open>Arora::run\<close>. Of the behavior tree: module calls and the evaluation of detached nodes
  are seams of the tick, and trace reports and the text and Groot forms are left out. Of the
  interpreter: starting a trace, and loading a Groot form.
\<close>

end
